(* ===== verification/Prelude.thy ===== *)
theory Prelude
  imports Complex_Main "HOL-Library.Word"
begin

unbundle bit_operations_syntax

text \<open>
  Shared vocabulary of the development: the machine types of the daemon, the signed
  reading of a 32-bit clock difference, and the generic list and word lemmas that the
  component theories use. A \<^verbatim>\<open>std::string\<close> of the code is a sequence of bytes that is
  not guaranteed to be UTF-8, so both \<^verbatim>\<open>Bytes\<close> and \<^verbatim>\<open>std::string\<close> are byte lists here;
  a C++ string literal is written \<open>str ''text''\<close>.
\<close>

section \<open>Machine types\<close>

type_synonym byte = "8 word"
type_synonym bytes = "byte list"
type_synonym u16 = "16 word"
type_synonym u32 = "32 word"
type_synonym u64 = "64 word"

text \<open>
  \<open>reader_simps\<close> drives the byte cursor over a known prefix; \<open>codec_simps\<close> collects the
  unfolding rules of encoders and decoders; \<open>le_simps\<close> the little-endian integer facts.
\<close>

named_theorems reader_simps
named_theorems codec_simps
named_theorems le_simps

definition str :: "string \<Rightarrow> bytes" where
  "str s = map of_char s"

lemma length_str [simp]: "length (str s) = length s"
  by (simp add: str_def)

section \<open>Signed differences on the wrapping millisecond clock\<close>

text \<open>
  The code compares instants of the 32-bit millisecond clock as
  \<^verbatim>\<open>static_cast<int32_t>(a - b)\<close>, which survives the wrap every 49 days.
\<close>

definition sdiff :: "u32 \<Rightarrow> u32 \<Rightarrow> int" where
  "sdiff a b = sint (a - b)"

lemma sdiff_self [simp]: "sdiff a a = 0"
  by (simp add: sdiff_def)

lemma sdiff_bounds: "- (2 ^ 31) \<le> sdiff a b" "sdiff a b < 2 ^ 31"
  using sint_ge [of "a - b"] sint_lt [of "a - b"] by (simp_all add: sdiff_def)

lemma sint_u32_small: "unat d < 2 ^ 31 \<Longrightarrow> sint (d :: u32) = int (unat d)"
proof -
  assume "unat d < 2 ^ 31"
  then have u: "uint d < 2 ^ 31"
    by (metis uint_nat of_nat_less_iff of_nat_numeral of_nat_power)
  have "signed_take_bit 31 (uint d) = uint d"
    using u order_trans [OF _ uint_ge_0 [of d]] by (intro signed_take_bit_int_eq_self) auto
  then show ?thesis
    by (simp add: sint_uint)
qed

lemma sdiff_add_left: "unat d < 2 ^ 31 \<Longrightarrow> sdiff (a + d) a = int (unat d)"
  by (simp add: sdiff_def sint_u32_small)

lemma sint_u32_nonneg: "0 \<le> sint x \<Longrightarrow> sint (x :: u32) = uint x"
proof -
  assume nonneg: "0 \<le> sint x"
  have "uint x = uint (word_of_int (sint x) :: u32)"
    by simp
  also have "\<dots> = take_bit 32 (sint x)"
    by (simp only: unsigned_of_int) simp
  also have "\<dots> = sint x"
    using nonneg sint_lt [of x] by (intro take_bit_int_eq_self) auto
  finally show ?thesis
    by simp
qed

lemma sint_of_int_u32: "- (2 ^ 31) \<le> i \<Longrightarrow> i < 2 ^ 31 \<Longrightarrow> sint (word_of_int i :: u32) = i"
  by (simp add: signed_of_int signed_take_bit_int_eq_self)

section \<open>Lists\<close>

lemma takeWhile_length_le: "length (takeWhile P xs) \<le> length xs"
  by (rule length_takeWhile_le)

lemma take_length_append [simp]: "take (length xs) (xs @ ys) = xs"
  by simp

lemma sum_list_filter_le:
  "sum_list (map f (filter P xs)) \<le> (sum_list (map f xs) :: nat)"
  by (induction xs) auto

lemma find_Some_in_set: "find P xs = Some x \<Longrightarrow> x \<in> set xs \<and> P x"
  by (induction xs) (auto split: if_splits)

lemma find_None_all: "find P xs = None \<longleftrightarrow> (\<forall>x \<in> set xs. \<not> P x)"
  by (induction xs) auto

text \<open>
  A pointer the code gets from a search in a deque is the index of the element here.
\<close>

fun index_where :: "('a \<Rightarrow> bool) \<Rightarrow> 'a list \<Rightarrow> nat option" where
  "index_where P [] = None"
| "index_where P (x # xs) = (if P x then Some 0 else map_option Suc (index_where P xs))"

lemma index_where_None: "index_where P xs = None \<longleftrightarrow> (\<forall>x \<in> set xs. \<not> P x)"
  by (induction xs) auto

lemma index_where_Some: "index_where P xs = Some i \<Longrightarrow> i < length xs \<and> P (xs ! i)"
  by (induction xs arbitrary: i) (auto split: if_splits simp: nth_Cons)

lemma index_where_key:
  assumes "distinct (map f xs)" "i < length xs" "f (xs ! i) = k"
  shows "index_where (\<lambda>x. f x = k) xs = Some i"
  using assms
proof (induction xs arbitrary: i)
  case (Cons x xs)
  then show ?case
    by (cases i) auto
qed simp

lemma index_where_map: "index_where (\<lambda>x. f x = k) xs = index_where (\<lambda>y. y = k) (map f xs)"
  by (induction xs) auto

lemma index_where_map_of:
  "map_option ((!) xs) (index_where (\<lambda>x. f x = k) xs) = map_of (map (\<lambda>x. (f x, x)) xs) k"
  by (induction xs) (auto simp: option.map_comp comp_def)

lemma map_list_update_same: "f y = f (xs ! i) \<Longrightarrow> map f (xs[i := y]) = map f xs"
  by (cases "i < length xs") (simp_all add: map_update list_update_same_conv list_update_beyond)

text \<open>Erasing one element of a vector or deque.\<close>

definition remove_at :: "nat \<Rightarrow> 'a list \<Rightarrow> 'a list" where
  "remove_at i xs = take i xs @ drop (Suc i) xs"

lemma remove_at_simps [simp]:
  "remove_at i [] = []" "remove_at 0 (x # xs) = xs"
  "remove_at (Suc i) (x # xs) = x # remove_at i xs"
  by (simp_all add: remove_at_def)

lemma remove_at_set: "set (remove_at i xs) \<subseteq> set xs"
  by (auto simp: remove_at_def dest: in_set_takeD in_set_dropD)

lemma length_remove_at: "i < length xs \<Longrightarrow> length (remove_at i xs) = length xs - 1"
  by (simp add: remove_at_def)

lemma length_remove_at_le: "length (remove_at i xs) \<le> length xs"
  by (simp add: remove_at_def)

lemma distinct_map_remove_at: "distinct (map f xs) \<Longrightarrow> distinct (map f (remove_at i xs))"
proof (induction xs arbitrary: i)
  case (Cons x xs)
  then show ?case
    using remove_at_set [of _ xs] by (cases i) auto
qed simp

lemma remove_at_key:
  assumes "distinct (map f xs)" "index_where (\<lambda>x. f x = k) xs = Some i"
  shows "remove_at i xs = filter (\<lambda>x. f x \<noteq> k) xs"
  using assms
proof (induction xs arbitrary: i)
  case (Cons x xs)
  show ?case
  proof (cases "f x = k")
    case True
    then have "\<forall>y \<in> set xs. f y \<noteq> k"
      using Cons.prems(1) by (force simp: image_iff)
    then show ?thesis
      using True Cons.prems(2) by (simp add: filter_True)
  next
    case False
    then show ?thesis
      using Cons by auto
  qed
qed simp

section \<open>Event systems\<close>

text \<open>A system that reacts to events one at a time, and what holds of it between them.\<close>

locale event_system =
  fixes step :: "'e \<Rightarrow> 's \<Rightarrow> 's" and inv :: "'s \<Rightarrow> bool"
  assumes step_inv: "inv s \<Longrightarrow> inv (step e s)"
begin

lemma run_inv: "inv s \<Longrightarrow> inv (fold step es s)"
  by (induction es arbitrary: s) (simp_all add: step_inv)

end

end
