(* ===== verification/Bytes.thy ===== *)
theory Bytes
  imports Prelude
begin

text \<open>
  The byte utilities of \<^verbatim>\<open>src/src/util/bytes.h\<close> and \<^verbatim>\<open>src/src/util/hex.cpp\<close>: the
  bounds-checked cursor \<^verbatim>\<open>Reader\<close> with its sticky failure, the little-endian writers, the
  clamped \<^verbatim>\<open>subview\<close>, and the hexadecimal codec. The lemmas drive a cursor over a known
  suffix (\<open>rdr\<close>) and state the round trips between readers and writers.
\<close>

section \<open>The byte cursor\<close>

record reader =
  rd_b :: bytes
  rd_off :: nat
  rd_ok :: bool

definition Reader :: "bytes \<Rightarrow> reader" where
  "Reader b = \<lparr>rd_b = b, rd_off = 0, rd_ok = True\<rparr>"

definition rd_remaining :: "reader \<Rightarrow> nat" where
  "rd_remaining r = length (rd_b r) - rd_off r"

definition rd_has :: "reader \<Rightarrow> nat \<Rightarrow> bool" where
  "rd_has r n \<longleftrightarrow> rd_ok r \<and> n \<le> rd_remaining r"

definition rd_take :: "nat \<Rightarrow> reader \<Rightarrow> bytes \<times> reader" where
  "rd_take n r =
     (if \<not> rd_has r n then ([], r\<lparr>rd_ok := False\<rparr>)
      else (take n (drop (rd_off r) (rd_b r)), r\<lparr>rd_off := rd_off r + n\<rparr>))"

definition rd_skip :: "nat \<Rightarrow> reader \<Rightarrow> reader" where
  "rd_skip n r = snd (rd_take n r)"

definition rd_u8 :: "reader \<Rightarrow> byte \<times> reader" where
  "rd_u8 r = (case rd_take 1 r of (b, r') \<Rightarrow> (case b of [] \<Rightarrow> 0 | x # _ \<Rightarrow> x, r'))"

definition le16 :: "byte \<Rightarrow> byte \<Rightarrow> u16" where
  "le16 b0 b1 = ucast b0 OR push_bit 8 (ucast b1)"

definition le32 :: "byte \<Rightarrow> byte \<Rightarrow> byte \<Rightarrow> byte \<Rightarrow> u32" where
  "le32 b0 b1 b2 b3 =
     ucast b0 OR push_bit 8 (ucast b1) OR push_bit 16 (ucast b2) OR push_bit 24 (ucast b3)"

definition rd_u16 :: "reader \<Rightarrow> u16 \<times> reader" where
  "rd_u16 r = (case rd_take 2 r of (b, r') \<Rightarrow>
     (if b = [] then 0 else le16 (b ! 0) (b ! 1), r'))"

definition rd_u32 :: "reader \<Rightarrow> u32 \<times> reader" where
  "rd_u32 r = (case rd_take 4 r of (b, r') \<Rightarrow>
     (if b = [] then 0 else le32 (b ! 0) (b ! 1) (b ! 2) (b ! 3), r'))"

text \<open>An \<^verbatim>\<open>int32_t\<close> is kept as the word of its two's complement bits; \<open>sint\<close> reads it.\<close>

definition rd_i32 :: "reader \<Rightarrow> u32 \<times> reader" where
  "rd_i32 r = rd_u32 r"

definition rd_fixed_str :: "nat \<Rightarrow> reader \<Rightarrow> bytes \<times> reader" where
  "rd_fixed_str width r = (case rd_take width r of (b, r') \<Rightarrow>
     (if b = [] then [] else takeWhile (\<lambda>x. x \<noteq> 0) b, r'))"

definition rd_rest :: "reader \<Rightarrow> bytes \<times> reader" where
  "rd_rest r = rd_take (rd_remaining r) r"

section \<open>Writers\<close>

definition put_u16 :: "bytes \<Rightarrow> u16 \<Rightarrow> bytes" where
  "put_u16 out v = out @ [ucast v, ucast (drop_bit 8 v)]"

definition put_u32 :: "bytes \<Rightarrow> u32 \<Rightarrow> bytes" where
  "put_u32 out v =
     out @ [ucast v, ucast (drop_bit 8 v), ucast (drop_bit 16 v), ucast (drop_bit 24 v)]"

definition put_i32 :: "bytes \<Rightarrow> u32 \<Rightarrow> bytes" where
  "put_i32 out v = put_u32 out v"

definition put_bytes :: "bytes \<Rightarrow> bytes \<Rightarrow> bytes" where
  "put_bytes out b = out @ b"

definition put_str :: "bytes \<Rightarrow> bytes \<Rightarrow> bytes" where
  "put_str out s = out @ s"

definition put_fixed_str :: "bytes \<Rightarrow> bytes \<Rightarrow> nat \<Rightarrow> bytes" where
  "put_fixed_str out s width =
     (let n = min (length s) width in out @ take n s @ replicate (width - n) 0)"

definition subview_from :: "bytes \<Rightarrow> nat \<Rightarrow> bytes" where
  "subview_from b off = (if length b \<le> off then [] else drop off b)"

definition subview :: "bytes \<Rightarrow> nat \<Rightarrow> nat \<Rightarrow> bytes" where
  "subview b off len =
     (if length b \<le> off then [] else take (min len (length b - off)) (drop off b))"

section \<open>Hexadecimal\<close>

definition kDigits :: bytes where
  "kDigits = str ''0123456789abcdef''"

definition nibble :: "byte \<Rightarrow> int" where
  "nibble c =
     (if of_char CHR ''0'' \<le> c \<and> c \<le> of_char CHR ''9'' then uint c - 48
      else if of_char CHR ''a'' \<le> c \<and> c \<le> of_char CHR ''f'' then uint c - 97 + 10
      else if of_char CHR ''A'' \<le> c \<and> c \<le> of_char CHR ''F'' then uint c - 65 + 10
      else - 1)"

definition hex_byte :: "byte \<Rightarrow> bytes" where
  "hex_byte c = [kDigits ! unat (drop_bit 4 c), kDigits ! unat (c AND 0x0f)]"

definition hex :: "bytes \<Rightarrow> bytes" where
  "hex b = concat (map hex_byte b)"

definition hex_prefix :: "bytes \<Rightarrow> nat \<Rightarrow> bytes" where
  "hex_prefix b n = hex (subview b 0 n)"

fun unhex_pairs :: "bytes \<Rightarrow> bytes option" where
  "unhex_pairs (a # b # s) =
     (let hi = nibble a; lo = nibble b in
      if hi < 0 \<or> lo < 0 then None
      else map_option (\<lambda>out. word_of_int (16 * hi + lo) # out) (unhex_pairs s))"
| "unhex_pairs s = Some []"

definition unhex :: "bytes \<Rightarrow> bytes option" where
  "unhex s = (if length s mod 2 \<noteq> 0 then None else unhex_pairs s)"

section \<open>Driving a cursor over a known suffix\<close>

text \<open>
  \<open>rdr pre xs\<close> is a healthy cursor that has consumed \<open>pre\<close> and has \<open>xs\<close> in front of it;
  \<open>rdf pre xs\<close> the same cursor after a failed read.
\<close>

definition rdr :: "bytes \<Rightarrow> bytes \<Rightarrow> reader" where
  "rdr pre xs = \<lparr>rd_b = pre @ xs, rd_off = length pre, rd_ok = True\<rparr>"

definition rdf :: "bytes \<Rightarrow> bytes \<Rightarrow> reader" where
  "rdf pre xs = \<lparr>rd_b = pre @ xs, rd_off = length pre, rd_ok = False\<rparr>"

lemma Reader_rdr [reader_simps]: "Reader b = rdr [] b"
  by (simp add: Reader_def rdr_def)

lemma rd_ok_rdr [reader_simps]: "rd_ok (rdr pre xs)" "\<not> rd_ok (rdf pre xs)"
  by (simp_all add: rdr_def rdf_def)

lemma rd_remaining_rdr [reader_simps]:
  "rd_remaining (rdr pre xs) = length xs" "rd_remaining (rdf pre xs) = length xs"
  by (simp_all add: rdr_def rdf_def rd_remaining_def)

lemma rd_has_rdr [reader_simps]:
  "rd_has (rdr pre xs) n \<longleftrightarrow> n \<le> length xs" "\<not> rd_has (rdf pre xs) n"
  by (simp_all add: rd_has_def reader_simps)

lemma rd_take_rdr [reader_simps]:
  "rd_take n (rdr pre xs) =
     (if n \<le> length xs then (take n xs, rdr (pre @ take n xs) (drop n xs)) else ([], rdf pre xs))"
  "rd_take n (rdf pre xs) = ([], rdf pre xs)"
  by (simp_all add: rd_take_def reader_simps) (simp_all add: rdr_def rdf_def)

lemma rd_u8_rdr [reader_simps]:
  "rd_u8 (rdr pre (x # xs)) = (x, rdr (pre @ [x]) xs)"
  "rd_u8 (rdr pre []) = (0, rdf pre [])"
  "rd_u8 (rdf pre xs) = (0, rdf pre xs)"
  by (simp_all add: rd_u8_def reader_simps)

lemma rd_u16_rdr [reader_simps]:
  "rd_u16 (rdr pre (a # b # xs)) = (le16 a b, rdr (pre @ [a, b]) xs)"
  "length xs < 2 \<Longrightarrow> rd_u16 (rdr pre xs) = (0, rdf pre xs)"
  "rd_u16 (rdf pre xs) = (0, rdf pre xs)"
  by (simp_all add: rd_u16_def reader_simps numeral_2_eq_2)

lemma rd_u32_rdr [reader_simps]:
  "rd_u32 (rdr pre (a # b # c # d # xs)) = (le32 a b c d, rdr (pre @ [a, b, c, d]) xs)"
  "length xs < 4 \<Longrightarrow> rd_u32 (rdr pre xs) = (0, rdf pre xs)"
  "rd_u32 (rdf pre xs) = (0, rdf pre xs)"
  by (simp_all add: rd_u32_def reader_simps)

lemma rd_i32_eq [reader_simps]: "rd_i32 = rd_u32"
  by (rule ext) (simp add: rd_i32_def)

lemma rd_rest_rdr [reader_simps]:
  "rd_rest (rdr pre xs) = (xs, rdr (pre @ xs) [])"
  "rd_rest (rdf pre xs) = ([], rdf pre xs)"
  by (simp_all add: rd_rest_def reader_simps)

lemma rd_fixed_str_rdr [reader_simps]:
  "rd_fixed_str n (rdr pre xs) =
     (if n \<le> length xs then (takeWhile (\<lambda>x. x \<noteq> 0) (take n xs), rdr (pre @ take n xs) (drop n xs))
      else ([], rdf pre xs))"
  "rd_fixed_str n (rdf pre xs) = ([], rdf pre xs)"
  by (auto simp add: rd_fixed_str_def reader_simps)

section \<open>Little-endian integers\<close>

lemma le16_bytes [le_simps]: "le16 (ucast v) (ucast (drop_bit 8 v)) = v"
  by (rule bit_word_eqI) (auto simp: le16_def bit_simps)

lemma le32_bytes [le_simps]:
  "le32 (ucast v) (ucast (drop_bit 8 v)) (ucast (drop_bit 16 v)) (ucast (drop_bit 24 v)) = v"
proof (rule bit_word_eqI)
  fix n
  assume n: "n < LENGTH(32)"
  show "bit (le32 (ucast v) (ucast (drop_bit 8 v)) (ucast (drop_bit 16 v)) (ucast (drop_bit 24 v))) n
          = bit v n"
    using n by (cases "n < 8"; cases "n < 16"; cases "n < 24") (auto simp: le32_def bit_simps)
qed

lemma le16_low [le_simps]: "ucast (le16 a b) = a" "ucast (drop_bit 8 (le16 a b)) = b"
  by (rule bit_word_eqI; auto simp: le16_def bit_simps dest: bit_imp_le_length)+

lemma le32_low [le_simps]:
  "ucast (le32 a b c d) = a" "ucast (drop_bit 8 (le32 a b c d)) = b"
  "ucast (drop_bit 16 (le32 a b c d)) = c" "ucast (drop_bit 24 (le32 a b c d)) = d"
  by (rule bit_word_eqI; auto simp: le32_def bit_simps dest: bit_imp_le_length)+

section \<open>The hexadecimal round trip\<close>

lemma kDigits_code:
  "kDigits = [48, 49, 50, 51, 52, 53, 54, 55, 56, 57, 97, 98, 99, 100, 101, 102]"
  by (simp add: kDigits_def str_def)

lemma nibble_kDigits: "k < 16 \<Longrightarrow> nibble (kDigits ! k) = int k"
proof -
  have "list_all (\<lambda>k. nibble (kDigits ! k) = int k) [0..<16]"
    by (simp add: kDigits_code nibble_def upt_rec)
  moreover assume "k < 16"
  ultimately show ?thesis
    by (simp add: list_all_iff)
qed

lemma high_nibble_less: "unat (drop_bit 4 (c :: byte)) < 16"
proof -
  have "unat c < 256"
    using unsigned_less [of c] by simp
  then show ?thesis
    by (simp add: drop_bit_eq_div unat_div)
qed

lemma low_nibble_mod: "c AND 0x0f = (c :: byte) mod 16"
  using take_bit_eq_mask [of 4 c] by (simp add: mask_numeral take_bit_eq_mod)

lemma low_nibble_eq: "unat (c AND 0x0f :: byte) = unat c mod 16"
  by (simp add: low_nibble_mod unat_mod)

lemma nibbles_byte: "16 * drop_bit 4 c + (c AND 0x0f) = (c :: byte)"
  using mult_div_mod_eq [of 16 c] by (simp add: drop_bit_eq_div low_nibble_mod)

lemma hex_Nil [simp]: "hex [] = []"
  by (simp add: hex_def)

lemma hex_Cons [simp]: "hex (c # b) = hex_byte c @ hex b"
  by (simp add: hex_def)

lemma length_hex [simp]: "length (hex b) = 2 * length b"
  by (induction b) (simp_all add: hex_byte_def)

lemma hex_eq_Nil [simp]: "hex b = [] \<longleftrightarrow> b = []"
  by (cases b) (simp_all add: hex_byte_def)

lemma unhex_hex [simp]: "unhex (hex b) = Some b"
proof -
  have "unhex_pairs (hex b) = Some b"
  proof (induction b)
    case (Cons c b)
    have "unat (c AND 0x0f) < 16"
      by (simp add: low_nibble_eq)
    with Cons show ?case
      by (simp add: hex_byte_def nibble_kDigits high_nibble_less nibbles_byte Let_def)
  qed simp
  then show ?thesis
    by (simp add: unhex_def)
qed

lemma set_hex: "set (hex b) \<subseteq> set kDigits"
proof (induction b)
  case (Cons c b)
  have "length kDigits = 16"
    by (simp add: kDigits_def)
  then have "kDigits ! unat (drop_bit 4 c) \<in> set kDigits" "kDigits ! unat (c AND 0x0f) \<in> set kDigits"
    using high_nibble_less [of c] by (auto intro!: nth_mem simp: low_nibble_eq)
  with Cons show ?case
    by (simp add: hex_byte_def)
qed simp

end
