(* ===== verification/Crypto.thy ===== *)
theory Crypto
  imports Bytes
begin

text \<open>
  The cryptographic layer of \<^verbatim>\<open>src/src/crypto\<close>. OpenSSL and libsodium are not part of the
  repository: their primitives are the fields of a \<open>crypto_ops\<close> record that every definition
  takes as an argument, and \<open>crypto_laws\<close> states the documented facts about them (digest
  lengths, AES decryption inverting encryption, the Ed25519 verification equation). What the
  repository itself computes on top of them -- padding, truncated MACs, ack hashes, the
  expanded-key signature and the identity checks -- is modelled here.
\<close>

section \<open>Primitives of OpenSSL and libsodium\<close>

record crypto_ops =
  SHA256 :: "bytes \<Rightarrow> bytes"
  HMAC_SHA256 :: "bytes \<Rightarrow> bytes \<Rightarrow> bytes"
  EVP_aes_128_ecb :: "bytes \<Rightarrow> bytes \<Rightarrow> bool \<Rightarrow> bytes option"
  sha512 :: "bytes \<Rightarrow> bytes"
  scalar_reduce :: "bytes \<Rightarrow> bytes"
  scalar_mul :: "bytes \<Rightarrow> bytes \<Rightarrow> bytes"
  scalar_add :: "bytes \<Rightarrow> bytes \<Rightarrow> bytes"
  base_noclamp :: "bytes \<Rightarrow> bytes option"
  pk_to_curve25519 :: "bytes \<Rightarrow> bytes option"
  scalarmult_curve25519 :: "bytes \<Rightarrow> bytes \<Rightarrow> bytes option"
  verify_detached :: "bytes \<Rightarrow> bytes \<Rightarrow> bytes \<Rightarrow> bool"

definition kPubKeySize :: nat where "kPubKeySize = 32"
definition kPrivKeySize :: nat where "kPrivKeySize = 64"
definition kSignatureSize :: nat where "kSignatureSize = 64"
definition kCipherMacSize :: nat where "kCipherMacSize = 2"
definition kAckHashSize :: nat where "kAckHashSize = 4"
definition kAesBlockSize :: nat where "kAesBlockSize = 16"

lemmas crypto_sizes [simp] = kPubKeySize_def kPrivKeySize_def kSignatureSize_def
  kCipherMacSize_def kAckHashSize_def kAesBlockSize_def

section \<open>Hashes, padding and the sealed box\<close>

definition resize :: "nat \<Rightarrow> bytes \<Rightarrow> bytes" where
  "resize n b = take n b @ replicate (n - length b) 0"

definition sha256 :: "crypto_ops \<Rightarrow> bytes \<Rightarrow> bytes" where
  "sha256 c data = SHA256 c data"

definition hmac_sha256 :: "crypto_ops \<Rightarrow> bytes \<Rightarrow> bytes \<Rightarrow> bytes" where
  "hmac_sha256 c key data = HMAC_SHA256 c key data"

definition ack_hash :: "crypto_ops \<Rightarrow> bytes \<Rightarrow> bytes" where
  "ack_hash c data = resize kAckHashSize (sha256 c data)"

definition aes128_ecb :: "crypto_ops \<Rightarrow> bytes \<Rightarrow> bytes \<Rightarrow> bool \<Rightarrow> bytes option" where
  "aes128_ecb c key16 inp encrypt =
     (if length key16 < kAesBlockSize \<or> length inp mod kAesBlockSize \<noteq> 0 then None
      else EVP_aes_128_ecb c (take kAesBlockSize key16) inp encrypt)"

definition zero_pad :: "bytes \<Rightarrow> bytes" where
  "zero_pad p =
     p @ replicate ((kAesBlockSize - length p mod kAesBlockSize) mod kAesBlockSize) 0"

definition encrypt_and_mac :: "crypto_ops \<Rightarrow> bytes \<Rightarrow> bytes \<Rightarrow> bytes" where
  "encrypt_and_mac c key plaintext =
     (case aes128_ecb c key (zero_pad plaintext) True of
        None \<Rightarrow> []
      | Some ciphertext \<Rightarrow> take kCipherMacSize (hmac_sha256 c key ciphertext) @ ciphertext)"

text \<open>\<^verbatim>\<open>crypto::equal\<close> is a constant-time comparison; its result is list equality.\<close>

definition equal :: "bytes \<Rightarrow> bytes \<Rightarrow> bool" where
  "equal a b \<longleftrightarrow> length a = length b \<and> a = b"

definition mac_and_decrypt :: "crypto_ops \<Rightarrow> bytes \<Rightarrow> bytes \<Rightarrow> bytes \<Rightarrow> bytes option" where
  "mac_and_decrypt c key mac ciphertext =
     (if length mac < kCipherMacSize then None
      else if ciphertext = [] \<or> length ciphertext mod kAesBlockSize \<noteq> 0 then None
      else
        let expect = hmac_sha256 c key ciphertext in
        if \<not> equal (subview expect 0 kCipherMacSize) (subview mac 0 kCipherMacSize) then None
        else aes128_ecb c key ciphertext False)"

section \<open>Identities\<close>

record LocalIdentity =
  id_pub :: bytes
  id_priv :: bytes

definition clamp_scalar :: "bytes \<Rightarrow> bytes" where
  "clamp_scalar a = a[0 := a ! 0 AND 248, 31 := (a ! 31 AND 127) OR 64]"

definition reduce32 :: "crypto_ops \<Rightarrow> bytes \<Rightarrow> bytes" where
  "reduce32 c a = scalar_reduce c (take 32 a @ replicate 32 0)"

text \<open>
  \<^verbatim>\<open>generate()\<close> draws seeds until the public key does not start with a reserved byte. The
  entropy source is the list of seeds it will draw; \<open>None\<close> is a source that ran dry.
\<close>

fun generate :: "crypto_ops \<Rightarrow> bytes list \<Rightarrow> LocalIdentity option" where
  "generate c [] = None"
| "generate c (seed # seeds) =
     (let priv = clamp_scalar (sha512 c seed) in
      case base_noclamp c (take 32 priv) of
        None \<Rightarrow> generate c seeds
      | Some pub \<Rightarrow>
          if pub ! 0 \<noteq> 0x00 \<and> pub ! 0 \<noteq> 0xff then Some \<lparr>id_pub = pub, id_priv = priv\<rparr>
          else generate c seeds)"

definition from_bytes :: "crypto_ops \<Rightarrow> bytes \<Rightarrow> LocalIdentity option" where
  "from_bytes c key =
     (let parts = (if length key = kPrivKeySize then Some ([], key)
                   else if length key = kPubKeySize + kPrivKeySize
                   then Some (take kPubKeySize key, take kPrivKeySize (drop kPubKeySize key))
                   else None)
      in case parts of
           None \<Rightarrow> None
         | Some (claimed_pub, priv0) \<Rightarrow>
             let priv = clamp_scalar priv0 in
             (case base_noclamp c (take 32 priv) of
                None \<Rightarrow> None
              | Some pub \<Rightarrow>
                  if claimed_pub \<noteq> [] \<and> \<not> equal claimed_pub pub then None
                  else Some \<lparr>id_pub = pub, id_priv = priv\<rparr>))"

definition id_sign :: "crypto_ops \<Rightarrow> LocalIdentity \<Rightarrow> bytes \<Rightarrow> bytes" where
  "id_sign c self msg =
     (let a = take 32 (id_priv self); rh = take 32 (drop 32 (id_priv self));
          r = scalar_reduce c (sha512 c (rh @ msg))
      in case base_noclamp c r of
           None \<Rightarrow> []
         | Some R \<Rightarrow>
             let k = scalar_reduce c (sha512 c (R @ id_pub self @ msg));
                 s = scalar_add c r (scalar_mul c k (reduce32 c a))
             in R @ s)"

definition id_shared_secret :: "crypto_ops \<Rightarrow> LocalIdentity \<Rightarrow> bytes \<Rightarrow> bytes option" where
  "id_shared_secret c self peer_pub =
     (if length peer_pub < kPubKeySize then None
      else case pk_to_curve25519 c (take kPubKeySize peer_pub) of
             None \<Rightarrow> None
           | Some curve_pub \<Rightarrow> scalarmult_curve25519 c (take 32 (id_priv self)) curve_pub)"

definition verify :: "crypto_ops \<Rightarrow> bytes \<Rightarrow> bytes \<Rightarrow> bytes \<Rightarrow> bool" where
  "verify c pub msg sig =
     (if length pub < kPubKeySize \<or> length sig < kSignatureSize then False
      else verify_detached c (take kSignatureSize sig) msg (take kPubKeySize pub))"

section \<open>Documented behaviour of the primitives\<close>

definition crypto_laws :: "crypto_ops \<Rightarrow> bool" where
  "crypto_laws c \<longleftrightarrow>
     (\<forall>m. length (SHA256 c m) = 32) \<and>
     (\<forall>k m. length (HMAC_SHA256 c k m) = 32) \<and>
     (\<forall>k m. length k = 16 \<longrightarrow> length m mod 16 = 0 \<longrightarrow>
        (\<exists>e. EVP_aes_128_ecb c k m True = Some e \<and> length e = length m \<and>
             EVP_aes_128_ecb c k e False = Some m)) \<and>
     (\<forall>s p. base_noclamp c s = Some p \<longrightarrow> length p = 32) \<and>
     (\<forall>s t. length (scalar_add c s t) = 32) \<and>
     (\<forall>r a R A m. base_noclamp c r = Some R \<longrightarrow> base_noclamp c a = Some A \<longrightarrow>
        verify_detached c
          (R @ scalar_add c r (scalar_mul c (scalar_reduce c (sha512 c (R @ A @ m))) (reduce32 c a)))
          m A)"

lemma crypto_lawsD:
  assumes "crypto_laws c"
  shows "length (SHA256 c m) = 32"
    and "length (HMAC_SHA256 c k m) = 32"
    and "base_noclamp c s = Some p \<Longrightarrow> length p = 32"
    and "length (scalar_add c s t) = 32"
  using assms by (auto simp: crypto_laws_def)

lemma crypto_laws_aes:
  assumes "crypto_laws c" "length k = 16" "length m mod 16 = 0"
  shows "\<exists>e. EVP_aes_128_ecb c k m True = Some e \<and> length e = length m \<and>
             EVP_aes_128_ecb c k e False = Some m"
  using assms by (simp add: crypto_laws_def)

lemma crypto_laws_ed25519:
  assumes "crypto_laws c" "base_noclamp c r = Some R" "base_noclamp c a = Some A"
  shows "verify_detached c
     (R @ scalar_add c r (scalar_mul c (scalar_reduce c (sha512 c (R @ A @ m))) (reduce32 c a))) m A"
  using assms unfolding crypto_laws_def by blast

section \<open>The sealed box\<close>

lemma pad_to_block: "((n::nat) + (16 - n mod 16) mod 16) mod 16 = 0"
proof (cases "n mod 16 = 0")
  case False
  then have "(16 - n mod 16) mod 16 = 16 - n mod 16"
    by (simp add: less_imp_diff_less)
  moreover have "(n mod 16 + (16 - n mod 16)) mod 16 = 0"
    by simp
  ultimately show ?thesis
    by (metis mod_add_left_eq)
qed simp

lemma length_zero_pad_mod [simp]: "length (zero_pad p) mod 16 = 0"
  using pad_to_block by (simp add: zero_pad_def)

lemma length_zero_pad: "length p \<le> length (zero_pad p)" "length (zero_pad p) < length p + 16"
  by (simp_all add: zero_pad_def)

lemma zero_pad_prefix: "take (length p) (zero_pad p) = p"
  by (simp add: zero_pad_def)

lemma zero_pad_Nil_iff [simp]: "zero_pad p = [] \<longleftrightarrow> p = []"
  by (auto simp: zero_pad_def)

lemma subview_take: "subview b 0 n = take n b"
  by (simp add: subview_def min_def)

lemma encrypt_and_mac_shape:
  assumes "crypto_laws c" "16 \<le> length key"
  obtains mac ct where "encrypt_and_mac c key p = mac @ ct" "length mac = 2"
    "length ct = length (zero_pad p)"
    "p \<noteq> [] \<Longrightarrow> mac_and_decrypt c key mac ct = Some (zero_pad p)"
proof -
  let ?k = "take 16 key"
  from assms obtain ct where ct: "EVP_aes_128_ecb c ?k (zero_pad p) True = Some ct"
    "length ct = length (zero_pad p)" "EVP_aes_128_ecb c ?k ct False = Some (zero_pad p)"
    using crypto_laws_aes [OF assms(1), of ?k "zero_pad p"] by auto
  let ?mac = "take 2 (HMAC_SHA256 c key ct)"
  have enc: "encrypt_and_mac c key p = ?mac @ ct"
    using assms ct by (simp add: encrypt_and_mac_def aes128_ecb_def hmac_sha256_def)
  have mac: "length ?mac = 2"
    using crypto_lawsD(2) [OF assms(1)] by simp
  have "p \<noteq> [] \<Longrightarrow> ct \<noteq> []"
    using ct(2) by auto
  then have "p \<noteq> [] \<Longrightarrow> mac_and_decrypt c key ?mac ct = Some (zero_pad p)"
    using assms mac ct by (simp add: mac_and_decrypt_def equal_def aes128_ecb_def hmac_sha256_def
        subview_take)
  with that [OF enc mac ct(2)] show thesis
    by blast
qed

lemma length_ack_hash [simp]: "length (ack_hash c m) = 4"
  by (simp add: ack_hash_def resize_def)

section \<open>A concrete instance\<close>

text \<open>
  An instance of the cryptographic interface with which the definitions can be evaluated: the
  digests pad or cut their input to length, the block cipher is the identity, and every point is
  its own encoding. It satisfies the laws and is used for evaluation only.
\<close>

definition plain_crypto :: crypto_ops where
  "plain_crypto = \<lparr>SHA256 = (\<lambda>m. resize 32 m), HMAC_SHA256 = (\<lambda>k m. resize 32 (k @ m)),
     EVP_aes_128_ecb = (\<lambda>k m enc. Some m), sha512 = (\<lambda>m. resize 64 m),
     scalar_reduce = (\<lambda>s. resize 32 s), scalar_mul = (\<lambda>s t. resize 32 s),
     scalar_add = (\<lambda>s t. resize 32 t), base_noclamp = (\<lambda>s. Some (resize 32 s)),
     pk_to_curve25519 = (\<lambda>p. Some p), scalarmult_curve25519 = (\<lambda>s p. Some p),
     verify_detached = (\<lambda>s m p. length s = 64)\<rparr>"

lemma length_resize [simp]: "length (resize n b) = n"
  by (simp add: resize_def)

lemma plain_crypto_laws: "crypto_laws plain_crypto"
  by (simp add: crypto_laws_def plain_crypto_def)

end
