(* ===== verification/Packet.thy ===== *)
theory Packet
  imports Crypto
begin

text \<open>
  The MeshCore packet of \<^verbatim>\<open>src/src/proto/packet.h\<close> and \<^verbatim>\<open>packet.cpp\<close>: header byte, transport
  codes, the packed path length, path operations, wire codec and dedup hash. The lemmas show
  that the codec is a bijection between valid packets and the byte strings \<^verbatim>\<open>decode\<close>
  accepts, that the path operations keep a packet valid, and what the dedup hash depends on.
\<close>

section \<open>Limits and enumerations\<close>

definition kMaxPathSize :: nat where "kMaxPathSize = 64"
definition kMaxPayloadSize :: nat where "kMaxPayloadSize = 184"
definition kMaxPacketSize :: nat where "kMaxPacketSize = 255"

lemmas packet_sizes [simp] = kMaxPathSize_def kMaxPayloadSize_def kMaxPacketSize_def

datatype RouteType = TransportFlood | Flood | Direct | TransportDirect

fun route_code :: "RouteType \<Rightarrow> byte" where
  "route_code TransportFlood = 0x00"
| "route_code Flood = 0x01"
| "route_code Direct = 0x02"
| "route_code TransportDirect = 0x03"

definition route_of :: "byte \<Rightarrow> RouteType" where
  "route_of b = (if b = 0x00 then TransportFlood else if b = 0x01 then Flood
                 else if b = 0x02 then Direct else TransportDirect)"

text \<open>
  The payload type is four bits on the wire. The enumeration of the code names thirteen of
  the sixteen values; a decoded packet can carry the other three as unnamed values of the
  enumeration, which are constructors of their own here.
\<close>

datatype PayloadType = Req | Response | TxtMsg | Ack | Advert | GrpTxt | GrpData | AnonReq
  | Path | Trace | Multipart | Control | Reserved0C | Reserved0D | Reserved0E | RawCustom

fun payload_code :: "PayloadType \<Rightarrow> byte" where
  "payload_code Req = 0x00"
| "payload_code Response = 0x01"
| "payload_code TxtMsg = 0x02"
| "payload_code Ack = 0x03"
| "payload_code Advert = 0x04"
| "payload_code GrpTxt = 0x05"
| "payload_code GrpData = 0x06"
| "payload_code AnonReq = 0x07"
| "payload_code Path = 0x08"
| "payload_code Trace = 0x09"
| "payload_code Multipart = 0x0A"
| "payload_code Control = 0x0B"
| "payload_code Reserved0C = 0x0C"
| "payload_code Reserved0D = 0x0D"
| "payload_code Reserved0E = 0x0E"
| "payload_code RawCustom = 0x0F"

definition payload_of :: "byte \<Rightarrow> PayloadType" where
  "payload_of b =
     (if b = 0x00 then Req else if b = 0x01 then Response else if b = 0x02 then TxtMsg
      else if b = 0x03 then Ack else if b = 0x04 then Advert else if b = 0x05 then GrpTxt
      else if b = 0x06 then GrpData else if b = 0x07 then AnonReq else if b = 0x08 then Path
      else if b = 0x09 then Trace else if b = 0x0A then Multipart else if b = 0x0B then Control
      else if b = 0x0C then Reserved0C else if b = 0x0D then Reserved0D
      else if b = 0x0E then Reserved0E else RawCustom)"

fun route_type_name :: "RouteType \<Rightarrow> string" where
  "route_type_name TransportFlood = ''transport-flood''"
| "route_type_name Flood = ''flood''"
| "route_type_name Direct = ''direct''"
| "route_type_name TransportDirect = ''transport-direct''"

fun payload_type_name :: "PayloadType \<Rightarrow> string" where
  "payload_type_name Req = ''REQ''"
| "payload_type_name Response = ''RESPONSE''"
| "payload_type_name TxtMsg = ''TXT_MSG''"
| "payload_type_name Ack = ''ACK''"
| "payload_type_name Advert = ''ADVERT''"
| "payload_type_name GrpTxt = ''GRP_TXT''"
| "payload_type_name GrpData = ''GRP_DATA''"
| "payload_type_name AnonReq = ''ANON_REQ''"
| "payload_type_name Path = ''PATH''"
| "payload_type_name Trace = ''TRACE''"
| "payload_type_name Multipart = ''MULTIPART''"
| "payload_type_name Control = ''CONTROL''"
| "payload_type_name RawCustom = ''RAW_CUSTOM''"
| "payload_type_name _ = ''RESERVED''"

definition kRouteMask :: byte where "kRouteMask = 0x03"
definition kPayloadTypeMask :: byte where "kPayloadTypeMask = 0x3C"
definition kPayloadVerMask :: byte where "kPayloadVerMask = 0xC0"

lemmas header_masks = kRouteMask_def kPayloadTypeMask_def kPayloadVerMask_def

section \<open>The packet\<close>

text \<open>The receive metadata is not on the wire; an SNR is a multiple of a quarter dB.\<close>

record Packet =
  payload_version :: byte
  route :: RouteType
  ptype :: PayloadType
  transport_code1 :: u16
  transport_code2 :: u16
  path_hash_size :: byte
  path :: bytes
  payload :: bytes
  rssi :: int
  snr :: rat
  rx_millis :: u32
  internal :: bool

definition new_packet :: Packet where
  "new_packet = \<lparr>payload_version = 0, route = Flood, ptype = Advert, transport_code1 = 0,
     transport_code2 = 0, path_hash_size = 1, path = [], payload = [], rssi = 0, snr = 0,
     rx_millis = 0, internal = False\<rparr>"

definition has_transport_codes :: "Packet \<Rightarrow> bool" where
  "has_transport_codes p \<longleftrightarrow> route p = TransportFlood \<or> route p = TransportDirect"

definition is_flood :: "Packet \<Rightarrow> bool" where
  "is_flood p \<longleftrightarrow> route p = Flood \<or> route p = TransportFlood"

definition is_direct :: "Packet \<Rightarrow> bool" where
  "is_direct p \<longleftrightarrow> route p = Direct \<or> route p = TransportDirect"

definition hop_count :: "Packet \<Rightarrow> nat" where
  "hop_count p =
     (if path_hash_size p \<noteq> 0 then length (path p) div unat (path_hash_size p) else 0)"

definition pack_path_len :: "byte \<Rightarrow> bytes \<Rightarrow> byte" where
  "pack_path_len hs pth =
     (let hash_size = (if hs \<noteq> 0 then hs else 1);
          hops = length pth div unat hash_size
      in (word_of_nat hops AND 0x3F) OR push_bit 6 (hash_size - 1))"

definition packed_path_len :: "Packet \<Rightarrow> byte" where
  "packed_path_len p = pack_path_len (path_hash_size p) (path p)"

definition push_hop :: "bytes \<Rightarrow> Packet \<Rightarrow> bool \<times> Packet" where
  "push_hop hash p =
     (if path_hash_size p = 0 \<or> length hash < unat (path_hash_size p) then (False, p)
      else if length (path p) + unat (path_hash_size p) > kMaxPathSize then (False, p)
      else if hop_count p \<ge> 63 then (False, p)
      else (True, p\<lparr>path := path p @ take (unat (path_hash_size p)) hash\<rparr>))"

definition first_hop :: "Packet \<Rightarrow> bytes" where
  "first_hop p =
     (if length (path p) < unat (path_hash_size p) then []
      else take (unat (path_hash_size p)) (path p))"

definition pop_hop :: "Packet \<Rightarrow> Packet" where
  "pop_hop p =
     (if length (path p) < unat (path_hash_size p) then p\<lparr>path := []\<rparr>
      else p\<lparr>path := drop (unat (path_hash_size p)) (path p)\<rparr>)"

section \<open>The wire codec\<close>

definition header_byte :: "RouteType \<Rightarrow> PayloadType \<Rightarrow> byte \<Rightarrow> byte" where
  "header_byte r t v =
     (route_code r AND kRouteMask) OR (push_bit 2 (payload_code t) AND kPayloadTypeMask)
       OR (push_bit 6 v AND kPayloadVerMask)"

definition hdr_route :: "byte \<Rightarrow> RouteType" where
  "hdr_route header = route_of (header AND kRouteMask)"

definition hdr_type :: "byte \<Rightarrow> PayloadType" where
  "hdr_type header = payload_of (drop_bit 2 (header AND kPayloadTypeMask))"

definition hdr_version :: "byte \<Rightarrow> byte" where
  "hdr_version header = drop_bit 6 (header AND kPayloadVerMask)"

definition pl_hops :: "byte \<Rightarrow> nat" where
  "pl_hops path_len = unat (path_len AND 0x3F)"

definition pl_hash_size :: "byte \<Rightarrow> byte" where
  "pl_hash_size path_len = drop_bit 6 (path_len AND 0xC0) + 1"

definition decode_path_payload :: "Packet \<Rightarrow> reader \<Rightarrow> Packet option" where
  "decode_path_payload p r =
    (let (path_len, r) = rd_u8 r
     in if \<not> rd_ok r then None else
     let hops = pl_hops path_len;
         hash_size = pl_hash_size path_len
     in if hash_size = 4 then None else
     let path_bytes = hops * unat hash_size
     in if path_bytes > kMaxPathSize then None else
     let (pth, r) = rd_take path_bytes r
     in if \<not> rd_ok r then None else
     let (pl, r) = rd_rest r
     in if pl = [] then None
        else if length pl > kMaxPayloadSize then None
        else Some (p\<lparr>path_hash_size := hash_size, path := pth, payload := pl\<rparr>))"

definition packet_decode :: "bytes \<Rightarrow> Packet option" where
  "packet_decode raw =
    (let r = Reader raw;
         (header, r) = rd_u8 r
     in if \<not> rd_ok r then None else
     let p = new_packet\<lparr>route := hdr_route header, ptype := hdr_type header,
                        payload_version := hdr_version header\<rparr>
     in if payload_version p > 0 then None
     else if has_transport_codes p then
       let (c1, r) = rd_u16 r; (c2, r) = rd_u16 r
       in if \<not> rd_ok r then None
          else decode_path_payload (p\<lparr>transport_code1 := c1, transport_code2 := c2\<rparr>) r
     else decode_path_payload p r)"

definition packet_valid :: "Packet \<Rightarrow> bool" where
  "packet_valid p =
     (if path_hash_size p < 1 \<or> path_hash_size p > 3 then False
      else if length (path p) > kMaxPathSize \<or> length (path p) mod unat (path_hash_size p) \<noteq> 0
      then False
      else if hop_count p > 63 \<or> length (payload p) > kMaxPayloadSize then False
      else 2 + (if has_transport_codes p then 4 else 0) + length (path p) + length (payload p)
             \<le> kMaxPacketSize)"

definition packet_encode :: "Packet \<Rightarrow> bytes" where
  "packet_encode p =
    (let out = [header_byte (route p) (ptype p) (payload_version p)];
         out = (if has_transport_codes p
                then put_u16 (put_u16 out (transport_code1 p)) (transport_code2 p) else out);
         out = out @ [packed_path_len p]
     in put_bytes (put_bytes out (path p)) (payload p))"

definition dedup_hash :: "crypto_ops \<Rightarrow> Packet \<Rightarrow> bytes" where
  "dedup_hash c p =
    (let buf = [payload_code (ptype p)];
         buf = (if ptype p = Trace then put_u16 buf (ucast (packed_path_len p)) else buf)
     in ack_hash c (put_bytes buf (payload p)))"

section \<open>Bit-level facts\<close>

lemma byte_eqI:
  fixes a b :: byte
  assumes "bit a 0 = bit b 0" "bit a 1 = bit b 1" "bit a 2 = bit b 2" "bit a 3 = bit b 3"
    "bit a 4 = bit b 4" "bit a 5 = bit b 5" "bit a 6 = bit b 6" "bit a 7 = bit b 7"
  shows "a = b"
proof (rule bit_word_eqI)
  fix n
  assume "n < LENGTH(8)"
  then have "n \<in> {0, 1, 2, 3, 4, 5, 6, 7}"
    by auto
  with assms show "bit a n = bit b n"
    by auto
qed

lemma byte_ge_1: "1 \<le> (b :: byte) \<longleftrightarrow> b \<noteq> 0"
  by (simp flip: not_less)

lemma and_3_mod: "(b :: byte) AND 0x03 = b mod 4"
  using take_bit_eq_mask [of 2 b] by (simp add: mask_numeral take_bit_eq_mod)

lemma and_3F_mod: "(b :: byte) AND 0x3F = b mod 64"
  using take_bit_eq_mask [of 6 b] by (simp add: mask_numeral take_bit_eq_mod)

lemma unat_and_3F: "unat ((b :: byte) AND 0x3F) = unat b mod 64"
  by (simp add: and_3F_mod unat_mod)

lemma header_route [codec_simps]: "hdr_route (header_byte r t 0) = r"
  by (cases r; cases t) (simp_all add: hdr_route_def header_byte_def header_masks route_of_def)

lemma header_type [codec_simps]:
  "hdr_type (header_byte r t 0) = t"
  by (cases r; cases t) (simp_all add: hdr_type_def header_byte_def header_masks payload_of_def)

lemma header_version [codec_simps]: "hdr_version (header_byte r t 0) = 0"
  by (cases r; cases t) (simp_all add: hdr_version_def header_byte_def header_masks)

lemma byte_less_4: "(b :: byte) < 4 \<Longrightarrow> b = 0 \<or> b = 1 \<or> b = 2 \<or> b = 3"
  by unat_arith

lemma route_code_of: "route_code (route_of (h AND 0x03)) = h AND 0x03"
proof -
  have "h AND 0x03 < 4"
    by (simp add: and_3_mod word_mod_less_divisor)
  from byte_less_4 [OF this] show ?thesis
    by (auto simp: route_of_def)
qed

lemma payload_code_of: "payload_code (payload_of (drop_bit 2 (h AND 0x3C))) = drop_bit 2 (h AND 0x3C)"
proof -
  have all: "list_all (\<lambda>k. payload_code (payload_of (word_of_nat k)) = word_of_nat k) [0..<16]"
    by (simp add: payload_of_def upt_rec)
  have "drop_bit 2 (h AND 0x3C) = take_bit 4 (drop_bit 2 h)"
    by (rule byte_eqI) (simp_all add: bit_simps)
  then have "unat (drop_bit 2 (h AND 0x3C)) < 16"
    by (simp add: take_bit_eq_mod unat_mod)
  with all have "payload_code (payload_of (word_of_nat (unat (drop_bit 2 (h AND 0x3C))))) =
      word_of_nat (unat (drop_bit 2 (h AND 0x3C)))"
    unfolding list_all_iff by (metis atLeastLessThan_iff set_upt zero_le)
  then show ?thesis
    by (simp only: of_nat_unat ucast_id)
qed

lemma and_3F_self:
  assumes "drop_bit 6 (h AND 0xC0 :: byte) = 0"
  shows "h AND 0x3F = h"
proof -
  from assms have "\<not> bit (drop_bit 6 (h AND 0xC0)) 0" "\<not> bit (drop_bit 6 (h AND 0xC0)) 1"
    by simp_all
  then show ?thesis
    by (intro byte_eqI) (simp_all add: bit_simps)
qed

lemma header_rebuild:
  assumes "hdr_version h = 0"
  shows "header_byte (hdr_route h) (hdr_type h) 0 = h"
proof -
  have "(h AND 3 AND 3) OR (push_bit 2 (drop_bit 2 (h AND 0x3C)) AND 0x3C) = h AND 0x3F"
    by (rule byte_eqI) (simp_all add: bit_simps)
  with assms and_3F_self [of h] show ?thesis
    unfolding header_byte_def hdr_route_def hdr_type_def hdr_version_def header_masks
      route_code_of payload_code_of by simp
qed

section \<open>The packed path length\<close>

lemma hash_size_cases: "1 \<le> (hs :: byte) \<Longrightarrow> hs \<le> 3 \<Longrightarrow> hs = 1 \<or> hs = 2 \<or> hs = 3"
  by unat_arith

lemma pack_path_len_code:
  "1 \<le> hs \<Longrightarrow> pack_path_len hs pth =
     (word_of_nat (length pth div unat hs) AND 0x3F) OR push_bit 6 (hs - 1)"
  by (auto simp: pack_path_len_def Let_def)

lemma pack_len_hops [codec_simps]:
  assumes "1 \<le> hs" "length pth div unat hs \<le> 63"
  shows "pl_hops (pack_path_len hs pth) = length pth div unat hs"
proof -
  let ?w = "word_of_nat (length pth div unat hs) :: byte"
  have "((?w AND 0x3F) OR push_bit 6 (hs - 1)) AND 0x3F = ?w AND 0x3F"
    by (rule byte_eqI) (simp_all add: bit_simps)
  then show ?thesis
    using assms by (simp add: pl_hops_def pack_path_len_code unat_and_3F unat_of_nat)
qed

lemma pack_len_size [codec_simps]:
  assumes "1 \<le> hs" "hs \<le> 3"
  shows "pl_hash_size (pack_path_len hs pth) = hs"
proof -
  let ?w = "word_of_nat (length pth div unat hs) :: byte"
  have "drop_bit 6 (((?w AND 0x3F) OR push_bit 6 (hs - 1)) AND 0xC0) = (hs - 1) AND 0x03"
    by (rule byte_eqI) (simp_all add: bit_simps)
  then show ?thesis
    using assms hash_size_cases [OF assms] by (auto simp: pl_hash_size_def pack_path_len_code)
qed

lemma pack_len_rebuild:
  assumes hs_def: "hs = pl_hash_size pl" and ne4: "hs \<noteq> 4"
    and len: "length pth = pl_hops pl * unat hs"
  shows "1 \<le> hs" "hs \<le> 3" "pack_path_len hs pth = pl" "length pth mod unat hs = 0"
    "length pth div unat hs \<le> 63"
proof -
  have h: "hs = drop_bit 6 pl + 1"
    unfolding hs_def pl_hash_size_def
    by (rule arg_cong [where f = "\<lambda>x. x + 1"], rule byte_eqI)
      (auto simp: bit_simps dest: bit_imp_le_length)
  have "unat pl < 256"
    using unsigned_less [of pl] by simp
  then have "drop_bit 6 pl < 4"
    by (simp add: drop_bit_eq_div word_less_nat_alt unat_div)
  from byte_less_4 [OF this] show hs: "1 \<le> hs" "hs \<le> 3"
    using h ne4 by auto
  then have pos: "0 < unat hs"
    by (metis less_eq_Suc_le unat_1 word_le_nat_alt One_nat_def)
  then have d: "length pth div unat hs = unat (pl AND 0x3F)"
    by (simp add: len pl_hops_def)
  have "(pl AND 0x3F AND 0x3F) OR push_bit 6 (drop_bit 6 pl) = pl"
    by (rule byte_eqI) (simp_all add: bit_simps)
  then show "pack_path_len hs pth = pl"
    using hs d by (simp add: pack_path_len_code d) (simp add: h)
  show "length pth mod unat hs = 0"
    by (simp add: len)
  show "length pth div unat hs \<le> 63"
    by (simp add: d unat_and_3F)
qed

section \<open>Round trips\<close>

text \<open>What survives the wire: everything but the receive metadata.\<close>

definition on_wire :: "Packet \<Rightarrow> Packet" where
  "on_wire p = p\<lparr>transport_code1 := if has_transport_codes p then transport_code1 p else 0,
     transport_code2 := if has_transport_codes p then transport_code2 p else 0,
     rssi := 0, snr := 0, rx_millis := 0, internal := False\<rparr>"

lemma packet_validD:
  assumes "packet_valid p"
  shows "1 \<le> path_hash_size p" "path_hash_size p \<le> 3" "length (path p) \<le> 64"
    "length (path p) mod unat (path_hash_size p) = 0"
    "length (path p) div unat (path_hash_size p) \<le> 63" "length (payload p) \<le> 184"
  using assms
  by (auto simp: packet_valid_def hop_count_def byte_ge_1 not_less split: if_splits)

lemma packet_decode_encode:
  assumes "packet_valid p" "payload_version p = 0" "payload p \<noteq> []"
  shows "packet_decode (packet_encode p) = Some (on_wire p)"
proof -
  note v = packet_validD [OF assms(1)]
  have len: "length (path p) div unat (path_hash_size p) * unat (path_hash_size p) = length (path p)"
    using v(4) by (metis add.right_neutral div_mult_mod_eq)
  have "path_hash_size p \<noteq> 4"
    using v(2) by auto
  then show ?thesis
    using assms(2,3) v len
    by (cases "has_transport_codes p")
      (simp_all add: packet_decode_def decode_path_payload_def packet_encode_def Let_def reader_simps codec_simps le_simps
        put_u16_def put_bytes_def packed_path_len_def on_wire_def new_packet_def has_transport_codes_def)
qed

lemma decode_path_payload_Some:
  assumes "decode_path_payload p0 (rdr pre xs) = Some p"
  obtains pl pth pay where "xs = pl # pth @ pay" "pl_hash_size pl \<noteq> 4"
    "length pth = pl_hops pl * unat (pl_hash_size pl)" "length pth \<le> 64" "pay \<noteq> []"
    "length pay \<le> 184" "p = p0\<lparr>path_hash_size := pl_hash_size pl, path := pth, payload := pay\<rparr>"
proof (cases xs)
  case (Cons pl t)
  let ?n = "pl_hops pl * unat (pl_hash_size pl)"
  from assms Cons show ?thesis
    by (intro that [of pl "take ?n t" "drop ?n t"])
      (auto simp: decode_path_payload_def Let_def reader_simps split: if_splits)
qed (use assms in \<open>simp add: decode_path_payload_def reader_simps\<close>)

lemma decode_path_payload_parts:
  assumes dec: "decode_path_payload p0 (rdr pre xs) = Some p"
  shows "packed_path_len p # path p @ payload p = xs" "packet_valid p" "payload p \<noteq> []"
    "route p = route p0" "ptype p = ptype p0" "payload_version p = payload_version p0"
    "transport_code1 p = transport_code1 p0" "transport_code2 p = transport_code2 p0"
    "on_wire p0 = p0 \<Longrightarrow> on_wire p = p"
proof -
  from dec obtain pl pth pay where x: "xs = pl # pth @ pay" and ne4: "pl_hash_size pl \<noteq> 4"
    and len: "length pth = pl_hops pl * unat (pl_hash_size pl)" "length pth \<le> 64"
    and pay: "pay \<noteq> []" "length pay \<le> 184"
    and p: "p = p0\<lparr>path_hash_size := pl_hash_size pl, path := pth, payload := pay\<rparr>"
    by (rule decode_path_payload_Some)
  note r = pack_len_rebuild [OF refl ne4 len(1)]
  show "packed_path_len p # path p @ payload p = xs"
    using r by (simp add: p x packed_path_len_def)
  have "\<not> pl_hash_size pl < 1" "\<not> 3 < pl_hash_size pl"
    using r(1,2) by (auto simp: byte_ge_1 not_less)
  then show "packet_valid p"
    using r(4,5) len(2) pay by (simp add: p packet_valid_def hop_count_def)
  show "payload p \<noteq> []" "route p = route p0" "ptype p = ptype p0"
    "payload_version p = payload_version p0" "transport_code1 p = transport_code1 p0"
    "transport_code2 p = transport_code2 p0"
    using pay by (auto simp: p)
  show "on_wire p0 = p0 \<Longrightarrow> on_wire p = p"
    by (cases p0) (auto simp: p on_wire_def has_transport_codes_def split: if_splits)
qed

lemma packet_decode_sound:
  assumes dec: "packet_decode raw = Some p"
  shows "packet_encode p = raw" "packet_valid p" "payload_version p = 0" "payload p \<noteq> []"
    "on_wire p = p"
proof -
  from dec obtain h t where raw: "raw = h # t"
    by (cases raw) (simp_all add: packet_decode_def reader_simps)
  with dec have ver: "hdr_version h = 0"
    by (simp add: packet_decode_def Let_def reader_simps new_packet_def word_gt_0 split: if_splits)
  note hdr = header_rebuild [OF this]
  let ?p0 = "new_packet\<lparr>route := hdr_route h, ptype := hdr_type h, payload_version := 0\<rparr>"
  let ?goal = "packet_encode p = raw \<and> packet_valid p \<and> payload_version p = 0 \<and> payload p \<noteq> []
    \<and> on_wire p = p"
  have ?goal
  proof (cases "has_transport_codes ?p0")
    case True
    have "4 \<le> length t"
      using dec raw ver True
      by (auto simp: packet_decode_def Let_def reader_simps rd_u16_def not_le split: if_splits)
    then obtain a b c d t' where t: "t = a # b # c # d # t'"
      by (auto simp: Suc_le_length_iff numeral_eq_Suc)
    let ?p1 = "?p0\<lparr>transport_code1 := le16 a b, transport_code2 := le16 c d\<rparr>"
    have d: "decode_path_payload ?p1 (rdr [h, a, b, c, d] t') = Some p"
      using dec raw ver True t by (simp add: packet_decode_def reader_simps)
    have "on_wire ?p1 = ?p1"
      using True by (simp add: on_wire_def new_packet_def has_transport_codes_def)
    then show ?thesis
      using decode_path_payload_parts [OF d] True hdr ver
      by (simp add: raw t packet_encode_def put_bytes_def put_u16_def le_simps
          has_transport_codes_def new_packet_def)
  next
    case False
    have d: "decode_path_payload ?p0 (rdr [h] t) = Some p"
      using dec raw ver False by (simp add: packet_decode_def reader_simps)
    have "on_wire ?p0 = ?p0"
      by (simp add: on_wire_def new_packet_def has_transport_codes_def)
    then show ?thesis
      using decode_path_payload_parts [OF d] False hdr ver
      by (simp add: raw packet_encode_def put_bytes_def has_transport_codes_def new_packet_def)
  qed
  then show "packet_encode p = raw" "packet_valid p" "payload_version p = 0" "payload p \<noteq> []"
    "on_wire p = p"
    by auto
qed

lemma packet_encode_length:
  "length (packet_encode p) =
     2 + (if has_transport_codes p then 4 else 0) + length (path p) + length (payload p)"
  by (simp add: packet_encode_def put_bytes_def put_u16_def)

lemma packet_valid_fits: "packet_valid p \<Longrightarrow> length (packet_encode p) \<le> kMaxPacketSize"
  by (auto simp: packet_encode_length packet_valid_def split: if_splits)

section \<open>Path operations\<close>

lemma push_hop_Some:
  assumes "push_hop hash p = (True, p')"
  shows "p' = p\<lparr>path := path p @ take (unat (path_hash_size p)) hash\<rparr>"
    "length (path p') = length (path p) + unat (path_hash_size p)"
    "length (path p') \<le> 64" "hop_count p < 63" "path_hash_size p \<noteq> 0"
  using assms by (auto simp: push_hop_def split: if_splits)

lemma push_hop_valid:
  assumes "packet_valid p" "push_hop hash p = (True, p')"
  shows "packet_valid p'" "hop_count p' = Suc (hop_count p)" "is_flood p' = is_flood p"
proof -
  note v = packet_validD [OF assms(1)] and h = push_hop_Some [OF assms(2)]
  have pos: "0 < unat (path_hash_size p)"
    using h(5) by (simp add: unat_gt_0)
  show hc: "hop_count p' = Suc (hop_count p)"
    using h(1,2,5) pos by (simp add: hop_count_def)
  have "length (path p') mod unat (path_hash_size p) = 0"
    using v(4) h(2) by simp
  moreover have "\<not> path_hash_size p < 1" "\<not> 3 < path_hash_size p"
    using v(1,2) h(5) by (auto simp: not_less)
  ultimately show "packet_valid p'"
    using v h(3,4) hc by (simp add: packet_valid_def h(1))
  show "is_flood p' = is_flood p"
    by (simp add: h(1) is_flood_def)
qed

lemma pop_hop_valid:
  assumes "packet_valid p"
  shows "packet_valid (pop_hop p)" "hop_count (pop_hop p) = hop_count p - 1"
proof -
  note v = packet_validD [OF assms]
  let ?n = "unat (path_hash_size p)"
  have pos: "0 < ?n"
    using v(1) by (simp add: unat_gt_0 byte_ge_1)
  obtain k where k: "length (path p) = k * ?n"
    using v(4) by (metis dvd_eq_mod_eq_0 dvd_mult_div_cancel mult.commute)
  have l: "length (path (pop_hop p)) = (k - 1) * ?n"
    using k pos by (auto simp: pop_hop_def diff_mult_distrib)
  have eq: "path_hash_size (pop_hop p) = path_hash_size p" "payload (pop_hop p) = payload p"
    "has_transport_codes (pop_hop p) = has_transport_codes p"
    by (auto simp: pop_hop_def has_transport_codes_def)
  show hc: "hop_count (pop_hop p) = hop_count p - 1"
    using v(1) k l pos by (simp add: hop_count_def eq byte_ge_1)
  have "hop_count p \<le> 63" "length (path (pop_hop p)) \<le> length (path p)"
    using v(1,5) k l by (auto simp: hop_count_def)
  moreover have "\<not> path_hash_size p < 1" "\<not> 3 < path_hash_size p"
    using v(1,2) by (auto simp: not_less byte_ge_1)
  ultimately show "packet_valid (pop_hop p)"
    using v hc l by (simp add: packet_valid_def eq)
qed

section \<open>What the dedup hash depends on\<close>

lemma dedup_hash_cong:
  assumes "ptype p = ptype q" "payload p = payload q"
    and "ptype p = Trace \<Longrightarrow> packed_path_len p = packed_path_len q"
  shows "dedup_hash c p = dedup_hash c q"
  using assms by (simp add: dedup_hash_def Let_def)

section \<open>Properties\<close>

text \<open>
  C1. The decoder accepts exactly the encodings of valid packets: a byte string decodes to \<open>p\<close>
  precisely when \<open>p\<close> is a valid packet of version 0 with a payload and no reception data, and the
  string is its encoding.
\<close>

theorem packet_codec:
  "packet_decode raw = Some p \<longleftrightarrow>
     packet_valid p \<and> payload_version p = 0 \<and> payload p \<noteq> [] \<and> on_wire p = p \<and> packet_encode p = raw"
  using packet_decode_sound packet_decode_encode by metis

text \<open>
  A relay's two edits of a packet keep it transmittable: appending a hop to a valid flood
  packet gives a valid packet of one more hop that fits the radio's 255 bytes and, unless it is a
  trace, has the same duplicate-detection hash; removing the first hop of any valid packet gives a
  valid packet of one hop less with the same hash.
\<close>

theorem relay_edits_valid:
  assumes "packet_valid p"
  shows "(\<forall>hash q. push_hop hash p = (True, q) \<longrightarrow>
      packet_valid q \<and> hop_count q = Suc (hop_count p) \<and> length (packet_encode q) \<le> kMaxPacketSize \<and>
      (ptype p \<noteq> Trace \<longrightarrow> dedup_hash c q = dedup_hash c p)) \<and>
    packet_valid (pop_hop p) \<and> hop_count (pop_hop p) = hop_count p - 1 \<and>
      (ptype p \<noteq> Trace \<longrightarrow> dedup_hash c (pop_hop p) = dedup_hash c p)"
proof (intro conjI allI impI)
  fix hash q
  assume h: "push_hop hash p = (True, q)"
  have eq: "ptype q = ptype p" "payload q = payload p" using push_hop_Some(1) [OF h] by simp_all
  show "packet_valid q" "hop_count q = Suc (hop_count p)" using push_hop_valid [OF assms h] by simp_all
  then show "length (packet_encode q) \<le> kMaxPacketSize" using packet_valid_fits by simp
  show "ptype p \<noteq> Trace \<Longrightarrow> dedup_hash c q = dedup_hash c p" using eq by (intro dedup_hash_cong) simp_all
next
  show "packet_valid (pop_hop p)" "hop_count (pop_hop p) = hop_count p - 1"
    using pop_hop_valid [OF assms] by simp_all
  show "ptype p \<noteq> Trace \<Longrightarrow> dedup_hash c (pop_hop p) = dedup_hash c p"
    by (intro dedup_hash_cong) (auto simp: pop_hop_def split: if_splits)
qed

theorem relay_edits_valid_witness:
  "packet_valid (new_packet\<lparr>path := [1], payload := [9]\<rparr>) \<and>
   push_hop [7, 8] (new_packet\<lparr>path := [1], payload := [9]\<rparr>) =
     (True, new_packet\<lparr>path := [1, 7], payload := [9]\<rparr>) \<and>
   packet_valid (new_packet\<lparr>path := [1, 7], payload := [9]\<rparr>) \<and>
   hop_count (new_packet\<lparr>path := [1, 7], payload := [9]\<rparr>) = 2"
proof -
  let ?p = "new_packet\<lparr>path := [1], payload := [9 :: byte]\<rparr>"
  let ?q = "new_packet\<lparr>path := [1, 7], payload := [9 :: byte]\<rparr>"
  have v: "packet_valid ?p" and h: "push_hop [7, 8] ?p = (True, ?q)" and n: "hop_count ?p = 1"
    by (simp_all add: new_packet_def packet_valid_def push_hop_def hop_count_def
        has_transport_codes_def kMaxPathSize_def kMaxPayloadSize_def kMaxPacketSize_def)
  show ?thesis
    using v h n conjunct1 [OF relay_edits_valid [OF v, of plain_crypto], rule_format, OF h] by simp
qed

end
