(* ===== verification/Payloads.thy ===== *)
theory Payloads
  imports Packet
begin

text \<open>
  The payload codecs of \<^verbatim>\<open>src/src/proto/payloads.h\<close> and \<^verbatim>\<open>payloads.cpp\<close>: adverts and their
  app data, the three sealed envelopes, text messages, ack hashes and returned paths. The
  lemmas state the codec round trips, that a signed advert verifies after the wire, that a
  sealed plaintext opens to itself plus zero padding, and that the padding changes neither
  the message nor the ack hash both ends compute from it.
\<close>

section \<open>Adverts\<close>

definition kMaxAdvertAppDataSize :: nat where "kMaxAdvertAppDataSize = 32"

definition kAdvTypeChat :: byte where "kAdvTypeChat = 0x01"
definition kAdvTypeMask :: byte where "kAdvTypeMask = 0x0F"
definition kAdvHasLocation :: byte where "kAdvHasLocation = 0x10"
definition kAdvHasFeature1 :: byte where "kAdvHasFeature1 = 0x20"
definition kAdvHasFeature2 :: byte where "kAdvHasFeature2 = 0x40"
definition kAdvHasName :: byte where "kAdvHasName = 0x80"

lemmas adv_flag_defs = kAdvHasLocation_def kAdvHasFeature1_def kAdvHasFeature2_def kAdvHasName_def
  kAdvTypeMask_def kAdvTypeChat_def

record AdvertAppData =
  ad_flags :: byte
  ad_lat_e6 :: u32
  ad_lon_e6 :: u32
  ad_feature1 :: u16
  ad_feature2 :: u16
  ad_name :: bytes

definition new_appdata :: AdvertAppData where
  "new_appdata = \<lparr>ad_flags = 0, ad_lat_e6 = 0, ad_lon_e6 = 0, ad_feature1 = 0, ad_feature2 = 0,
     ad_name = []\<rparr>"

definition has_flag :: "byte \<Rightarrow> byte \<Rightarrow> bool" where
  "has_flag flags f \<longleftrightarrow> flags AND f \<noteq> 0"

definition node_type :: "AdvertAppData \<Rightarrow> byte" where
  "node_type a = ad_flags a AND kAdvTypeMask"

definition app_has_location :: "AdvertAppData \<Rightarrow> bool" where
  "app_has_location a \<longleftrightarrow> has_flag (ad_flags a) kAdvHasLocation"

definition app_has_name :: "AdvertAppData \<Rightarrow> bool" where
  "app_has_name a \<longleftrightarrow> has_flag (ad_flags a) kAdvHasName"

definition appdata_encode :: "AdvertAppData \<Rightarrow> bytes" where
  "appdata_encode a =
    (let out = [ad_flags a];
         out = (if has_flag (ad_flags a) kAdvHasLocation
                then put_i32 (put_i32 out (ad_lat_e6 a)) (ad_lon_e6 a) else out);
         out = (if has_flag (ad_flags a) kAdvHasFeature1 then put_u16 out (ad_feature1 a) else out);
         out = (if has_flag (ad_flags a) kAdvHasFeature2 then put_u16 out (ad_feature2 a) else out)
     in if has_flag (ad_flags a) kAdvHasName then put_str out (ad_name a) else out)"

definition appdata_decode :: "bytes \<Rightarrow> AdvertAppData option" where
  "appdata_decode data =
    (let r = Reader data;
         (flags, r) = rd_u8 r;
         app = new_appdata\<lparr>ad_flags := flags\<rparr>;
         (app, r) = (if has_flag flags kAdvHasLocation
                     then let (lat, r) = rd_i32 r; (lon, r) = rd_i32 r
                          in (app\<lparr>ad_lat_e6 := lat, ad_lon_e6 := lon\<rparr>, r)
                     else (app, r));
         (app, r) = (if has_flag flags kAdvHasFeature1
                     then let (f, r) = rd_u16 r in (app\<lparr>ad_feature1 := f\<rparr>, r) else (app, r));
         (app, r) = (if has_flag flags kAdvHasFeature2
                     then let (f, r) = rd_u16 r in (app\<lparr>ad_feature2 := f\<rparr>, r) else (app, r))
     in if \<not> rd_ok r then None
        else if has_flag flags kAdvHasName
             then let (name, r) = rd_rest r in Some (app\<lparr>ad_name := name\<rparr>)
             else Some app)"

record AdvertMsg =
  av_pubkey :: bytes
  av_timestamp :: u32
  av_signature :: bytes
  av_appdata :: bytes

definition advert_decode :: "bytes \<Rightarrow> AdvertMsg option" where
  "advert_decode pl =
    (let r = Reader pl;
         (pubkey, r) = rd_take kPubKeySize r;
         (timestamp, r) = rd_u32 r;
         (signature, r) = rd_take kSignatureSize r
     in if \<not> rd_ok r then None
        else let (appdata, r) = rd_rest r
             in Some \<lparr>av_pubkey = pubkey, av_timestamp = timestamp, av_signature = signature,
                      av_appdata = appdata\<rparr>)"

definition advert_encode :: "AdvertMsg \<Rightarrow> bytes" where
  "advert_encode a =
     put_bytes (put_bytes (put_u32 (put_bytes [] (av_pubkey a)) (av_timestamp a))
       (av_signature a)) (av_appdata a)"

definition signed_region :: "bytes \<Rightarrow> u32 \<Rightarrow> bytes \<Rightarrow> bytes" where
  "signed_region pubkey timestamp appdata =
     put_bytes (put_u32 (put_bytes [] pubkey) timestamp) appdata"

definition advert_verify :: "crypto_ops \<Rightarrow> AdvertMsg \<Rightarrow> bool" where
  "advert_verify c a =
     (if length (av_pubkey a) \<noteq> kPubKeySize \<or> length (av_signature a) \<noteq> kSignatureSize then False
      else verify c (av_pubkey a) (signed_region (av_pubkey a) (av_timestamp a) (av_appdata a))
             (av_signature a))"

definition advert_create ::
  "crypto_ops \<Rightarrow> LocalIdentity \<Rightarrow> u32 \<Rightarrow> AdvertAppData \<Rightarrow> AdvertMsg" where
  "advert_create c self timestamp app =
    (let appdata = appdata_encode app
     in \<lparr>av_pubkey = id_pub self, av_timestamp = timestamp,
         av_signature = id_sign c self (signed_region (id_pub self) timestamp appdata),
         av_appdata = appdata\<rparr>)"

section \<open>Sealed envelopes\<close>

record DirectEnvelope =
  de_dest_hash :: byte
  de_src_hash :: byte
  de_mac :: bytes
  de_ciphertext :: bytes

definition direct_decode :: "bytes \<Rightarrow> DirectEnvelope option" where
  "direct_decode pl =
    (let r = Reader pl;
         (dest, r) = rd_u8 r;
         (src, r) = rd_u8 r;
         (mac, r) = rd_take kCipherMacSize r;
         (ciphertext, r) = rd_rest r
     in if \<not> rd_ok r \<or> ciphertext = [] then None
        else Some \<lparr>de_dest_hash = dest, de_src_hash = src, de_mac = mac,
                   de_ciphertext = ciphertext\<rparr>)"

definition direct_encode :: "DirectEnvelope \<Rightarrow> bytes" where
  "direct_encode e =
     put_bytes (put_bytes [de_dest_hash e, de_src_hash e] (de_mac e)) (de_ciphertext e)"

definition split_sealed :: "bytes \<Rightarrow> bytes \<times> bytes" where
  "split_sealed sealed =
     (if kCipherMacSize \<le> length sealed
      then (take kCipherMacSize sealed, drop kCipherMacSize sealed) else ([], []))"

definition direct_seal ::
  "crypto_ops \<Rightarrow> byte \<Rightarrow> byte \<Rightarrow> bytes \<Rightarrow> bytes \<Rightarrow> DirectEnvelope" where
  "direct_seal c dest_hash src_hash key plaintext =
    (let (mac, ciphertext) = split_sealed (encrypt_and_mac c key plaintext)
     in \<lparr>de_dest_hash = dest_hash, de_src_hash = src_hash, de_mac = mac,
         de_ciphertext = ciphertext\<rparr>)"

record AnonReqEnvelope =
  ae_dest_hash :: byte
  ae_pubkey :: bytes
  ae_mac :: bytes
  ae_ciphertext :: bytes

definition anon_decode :: "bytes \<Rightarrow> AnonReqEnvelope option" where
  "anon_decode pl =
    (let r = Reader pl;
         (dest, r) = rd_u8 r;
         (pubkey, r) = rd_take kPubKeySize r;
         (mac, r) = rd_take kCipherMacSize r;
         (ciphertext, r) = rd_rest r
     in if \<not> rd_ok r \<or> ciphertext = [] then None
        else Some \<lparr>ae_dest_hash = dest, ae_pubkey = pubkey, ae_mac = mac,
                   ae_ciphertext = ciphertext\<rparr>)"

definition anon_encode :: "AnonReqEnvelope \<Rightarrow> bytes" where
  "anon_encode e =
     put_bytes (put_bytes (put_bytes [ae_dest_hash e] (ae_pubkey e)) (ae_mac e)) (ae_ciphertext e)"

definition anon_seal ::
  "crypto_ops \<Rightarrow> byte \<Rightarrow> bytes \<Rightarrow> bytes \<Rightarrow> bytes \<Rightarrow> AnonReqEnvelope" where
  "anon_seal c dest_hash sender_pub key plaintext =
    (let (mac, ciphertext) = split_sealed (encrypt_and_mac c key plaintext)
     in \<lparr>ae_dest_hash = dest_hash, ae_pubkey = sender_pub, ae_mac = mac,
         ae_ciphertext = ciphertext\<rparr>)"

record GroupEnvelope =
  ge_channel_hash :: byte
  ge_mac :: bytes
  ge_ciphertext :: bytes

definition group_decode :: "bytes \<Rightarrow> GroupEnvelope option" where
  "group_decode pl =
    (let r = Reader pl;
         (hash, r) = rd_u8 r;
         (mac, r) = rd_take kCipherMacSize r;
         (ciphertext, r) = rd_rest r
     in if \<not> rd_ok r \<or> ciphertext = [] then None
        else Some \<lparr>ge_channel_hash = hash, ge_mac = mac, ge_ciphertext = ciphertext\<rparr>)"

definition group_encode :: "GroupEnvelope \<Rightarrow> bytes" where
  "group_encode e = put_bytes (put_bytes [ge_channel_hash e] (ge_mac e)) (ge_ciphertext e)"

definition group_seal :: "crypto_ops \<Rightarrow> byte \<Rightarrow> bytes \<Rightarrow> bytes \<Rightarrow> GroupEnvelope" where
  "group_seal c channel_hash key plaintext =
    (let (mac, ciphertext) = split_sealed (encrypt_and_mac c key plaintext)
     in \<lparr>ge_channel_hash = channel_hash, ge_mac = mac, ge_ciphertext = ciphertext\<rparr>)"

section \<open>Text messages and acks\<close>

definition kTxtPlain :: byte where "kTxtPlain = 0x00"
definition kTxtCliData :: byte where "kTxtCliData = 0x01"
definition kTxtSignedPlain :: byte where "kTxtSignedPlain = 0x02"

lemmas txt_types = kTxtPlain_def kTxtCliData_def kTxtSignedPlain_def

record TextMessage =
  tm_timestamp :: u32
  tm_txt_type :: byte
  tm_attempt :: byte
  tm_extended_attempt :: byte
  tm_text :: bytes

definition kTextHeaderSize :: nat where "kTextHeaderSize = 5"
definition kSignedPrefixSize :: nat where "kSignedPrefixSize = 4"

text \<open>The flags byte: upper six bits the type, lower two the retry attempt.\<close>

definition flags_byte :: "byte \<Rightarrow> byte \<Rightarrow> byte" where
  "flags_byte txt_type attempt = push_bit 2 txt_type OR (attempt AND 0x03)"

definition flags_type :: "byte \<Rightarrow> byte" where
  "flags_type b = drop_bit 2 b"

definition flags_attempt :: "byte \<Rightarrow> byte" where
  "flags_attempt b = b AND 0x03"

definition text_offset :: "bytes \<Rightarrow> nat" where
  "text_offset plaintext =
     (if length plaintext < kTextHeaderSize then length plaintext
      else
        let txt_type = flags_type (plaintext ! 4);
            start = (if txt_type = kTxtSignedPlain then kTextHeaderSize + kSignedPrefixSize
                     else kTextHeaderSize)
        in min start (length plaintext))"

text \<open>The scan \<^verbatim>\<open>while (end < size && b[end] != 0) end++\<close> from a given start.\<close>

definition nul_from :: "bytes \<Rightarrow> nat \<Rightarrow> nat" where
  "nul_from b start = start + length (takeWhile (\<lambda>x. x \<noteq> 0) (drop start b))"

definition text_decode :: "bytes \<Rightarrow> TextMessage option" where
  "text_decode plaintext =
    (let r = Reader plaintext;
         (timestamp, r) = rd_u32 r;
         (type_and_attempt, r) = rd_u8 r
     in if \<not> rd_ok r then None
        else
          let (rest, r) = rd_rest r;
              e = nul_from rest (text_offset plaintext - kTextHeaderSize)
          in Some \<lparr>tm_timestamp = timestamp,
                   tm_txt_type = flags_type type_and_attempt,
                   tm_attempt = flags_attempt type_and_attempt,
                   tm_extended_attempt = (if e + 1 < length rest then rest ! (e + 1) else 0),
                   tm_text = take e rest\<rparr>)"

definition text_encode :: "TextMessage \<Rightarrow> bytes" where
  "text_encode m =
     put_bytes (put_u32 [] (tm_timestamp m) @ [flags_byte (tm_txt_type m) (tm_attempt m)])
       (tm_text m)"

definition sender_prefix :: "TextMessage \<Rightarrow> bytes" where
  "sender_prefix m = (if tm_txt_type m \<noteq> kTxtSignedPlain then [] else subview (tm_text m) 0 4)"

definition body :: "TextMessage \<Rightarrow> bytes" where
  "body m = (if tm_txt_type m = kTxtSignedPlain then subview_from (tm_text m) 4 else tm_text m)"

definition strip_zero_padding :: "bytes \<Rightarrow> bytes" where
  "strip_zero_padding plaintext = rev (dropWhile (\<lambda>x. x = 0) (rev plaintext))"

definition ack_hashed_region :: "bytes \<Rightarrow> bytes" where
  "ack_hashed_region plaintext =
     (if length plaintext \<le> kTextHeaderSize then plaintext
      else subview plaintext 0 (nul_from plaintext (text_offset plaintext)))"

definition ack_extended_attempt :: "bytes \<Rightarrow> byte" where
  "ack_extended_attempt plaintext =
    (let after_nul = length (ack_hashed_region plaintext) + 1
     in if after_nul < length plaintext then plaintext ! after_nul else 0)"

definition message_ack_hash :: "crypto_ops \<Rightarrow> bytes \<Rightarrow> bytes \<Rightarrow> bytes" where
  "message_ack_hash c plaintext pubkey =
     ack_hash c (put_bytes (put_bytes [] (ack_hashed_region plaintext)) pubkey)"

text \<open>The random byte that keeps two acks distinct on the air is an argument.\<close>

definition ack_payload :: "bytes \<Rightarrow> byte \<Rightarrow> byte \<Rightarrow> bytes" where
  "ack_payload hash extended_attempt rnd =
     put_bytes [] (subview hash 0 kAckHashSize) @ [extended_attempt] @ [rnd]"

section \<open>Returned paths\<close>

record PathReturn =
  pr_path :: bytes
  pr_path_hash_size :: byte
  pr_extra_type :: byte
  pr_extra :: bytes
  pr_has_extra :: bool

definition path_return_decode :: "bytes \<Rightarrow> PathReturn option" where
  "path_return_decode plaintext =
    (let r = Reader plaintext;
         (path_len, r) = rd_u8 r
     in if \<not> rd_ok r then None else
     let hash_size = drop_bit 6 path_len + 1
     in if hash_size = 4 then None else
     let (pth, r) = rd_take (unat (path_len AND 0x3F) * unat hash_size) r
     in if \<not> rd_ok r \<or> length pth > kMaxPathSize then None else
     let p = \<lparr>pr_path = pth, pr_path_hash_size = hash_size, pr_extra_type = 0, pr_extra = [],
              pr_has_extra = False\<rparr>
     in if rd_has r 1 then
          let (t, r) = rd_u8 r; (extra, r) = rd_rest r
          in Some (p\<lparr>pr_has_extra := True, pr_extra_type := t AND 0x0F, pr_extra := extra\<rparr>)
        else Some p)"

definition path_return_encode :: "PathReturn \<Rightarrow> bytes" where
  "path_return_encode p =
    (let out = put_bytes [pack_path_len (pr_path_hash_size p) (pr_path p)] (pr_path p)
     in if pr_has_extra p then put_bytes (out @ [pr_extra_type p AND 0x0F]) (pr_extra p) else out)"

section \<open>Advert round trips\<close>

text \<open>An encoded app data carries only the fields its flags announce.\<close>

definition announced :: "AdvertAppData \<Rightarrow> AdvertAppData" where
  "announced a =
     \<lparr>ad_flags = ad_flags a,
      ad_lat_e6 = (if has_flag (ad_flags a) kAdvHasLocation then ad_lat_e6 a else 0),
      ad_lon_e6 = (if has_flag (ad_flags a) kAdvHasLocation then ad_lon_e6 a else 0),
      ad_feature1 = (if has_flag (ad_flags a) kAdvHasFeature1 then ad_feature1 a else 0),
      ad_feature2 = (if has_flag (ad_flags a) kAdvHasFeature2 then ad_feature2 a else 0),
      ad_name = (if has_flag (ad_flags a) kAdvHasName then ad_name a else [])\<rparr>"

lemma appdata_round_trip: "appdata_decode (appdata_encode a) = Some (announced a)"
  by (simp add: appdata_decode_def appdata_encode_def Let_def put_i32_def put_u32_def put_u16_def
      put_str_def reader_simps le_simps new_appdata_def announced_def)

lemma appdata_encode_length:
  "length (appdata_encode a) =
     1 + (if app_has_location a then 8 else 0)
       + (if has_flag (ad_flags a) kAdvHasFeature1 then 2 else 0)
       + (if has_flag (ad_flags a) kAdvHasFeature2 then 2 else 0)
       + (if app_has_name a then length (ad_name a) else 0)"
  by (simp add: appdata_encode_def app_has_location_def app_has_name_def Let_def put_i32_def
      put_u32_def put_u16_def put_str_def)

lemma advert_round_trip:
  assumes "length (av_pubkey a) = 32" "length (av_signature a) = 64"
  shows "advert_decode (advert_encode a) = Some a"
  using assms by (simp add: advert_decode_def advert_encode_def put_bytes_def put_u32_def
      reader_simps le_simps)

lemma advert_decode_length:
  "advert_decode pl = Some a \<Longrightarrow> length (av_pubkey a) = 32 \<and> length (av_signature a) = 64"
  by (auto simp: advert_decode_def Let_def rd_u32_def reader_simps split: if_splits)

text \<open>An identity whose public key is the one its private scalar yields.\<close>

definition id_wf :: "crypto_ops \<Rightarrow> LocalIdentity \<Rightarrow> bool" where
  "id_wf c self \<longleftrightarrow> base_noclamp c (take 32 (id_priv self)) = Some (id_pub self)"

lemma from_bytes_wf: "from_bytes c key = Some self \<Longrightarrow> id_wf c self"
  by (auto simp: from_bytes_def id_wf_def Let_def split: if_splits option.splits)

lemma generate_wf: "generate c seeds = Some self \<Longrightarrow> id_wf c self"
  by (induction seeds) (auto simp: id_wf_def Let_def split: if_splits option.splits)

lemma id_sign_verifies:
  assumes laws: "crypto_laws c" and wf: "id_wf c self" and ne: "id_sign c self m \<noteq> []"
  shows "length (id_sign c self m) = 64" "verify c (id_pub self) m (id_sign c self m)"
proof -
  let ?a = "take 32 (id_priv self)"
  let ?r = "scalar_reduce c (sha512 c (take 32 (drop 32 (id_priv self)) @ m))"
  from ne obtain R where R: "base_noclamp c ?r = Some R"
    by (auto simp: id_sign_def Let_def split: option.splits)
  have A: "base_noclamp c ?a = Some (id_pub self)"
    using wf by (simp add: id_wf_def)
  have red: "reduce32 c ?a = reduce32 c (id_priv self)"
    by (simp add: reduce32_def)
  have len: "length R = 32" "length (id_pub self) = 32"
    using crypto_lawsD(3) [OF laws] R A by auto
  let ?s = "R @ scalar_add c ?r (scalar_mul c (scalar_reduce c (sha512 c (R @ id_pub self @ m)))
              (reduce32 c ?a))"
  have sig: "id_sign c self m = ?s"
    using R by (simp add: id_sign_def)
  then show l64: "length (id_sign c self m) = 64"
    using len crypto_lawsD(4) [OF laws] by simp
  have "verify_detached c ?s m (id_pub self)"
    using crypto_laws_ed25519 [OF laws R A] .
  then show "verify c (id_pub self) m (id_sign c self m)"
    using l64 len by (simp add: verify_def sig)
qed

lemma advert_create_verifies:
  assumes laws: "crypto_laws c" and wf: "id_wf c self"
    and ne: "av_signature (advert_create c self ts app) \<noteq> []"
  shows "advert_verify c (advert_create c self ts app)"
    "length (av_pubkey (advert_create c self ts app)) = 32"
    "length (av_signature (advert_create c self ts app)) = 64"
proof -
  let ?m = "signed_region (id_pub self) ts (appdata_encode app)"
  have "id_sign c self ?m \<noteq> []"
    using ne by (simp add: advert_create_def Let_def)
  note v = id_sign_verifies [OF laws wf this]
  have "length (id_pub self) = 32"
    using wf crypto_lawsD(3) [OF laws] by (auto simp: id_wf_def)
  with v show "advert_verify c (advert_create c self ts app)"
    "length (av_pubkey (advert_create c self ts app)) = 32"
    "length (av_signature (advert_create c self ts app)) = 64"
    by (simp_all add: advert_verify_def advert_create_def Let_def)
qed

section \<open>Opening what was sealed\<close>

lemma split_sealed_opens:
  assumes "crypto_laws c" "16 \<le> length key" "p \<noteq> []"
  obtains mac ct where "split_sealed (encrypt_and_mac c key p) = (mac, ct)" "length mac = 2"
    "ct \<noteq> []" "mac_and_decrypt c key mac ct = Some (zero_pad p)"
proof (rule encrypt_and_mac_shape [OF assms(1,2), of p])
  fix mac ct
  assume e: "encrypt_and_mac c key p = mac @ ct" "length mac = 2" "length ct = length (zero_pad p)"
    "p \<noteq> [] \<Longrightarrow> mac_and_decrypt c key mac ct = Some (zero_pad p)"
  then have "ct \<noteq> []"
    using assms(3) by auto
  with e assms(3) show thesis
    by (intro that [of mac ct]) (simp_all add: split_sealed_def)
qed

lemma direct_seal_opens:
  assumes "crypto_laws c" "16 \<le> length key" "p \<noteq> []"
  shows "\<exists>e. direct_decode (direct_encode (direct_seal c d s key p)) = Some e \<and>
     de_dest_hash e = d \<and> de_src_hash e = s \<and>
     mac_and_decrypt c key (de_mac e) (de_ciphertext e) = Some (zero_pad p)"
  by (rule split_sealed_opens [OF assms])
    (simp add: direct_seal_def direct_encode_def direct_decode_def put_bytes_def reader_simps)

lemma group_seal_opens:
  assumes "crypto_laws c" "16 \<le> length key" "p \<noteq> []"
  shows "\<exists>e. group_decode (group_encode (group_seal c h key p)) = Some e \<and>
     ge_channel_hash e = h \<and>
     mac_and_decrypt c key (ge_mac e) (ge_ciphertext e) = Some (zero_pad p)"
  by (rule split_sealed_opens [OF assms])
    (simp add: group_seal_def group_encode_def group_decode_def put_bytes_def reader_simps)

lemma anon_seal_opens:
  assumes "crypto_laws c" "16 \<le> length key" "p \<noteq> []" "length pub = 32"
  shows "\<exists>e. anon_decode (anon_encode (anon_seal c d pub key p)) = Some e \<and>
     ae_dest_hash e = d \<and> ae_pubkey e = pub \<and>
     mac_and_decrypt c key (ae_mac e) (ae_ciphertext e) = Some (zero_pad p)"
  by (rule split_sealed_opens [OF assms(1-3)])
    (simp add: anon_seal_def anon_encode_def anon_decode_def put_bytes_def reader_simps assms(4))

section \<open>Padding is invisible to messages and acks\<close>

lemma takeWhile_zeros [simp]:
  "takeWhile (\<lambda>x. x \<noteq> 0) (xs @ replicate k 0) = takeWhile (\<lambda>x. x \<noteq> (0 :: byte)) xs"
proof (induction xs)
  case Nil
  show ?case by (cases k) simp_all
qed simp

lemma byte_mod_less: "a < b \<Longrightarrow> a mod b = (a :: byte)"
  by (simp add: word_unat_eq_iff unat_mod word_less_nat_alt)

lemma text_flags_type [codec_simps]:
  assumes "t < 64"
  shows "flags_type (flags_byte t a) = t"
proof -
  have "take_bit 6 t = t"
    using assms by (simp add: take_bit_eq_mod byte_mod_less)
  then have "bit (take_bit 6 t) 6 = bit t 6" "bit (take_bit 6 t) 7 = bit t 7"
    by simp_all
  then have t: "\<not> bit t 6" "\<not> bit t 7"
    by (simp_all add: bit_take_bit_iff)
  show ?thesis
    unfolding flags_type_def flags_byte_def
    by (rule byte_eqI) (use t in \<open>auto simp: bit_simps dest: bit_imp_le_length\<close>)
qed

lemma text_flags_attempt [codec_simps]:
  assumes "a < 4"
  shows "flags_attempt (flags_byte t a) = a"
proof -
  have "(push_bit 2 t OR (a AND 0x03)) AND 0x03 = a AND 0x03"
    by (rule byte_eqI) (auto simp: bit_simps)
  also have "\<dots> = a"
    using assms by (simp add: and_3_mod byte_mod_less)
  finally show ?thesis
    by (simp add: flags_attempt_def flags_byte_def)
qed

text \<open>
  A message the wire can carry: the type fits six bits, and a signed text has room for the
  key prefix that precedes its string.
\<close>

definition text_wf :: "TextMessage \<Rightarrow> bool" where
  "text_wf m \<longleftrightarrow> tm_txt_type m < 64 \<and>
     (tm_txt_type m = kTxtSignedPlain \<longrightarrow> 4 \<le> length (tm_text m))"

definition string_start :: "TextMessage \<Rightarrow> nat" where
  "string_start m = (if tm_txt_type m = kTxtSignedPlain then 4 else 0)"

lemma string_start_le: "text_wf m \<Longrightarrow> string_start m \<le> length (tm_text m)"
  by (simp add: text_wf_def string_start_def)

lemma text_encode_Cons:
  "text_encode m = ucast (tm_timestamp m) # ucast (drop_bit 8 (tm_timestamp m)) #
     ucast (drop_bit 16 (tm_timestamp m)) # ucast (drop_bit 24 (tm_timestamp m)) #
     flags_byte (tm_txt_type m) (tm_attempt m) # tm_text m"
  by (simp add: text_encode_def put_u32_def put_bytes_def)

lemma length_text_encode: "length (text_encode m) = 5 + length (tm_text m)"
  by (simp add: text_encode_Cons)

lemma text_offset_padded:
  assumes "text_wf m"
  shows "text_offset (text_encode m @ replicate k 0) = 5 + string_start m"
  using assms by (auto simp: text_offset_def text_encode_Cons text_wf_def string_start_def
      kTextHeaderSize_def kSignedPrefixSize_def codec_simps)

lemma nul_from_padded: "i \<le> length b \<Longrightarrow> nul_from (b @ replicate k 0) i = nul_from b i"
  by (simp add: nul_from_def)

lemma nul_from_bounds: "i \<le> length b \<Longrightarrow> nul_from b i \<le> length b" "i \<le> nul_from b i"
  using length_takeWhile_le [of "\<lambda>x. x \<noteq> 0" "drop i b"] by (simp_all add: nul_from_def)

lemma ack_region_padded:
  assumes "text_wf m"
  shows "ack_hashed_region (text_encode m @ replicate k 0) =
     take (nul_from (text_encode m) (5 + string_start m)) (text_encode m)"
proof -
  let ?b = "text_encode m" and ?i = "5 + string_start m"
  have i: "?i \<le> length ?b"
    using string_start_le [OF assms] by (simp add: length_text_encode)
  have n: "nul_from (?b @ replicate k 0) ?i = nul_from ?b ?i" "nul_from ?b ?i \<le> length ?b"
    "?i \<le> nul_from ?b ?i"
    using nul_from_padded [OF i] nul_from_bounds(1) [OF i] nul_from_bounds(2) by auto
  show ?thesis
  proof (cases "length (?b @ replicate k 0) \<le> 5")
    case True
    then have "k = 0" "length ?b \<le> nul_from ?b ?i"
      using n(3) by (auto simp: length_text_encode)
    then show ?thesis
      using True by (simp add: ack_hashed_region_def kTextHeaderSize_def)
  next
    case False
    then show ?thesis
      using n text_offset_padded [OF assms, of k]
      by (simp add: ack_hashed_region_def kTextHeaderSize_def subview_take)
  qed
qed

lemma message_ack_hash_padded:
  assumes "text_wf m"
  shows "message_ack_hash c (zero_pad (text_encode m)) key = message_ack_hash c (text_encode m) key"
  using ack_region_padded [OF assms] ack_region_padded [OF assms, of 0]
  by (simp add: message_ack_hash_def zero_pad_def)

lemma text_decode_padded:
  assumes wf: "text_wf m" and str: "0 \<notin> set (drop (string_start m) (tm_text m))"
    and att: "tm_attempt m < 4"
  shows "text_decode (zero_pad (text_encode m)) = Some (m\<lparr>tm_extended_attempt := 0\<rparr>)"
proof -
  obtain k where k: "zero_pad (text_encode m) = text_encode m @ replicate k 0"
    by (simp add: zero_pad_def)
  have off: "text_offset (text_encode m @ replicate k 0) = 5 + string_start m"
    by (rule text_offset_padded [OF wf])
  have "\<forall>x \<in> set (drop (string_start m) (tm_text m)). x \<noteq> 0"
    using str by auto
  then have "length (takeWhile (\<lambda>x. x \<noteq> 0) (drop (string_start m) (tm_text m))) =
      length (tm_text m) - string_start m"
    by (subst takeWhile_eq_all_conv [THEN iffD2]) simp_all
  then have e: "nul_from (tm_text m @ replicate k 0) (string_start m) = length (tm_text m)"
    using string_start_le [OF wf] by (simp add: nul_from_def)
  have "tm_txt_type m < 64"
    using wf by (simp add: text_wf_def)
  then show ?thesis
    using off e att unfolding k text_decode_def
    by (simp add: text_encode_Cons reader_simps le_simps codec_simps kTextHeaderSize_def
        nth_append Let_def)
qed

section \<open>Returned paths survive padding\<close>

lemma path_return_padded:
  assumes hs: "1 \<le> pr_path_hash_size p" "pr_path_hash_size p \<le> 3"
    and len: "length (pr_path p) mod unat (pr_path_hash_size p) = 0"
      "length (pr_path p) div unat (pr_path_hash_size p) \<le> 63" "length (pr_path p) \<le> 64"
    and ex: "pr_has_extra p"
  shows "path_return_decode (zero_pad (path_return_encode p)) =
     Some (p\<lparr>pr_extra_type := pr_extra_type p AND 0x0F,
             pr_extra := drop (Suc (Suc (length (pr_path p)))) (zero_pad (path_return_encode p))\<rparr>)"
proof -
  obtain k where k: "zero_pad (path_return_encode p) = path_return_encode p @ replicate k 0"
    by (simp add: zero_pad_def)
  let ?pl = "pack_path_len (pr_path_hash_size p) (pr_path p)"
  have "drop_bit 6 ?pl + 1 = pl_hash_size ?pl"
    unfolding pl_hash_size_def
    by (rule arg_cong [where f = "\<lambda>x. x + 1"], rule byte_eqI)
      (auto simp: bit_simps dest: bit_imp_le_length)
  then have size: "drop_bit 6 ?pl + 1 = pr_path_hash_size p"
    using hs by (simp add: pack_len_size)
  have hops: "unat (?pl AND 0x3F) = length (pr_path p) div unat (pr_path_hash_size p)"
    using pack_len_hops [OF hs(1) len(2)] by (simp add: pl_hops_def)
  have "length (pr_path p) div unat (pr_path_hash_size p) * unat (pr_path_hash_size p)
      = length (pr_path p)"
    using len(1) by (metis add.right_neutral div_mult_mod_eq)
  moreover have "pr_path_hash_size p \<noteq> 4"
    using hs(2) by auto
  ultimately show ?thesis
    unfolding k path_return_decode_def
    using ex len(3)
    by (simp add: path_return_encode_def put_bytes_def reader_simps Let_def size hops)
qed

section \<open>Properties\<close>

text \<open>
  C28. An advert made by a node passes its own checks at every receiver: put on the wire and
  decoded it is the same advert, its signature verifies, and its application data reads back as
  what the node announces.
\<close>

theorem advert_over_the_air:
  assumes "crypto_laws c" "id_wf c self" "av_signature (advert_create c self ts app) \<noteq> []"
  shows "advert_decode (advert_encode (advert_create c self ts app)) = Some (advert_create c self ts app) \<and>
    advert_verify c (advert_create c self ts app) \<and>
    appdata_decode (av_appdata (advert_create c self ts app)) = Some (announced app)"
proof -
  note v = advert_create_verifies [OF assms]
  have "av_appdata (advert_create c self ts app) = appdata_encode app"
    by (simp add: advert_create_def Let_def)
  with v show ?thesis by (simp add: advert_round_trip appdata_round_trip)
qed

theorem advert_over_the_air_witness:
  "advert_verify plain_crypto
     (advert_create plain_crypto \<lparr>id_pub = replicate 32 1, id_priv = replicate 64 1\<rparr> 7 new_appdata)"
proof -
  let ?id = "\<lparr>id_pub = replicate 32 (1 :: byte), id_priv = replicate 64 1\<rparr>"
  have wf: "id_wf plain_crypto ?id"
    by (simp add: id_wf_def plain_crypto_def resize_def)
  have "av_signature (advert_create plain_crypto ?id 7 new_appdata) \<noteq> []"
    by (simp add: advert_create_def id_sign_def plain_crypto_def Let_def flip: length_greater_0_conv)
  from advert_over_the_air [OF plain_crypto_laws wf this] show ?thesis by simp
qed

text \<open>
  C7. A text message sealed for a contact and put on the wire opens under the shared key to the
  same message, and the receiver, who hashes the padded plaintext, computes the acknowledgement
  hash the sender is waiting for.
\<close>

theorem text_over_the_air:
  assumes "crypto_laws c" "16 \<le> length key" "text_wf m"
    and "0 \<notin> set (drop (string_start m) (tm_text m))" "tm_attempt m < 4"
  shows "\<exists>e plain. direct_decode (direct_encode (direct_seal c d s key (text_encode m))) = Some e \<and>
    de_dest_hash e = d \<and> de_src_hash e = s \<and>
    mac_and_decrypt c key (de_mac e) (de_ciphertext e) = Some plain \<and>
    text_decode plain = Some (m\<lparr>tm_extended_attempt := 0\<rparr>) \<and>
    message_ack_hash c plain pub = message_ack_hash c (text_encode m) pub"
proof -
  have "text_encode m \<noteq> []" by (simp add: text_encode_Cons)
  from direct_seal_opens [OF assms(1,2) this] show ?thesis
    using text_decode_padded [OF assms(3-5)] message_ack_hash_padded [OF assms(3)] by metis
qed

theorem text_over_the_air_witness:
  "\<exists>e plain. direct_decode (direct_encode (direct_seal plain_crypto 3 4 (replicate 32 5)
      (text_encode \<lparr>tm_timestamp = 9, tm_txt_type = kTxtPlain, tm_attempt = 1,
         tm_extended_attempt = 0, tm_text = [104, 105]\<rparr>))) = Some e \<and>
    mac_and_decrypt plain_crypto (replicate 32 5) (de_mac e) (de_ciphertext e) = Some plain \<and>
    text_decode plain = Some \<lparr>tm_timestamp = 9, tm_txt_type = kTxtPlain, tm_attempt = 1,
         tm_extended_attempt = 0, tm_text = [104, 105]\<rparr>"
proof -
  let ?m = "\<lparr>tm_timestamp = 9, tm_txt_type = kTxtPlain, tm_attempt = 1,
     tm_extended_attempt = 0, tm_text = [104, 105]\<rparr>"
  have "text_wf ?m" "0 \<notin> set (drop (string_start ?m) (tm_text ?m))" "tm_attempt ?m < 4"
    by (simp_all add: text_wf_def string_start_def kTxtPlain_def kTxtSignedPlain_def)
  from text_over_the_air [OF plain_crypto_laws _ this, of "replicate 32 5" 3 4 "[]"]
  show ?thesis by auto
qed

text \<open>
  A channel message sealed with the channel's key opens, for whoever holds the key, to the
  message that was sent.
\<close>

theorem channel_text_over_the_air:
  assumes "crypto_laws c" "16 \<le> length key" "text_wf m"
    and "0 \<notin> set (drop (string_start m) (tm_text m))" "tm_attempt m < 4"
  shows "\<exists>e plain. group_decode (group_encode (group_seal c h key (text_encode m))) = Some e \<and>
    ge_channel_hash e = h \<and> mac_and_decrypt c key (ge_mac e) (ge_ciphertext e) = Some plain \<and>
    text_decode plain = Some (m\<lparr>tm_extended_attempt := 0\<rparr>)"
proof -
  have "text_encode m \<noteq> []" by (simp add: text_encode_Cons)
  from group_seal_opens [OF assms(1,2) this] show ?thesis
    using text_decode_padded [OF assms(3-5)] by metis
qed

theorem channel_text_over_the_air_witness:
  "\<exists>e plain. group_decode (group_encode (group_seal plain_crypto 3 (replicate 16 5)
      (text_encode \<lparr>tm_timestamp = 9, tm_txt_type = kTxtPlain, tm_attempt = 0,
         tm_extended_attempt = 0, tm_text = [104, 105]\<rparr>))) = Some e \<and>
    mac_and_decrypt plain_crypto (replicate 16 5) (ge_mac e) (ge_ciphertext e) = Some plain \<and>
    text_decode plain \<noteq> None"
proof -
  let ?m = "\<lparr>tm_timestamp = 9, tm_txt_type = kTxtPlain, tm_attempt = 0,
     tm_extended_attempt = 0, tm_text = [104, 105]\<rparr>"
  have "text_wf ?m" "0 \<notin> set (drop (string_start ?m) (tm_text ?m))" "tm_attempt ?m < 4"
    by (simp_all add: text_wf_def string_start_def kTxtPlain_def kTxtSignedPlain_def)
  from channel_text_over_the_air [OF plain_crypto_laws _ this, of "replicate 16 5" 3]
  show ?thesis by auto
qed

text \<open>
  A path return survives sealing: the receiver reads back the route and its hash width, the
  type of what rides along, and that something that begins with what was put in, followed by the
  zeros of the block padding.
\<close>

theorem path_return_over_the_air:
  assumes "1 \<le> pr_path_hash_size p" "pr_path_hash_size p \<le> 3"
    and "length (pr_path p) mod unat (pr_path_hash_size p) = 0"
    and "length (pr_path p) div unat (pr_path_hash_size p) \<le> 63" "length (pr_path p) \<le> 64"
    and "pr_has_extra p" "pr_extra_type p < 16"
  shows "\<exists>q. path_return_decode (zero_pad (path_return_encode p)) = Some q \<and>
    pr_path q = pr_path p \<and> pr_path_hash_size q = pr_path_hash_size p \<and>
    pr_extra_type q = pr_extra_type p \<and> pr_has_extra q \<and>
    take (length (pr_extra p)) (pr_extra q) = pr_extra p"
proof -
  have ty: "pr_extra_type p AND 0x0F = pr_extra_type p"
    using assms(7) by (simp add: low_nibble_mod byte_mod_less)
  have "take (length (pr_extra p)) (drop (Suc (Suc (length (pr_path p)))) (zero_pad (path_return_encode p))) =
      pr_extra p"
    using assms(6) by (simp add: zero_pad_def path_return_encode_def put_bytes_def)
  then show ?thesis
    using path_return_padded [OF assms(1-6)] ty assms(6) by simp
qed

theorem path_return_over_the_air_witness:
  "\<exists>q. path_return_decode (zero_pad (path_return_encode
      \<lparr>pr_path = [1, 2], pr_path_hash_size = 1, pr_extra_type = 3, pr_extra = [5, 6, 7, 8],
       pr_has_extra = True\<rparr>)) = Some q \<and> pr_path q = [1, 2] \<and>
    take (length [5, 6, 7, 8 :: byte]) (pr_extra q) = [5, 6, 7, 8]"
  using path_return_over_the_air [of "\<lparr>pr_path = [1, 2], pr_path_hash_size = 1, pr_extra_type = 3,
     pr_extra = [5, 6, 7, 8], pr_has_extra = True\<rparr>"] by auto

end
