(* ===== verification/Frames.thy ===== *)
theory Frames
  imports Payloads
begin

text \<open>
  The companion protocol's codes and stream framing, \<^verbatim>\<open>src/src/companion/frames.h\<close> and
  \<^verbatim>\<open>frames.cpp\<close>: the command, response, push and error enumerations, the incremental
  de-framer \<^verbatim>\<open>FrameReader\<close> with its resynchronisation, and the fixed reply shapes. The
  lemmas show that the de-framer terminates, inverts the framing, delivers the same frames
  however the stream is cut into reads, and keeps its buffer bounded.
\<close>

section \<open>Codes\<close>

datatype Cmd =
    CmdAppStart | CmdSendTxtMsg | CmdSendChannelTxtMsg | CmdGetContacts | CmdGetDeviceTime
    | CmdSetDeviceTime | CmdSendSelfAdvert | CmdSetAdvertName | CmdAddUpdateContact
    | CmdSyncNextMessage | CmdSetRadioParams | CmdSetRadioTxPower | CmdResetPath
    | CmdSetAdvertLatLon | CmdRemoveContact | CmdShareContact | CmdExportContact
    | CmdImportContact | CmdReboot | CmdGetBatteryVoltage | CmdSetTuningParams | CmdDeviceQuery
    | CmdExportPrivateKey | CmdImportPrivateKey | CmdSendRawData | CmdSendLogin
    | CmdSendStatusReq | CmdHasConnection | CmdLogout | CmdGetContactByKey | CmdGetChannel
    | CmdSetChannel | CmdSignStart | CmdSignData | CmdSignFinish | CmdSendTracePath
    | CmdSetDevicePin | CmdSetOtherParams | CmdSendTelemetryReq | CmdGetCustomVars
    | CmdSetCustomVar | CmdGetAdvertPath | CmdGetTuningParams

fun cmd_code :: "Cmd \<Rightarrow> byte" where
  "cmd_code CmdAppStart = 1"
| "cmd_code CmdSendTxtMsg = 2"
| "cmd_code CmdSendChannelTxtMsg = 3"
| "cmd_code CmdGetContacts = 4"
| "cmd_code CmdGetDeviceTime = 5"
| "cmd_code CmdSetDeviceTime = 6"
| "cmd_code CmdSendSelfAdvert = 7"
| "cmd_code CmdSetAdvertName = 8"
| "cmd_code CmdAddUpdateContact = 9"
| "cmd_code CmdSyncNextMessage = 10"
| "cmd_code CmdSetRadioParams = 11"
| "cmd_code CmdSetRadioTxPower = 12"
| "cmd_code CmdResetPath = 13"
| "cmd_code CmdSetAdvertLatLon = 14"
| "cmd_code CmdRemoveContact = 15"
| "cmd_code CmdShareContact = 16"
| "cmd_code CmdExportContact = 17"
| "cmd_code CmdImportContact = 18"
| "cmd_code CmdReboot = 19"
| "cmd_code CmdGetBatteryVoltage = 20"
| "cmd_code CmdSetTuningParams = 21"
| "cmd_code CmdDeviceQuery = 22"
| "cmd_code CmdExportPrivateKey = 23"
| "cmd_code CmdImportPrivateKey = 24"
| "cmd_code CmdSendRawData = 25"
| "cmd_code CmdSendLogin = 26"
| "cmd_code CmdSendStatusReq = 27"
| "cmd_code CmdHasConnection = 28"
| "cmd_code CmdLogout = 29"
| "cmd_code CmdGetContactByKey = 30"
| "cmd_code CmdGetChannel = 31"
| "cmd_code CmdSetChannel = 32"
| "cmd_code CmdSignStart = 33"
| "cmd_code CmdSignData = 34"
| "cmd_code CmdSignFinish = 35"
| "cmd_code CmdSendTracePath = 36"
| "cmd_code CmdSetDevicePin = 37"
| "cmd_code CmdSetOtherParams = 38"
| "cmd_code CmdSendTelemetryReq = 39"
| "cmd_code CmdGetCustomVars = 40"
| "cmd_code CmdSetCustomVar = 41"
| "cmd_code CmdGetAdvertPath = 42"
| "cmd_code CmdGetTuningParams = 43"

definition all_cmds :: "Cmd list" where
  "all_cmds =
    [CmdAppStart, CmdSendTxtMsg, CmdSendChannelTxtMsg, CmdGetContacts, CmdGetDeviceTime
     , CmdSetDeviceTime, CmdSendSelfAdvert, CmdSetAdvertName, CmdAddUpdateContact
     , CmdSyncNextMessage, CmdSetRadioParams, CmdSetRadioTxPower, CmdResetPath
     , CmdSetAdvertLatLon, CmdRemoveContact, CmdShareContact, CmdExportContact
     , CmdImportContact, CmdReboot, CmdGetBatteryVoltage, CmdSetTuningParams, CmdDeviceQuery
     , CmdExportPrivateKey, CmdImportPrivateKey, CmdSendRawData, CmdSendLogin, CmdSendStatusReq
     , CmdHasConnection, CmdLogout, CmdGetContactByKey, CmdGetChannel, CmdSetChannel
     , CmdSignStart, CmdSignData, CmdSignFinish, CmdSendTracePath, CmdSetDevicePin
     , CmdSetOtherParams, CmdSendTelemetryReq, CmdGetCustomVars, CmdSetCustomVar
     , CmdGetAdvertPath, CmdGetTuningParams]"

definition cmd_of :: "byte \<Rightarrow> Cmd option" where
  "cmd_of b = find (\<lambda>c. cmd_code c = b) all_cmds"

datatype Resp =
    RespOk | RespErr | RespContactsStart | RespContact | RespEndOfContacts | RespSelfInfo
    | RespSent | RespContactMsgRecv | RespChannelMsgRecv | RespCurrTime | RespNoMoreMessages
    | RespExportContact | RespBatteryVoltage | RespDeviceInfo | RespPrivateKey | RespDisabled
    | RespContactMsgRecvV3 | RespChannelMsgRecvV3 | RespChannelInfo | RespSignStart
    | RespSignature | RespCustomVars | RespAdvertPath | RespTuningParams

fun resp_code :: "Resp \<Rightarrow> byte" where
  "resp_code RespOk = 0"
| "resp_code RespErr = 1"
| "resp_code RespContactsStart = 2"
| "resp_code RespContact = 3"
| "resp_code RespEndOfContacts = 4"
| "resp_code RespSelfInfo = 5"
| "resp_code RespSent = 6"
| "resp_code RespContactMsgRecv = 7"
| "resp_code RespChannelMsgRecv = 8"
| "resp_code RespCurrTime = 9"
| "resp_code RespNoMoreMessages = 10"
| "resp_code RespExportContact = 11"
| "resp_code RespBatteryVoltage = 12"
| "resp_code RespDeviceInfo = 13"
| "resp_code RespPrivateKey = 14"
| "resp_code RespDisabled = 15"
| "resp_code RespContactMsgRecvV3 = 16"
| "resp_code RespChannelMsgRecvV3 = 17"
| "resp_code RespChannelInfo = 18"
| "resp_code RespSignStart = 19"
| "resp_code RespSignature = 20"
| "resp_code RespCustomVars = 21"
| "resp_code RespAdvertPath = 22"
| "resp_code RespTuningParams = 23"

datatype Push =
    PushAdvert | PushPathUpdated | PushSendConfirmed | PushMsgWaiting | PushRawData
    | PushLoginSuccess | PushLoginFail | PushStatusResponse | PushLogRxData | PushTraceData
    | PushNewAdvert | PushTelemetryResponse

fun push_code :: "Push \<Rightarrow> byte" where
  "push_code PushAdvert = 0x80"
| "push_code PushPathUpdated = 0x81"
| "push_code PushSendConfirmed = 0x82"
| "push_code PushMsgWaiting = 0x83"
| "push_code PushRawData = 0x84"
| "push_code PushLoginSuccess = 0x85"
| "push_code PushLoginFail = 0x86"
| "push_code PushStatusResponse = 0x87"
| "push_code PushLogRxData = 0x88"
| "push_code PushTraceData = 0x89"
| "push_code PushNewAdvert = 0x8a"
| "push_code PushTelemetryResponse = 0x8b"

datatype Err =
    ErrUnsupportedCmd | ErrNotFound | ErrTableFull | ErrBadState | ErrFileIoError
    | ErrIllegalArg

fun err_code :: "Err \<Rightarrow> byte" where
  "err_code ErrUnsupportedCmd = 1"
| "err_code ErrNotFound = 2"
| "err_code ErrTableFull = 3"
| "err_code ErrBadState = 4"
| "err_code ErrFileIoError = 5"
| "err_code ErrIllegalArg = 6"

definition kFirmwareVersion :: byte where "kFirmwareVersion = 3"
definition kContactPathField :: nat where "kContactPathField = 64"
definition kContactNameField :: nat where "kContactNameField = 32"
definition kChannelNameField :: nat where "kChannelNameField = 32"
definition kChannelSecretSize :: nat where "kChannelSecretSize = 16"
definition kNoPath :: byte where "kNoPath = 0xFF"

definition kFrameToDevice :: byte where "kFrameToDevice = of_char CHR ''<''"
definition kFrameToApp :: byte where "kFrameToApp = of_char CHR ''>''"
definition kMaxFrameSize :: nat where "kMaxFrameSize = 8192"

lemmas frame_consts = kFrameToDevice_def kFrameToApp_def kMaxFrameSize_def

section \<open>The de-framer\<close>

text \<open>The state of \<^verbatim>\<open>FrameReader\<close> is its buffer \<^verbatim>\<open>buf_\<close>.\<close>

definition frame_feed :: "bytes \<Rightarrow> bytes \<Rightarrow> bytes" where
  "frame_feed buf data = buf @ data"

definition not_marker :: "byte \<Rightarrow> bool" where
  "not_marker b \<longleftrightarrow> b \<noteq> kFrameToDevice \<and> b \<noteq> kFrameToApp"

lemma length_dropWhile_step:
  "dropWhile P xs = m # t \<Longrightarrow> length t < length xs"
  by (metis impossible_Cons length_dropWhile_le not_le_imp_less le_trans)

function frame_next :: "bytes \<Rightarrow> bytes option \<times> bytes" where
  "frame_next buf0 =
    (let buf = dropWhile not_marker buf0;
         r = rd_skip 1 (Reader buf);
         (len, r) = rd_u16 r
     in if \<not> rd_ok r then (None, buf)
        else if unat len > kMaxFrameSize then frame_next (drop 1 buf)
        else let (frame, r) = rd_take (unat len) r
             in if \<not> rd_ok r then (None, buf)
                else (Some frame, drop (3 + unat len) buf))"
  by pat_completeness auto
termination
proof (relation "measure length")
  fix buf0 buf r x len r'
  assume buf: "buf = dropWhile not_marker buf0" and ok: "r = rd_skip 1 (Reader buf)" "x = rd_u16 r"
    "(len, r') = x" "\<not> \<not> rd_ok r'"
  from ok have "buf \<noteq> []"
    by (intro notI) (simp add: rd_skip_def reader_simps)
  then obtain m t where t: "buf = m # t"
    by (cases buf) auto
  with buf length_dropWhile_step [of not_marker buf0 m t] have "length t < length buf0"
    by metis
  then show "(drop 1 buf, buf0) \<in> measure length"
    by (simp add: t)
qed simp

definition frame_response :: "bytes \<Rightarrow> bytes" where
  "frame_response pl = put_bytes (put_u16 [kFrameToApp] (word_of_nat (length pl))) pl"

definition resp_ok :: bytes where
  "resp_ok = [resp_code RespOk]"

definition resp_ok_value :: "u32 \<Rightarrow> bytes" where
  "resp_ok_value v = put_u32 [resp_code RespOk] v"

definition resp_err :: "Err \<Rightarrow> bytes" where
  "resp_err e = [resp_code RespErr, err_code e]"

section \<open>One step of the de-framer\<close>

declare frame_next.simps [simp del]

lemma frame_next_short:
  assumes "dropWhile not_marker buf = b" "length b < 3"
  shows "frame_next buf = (None, b)"
proof -
  have "b = [] \<or> (\<exists>m t. b = m # t \<and> length t < 2)"
    using assms(2) by (cases b) auto
  then show ?thesis
    by (subst frame_next.simps) (auto simp: assms(1) rd_skip_def reader_simps)
qed

lemma frame_next_long:
  assumes "dropWhile not_marker buf = m # a # b # t"
  shows "frame_next buf =
     (if kMaxFrameSize < unat (le16 a b) then frame_next (a # b # t)
      else if length t < unat (le16 a b) then (None, m # a # b # t)
      else (Some (take (unat (le16 a b)) t), drop (unat (le16 a b)) t))"
  by (subst frame_next.simps) (simp add: assms rd_skip_def reader_simps numeral_3_eq_3)

lemma frame_next_cases [case_names short resync wait frame]:
  assumes "\<And>b. dropWhile not_marker buf = b \<Longrightarrow> length b < 3 \<Longrightarrow> P"
    and "\<And>m a b t. dropWhile not_marker buf = m # a # b # t \<Longrightarrow> kMaxFrameSize < unat (le16 a b) \<Longrightarrow> P"
    and "\<And>m a b t. dropWhile not_marker buf = m # a # b # t \<Longrightarrow> unat (le16 a b) \<le> kMaxFrameSize \<Longrightarrow>
           length t < unat (le16 a b) \<Longrightarrow> P"
    and "\<And>m a b t. dropWhile not_marker buf = m # a # b # t \<Longrightarrow> unat (le16 a b) \<le> kMaxFrameSize \<Longrightarrow>
           unat (le16 a b) \<le> length t \<Longrightarrow> P"
  shows P
proof (cases "length (dropWhile not_marker buf) < 3")
  case False
  then obtain m a b t where "dropWhile not_marker buf = m # a # b # t"
    by (auto simp: not_less numeral_3_eq_3 Suc_le_length_iff)
  then show ?thesis
    using assms(2-4) by (meson not_le_imp_less)
qed (use assms(1) in blast)

lemma frame_next_shrinks: "frame_next buf = (Some f, b) \<Longrightarrow> length b < length buf"
proof (induction buf arbitrary: b rule: length_induct)
  case (1 buf)
  show ?case
  proof (cases buf rule: frame_next_cases)
    case (resync m a c t)
    have l: "length (a # c # t) < length buf"
      by (rule length_dropWhile_step [OF resync(1)])
    have "frame_next (a # c # t) = (Some f, b)"
      using "1.prems" resync by (simp add: frame_next_long)
    with "1.IH" l have "length b < length (a # c # t)"
      by blast
    with l show ?thesis
      by simp
  next
    case (frame m a c t)
    have "length (a # c # t) < length buf"
      by (rule length_dropWhile_step [OF frame(1)])
    with "1.prems" frame show ?thesis
      by (auto simp: frame_next_long)
  qed (use "1.prems" in \<open>auto simp: frame_next_short frame_next_long\<close>)
qed

text \<open>
  \<^verbatim>\<open>Server::on_client_ready\<close> takes frames out of the reader until it needs more bytes; each
  frame shortens the buffer, so the loop ends.
\<close>

function frame_drain :: "bytes \<Rightarrow> bytes list \<times> bytes" where
  "frame_drain buf =
     (case frame_next buf of
        (None, b) \<Rightarrow> ([], b)
      | (Some f, b) \<Rightarrow> (let (fs, b') = frame_drain b in (f # fs, b')))"
  by pat_completeness auto
termination
  by (relation "measure length") (auto dest: frame_next_shrinks [OF sym])

declare frame_drain.simps [simp del]

section \<open>The stream may be cut anywhere\<close>

lemma dropWhile_append_Cons:
  "dropWhile P xs = y # ys \<Longrightarrow> dropWhile P (xs @ d) = (y # ys) @ d"
  by (induction xs) (auto split: if_splits)

lemma dropWhile_twice: "dropWhile P (dropWhile P xs @ d) = dropWhile P (xs @ d)"
  by (induction xs) auto

lemma frame_next_dropWhile: "frame_next (dropWhile not_marker buf @ d) = frame_next (buf @ d)"
  by (subst (1 2) frame_next.simps) (simp only: dropWhile_twice)

lemma frame_next_extend:
  "frame_next (buf @ d) =
     (case frame_next buf of (None, b) \<Rightarrow> frame_next (b @ d) | (Some f, b) \<Rightarrow> (Some f, b @ d))"
proof (induction buf rule: length_induct)
  case (1 buf)
  show ?case
  proof (cases buf rule: frame_next_cases)
    case (short b)
    then show ?thesis
      by (auto simp: frame_next_short frame_next_dropWhile)
  next
    case (resync m a c t)
    have "length (a # c # t) < length buf"
      by (rule length_dropWhile_step [OF resync(1)])
    note IH = "1.IH" [rule_format, OF this]
    from resync show ?thesis
      using frame_next_long [OF dropWhile_append_Cons [OF resync(1), of d, simplified]] IH
      by (simp add: frame_next_long)
  next
    case (wait m a c t)
    then show ?thesis
      using frame_next_dropWhile [of buf d] by (simp add: frame_next_long)
  next
    case (frame m a c t)
    then show ?thesis
      using frame_next_long [OF dropWhile_append_Cons [OF frame(1), of d, simplified]]
      by (simp add: frame_next_long)
  qed
qed

lemma frame_drain_extend:
  "frame_drain (buf @ d) =
     (let (fs, b) = frame_drain buf; (gs, b') = frame_drain (b @ d) in (fs @ gs, b'))"
proof (induction buf rule: frame_drain.induct)
  case (1 buf)
  show ?case
  proof (cases "frame_next buf")
    case (Pair r b)
    show ?thesis
    proof (cases r)
      case None
      then have "frame_next (buf @ d) = frame_next (b @ d)"
        using Pair by (simp add: frame_next_extend)
      then have "frame_drain (buf @ d) = frame_drain (b @ d)"
        by (subst (1 2) frame_drain.simps) simp
      with None Pair show ?thesis
        by (simp add: frame_drain.simps [of buf] split: prod.splits)
    next
      case (Some f)
      have "frame_drain (buf @ d) = (let (fs, b') = frame_drain (b @ d) in (f # fs, b'))"
        using Pair Some by (subst frame_drain.simps) (simp add: frame_next_extend)
      with 1 [OF Pair [symmetric] Some] Pair Some show ?thesis
        by (simp add: frame_drain.simps [of buf] split: prod.splits)
    qed
  qed
qed

lemma frame_drain_rest: "frame_drain buf = (fs, b) \<Longrightarrow> frame_drain b = ([], b)"
proof (induction buf arbitrary: fs rule: frame_drain.induct)
  case (1 buf)
  obtain r c where nx: "frame_next buf = (r, c)" by fastforce
  show ?case
  proof (cases r)
    case None
    then have "frame_next c = (None, c)" using nx frame_next_extend [of buf "[]"] by simp
    moreover have "b = c" using "1.prems" nx None by (simp add: frame_drain.simps [of buf])
    ultimately show ?thesis by (simp add: frame_drain.simps [of c])
  next
    case (Some f)
    then show ?thesis
      using 1 nx by (auto simp: frame_drain.simps [of buf] split: prod.splits)
  qed
qed

section \<open>Framing round trip and the buffer bound\<close>

lemma frame_round_trip:
  assumes "length pl \<le> kMaxFrameSize"
  shows "frame_next (frame_response pl @ rest) = (Some pl, rest)"
proof -
  let ?n = "word_of_nat (length pl) :: u16"
  have n: "unat ?n = length pl"
    using assms by (simp add: unat_of_nat kMaxFrameSize_def)
  have "dropWhile not_marker (frame_response pl @ rest) =
      kFrameToApp # ucast ?n # ucast (drop_bit 8 ?n) # pl @ rest"
    by (simp add: frame_response_def put_bytes_def put_u16_def not_marker_def)
  from frame_next_long [OF this] show ?thesis
    using assms by (simp add: le_simps n)
qed

lemma frame_drain_frames:
  "\<forall>pl \<in> set pls. length pl \<le> kMaxFrameSize \<Longrightarrow>
     frame_drain (concat (map frame_response pls)) = (pls, [])"
proof (induction pls)
  case Nil
  show ?case
    by (subst frame_drain.simps) (simp add: frame_next_short)
next
  case (Cons pl pls)
  then show ?case
    by (subst frame_drain.simps) (simp add: frame_round_trip)
qed

lemma frame_next_bounded:
  "frame_next buf = (None, b) \<Longrightarrow> length b < 3 + kMaxFrameSize"
proof (induction buf rule: length_induct)
  case (1 buf)
  show ?case
  proof (cases buf rule: frame_next_cases)
    case (resync m a c t)
    have "length (a # c # t) < length buf"
      by (rule length_dropWhile_step [OF resync(1)])
    moreover have "frame_next (a # c # t) = (None, b)"
      using "1.prems" resync by (simp add: frame_next_long)
    ultimately show ?thesis
      using "1.IH" by blast
  next
    case (wait m a c t)
    then have "b = m # a # c # t"
      using "1.prems" by (simp add: frame_next_long)
    with wait show ?thesis
      by simp
  qed (use "1.prems" in \<open>auto simp: frame_next_short frame_next_long\<close>)
qed

lemma frame_drain_bounded: "frame_drain buf = (fs, b) \<Longrightarrow> length b < 3 + kMaxFrameSize"
proof (induction buf arbitrary: fs rule: frame_drain.induct)
  case (1 buf)
  then show ?case
    by (auto simp: frame_drain.simps [of buf] frame_next_bounded split: prod.splits option.splits)
qed

section \<open>Codes are distinct\<close>

lemma cmd_of_code: "cmd_of (cmd_code c) = Some c"
  by (cases c) (simp_all add: cmd_of_def all_cmds_def)

section \<open>Properties\<close>

text \<open>
  C29. What the frame reader hands out does not depend on how the byte stream was cut: feeding
  two chunks and draining after each gives the frames, and leaves the buffer, of draining their
  concatenation; and no more than one frame's bytes stay buffered.
\<close>

theorem frame_stream_cut:
  "(case frame_drain buf of (fs, b) \<Rightarrow> case frame_drain (frame_feed b d) of (gs, b') \<Rightarrow>
      (fs @ gs, b') = frame_drain (frame_feed buf d) \<and> length b' < 3 + kMaxFrameSize)"
  using frame_drain_extend [of buf d] frame_drain_bounded
  by (auto simp: frame_feed_def Let_def split: prod.splits)

text \<open>
  Frames written one after the other are read back as they were, in order, and whatever
  follows the last one stays in the buffer to be read next.
\<close>

theorem frames_round_trip:
  assumes "\<forall>pl \<in> set pls. length pl \<le> kMaxFrameSize"
  shows "frame_drain (concat (map frame_response pls) @ rest) =
    (case frame_drain rest of (fs, b) \<Rightarrow> (pls @ fs, b))"
  using frame_drain_extend [of "concat (map frame_response pls)" rest] frame_drain_frames [OF assms]
  by (simp add: Let_def)

theorem frames_round_trip_witness:
  "frame_drain (concat (map frame_response [[1, 2], [], [3]]) @ [62]) = ([[1, 2], [], [3]], [62])"
proof -
  have h: "\<forall>pl \<in> set [[1, 2], [], [3 :: byte]]. length pl \<le> kMaxFrameSize" by (simp add: kMaxFrameSize_def)
  have "frame_drain [62] = ([], [62])"
    by (subst frame_drain.simps) (simp add: frame_next_short not_marker_def frame_consts)
  with frames_round_trip [OF h, of "[62]"] show ?thesis by simp
qed

end
