(* ===== verification/Records.thy ===== *)
theory Records
  imports Frames
begin

text \<open>
  The line-per-record state files: \<^verbatim>\<open>src/src/mesh/record.h\<close> (field splitting, bounds-checked
  numbers), the decimal printing of \<^verbatim>\<open>operator<<\<close> and the line reading of \<^verbatim>\<open>std::getline\<close>
  that the three stores share, and the contract such a store keeps with its file.
\<close>

section \<open>Decimal numbers\<close>

text \<open>What \<^verbatim>\<open>operator<<\<close> prints for an integer.\<close>

fun dec_nat :: "nat \<Rightarrow> bytes" where
  "dec_nat n = (if n < 10 then [word_of_nat (48 + n)]
                else dec_nat (n div 10) @ [word_of_nat (48 + n mod 10)])"

declare dec_nat.simps [simp del]

definition dec_int :: "int \<Rightarrow> bytes" where
  "dec_int i = (if i < 0 then of_char CHR ''-'' # dec_nat (nat (- i)) else dec_nat (nat i))"

definition is_digit :: "byte \<Rightarrow> bool" where
  "is_digit b \<longleftrightarrow> of_char CHR ''0'' \<le> b \<and> b \<le> of_char CHR ''9''"

definition dec_value :: "bytes \<Rightarrow> nat" where
  "dec_value ds = foldl (\<lambda>v d. 10 * v + (unat d - 48)) 0 ds"

text \<open>
  \<^verbatim>\<open>std::from_chars\<close> in base 10: the longest run of digits (after an optional minus sign when
  the type is signed), the value in range of the type, and the unread rest.
\<close>

definition from_chars_u64 :: "bytes \<Rightarrow> (nat \<times> bytes) option" where
  "from_chars_u64 text =
    (let ds = takeWhile is_digit text
     in if ds = [] \<or> dec_value ds \<ge> 2 ^ 64 then None
        else Some (dec_value ds, drop (length ds) text))"

definition from_chars_i64 :: "bytes \<Rightarrow> (int \<times> bytes) option" where
  "from_chars_i64 text =
    (let neg = (text \<noteq> [] \<and> hd text = of_char CHR ''-'');
         rest = (if neg then tl text else text);
         ds = takeWhile is_digit rest;
         v = (if neg then - int (dec_value ds) else int (dec_value ds))
     in if ds = [] \<or> v < - (2 ^ 63) \<or> v \<ge> 2 ^ 63 then None
        else Some (v, drop (length ds) rest))"

section \<open>Parsing fields\<close>

datatype LoadResult = Missing | Loaded | Corrupt

definition tab :: byte where "tab = 9"
definition newline :: byte where "newline = 10"
definition carriage_return :: byte where "carriage_return = 13"
definition hash_char :: byte where "hash_char = of_char CHR ''#''"

lemmas char_codes = tab_def newline_def carriage_return_def hash_char_def

text \<open>The loop of \<^verbatim>\<open>split_fields\<close>, with the fields still to split off as its counter.\<close>

fun split_fields :: "bytes \<Rightarrow> nat \<Rightarrow> bytes list option" where
  "split_fields line 0 = (if tab \<in> set line then None else Some [line])"
| "split_fields line (Suc 0) = (if tab \<in> set line then None else Some [line])"
| "split_fields line (Suc (Suc n)) =
     (if tab \<notin> set line then None
      else map_option (\<lambda>fs. takeWhile (\<lambda>b. b \<noteq> tab) line # fs)
             (split_fields (tl (dropWhile (\<lambda>b. b \<noteq> tab) line)) (Suc n)))"

definition parse_unsigned :: "bytes \<Rightarrow> nat \<Rightarrow> nat option" where
  "parse_unsigned text mx =
     (if text = [] then None
      else case from_chars_u64 text of
             None \<Rightarrow> None
           | Some (parsed, rest) \<Rightarrow> if rest \<noteq> [] \<or> parsed > mx then None else Some parsed)"

definition parse_signed :: "bytes \<Rightarrow> int \<Rightarrow> int \<Rightarrow> int option" where
  "parse_signed text mn mx =
     (if text = [] then None
      else case from_chars_i64 text of
             None \<Rightarrow> None
           | Some (parsed, rest) \<Rightarrow>
               if rest \<noteq> [] \<or> parsed < mn \<or> parsed > mx then None else Some parsed)"

text \<open>Repeated \<^verbatim>\<open>std::getline\<close>: a last line without a newline still counts.\<close>

function getlines :: "bytes \<Rightarrow> bytes list" where
  "getlines s =
     (if s = [] then []
      else takeWhile (\<lambda>b. b \<noteq> newline) s # getlines (tl (dropWhile (\<lambda>b. b \<noteq> newline) s)))"
  by pat_completeness auto
termination
proof (relation "measure length")
  fix s :: bytes
  assume "s \<noteq> []"
  then have "0 < length s"
    by simp
  then show "(tl (dropWhile (\<lambda>b. b \<noteq> newline) s), s) \<in> measure length"
    using length_dropWhile_le [of "\<lambda>b. b \<noteq> newline" s]
    unfolding in_measure length_tl by linarith
qed simp

declare getlines.simps [simp del]

text \<open>
  Reading a file line by line. A read error after \<open>n\<close> bytes sets the stream's bad bit: the
  lines completed before it have been handed out, the one it interrupted has not.
\<close>

definition read_lines :: "nat option \<Rightarrow> bytes \<Rightarrow> bytes list \<times> bool" where
  "read_lines fault text =
     (case fault of
        None \<Rightarrow> (getlines text, False)
      | Some n \<Rightarrow>
          let s = take n text
          in (if s = [] \<or> last s = newline then getlines s else butlast (getlines s), True))"

text \<open>
  The loop the three stores run over the lines of their file: the version header is noted,
  comments and empty lines are skipped, and a record the store cannot read ends it.
\<close>

fun load_lines ::
  "bytes \<Rightarrow> ('a \<Rightarrow> bytes \<Rightarrow> 'a option) \<Rightarrow> bytes list \<Rightarrow> bool \<Rightarrow> 'a \<Rightarrow> (bool \<times> 'a) option" where
  "load_lines header step [] saw_header loaded = Some (saw_header, loaded)"
| "load_lines header step (line # rest) saw_header loaded =
     (if line = header then load_lines header step rest True loaded
      else if line = [] \<or> hd line = hash_char then load_lines header step rest saw_header loaded
      else case step loaded line of
             None \<Rightarrow> None
           | Some loaded' \<Rightarrow> load_lines header step rest saw_header loaded')"

text \<open>Names come off the air as arbitrary bytes; the stores keep one record per line.\<close>

definition sanitise :: "bytes \<Rightarrow> bytes" where
  "sanitise s =
     map (\<lambda>c. if c = tab \<or> c = newline \<or> c = carriage_return then of_char CHR '' '' else c) s"

section \<open>Decimal round trip\<close>

lemma digit_byte:
  assumes "d < 10"
  shows "is_digit (word_of_nat (48 + d))" "unat (word_of_nat (48 + d) :: byte) = 48 + d"
proof -
  show u: "unat (word_of_nat (48 + d) :: byte) = 48 + d"
    using assms by (simp add: unat_of_nat del: of_nat_add)
  show "is_digit (word_of_nat (48 + d))"
    using assms u by (simp add: is_digit_def word_le_nat_alt del: of_nat_add)
qed

lemma dec_nat_digits: "\<forall>b \<in> set (dec_nat n). is_digit b"
proof (induction n rule: dec_nat.induct)
  case (1 n)
  then show ?case
    using digit_byte(1) [of n] digit_byte(1) [of "n mod 10"] by (subst dec_nat.simps) auto
qed

lemma dec_nat_nonempty [simp]: "dec_nat n \<noteq> []"
  by (subst dec_nat.simps) simp

lemma dec_value_snoc: "dec_value (ds @ [d]) = 10 * dec_value ds + (unat d - 48)"
  by (simp add: dec_value_def)

lemma dec_value_dec_nat [simp]: "dec_value (dec_nat n) = n"
proof (induction n rule: dec_nat.induct)
  case (1 n)
  show ?case
  proof (cases "n < 10")
    case True
    then show ?thesis
      using digit_byte(2) [OF True] by (subst dec_nat.simps) (simp add: dec_value_def)
  next
    case False
    have "unat (word_of_nat (48 + n mod 10) :: byte) = 48 + n mod 10"
      by (rule digit_byte(2)) simp
    with False 1 show ?thesis
      by (subst dec_nat.simps) (simp add: dec_value_snoc)
  qed
qed

lemma takeWhile_dec_nat [simp]: "takeWhile is_digit (dec_nat n) = dec_nat n"
  using dec_nat_digits by (simp add: takeWhile_eq_all_conv)

lemma parse_unsigned_dec:
  "n \<le> mx \<Longrightarrow> n < 2 ^ 64 \<Longrightarrow> parse_unsigned (dec_nat n) mx = Some n"
  by (simp add: parse_unsigned_def from_chars_u64_def)

lemma dec_nat_no_minus: "hd (dec_nat n) \<noteq> of_char CHR ''-''"
proof -
  have "is_digit (hd (dec_nat n))"
    using dec_nat_digits [of n] by simp
  then show ?thesis
    by (auto simp: is_digit_def)
qed

lemma parse_signed_dec:
  assumes "mn \<le> i" "i \<le> mx" "- (2 ^ 63) \<le> i" "i < 2 ^ 63"
  shows "parse_signed (dec_int i) mn mx = Some i"
  using assms dec_nat_no_minus [of "nat i"]
  by (cases "i < 0") (auto simp: parse_signed_def from_chars_i64_def dec_int_def Let_def)

lemma parse_signed_dec_out:
  assumes "i < mn \<or> mx < i" "- (2 ^ 63) \<le> i" "i < 2 ^ 63"
  shows "parse_signed (dec_int i) mn mx = None"
  using assms dec_nat_no_minus [of "nat i"]
  by (cases "i < 0") (auto simp: parse_signed_def from_chars_i64_def dec_int_def Let_def)

section \<open>Splitting what was joined\<close>

lemma takeWhile_until: "x \<notin> set xs \<Longrightarrow> takeWhile (\<lambda>b. b \<noteq> x) (xs @ x # ys) = xs"
  by (induction xs) auto

lemma dropWhile_until: "x \<notin> set xs \<Longrightarrow> dropWhile (\<lambda>b. b \<noteq> x) (xs @ x # ys) = x # ys"
  by (induction xs) auto

lemma split_fields_last [simp]: "tab \<notin> set f \<Longrightarrow> split_fields f (Suc 0) = Some [f]"
  by simp

lemma split_fields_step [simp]:
  "tab \<notin> set f \<Longrightarrow> split_fields (f @ tab # rest) (Suc (Suc n)) =
     map_option (\<lambda>fs. f # fs) (split_fields rest (Suc n))"
  by (simp add: takeWhile_until dropWhile_until)

lemma getlines_Nil [simp]: "getlines [] = []"
  by (simp add: getlines.simps)

lemma getlines_line: "newline \<notin> set l \<Longrightarrow> getlines (l @ newline # s) = l # getlines s"
  by (subst getlines.simps) (simp add: takeWhile_until dropWhile_until)

lemma getlines_lines:
  "\<forall>l \<in> set ls. newline \<notin> set l \<Longrightarrow> getlines (concat (map (\<lambda>l. l @ [newline]) ls)) = ls"
  by (induction ls) (simp_all add: getlines_line)

lemma digits_clean:
  "is_digit b \<Longrightarrow> b \<noteq> tab \<and> b \<noteq> newline \<and> b \<noteq> hash_char"
  by (auto simp: is_digit_def char_codes)

lemma dec_nat_clean [simp]: "tab \<notin> set (dec_nat n)" "newline \<notin> set (dec_nat n)"
  using dec_nat_digits [of n] digits_clean by blast+

lemma dec_int_clean [simp]: "tab \<notin> set (dec_int i)" "newline \<notin> set (dec_int i)"
  by (auto simp: dec_int_def char_codes) (use dec_nat_clean in \<open>auto simp: char_codes\<close>)

lemma hex_clean [simp]: "tab \<notin> set (hex b)" "newline \<notin> set (hex b)" "hash_char \<notin> set (hex b)"
  using set_hex [of b] by (auto simp: kDigits_code char_codes)

lemma sanitise_clean [simp]: "tab \<notin> set (sanitise s)" "newline \<notin> set (sanitise s)"
  by (auto simp: sanitise_def char_codes split: if_splits)

lemma sanitise_idem [simp]: "sanitise (sanitise s) = sanitise s"
  by (simp add: sanitise_def char_codes)

section \<open>Reading rendered records back\<close>

lemma not_hex: "hex b \<noteq> str ''direct''" "hex b \<noteq> str ''-''"
proof -
  have "of_char CHR ''r'' \<notin> set (hex b)" "of_char CHR ''-'' \<notin> set (hex b)"
    using set_hex [of b] by (auto simp: kDigits_code)
  then show "hex b \<noteq> str ''direct''" "hex b \<noteq> str ''-''"
    by (auto simp: str_def)
qed

lemma parse_byte: "parse_unsigned (dec_nat (unat (b :: byte))) 255 = Some (unat b)"
proof (rule parse_unsigned_dec)
  have "unat b < 256"
    using unsigned_less [of b] by simp
  then show "unat b \<le> 255" "unat b < 2 ^ 64"
    by simp_all
qed

lemma parse_u32: "parse_unsigned (dec_nat (unat (w :: u32))) 0xFFFFFFFF = Some (unat w)"
proof (rule parse_unsigned_dec)
  have "unat w < 0x100000000"
    using unsigned_less [of w] by simp
  then show "unat w \<le> 0xFFFFFFFF" "unat w < 2 ^ 64"
    by simp_all
qed

fun fold_opt :: "('a \<Rightarrow> 'b \<Rightarrow> 'a option) \<Rightarrow> 'a \<Rightarrow> 'b list \<Rightarrow> 'a option" where
  "fold_opt step acc [] = Some acc"
| "fold_opt step acc (x # xs) =
     (case step acc x of None \<Rightarrow> None | Some acc' \<Rightarrow> fold_opt step acc' xs)"

definition record_line :: "bytes \<Rightarrow> bool" where
  "record_line l \<longleftrightarrow> l \<noteq> [] \<and> hd l \<noteq> hash_char \<and> newline \<notin> set l"

lemma load_lines_records:
  assumes "\<forall>l \<in> set ls. record_line l" "hd header = hash_char"
  shows "load_lines header step ls saw acc = map_option (Pair saw) (fold_opt step acc ls)"
  using assms(1)
proof (induction ls arbitrary: acc)
  case (Cons l ls)
  then have "l \<noteq> header"
    using assms(2) by (auto simp: record_line_def)
  with Cons show ?case
    by (auto simp: record_line_def split: option.splits)
qed simp

lemma load_lines_file:
  assumes "\<forall>l \<in> set ls. record_line l" "header \<noteq> []" "hd header = hash_char"
    and "newline \<notin> set header" "hd comment = hash_char" "comment \<noteq> []" "newline \<notin> set comment"
  shows "load_lines header step
      (getlines (concat (map (\<lambda>l. l @ [newline]) (header # comment # ls)))) saw acc =
    map_option (Pair True) (fold_opt step acc ls)"
proof -
  have "\<forall>l \<in> set (header # comment # ls). newline \<notin> set l"
    using assms by (auto simp: record_line_def)
  then have "getlines (concat (map (\<lambda>l. l @ [newline]) (header # comment # ls))) =
      header # comment # ls"
    by (rule getlines_lines)
  then show ?thesis
    using assms load_lines_records [OF assms(1,3)] by simp
qed

lemma fold_opt_append:
  "fold_opt step acc (xs @ ys) =
     (case fold_opt step acc xs of None \<Rightarrow> None | Some acc' \<Rightarrow> fold_opt step acc' ys)"
  by (induction xs arbitrary: acc) (auto split: option.splits)

lemma fold_opt_stuck:
  assumes "x \<in> set xs" "\<And>acc. step acc x = None"
  shows "fold_opt step acc xs = None"
  using assms by (induction xs arbitrary: acc) (auto split: option.splits)

lemma fold_opt_invariant:
  assumes "fold_opt step acc xs = Some acc'" "I acc"
    and "\<And>a x a'. step a x = Some a' \<Longrightarrow> I a \<Longrightarrow> I a'"
  shows "I acc'"
  using assms(1,2) by (induction xs arbitrary: acc) (auto split: option.splits intro: assms(3))

lemma load_lines_invariant:
  assumes "load_lines header step ls saw acc = Some (saw', acc')" "I acc"
    and "\<And>a x a'. step a x = Some a' \<Longrightarrow> I a \<Longrightarrow> I a'"
  shows "I acc'"
  using assms(1,2)
  by (induction ls arbitrary: saw acc) (auto split: option.splits if_splits intro: assms(3))

section \<open>The contract between a store and its file\<close>

text \<open>
  A store renders itself to the text of its file and reads that text back; \<open>restore t s\<close> is what
  a store \<open>t\<close> becomes when it reads what \<open>s\<close> saved, \<open>storable\<close> the states whose text is readable.
\<close>

locale record_store =
  fixes render :: "'s \<Rightarrow> bytes"
    and parse :: "'s \<Rightarrow> bytes \<Rightarrow> LoadResult \<times> 's"
    and restore :: "'s \<Rightarrow> 's \<Rightarrow> 's"
    and storable :: "'s \<Rightarrow> bool"
    and same_config :: "'s \<Rightarrow> 's \<Rightarrow> bool"
  assumes parse_render:
      "storable s \<Longrightarrow> same_config s t \<Longrightarrow> parse t (render s) = (Loaded, restore t s)"
    and storable_restore: "storable s \<Longrightarrow> same_config s t \<Longrightarrow> storable (restore t s)"
    and render_restore: "storable s \<Longrightarrow> same_config s t \<Longrightarrow> render (restore t s) = render s"
    and restore_idem: "restore (restore t s) (restore t s) = restore t s"
    and same_config_refl: "storable s \<Longrightarrow> same_config s s"
    and parse_keeps: "parse t text = (res, t') \<Longrightarrow> res \<noteq> Loaded \<Longrightarrow> t' = t"
begin

lemma reload_same_text:
  assumes "storable s" "same_config s t" "parse t (render s) = (res, t')"
  shows "res = Loaded" "render t' = render s" "storable t'"
  using assms by (auto simp: parse_render storable_restore render_restore)

lemma save_load_idempotent:
  assumes "storable s" "same_config s t"
  shows "parse (restore t s) (render (restore t s)) = (Loaded, restore t s)"
  using parse_render [of "restore t s" "restore t s"] storable_restore [OF assms]
  by (simp add: same_config_refl restore_idem)

lemma unreadable_text_changes_nothing:
  "fst (parse t text) \<noteq> Loaded \<Longrightarrow> snd (parse t text) = t"
  by (cases "parse t text") (auto dest: parse_keeps)

end

end
