(* ===== verification/Numbers.thy ===== *)
theory Numbers
  imports Records
begin

text \<open>
  What the daemon uses of the C library to read and print numbers: double arithmetic, \<^verbatim>\<open>strtoll\<close>
  and \<^verbatim>\<open>strtod\<close>, the \<^verbatim>\<open>%.*f\<close> and \<^verbatim>\<open>%.17g\<close> conversions and \<^verbatim>\<open>lround\<close>. A double is the rational it
  stands for, and each operation rounds to the nearest one: \<open>double_of\<close> rounds to 53 significant
  bits, ties to even. The exponent range shows only in \<^verbatim>\<open>strtod\<close>, which fails outside it.
\<close>

section \<open>Rounding\<close>

definition round_even :: "rat \<Rightarrow> int" where
  "round_even x =
    (let f = \<lfloor>x\<rfloor>; d = x - of_int f
     in if d < 1 / 2 then f else if d > 1 / 2 then f + 1 else if even f then f else f + 1)"

text \<open>\<^verbatim>\<open>std::lround\<close>: halves away from zero.\<close>

definition lround :: "rat \<Rightarrow> int" where
  "lround x = (if x < 0 then - \<lfloor>- x + 1 / 2\<rfloor> else \<lfloor>x + 1 / 2\<rfloor>)"

fun bit_length :: "nat \<Rightarrow> nat" where
  "bit_length n = (if n = 0 then 0 else Suc (bit_length (n div 2)))"

declare bit_length.simps [simp del]

text \<open>The exponent of the binade of \<open>x > 0\<close>: \<open>2 ^ e \<le> x < 2 ^ (e + 1)\<close>.\<close>

definition binade :: "rat \<Rightarrow> int" where
  "binade x =
    (let (p, q) = quotient_of x;
         k = int (bit_length (nat p)) - int (bit_length (nat q))
     in if 2 powi k \<le> x then k else k - 1)"

definition ulp :: "rat \<Rightarrow> rat" where
  "ulp x = 2 powi (binade x - 52)"

definition double_of :: "rat \<Rightarrow> rat" where
  "double_of x =
     (if x = 0 then 0
      else let u = ulp \<bar>x\<bar> in sgn x * of_int (round_even (\<bar>x\<bar> / u)) * u)"

section \<open>Printing\<close>

text \<open>\<open>n\<close> in decimal, with zeros in front to at least \<open>width\<close> digits.\<close>

definition dec_padded :: "nat \<Rightarrow> nat \<Rightarrow> bytes" where
  "dec_padded width n = replicate (width - length (dec_nat n)) (of_char CHR ''0'') @ dec_nat n"

text \<open>\<open>n / 10 ^ d\<close> with \<open>d\<close> decimals.\<close>

definition fixed_point :: "nat \<Rightarrow> nat \<Rightarrow> bytes" where
  "fixed_point d n =
     (if d = 0 then dec_nat n
      else dec_nat (n div 10 ^ d) @ str ''.'' @ dec_padded d (n mod 10 ^ d))"

definition sign_text :: "rat \<Rightarrow> bytes" where
  "sign_text v = (if v < 0 then str ''-'' else [])"

definition printf_f :: "nat \<Rightarrow> rat \<Rightarrow> bytes" where
  "printf_f d v = sign_text v @ fixed_point d (nat (round_even (\<bar>v\<bar> * 10 ^ d)))"

text \<open>\<open>10 ^ e \<le> x < 10 ^ (e + 1)\<close> for \<open>x > 0\<close>.\<close>

definition decade :: "rat \<Rightarrow> int" where
  "decade x =
     (if x \<ge> 1 then int (length (dec_nat (nat \<lfloor>x\<rfloor>))) - 1
      else let n = length (dec_nat (nat \<lfloor>1 / x\<rfloor>))
           in if x * 10 ^ (n - 1) \<ge> 1 then - int (n - 1) else - int n)"

definition strip_zeros :: "bytes \<Rightarrow> bytes" where
  "strip_zeros ds = rev (dropWhile (\<lambda>b. b = of_char CHR ''0'') (rev ds))"

text \<open>Digits before and after the point, with the zeros that \<^verbatim>\<open>%g\<close> drops.\<close>

definition strip_point :: "bytes \<Rightarrow> bytes \<Rightarrow> bytes" where
  "strip_point whole behind =
    (let f = strip_zeros behind in if f = [] then whole else whole @ str ''.'' @ f)"

definition printf_g17 :: "rat \<Rightarrow> bytes" where
  "printf_g17 v =
     (if v = 0 then str ''0''
      else
        let e0 = decade \<bar>v\<bar>;
            n0 = nat (round_even (\<bar>v\<bar> * 10 powi (16 - e0)));
            (e, n) = (if n0 = 10 ^ 17 then (e0 + 1, 10 ^ 16) else (e0, n0))
        in sign_text v @
           (if -4 \<le> e \<and> e < 17
            then let d = nat (16 - e)
                 in strip_point (dec_nat (n div 10 ^ d)) (if d = 0 then [] else dec_padded d (n mod 10 ^ d))
            else strip_point (dec_nat (n div 10 ^ 16)) (dec_padded 16 (n mod 10 ^ 16)) @
                 str ''e'' @ (if e < 0 then str ''-'' else str ''+'') @ dec_padded 2 (nat \<bar>e\<bar>)))"

section \<open>Reading\<close>

text \<open>The library sees a C string: what stands before the first zero byte.\<close>

definition c_str :: "bytes \<Rightarrow> bytes" where
  "c_str s = takeWhile (\<lambda>b. b \<noteq> 0) s"

definition is_c_space :: "byte \<Rightarrow> bool" where
  "is_c_space b \<longleftrightarrow> b = 32 \<or> 9 \<le> b \<and> b \<le> 13"

definition read_sign :: "bytes \<Rightarrow> bool \<times> bytes" where
  "read_sign s =
     (case s of
        c # t \<Rightarrow> if c = of_char CHR ''-'' then (True, t)
                 else if c = of_char CHR ''+'' then (False, t) else (False, s)
      | [] \<Rightarrow> (False, s))"

definition digit_value :: "byte \<Rightarrow> nat option" where
  "digit_value b =
     (if is_digit b then Some (unat b - 48)
      else if of_char CHR ''a'' \<le> b \<and> b \<le> of_char CHR ''f'' then Some (unat b - 87)
      else if of_char CHR ''A'' \<le> b \<and> b \<le> of_char CHR ''F'' then Some (unat b - 55)
      else None)"

definition is_digit_in :: "nat \<Rightarrow> byte \<Rightarrow> bool" where
  "is_digit_in base b \<longleftrightarrow> (case digit_value b of None \<Rightarrow> False | Some d \<Rightarrow> d < base)"

definition digits_value :: "nat \<Rightarrow> bytes \<Rightarrow> nat" where
  "digits_value base ds = foldl (\<lambda>v d. base * v + (case digit_value d of None \<Rightarrow> 0 | Some x \<Rightarrow> x)) 0 ds"

definition is_x :: "byte \<Rightarrow> bool" where
  "is_x b \<longleftrightarrow> b = of_char CHR ''x'' \<or> b = of_char CHR ''X''"

text \<open>
  \<^verbatim>\<open>strtoll (s, &end, 0)\<close> as its caller checks it: the value when the whole string is one number in
  range, nothing when there is no number, something follows it, or \<^verbatim>\<open>errno\<close> is set. A \<open>0x\<close> that no
  hexadecimal digit follows is the number 0 and leaves the \<open>x\<close> unread.
\<close>

definition strtoll :: "bytes \<Rightarrow> int option" where
  "strtoll s =
    (let (neg, t) = read_sign (dropWhile is_c_space (c_str s));
         hex_digits = (case t of z # x # d # _ \<Rightarrow> z = of_char CHR ''0'' \<and> is_x x \<and> is_digit_in 16 d | _ \<Rightarrow> False);
         base = (if hex_digits then 16 else if t \<noteq> [] \<and> hd t = of_char CHR ''0'' then 8 else 10);
         u = (if hex_digits then drop 2 t else t);
         ds = takeWhile (is_digit_in base) u;
         n = int (digits_value base ds);
         v = (if neg then - n else n)
     in if ds = [] \<or> drop (length ds) u \<noteq> [] \<or> v < - (2 ^ 63) \<or> v \<ge> 2 ^ 63 then None else Some v)"

text \<open>The optional exponent of \<^verbatim>\<open>strtod\<close>: \<open>e\<close> or \<open>p\<close>, a sign, digits; without digits it is not read.\<close>

definition read_exponent :: "byte set \<Rightarrow> bytes \<Rightarrow> int \<times> bytes" where
  "read_exponent marks s =
     (case s of
        m # t \<Rightarrow>
          if m \<in> marks then
            let (neg, u) = read_sign t; ds = takeWhile is_digit u; n = int (dec_value ds)
            in if ds = [] then (0, s) else (if neg then - n else n, drop (length ds) u)
          else (0, s)
      | [] \<Rightarrow> (0, s))"

text \<open>Digits, a point, digits: the digits' value and how many stand behind the point.\<close>

definition read_mantissa :: "nat \<Rightarrow> bytes \<Rightarrow> (nat \<times> nat \<times> bytes) option" where
  "read_mantissa base s =
    (let ws = takeWhile (is_digit_in base) s; r = drop (length ws) s
     in case r of
          c # t \<Rightarrow>
            if c = of_char CHR ''.'' then
              let fs = takeWhile (is_digit_in base) t
              in if ws = [] \<and> fs = [] then None
                 else Some (digits_value base (ws @ fs), length fs, drop (length fs) t)
            else if ws = [] then None else Some (digits_value base ws, 0, r)
        | [] \<Rightarrow> if ws = [] then None else Some (digits_value base ws, 0, []))"

text \<open>A value a double can hold without overflow, and without underflow unless it is zero.\<close>

definition in_double_range :: "rat \<Rightarrow> bool" where
  "in_double_range x \<longleftrightarrow> x = 0 \<or> (2 powi (- 1022) \<le> \<bar>x\<bar> \<and> \<bar>double_of x\<bar> < 2 ^ 1024)"

text \<open>
  \<^verbatim>\<open>strtod\<close> as its caller checks it, for finite numbers: the double nearest to the number the whole
  string spells. Infinities and NaNs are refused by the callers and give nothing here.
\<close>

definition strtod :: "bytes \<Rightarrow> rat option" where
  "strtod s =
    (let (neg, t) = read_sign (dropWhile is_c_space (c_str s));
         hexa = (case t of z # x # u \<Rightarrow> z = of_char CHR ''0'' \<and> is_x x \<and> read_mantissa 16 u \<noteq> None | _ \<Rightarrow> False)
     in case (if hexa then read_mantissa 16 (drop 2 t) else read_mantissa 10 t) of
          None \<Rightarrow> None
        | Some (n, d, r) \<Rightarrow>
            let (e, rest) = read_exponent (if hexa then {of_char CHR ''p'', of_char CHR ''P''}
                              else {of_char CHR ''e'', of_char CHR ''E''}) r;
                x = (if hexa then of_nat n * 2 powi (e - 4 * int d) else of_nat n * 10 powi (e - int d));
                v = (if neg then - x else x)
            in if rest \<noteq> [] \<or> \<not> in_double_range v then None else Some (double_of v))"

section \<open>Rounding is to the nearest\<close>

lemma round_even_error: "\<bar>of_int (round_even x) - x\<bar> \<le> 1 / 2"
proof -
  define d where "d = x - of_int \<lfloor>x\<rfloor>"
  have x: "x = of_int \<lfloor>x\<rfloor> + d" by (simp add: d_def)
  have "0 \<le> d" "d < 1" by (simp_all add: d_def) linarith+
  then show ?thesis
    unfolding round_even_def Let_def d_def [symmetric] by (subst x) auto
qed

lemma round_even_of_int [simp]: "round_even (of_int k) = k"
  by (simp add: round_even_def)

lemma lround_near:
  assumes "\<bar>x - of_int k\<bar> < 1 / 2"
  shows "lround x = k"
proof (cases "x < 0")
  case True
  have "\<lfloor>- x + 1 / 2\<rfloor> = - k" using assms unfolding abs_less_iff by (intro floor_unique) simp_all
  with True show ?thesis by (simp add: lround_def)
next
  case False
  have "\<lfloor>x + 1 / 2\<rfloor> = k" using assms unfolding abs_less_iff by (intro floor_unique) simp_all
  with False show ?thesis by (simp add: lround_def)
qed

lemma bit_length_bounds: "0 < n \<Longrightarrow> 2 ^ (bit_length n - 1) \<le> n \<and> n < 2 ^ bit_length n \<and> 0 < bit_length n"
proof (induction n rule: bit_length.induct)
  case (1 n)
  show ?case
  proof (cases "n div 2 = 0")
    case True
    with 1 have "n = 1" by auto
    then show ?thesis by (simp add: bit_length.simps [of "Suc 0"] bit_length.simps [of 0])
  next
    case False
    with 1 have IH: "2 ^ (bit_length (n div 2) - 1) \<le> n div 2" "n div 2 < 2 ^ bit_length (n div 2)"
      "0 < bit_length (n div 2)"
      by auto
    have "2 * 2 ^ (bit_length (n div 2) - 1) = (2 :: nat) ^ bit_length (n div 2)"
      using IH(3) by (simp add: power_eq_if)
    moreover have "2 * (n div 2) \<le> n" "n < 2 * (n div 2 + 1)" by simp_all
    ultimately have "2 ^ bit_length (n div 2) \<le> n" "n < 2 * 2 ^ bit_length (n div 2)" using IH by linarith+
    then show ?thesis using "1.prems" by (simp add: bit_length.simps [of n])
  qed
qed

lemma binade_bounds:
  assumes "0 < x"
  shows "2 powi binade x \<le> x" "x < 2 powi (binade x + 1)"
proof -
  obtain p q where pq: "quotient_of x = (p, q)" by fastforce
  have q: "0 < q" and x: "x = of_int p / of_int q"
    using pq quotient_of_denom_pos quotient_of_div by blast+
  with assms have p: "0 < p" by (simp add: zero_less_divide_iff)
  define a b where "a = bit_length (nat p)" and "b = bit_length (nat q)"
  have A: "2 ^ (a - 1) \<le> nat p" "nat p < 2 ^ a" "0 < a" and B: "2 ^ (b - 1) \<le> nat q" "nat q < 2 ^ b" "0 < b"
    using bit_length_bounds [of "nat p"] bit_length_bounds [of "nat q"] p q by (simp_all add: a_def b_def)
  have P: "2 ^ (a - 1) \<le> (of_int p :: rat)" "(of_int p :: rat) < 2 ^ a"
    using A(1,2) p by (metis of_int_le_iff of_int_numeral of_int_power le_nat_iff of_nat_numeral of_nat_power less_imp_le,
        metis of_int_less_iff of_int_numeral of_int_power nat_less_iff of_nat_numeral of_nat_power less_imp_le)
  have Q: "2 ^ (b - 1) \<le> (of_int q :: rat)" "(of_int q :: rat) < 2 ^ b"
    using B(1,2) q by (metis of_int_le_iff of_int_numeral of_int_power le_nat_iff of_nat_numeral of_nat_power less_imp_le,
        metis of_int_less_iff of_int_numeral of_int_power nat_less_iff of_nat_numeral of_nat_power less_imp_le)
  have b1: "(2 :: rat) ^ b = 2 * 2 ^ (b - 1)" and a1: "(2 :: rat) ^ a = 2 * 2 ^ (a - 1)"
    using A(3) B(3) by (simp_all add: power_eq_if)
  have "x < 2 ^ a / 2 ^ (b - 1)"
    unfolding x using P Q p by (intro frac_less) simp_all
  then have hi: "x < 2 powi (int a - int b + 1)"
    by (simp add: power_int_diff power_int_add b1)
  have "2 ^ (a - 1) / 2 ^ b \<le> x"
    unfolding x using P Q p q by (intro frac_le) simp_all
  then have lo: "2 powi (int a - int b - 1) \<le> x"
    by (simp add: power_int_diff a1)
  have bx: "binade x = (if 2 powi (int a - int b) \<le> x then int a - int b else int a - int b - 1)"
    by (simp add: binade_def pq a_def b_def Let_def)
  show "2 powi binade x \<le> x" "x < 2 powi (binade x + 1)"
    using hi lo by (auto simp: bx)
qed

lemma double_of_error: "\<bar>double_of x - x\<bar> \<le> \<bar>x\<bar> / 2 ^ 53"
proof (cases "x = 0")
  case False
  define u where "u = ulp \<bar>x\<bar>"
  have u: "0 < u" by (simp add: u_def ulp_def)
  have u2: "u \<le> \<bar>x\<bar> / 2 ^ 52"
    using binade_bounds(1) [of "\<bar>x\<bar>"] False by (simp add: u_def ulp_def power_int_diff field_simps)
  define r where "r = (of_int (round_even (\<bar>x\<bar> / u)) :: rat)"
  have "\<bar>r * u - \<bar>x\<bar>\<bar> = \<bar>r - \<bar>x\<bar> / u\<bar> * u"
    using u abs_mult_pos [of u "r - \<bar>x\<bar> / u"] by (simp add: left_diff_distrib)
  also have "\<dots> \<le> 1 / 2 * u"
    using u round_even_error [of "\<bar>x\<bar> / u"] by (intro mult_right_mono) (simp_all add: r_def)
  finally have "\<bar>r * u - \<bar>x\<bar>\<bar> \<le> \<bar>x\<bar> / 2 ^ 53" using u2 by simp
  moreover have "\<bar>double_of x - x\<bar> = \<bar>r * u - \<bar>x\<bar>\<bar>"
  proof -
    have "double_of x - x = sgn x * (r * u - \<bar>x\<bar>)"
      using False sgn_mult_abs [of x] by (simp add: double_of_def r_def u_def Let_def right_diff_distrib)
    with False show ?thesis by (simp add: abs_mult)
  qed
  ultimately show ?thesis by simp
qed (simp add: double_of_def)

section \<open>Reading what was printed\<close>

lemma is_digit_in_10: "is_digit b \<Longrightarrow> is_digit_in 10 b"
  by (auto simp: is_digit_in_def digit_value_def is_digit_def word_le_nat_alt)

lemma not_digit_in_10: "\<not> is_digit_in 10 46"
  by (simp add: is_digit_in_def digit_value_def is_digit_def)

lemma digits_value_10: "\<forall>b \<in> set ds. is_digit b \<Longrightarrow> digits_value 10 ds = dec_value ds"
proof -
  have "foldl (\<lambda>v d. 10 * v + (case digit_value d of None \<Rightarrow> 0 | Some x \<Rightarrow> x)) k ds =
      foldl (\<lambda>v d. 10 * v + (unat d - 48)) k ds" if "\<forall>b \<in> set ds. is_digit b" for k
    using that by (induction ds arbitrary: k) (simp_all add: digit_value_def)
  then show "\<forall>b \<in> set ds. is_digit b \<Longrightarrow> ?thesis" by (simp add: digits_value_def dec_value_def)
qed

lemma dec_value_append: "dec_value (xs @ ys) = dec_value xs * 10 ^ length ys + dec_value ys"
proof (induction ys rule: rev_induct)
  case (snoc y ys)
  have "dec_value (xs @ ys @ [y]) = 10 * dec_value (xs @ ys) + (unat y - 48)"
    using dec_value_snoc [of "xs @ ys" y] by simp
  with snoc show ?case by (simp add: dec_value_snoc algebra_simps)
qed (simp add: dec_value_def)

lemma dec_value_zeros: "dec_value (replicate k 48) = 0"
  by (induction k) (simp_all add: dec_value_def)

lemma dec_padded_value [simp]: "dec_value (dec_padded w n) = n"
  by (simp add: dec_padded_def dec_value_append dec_value_zeros)

lemma dec_padded_digits: "\<forall>b \<in> set (dec_padded w n). is_digit b"
  using dec_nat_digits [of n] by (auto simp: dec_padded_def is_digit_def)

lemma length_dec_nat: "n < 10 ^ w \<Longrightarrow> 0 < w \<Longrightarrow> length (dec_nat n) \<le> w"
proof (induction n arbitrary: w rule: dec_nat.induct)
  case (1 n)
  show ?case
  proof (cases "n < 10")
    case False
    with "1.prems" obtain v where w: "w = Suc v" by (cases w) auto
    with False "1.prems" have v: "0 < v" by (cases v) auto
    have "n div 10 < 10 ^ v" using "1.prems" w by (simp add: less_mult_imp_div_less mult.commute)
    from "1.IH" [OF False this v] False w show ?thesis by (simp add: dec_nat.simps [of n])
  qed (use "1.prems" in \<open>simp add: dec_nat.simps [of n]\<close>)
qed

lemma length_dec_padded: "n < 10 ^ w \<Longrightarrow> 0 < w \<Longrightarrow> length (dec_padded w n) = w"
  by (simp add: dec_padded_def length_dec_nat)

lemma read_mantissa_fixed:
  assumes "\<forall>b \<in> set ws. is_digit b" "\<forall>b \<in> set fs. is_digit b" "ws \<noteq> []"
  shows "read_mantissa 10 (ws @ 46 # fs) = Some (dec_value (ws @ fs), length fs, [])"
    "read_mantissa 10 ws = Some (dec_value ws, 0, [])"
proof -
  have ws: "takeWhile (is_digit_in 10) (ws @ 46 # fs) = ws"
    using assms(1) by (subst takeWhile_append2) (auto simp: is_digit_in_10 not_digit_in_10)
  have fs: "takeWhile (is_digit_in 10) fs = fs" and ws': "takeWhile (is_digit_in 10) ws = ws"
    using assms(1,2) by (auto simp: is_digit_in_10)
  have "digits_value 10 (ws @ fs) = dec_value (ws @ fs)" "digits_value 10 ws = dec_value ws"
    using assms by (auto intro!: digits_value_10)
  then show "read_mantissa 10 (ws @ 46 # fs) = Some (dec_value (ws @ fs), length fs, [])"
    "read_mantissa 10 ws = Some (dec_value ws, 0, [])"
    using assms(3) by (simp_all add: read_mantissa_def ws fs ws' Let_def)
qed

lemma in_range_usual:
  assumes "x = 0 \<or> 1 / 10 ^ 20 \<le> \<bar>x\<bar>" "\<bar>x\<bar> \<le> 10 ^ 20"
  shows "in_double_range x"
proof -
  have "(2 :: rat) powi (- 1022) \<le> 1 / 10 ^ 20" by (simp add: power_int_minus field_simps)
  moreover have "\<bar>double_of x\<bar> \<le> \<bar>x\<bar> + \<bar>x\<bar> / 2 ^ 53" using double_of_error [of x] by linarith
  then have "\<bar>double_of x\<bar> < 2 ^ 1024" using assms(2) by simp
  ultimately show ?thesis using assms(1) by (auto simp: in_double_range_def)
qed

text \<open>The text of a number with \<open>d\<close> decimals is read as the double nearest to it.\<close>

definition signed_fixed :: "nat \<Rightarrow> int \<Rightarrow> bytes" where
  "signed_fixed d k = (if k < 0 then str ''-'' else []) @ fixed_point d (nat \<bar>k\<bar>)"

lemma fixed_point_shape:
  obtains ws fs where "\<forall>b \<in> set ws. is_digit b" "\<forall>b \<in> set fs. is_digit b" "ws \<noteq> []"
    "dec_value (ws @ fs) = n" "length fs = d"
    "fixed_point d n = (if d = 0 then ws else ws @ 46 # fs)"
proof (cases "d = 0")
  case True
  then show ?thesis
    using that [of "dec_nat n" "[]"] dec_nat_digits [of n] by (simp add: fixed_point_def)
next
  case False
  have l: "length (dec_padded d (n mod 10 ^ d)) = d"
    using False by (intro length_dec_padded) simp_all
  from False show ?thesis
    using that [of "dec_nat (n div 10 ^ d)" "dec_padded d (n mod 10 ^ d)"] dec_nat_digits dec_padded_digits l
    by (simp add: fixed_point_def dec_value_append str_def div_mult_mod_eq)
qed

text \<open>A digit is none of the characters that mean something else in front of a number.\<close>

lemma digit_plain:
  assumes "is_digit b"
  shows "b \<noteq> 0" "\<not> is_c_space b" "b \<noteq> 43" "b \<noteq> 45" "\<not> is_x b"
  using assms by (auto simp: is_digit_def is_c_space_def is_x_def word_le_nat_alt)

lemma strtod_unsigned:
  assumes "\<forall>b \<in> set ws. is_digit b" "\<forall>b \<in> set fs. is_digit b" "ws \<noteq> []"
    and bdy: "bdy = (if d = 0 then ws else ws @ 46 # fs)" "length fs = d"
    and x: "x = of_nat (dec_value (ws @ fs)) / 10 ^ d" "in_double_range (if neg then - x else x)"
  shows "strtod ((if neg then str ''-'' else []) @ bdy) = Some (double_of (if neg then - x else x))"
proof -
  obtain c t where c: "bdy = c # t" "is_digit c" "\<forall>b \<in> set t. is_digit b \<or> b = 46"
    using assms(1-3) bdy(1) by (cases ws) (auto split: if_splits)
  let ?s = "(if neg then str ''-'' else []) @ bdy"
  have "\<forall>b \<in> set ?s. b \<noteq> 0" using c digit_plain(1) by (force simp: str_def)
  then have "c_str ?s = ?s" by (simp add: c_str_def)
  moreover have "dropWhile is_c_space ?s = ?s"
    using c digit_plain(2) [OF c(2)] by (simp add: str_def) (simp add: is_c_space_def)
  moreover have "read_sign ?s = (neg, bdy)"
    using c digit_plain(3,4) [OF c(2)] by (simp add: read_sign_def str_def)
  moreover have "\<not> (case bdy of z # x # u \<Rightarrow> z = of_char CHR ''0'' \<and> is_x x \<and> read_mantissa 16 u \<noteq> None | _ \<Rightarrow> False)"
    using c digit_plain(5) by (cases t) (auto simp: is_x_def)
  moreover have "read_mantissa 10 bdy = Some (dec_value (ws @ fs), d, [])"
    using read_mantissa_fixed [OF assms(1-3)] bdy by (auto split: if_splits)
  moreover have "of_nat (dec_value (ws @ fs)) * 10 powi (0 - int d) = x"
    by (simp add: x(1) power_int_minus field_simps)
  ultimately show ?thesis
    using x(2) by (simp add: strtod_def read_exponent_def)
qed

lemma strtod_signed_fixed:
  assumes "\<bar>k\<bar> \<le> 10 ^ 20" "d \<le> 20"
  shows "strtod (signed_fixed d k) = Some (double_of (of_int k / 10 ^ d))"
proof -
  obtain ws fs where f: "\<forall>b \<in> set ws. is_digit b" "\<forall>b \<in> set fs. is_digit b" "ws \<noteq> []"
    "dec_value (ws @ fs) = nat \<bar>k\<bar>" "length fs = d"
    "fixed_point d (nat \<bar>k\<bar>) = (if d = 0 then ws else ws @ 46 # fs)"
    by (rule fixed_point_shape [of "nat \<bar>k\<bar>" d])
  let ?x = "of_nat (dec_value (ws @ fs)) / (10 :: rat) ^ d"
  have v: "(if k < 0 then - ?x else ?x) = of_int k / 10 ^ d" by (simp add: f(4))
  have "in_double_range (of_int k / 10 ^ d)"
  proof (rule in_range_usual)
    have "(10 :: rat) ^ d \<le> 10 ^ 20" using assms(2) by (intro power_increasing) auto
    moreover have "(1 :: rat) \<le> \<bar>of_int k\<bar>" if "k \<noteq> 0"
      using that by (metis of_int_abs of_int_le_iff of_int_1 zero_less_abs_iff int_one_le_iff_zero_less)
    ultimately show "of_int k / (10 :: rat) ^ d = 0 \<or> 1 / 10 ^ 20 \<le> \<bar>of_int k / (10 :: rat) ^ d\<bar>"
      by (auto intro!: frac_le)
    have "\<bar>of_int k / (10 :: rat) ^ d\<bar> \<le> \<bar>of_int k\<bar> / 1"
      by (simp only: abs_divide) (intro frac_le, simp_all)
    also have "\<dots> \<le> 10 ^ 20" using assms(1) by (simp flip: of_int_abs)
    finally show "\<bar>of_int k / (10 :: rat) ^ d\<bar> \<le> 10 ^ 20" .
  qed
  with strtod_unsigned [OF f(1-3) refl f(5) refl, of "k < 0"] show ?thesis
    by (simp only: signed_fixed_def f(6) v)
qed

section \<open>Enough digits\<close>

definition is_double :: "rat \<Rightarrow> bool" where
  "is_double v \<longleftrightarrow> double_of v = v"

lemma binade_unique:
  assumes "2 powi e \<le> x" "x < 2 powi (e + 1)"
  shows "binade x = e"
proof -
  have x: "0 < x" using assms(1) by (rule less_le_trans [rotated]) simp
  have "(2 :: rat) powi e < 2 powi (binade x + 1)" "(2 :: rat) powi binade x < 2 powi (e + 1)"
    using assms binade_bounds [OF x] by linarith+
  then have "e < binade x + 1" "binade x < e + 1" by (metis power_int_increasing not_less one_le_numeral)+
  then show ?thesis by simp
qed

lemma round_even_unique: "\<bar>x - of_int n\<bar> < 1 / 2 \<Longrightarrow> round_even x = n"
proof -
  assume a: "\<bar>x - of_int n\<bar> < 1 / 2"
  have "\<bar>of_int (round_even x) - (of_int n :: rat)\<bar> < 1" using a round_even_error [of x] by linarith
  then have "\<bar>round_even x - n\<bar> < 1" by linarith
  then show ?thesis by simp
qed

lemma double_of_uminus [simp]: "double_of (- x) = - double_of x"
  by (simp add: double_of_def Let_def sgn_minus)

text \<open>A number within half a step of a double rounds to it.\<close>

lemma double_of_near_step:
  assumes "0 < u" "0 < x" "ulp x = u" "\<bar>x - of_int n * u\<bar> < u / 2"
  shows "double_of x = of_int n * u"
proof -
  have "x / u - of_int n = (x - of_int n * u) / u" using assms(1) by (simp add: diff_divide_distrib)
  then have "\<bar>x / u - of_int n\<bar> < 1 / 2" using assms(1,4) by (simp add: abs_divide divide_less_eq)
  then have "round_even (x / u) = n" by (rule round_even_unique)
  then show ?thesis using assms(2,3) by (simp add: double_of_def Let_def)
qed

text \<open>The bound of \<open>double_near\<close> leaves less than half a step, also below a power of two, where the step is half as wide.\<close>

lemma double_near_pos:
  assumes "0 < v" "is_double v" "\<bar>x - v\<bar> \<le> v * (1 / (2 * 10 ^ 16))"
  shows "double_of x = v"
proof -
  define e where "e = binade v"
  define u where "u = (2 :: rat) powi (e - 52)"
  have u: "0 < u" by (simp add: u_def)
  have e52: "(2 :: rat) powi e = 2 ^ 52 * u" "(2 :: rat) powi (e + 1) = 2 ^ 53 * u"
    by (simp_all add: u_def power_int_diff power_int_add)
  have vb: "2 ^ 52 * u \<le> v" "v < 2 ^ 53 * u"
    using binade_bounds [OF assms(1)] by (simp_all add: e_def [symmetric] e52)
  obtain n where n: "v = of_int n * u"
    using assms(1,2) by (simp add: is_double_def double_of_def Let_def ulp_def e_def [symmetric] u_def [symmetric])
      metis
  have "v * (1 / (2 * 10 ^ 16)) < 2 ^ 53 * u * (1 / (2 * 10 ^ 16))"
    using vb(2) by (intro mult_strict_right_mono) simp_all
  also have "\<dots> \<le> u / 2" using u by simp
  finally have d: "\<bar>x - v\<bar> < u / 2" using assms(3) by linarith
  then have dx: "x < v + u / 2" "v - u / 2 < x" unfolding abs_less_iff by linarith+
  show ?thesis
  proof (cases "2 ^ 52 * u \<le> x")
    case True
    have "n \<le> 2 ^ 53 - 1" using vb(2) u by (simp add: n)
    then have "v \<le> (2 ^ 53 - 1) * u" using u by (simp add: n)
    then have "x < 2 ^ 53 * u" using dx(1) u by (simp add: left_diff_distrib)
    then have "binade x = e" using True u by (intro binade_unique) (simp_all add: e52)
    moreover have "0 < x" using True u by simp
    ultimately show ?thesis unfolding n using d u by (intro double_of_near_step) (simp_all add: ulp_def u_def n)
  next
    case False
    have "\<not> 2 ^ 52 + 1 \<le> n"
    proof
      assume "2 ^ 52 + 1 \<le> n"
      then have "(2 ^ 52 + 1) * u \<le> v" using u by (simp add: n)
      then show False using False dx(2) u by (simp add: distrib_right)
    qed
    moreover have "2 ^ 52 \<le> n" using vb(1) u by (simp add: n)
    ultimately have "n = 2 ^ 52" by simp
    then have v: "v = of_int (2 ^ 53) * (u / 2)" by (simp add: n)
    have d': "\<bar>x - v\<bar> < u / 2 / 2" using assms(3) u by (simp add: v)
    then have dx': "x < v + u / 4" "v - u / 4 < x" unfolding abs_less_iff by linarith+
    then have "0 < x" using v u by simp
    moreover have "binade x = e - 1"
      using False dx' u by (intro binade_unique) (simp_all add: e52 power_int_diff v)
    ultimately show ?thesis
      unfolding v using d' u by (intro double_of_near_step) (simp_all add: v ulp_def u_def power_int_diff)
  qed
qed

lemma double_near:
  assumes "is_double v" "\<bar>x - v\<bar> \<le> \<bar>v\<bar> * (1 / (2 * 10 ^ 16))"
  shows "double_of x = v"
proof (cases v "0 :: rat" rule: linorder_cases)
  case less
  have "double_of (- x) = - v"
  proof (rule double_near_pos)
    show "is_double (- v)" using assms(1) by (simp add: is_double_def)
    show "\<bar>- x - - v\<bar> \<le> - v * (1 / (2 * 10 ^ 16))" using assms(2) less by (simp add: abs_minus_commute)
  qed (use less in simp)
  then show ?thesis by simp
next
  case equal
  then show ?thesis using assms(2) by (simp add: double_of_def)
next
  case greater
  then show ?thesis using assms by (intro double_near_pos) simp_all
qed

lemma is_double_0 [simp]: "is_double 0"
  by (simp add: is_double_def double_of_def)

lemma is_double_double_of [simp]: "is_double (double_of x)"
proof -
  have pos: "double_of (double_of x) = double_of x" if "0 < x" for x
  proof -
    define e where "e = binade x"
    define u where "u = (2 :: rat) powi (e - 52)"
    define n where "n = round_even (x / u)"
    have u: "0 < u" by (simp add: u_def)
    have e52: "(2 :: rat) powi e = 2 ^ 52 * u" "(2 :: rat) powi (e + 1) = 2 ^ 53 * u"
      "(2 :: rat) powi (2 + e) = 2 ^ 54 * u"
      by (simp_all add: u_def power_int_diff power_int_add)
    have xb: "2 ^ 52 \<le> x / u" "x / u < 2 ^ 53"
      using binade_bounds [OF that] u by (simp_all add: e_def [symmetric] e52 le_divide_eq divide_less_eq)
    have dx: "double_of x = of_int n * u"
      using that by (simp add: double_of_def ulp_def e_def [symmetric] u_def [symmetric] n_def Let_def)
    have "(2 :: rat) ^ 52 - 1 / 2 \<le> of_int n" "of_int n < (2 :: rat) ^ 53 + 1 / 2"
      using round_even_error [of "x / u"] xb unfolding n_def [symmetric] abs_le_iff by linarith+
    then have "(of_int (2 ^ 52 - 1) :: rat) < of_int n" "(of_int n :: rat) < of_int (2 ^ 53 + 1)" by simp_all
    then have n: "2 ^ 52 \<le> n" "n \<le> 2 ^ 53" unfolding of_int_less_iff by linarith+
    show ?thesis
    proof (cases "n = 2 ^ 53")
      case False
      with n have "binade (of_int n * u) = e"
        using u by (intro binade_unique) (simp_all add: e52)
      then show ?thesis
        using u n by (simp add: dx double_of_def [of "of_int n * u"] ulp_def u_def [symmetric] Let_def sgn_mult)
    next
      case True
      have b: "binade (2 ^ 53 * u) = e + 1" using u by (intro binade_unique) (simp_all add: e52)
      have "ulp (2 ^ 53 * u) = 2 * u" unfolding ulp_def b by (simp add: u_def power_int_diff power_int_add)
      then show ?thesis
        using u round_even_of_int [of "2 ^ 52"]
        by (simp add: dx True double_of_def [of "9007199254740992 * u"] Let_def sgn_mult)
    qed
  qed
  show ?thesis
  proof (cases x "0 :: rat" rule: linorder_cases)
    case less
    with pos [of "- x"] show ?thesis by (simp add: is_double_def)
  qed (use pos in \<open>simp_all add: is_double_def double_of_def [of 0]\<close>)
qed

lemma round_even_nonneg: "0 \<le> x \<Longrightarrow> 0 \<le> round_even x"
  by (simp add: round_even_def Let_def)

text \<open>What \<^verbatim>\<open>%.*f\<close> prints is read as the double nearest to the rounded decimal.\<close>

lemma strtod_printf_f:
  assumes "\<bar>v\<bar> \<le> 1000" "d \<le> 17"
  defines "k \<equiv> nat (round_even (\<bar>v\<bar> * 10 ^ d))"
  shows "strtod (printf_f d v) = Some (double_of ((if v < 0 then - 1 else 1) * (of_nat k / 10 ^ d)))"
proof -
  obtain ws fs where f: "\<forall>b \<in> set ws. is_digit b" "\<forall>b \<in> set fs. is_digit b" "ws \<noteq> []"
    "dec_value (ws @ fs) = k" "length fs = d"
    "fixed_point d k = (if d = 0 then ws else ws @ 46 # fs)"
    by (rule fixed_point_shape [of k d])
  let ?x = "of_nat (dec_value (ws @ fs)) / (10 :: rat) ^ d"
  have v: "(if v < 0 then - ?x else ?x) = (if v < 0 then - 1 else 1) * (of_nat k / 10 ^ d)" by (simp add: f(4))
  have p: "(1 :: rat) \<le> 10 ^ d" "(10 :: rat) ^ d \<le> 10 ^ 17"
    using assms(2) power_increasing [of d 17 "10 :: rat"] by simp_all
  have k0: "of_nat k \<le> \<bar>v\<bar> * 10 ^ d + 1 / 2"
    using round_even_error [of "\<bar>v\<bar> * 10 ^ d"] round_even_nonneg [of "\<bar>v\<bar> * 10 ^ d"]
    unfolding k_def abs_le_iff by simp
  have "in_double_range ((if v < 0 then - 1 else 1) * (of_nat k / 10 ^ d))"
  proof (rule in_range_usual)
    have "1 / (10 :: rat) ^ 20 \<le> of_nat k / 10 ^ d" if "k \<noteq> 0"
      using that p by (intro frac_le) simp_all
    then show "(if v < 0 then - 1 else 1) * (of_nat k / (10 :: rat) ^ d) = 0 \<or>
        1 / 10 ^ 20 \<le> \<bar>(if v < 0 then - 1 else 1) * (of_nat k / (10 :: rat) ^ d)\<bar>" by auto
    have "of_nat k / (10 :: rat) ^ d \<le> (\<bar>v\<bar> * 10 ^ d + 1 / 2) / 10 ^ d"
      using k0 by (intro divide_right_mono) simp_all
    also have "\<dots> = \<bar>v\<bar> + 1 / 2 / 10 ^ d" by (simp add: add_divide_distrib)
    also have "\<dots> \<le> 1000 + 1 / 2 / 1" using assms(1) p(1) by (intro add_mono divide_left_mono) simp_all
    also have "\<dots> \<le> 10 ^ 20" by simp
    finally show "\<bar>(if v < 0 then - 1 else 1) * (of_nat k / (10 :: rat) ^ d)\<bar> \<le> 10 ^ 20" by auto
  qed
  with strtod_unsigned [OF f(1-3) refl f(5) refl, of "v < 0"] show ?thesis
    by (simp only: printf_f_def sign_text_def k_def [symmetric] f(6) v)
qed

text \<open>Seventeen significant digits are enough: \<^verbatim>\<open>%.17g\<close> is read back as the double it printed.\<close>

lemma dec_nat_decade:
  "0 < n \<Longrightarrow> 10 ^ (length (dec_nat n) - 1) \<le> n \<and> n < 10 ^ length (dec_nat n)"
proof (induction n rule: dec_nat.induct)
  case (1 n)
  show ?case
  proof (cases "n < 10")
    case True
    with "1.prems" show ?thesis by (simp add: dec_nat.simps [of n])
  next
    case False
    then have IH: "10 ^ (length (dec_nat (n div 10)) - 1) \<le> n div 10" "n div 10 < 10 ^ length (dec_nat (n div 10))"
      using "1.IH" by auto
    have "10 * 10 ^ (length (dec_nat (n div 10)) - 1) = (10 :: nat) ^ length (dec_nat (n div 10))"
      by (metis dec_nat_nonempty length_0_conv power_eq_if)
    moreover have "10 * (n div 10) \<le> n" "n < 10 * (n div 10 + 1)" by simp_all
    ultimately have "10 ^ length (dec_nat (n div 10)) \<le> n" "n < 10 * 10 ^ length (dec_nat (n div 10))"
      using IH by linarith+
    with False show ?thesis by (simp add: dec_nat.simps [of n])
  qed
qed

lemma decade_bounds:
  assumes "1 \<le> x" "x < 10 ^ 17"
  shows "10 ^ nat (decade x) \<le> x" "x < 10 ^ (nat (decade x) + 1)" "0 \<le> decade x" "decade x \<le> 16"
proof -
  define n where "n = nat \<lfloor>x\<rfloor>"
  define l where "l = length (dec_nat n)"
  have n0: "0 < n" using assms(1) by (simp add: n_def)
  have l: "10 ^ (l - 1) \<le> n" "n < 10 ^ l" "0 < l"
    using dec_nat_decade [OF n0] by (simp_all add: l_def)
  have d: "nat (decade x) = l - 1" "decade x = int l - 1"
    using assms(1) by (simp_all add: decade_def l_def n_def)
  have x: "of_nat n \<le> x" "x < of_nat n + 1" using assms(1) by (simp_all add: n_def) linarith+
  have "(10 :: rat) ^ (l - 1) \<le> of_nat n" using l(1) by (metis of_nat_le_iff of_nat_numeral of_nat_power)
  from this x(1) show "10 ^ nat (decade x) \<le> x" unfolding d(1) by (rule order_trans)
  have "of_nat n + 1 \<le> (10 :: rat) ^ l"
    using l(2) by (metis of_nat_le_iff of_nat_numeral of_nat_power of_nat_Suc add.commute Suc_leI)
  with x l(3) show "x < 10 ^ (nat (decade x) + 1)" by (simp add: d(1))
  show "0 \<le> decade x" using l(3) by (simp add: d(2))
  have "(10 :: rat) ^ (l - 1) < 10 ^ 17"
    using \<open>10 ^ nat (decade x) \<le> x\<close> assms(2) by (simp add: d(1))
  then have "l - 1 < 17" by (rule power_less_imp_less_exp [rotated]) simp
  with l(3) show "decade x \<le> 16" by (simp add: d(2))
qed

lemma strip_zeros_split: "\<exists>k. ds = strip_zeros ds @ replicate k 48"
proof -
  let ?t = "takeWhile (\<lambda>b. b = 48) (rev ds)"
  have "strip_zeros ds = rev (dropWhile (\<lambda>b. b = 48) (rev ds))" by (simp add: strip_zeros_def)
  then have "ds = strip_zeros ds @ rev ?t"
    by (simp only: rev_append [symmetric] takeWhile_dropWhile_id rev_rev_ident)
  moreover have "?t = replicate (length ?t) 48"
    by (intro replicate_length_same [symmetric]) (auto dest: set_takeWhileD)
  then have "rev ?t = replicate (length ?t) 48" by (metis rev_replicate)
  ultimately show ?thesis by metis
qed

lemma strtod_strip_point:
  assumes "\<forall>b \<in> set ws. is_digit b" "\<forall>b \<in> set fs. is_digit b" "ws \<noteq> []"
    and x: "x = of_nat (dec_value (ws @ fs)) / 10 ^ length fs" "in_double_range x"
  shows "strtod (strip_point ws fs) = Some (double_of x)"
proof -
  obtain k where k: "fs = strip_zeros fs @ replicate k 48" using strip_zeros_split by blast
  let ?s = "strip_zeros fs"
  have s: "\<forall>b \<in> set ?s. is_digit b" using assms(2) by (metis k set_append UnI1)
  have "dec_value (ws @ ?s @ replicate k 48) = dec_value (ws @ ?s) * 10 ^ k"
    using dec_value_append [of "ws @ ?s" "replicate k 48"] by (simp add: dec_value_zeros)
  then have "x = of_nat (dec_value (ws @ ?s)) / 10 ^ length ?s"
    by (subst x(1), subst (1 2) k) (simp add: power_add)
  with strtod_unsigned [OF assms(1) s assms(3) refl refl, of x False] x(2) show ?thesis
    by (auto simp: strip_point_def Let_def str_def)
qed

lemma strtod_strip_fixed:
  assumes "in_double_range (of_nat n / 10 ^ d)"
  shows "strtod (strip_point (dec_nat (n div 10 ^ d)) (if d = 0 then [] else dec_padded d (n mod 10 ^ d))) =
    Some (double_of (of_nat n / 10 ^ d))"
proof (rule strtod_strip_point)
  let ?ws = "dec_nat (n div 10 ^ d)" and ?fs = "if d = 0 then [] else dec_padded d (n mod 10 ^ d)"
  have l: "length ?fs = d" by (simp add: length_dec_padded)
  have "dec_value ?fs = n mod 10 ^ d" by (cases "d = 0") (simp_all, simp add: dec_value_def)
  then have "dec_value (?ws @ ?fs) = n"
    by (simp only: dec_value_append l dec_value_dec_nat div_mult_mod_eq)
  then show "of_nat n / (10 :: rat) ^ d = of_nat (dec_value (?ws @ ?fs)) / 10 ^ length ?fs" by (simp only: l)
  show "\<forall>b \<in> set ?fs. is_digit b" using dec_padded_digits by simp
qed (use assms dec_nat_digits in simp_all)

text \<open>Rounding to seventeen significant digits moves a number by no more than \<open>double_near\<close> allows.\<close>

lemma seventeen_digits_near:
  assumes "1 \<le> v" "10 ^ nat e \<le> v" "0 \<le> e" "e \<le> 16"
  shows "\<bar>of_nat (nat (round_even (v * 10 powi (16 - e)))) / 10 ^ nat (16 - e) - v\<bar> \<le> \<bar>v\<bar> * (1 / (2 * 10 ^ 16))"
proof -
  define n0 where "n0 = nat (round_even (v * 10 powi (16 - e)))"
  have p: "(10 :: rat) powi (16 - e) = 10 ^ nat (16 - e)" using assms(4) by (simp add: power_int_def)
  have n0: "\<bar>of_nat n0 - v * 10 ^ nat (16 - e)\<bar> \<le> 1 / 2"
    using round_even_error [of "v * 10 ^ nat (16 - e)"] round_even_nonneg [of "v * 10 ^ nat (16 - e)"] assms(1)
    by (simp add: n0_def p)
  have "of_nat n0 / 10 ^ nat (16 - e) - v = (of_nat n0 - v * 10 ^ nat (16 - e)) / 10 ^ nat (16 - e)"
    by (simp add: diff_divide_distrib)
  then have "\<bar>of_nat n0 / 10 ^ nat (16 - e) - v\<bar> = \<bar>of_nat n0 - v * 10 ^ nat (16 - e)\<bar> / 10 ^ nat (16 - e)"
    by (simp add: abs_divide)
  also have "\<dots> \<le> 1 / 2 / 10 ^ nat (16 - e)" using n0 by (intro divide_right_mono) simp_all
  also have "\<dots> = 10 ^ nat e * (1 / (2 * 10 ^ 16))"
  proof -
    have "(10 :: rat) ^ 16 = 10 ^ nat e * 10 ^ nat (16 - e)"
      using assms(3,4) by (simp only: power_add [symmetric]) (simp add: nat_add_distrib [symmetric])
    moreover have "1 / 2 / B = A * (1 / (2 * (A * B)))" if "A \<noteq> 0" for A B :: rat using that by simp
    ultimately show ?thesis by (metis power_not_zero zero_neq_numeral)
  qed
  also have "\<dots> \<le> \<bar>v\<bar> * (1 / (2 * 10 ^ 16))" using assms(1,2) by (intro mult_right_mono) simp_all
  finally show ?thesis unfolding n0_def .
qed

lemma strtod_printf_g17:
  assumes "is_double v" "1 \<le> v" "v < 10 ^ 16"
  shows "strtod (printf_g17 v) = Some v"
proof -
  define e where "e = decade v"
  have e: "10 ^ nat e \<le> v" "v < 10 ^ (nat e + 1)" "0 \<le> e" "e \<le> 16"
    using decade_bounds [of v] assms by (simp_all add: e_def)
  have "nat e < 16" using power_less_imp_less_exp [of "10 :: rat" "nat e" 16] e(1) assms(3) by simp
  then have e15: "e \<le> 15" using e(3) by simp
  define n0 where "n0 = nat (round_even (v * 10 powi (16 - e)))"
  define x where "x = of_nat n0 / (10 :: rat) ^ nat (16 - e)"
  have near: "\<bar>x - v\<bar> \<le> \<bar>v\<bar> * (1 / (2 * 10 ^ 16))"
    unfolding x_def n0_def by (rule seventeen_digits_near [OF assms(2) e(1,3,4)])
  then have v: "double_of x = v" by (rule double_near [OF assms(1)])
  have "\<bar>x - v\<bar> \<le> 1 / 2"
  proof -
    have "\<bar>v\<bar> * (1 / (2 * 10 ^ 16)) \<le> 10 ^ 16 * (1 / (2 * 10 ^ 16))"
      using assms(2,3) by (intro mult_right_mono) simp_all
    with near show ?thesis by simp
  qed
  then have "1 / 2 \<le> x" "x \<le> 10 ^ 16 + 1 / 2" using assms(2,3) unfolding abs_le_iff by linarith+
  then have r: "in_double_range x" by (intro in_range_usual) simp_all
  show ?thesis
  proof (cases "n0 = 10 ^ 17")
    case False
    then have "printf_g17 v = strip_point (dec_nat (n0 div 10 ^ nat (16 - e))) (if nat (16 - e) = 0 then [] else dec_padded (nat (16 - e)) (n0 mod 10 ^ nat (16 - e)))"
      using assms(2) e(3,4) by (simp add: printf_g17_def e_def [symmetric] n0_def [symmetric] sign_text_def Let_def)
    with strtod_strip_fixed [of n0 "nat (16 - e)"] r v show ?thesis by (simp add: x_def)
  next
    case True
    have "printf_g17 v = strip_point (dec_nat (10 ^ 16 div 10 ^ nat (15 - e))) (if nat (15 - e) = 0 then [] else dec_padded (nat (15 - e)) (10 ^ 16 mod 10 ^ nat (15 - e)))"
      using assms(2) e(3) e15 True by (simp add: printf_g17_def e_def [symmetric] n0_def [symmetric] sign_text_def Let_def)
    moreover have "x = of_nat (10 ^ 16) / 10 ^ nat (15 - e)"
    proof -
      have "nat (16 - e) = Suc (nat (15 - e))" using e15 by simp
      then show ?thesis by (simp add: x_def True)
    qed
    ultimately show ?thesis using strtod_strip_fixed [of "10 ^ 16" "nat (15 - e)"] r v by simp
  qed
qed

text \<open>Scaling down, rounding to a double and scaling up again loses less than one half.\<close>

lemma scaled_error:
  assumes "\<bar>k\<bar> \<le> 10 ^ 12" "0 < m"
  shows "\<bar>double_of (double_of (of_int k / m) * m) - of_int k\<bar> < 1 / 2"
proof -
  define a where "a = double_of (of_int k / m)"
  define K where "K = (\<bar>of_int k\<bar> :: rat)"
  have K: "K \<le> 10 ^ 12" "0 \<le> K" using assms(1) by (simp_all add: K_def flip: of_int_abs)
  have "\<bar>a * m - of_int k\<bar> = \<bar>a - of_int k / m\<bar> * m"
  proof -
    have "a * m - of_int k = (a - of_int k / m) * m" using assms(2) by (simp add: left_diff_distrib)
    then show ?thesis using assms(2) by (simp add: abs_mult)
  qed
  also have "\<dots> \<le> \<bar>of_int k / m\<bar> / 2 ^ 53 * m"
    unfolding a_def using assms(2) by (intro mult_right_mono double_of_error) simp
  also have "\<dots> = K / 2 ^ 53" using assms(2) by (simp add: K_def abs_divide)
  finally have d1: "\<bar>a * m - of_int k\<bar> \<le> K / 2 ^ 53" .
  have "\<bar>a * m\<bar> \<le> K + K / 2 ^ 53" using d1 unfolding K_def by linarith
  then have "\<bar>a * m\<bar> / 2 ^ 53 \<le> (K + K / 2 ^ 53) / 2 ^ 53" by (intro divide_right_mono) simp_all
  then have "\<bar>double_of (a * m) - a * m\<bar> \<le> (K + K / 2 ^ 53) / 2 ^ 53"
    using double_of_error [of "a * m"] by linarith
  moreover have "K / 2 ^ 53 + (K + K / 2 ^ 53) / 2 ^ 53 < 1 / 2" using K by simp
  ultimately show ?thesis using d1 unfolding a_def [symmetric] by linarith
qed

lemma scaled_lround:
  "\<bar>k\<bar> \<le> 10 ^ 12 \<Longrightarrow> 0 < m \<Longrightarrow> lround (double_of (double_of (of_int k / m) * m)) = k"
  by (rule lround_near) (rule scaled_error)

end
