(* ===== verification/Persist.thy ===== *)
theory Persist
  imports Records
begin

text \<open>
  Atomic replacement of state files, \<^verbatim>\<open>src/src/util/persist.cpp\<close>. The file system is a map
  from paths to files with a mode and contents; each system call the code makes succeeds or
  fails as an \<open>io_plan\<close> says (a call interrupted by a signal is retried until it does one or
  the other). The lemmas show that whatever fails, the file being replaced holds either its
  old or its new contents, that an installed file is readable by its owner only, and that
  the backup is the version that was replaced.
\<close>

section \<open>Files and system calls\<close>

record sysfile =
  f_content :: bytes
  f_mode :: nat

type_synonym fs = "bytes \<Rightarrow> sysfile option"

text \<open>
  One field per call: the stream operations of the writer first, then the calls of
  \<^verbatim>\<open>durable_replace\<close>. \<open>io_partial\<close> is what a failed write leaves in the temporary file and
  \<open>io_umask_mode\<close> the mode a newly created file gets.
\<close>

record io_plan =
  io_create :: bool
  io_write :: bool
  io_close :: bool
  io_partial :: bytes
  io_umask_mode :: nat
  io_open_tmp :: bool
  io_fchmod :: bool
  io_fsync_tmp :: bool
  io_close_tmp :: bool
  io_unlink :: bool
  io_link :: bool
  io_rename :: bool
  io_open_dir :: bool
  io_fsync_dir :: bool
  io_close_dir :: bool

definition owner_rw :: nat where
  "owner_rw = 0x180"

definition dot_tmp :: bytes where "dot_tmp = str ''.tmp''"
definition dot_bak :: bytes where "dot_bak = str ''.bak''"

text \<open>
  \<^verbatim>\<open>durable_replace\<close> as the list of file system states it passes through, oldest first, with
  its result. Syncing changes no contents; a crash can leave any of the states on disk.
\<close>

definition replace_steps :: "io_plan \<Rightarrow> bytes \<Rightarrow> bytes \<Rightarrow> bool \<Rightarrow> fs \<Rightarrow> bool \<times> fs list" where
  "replace_steps io tmp dst keep_backup fs0 =
    (case (io_open_tmp io, fs0 tmp) of
       (True, Some f) \<Rightarrow>
         if \<not> io_fchmod io then (False, [fs0])
         else
           let fs1 = fs0(tmp := Some (f\<lparr>f_mode := owner_rw\<rparr>))
           in if \<not> io_fsync_tmp io \<or> \<not> io_close_tmp io then (False, [fs0, fs1])
           else
             let backup = dst @ dot_bak;
                 unlinked = (if keep_backup \<and> io_unlink io then fs1(backup := None) else fs1);
                 fs2 = (if keep_backup \<and> io_link io \<and> unlinked dst \<noteq> None \<and> unlinked backup = None
                        then unlinked(backup := unlinked dst) else unlinked)
             in if \<not> io_rename io then (False, [fs0, fs1, unlinked, fs2])
             else
               let fs3 = fs2(dst := fs2 tmp, tmp := None)
               in (io_open_dir io \<and> io_fsync_dir io \<and> io_close_dir io,
                   [fs0, fs1, unlinked, fs2, fs3])
     | _ \<Rightarrow> (False, [fs0]))"

definition durable_replace :: "io_plan \<Rightarrow> bytes \<Rightarrow> bytes \<Rightarrow> bool \<Rightarrow> fs \<Rightarrow> bool \<times> fs" where
  "durable_replace io tmp dst keep_backup fs0 =
     (case replace_steps io tmp dst keep_backup fs0 of (ok, fss) \<Rightarrow> (ok, last fss))"

text \<open>
  What every store does around it: create \<open>file.tmp\<close>, write the text, flush, close, replace.
  An existing temporary keeps its mode through the truncating open.
\<close>

definition write_tmp :: "io_plan \<Rightarrow> bytes \<Rightarrow> bytes \<Rightarrow> fs \<Rightarrow> bool \<times> fs" where
  "write_tmp io tmp text fs0 =
     (if \<not> io_create io then (False, fs0)
      else
        let mode = (case fs0 tmp of Some f \<Rightarrow> f_mode f | None \<Rightarrow> io_umask_mode io)
        in if \<not> io_write io then (False, fs0(tmp := Some \<lparr>f_content = io_partial io, f_mode = mode\<rparr>))
           else (io_close io, fs0(tmp := Some \<lparr>f_content = text, f_mode = mode\<rparr>)))"

definition save_file :: "io_plan \<Rightarrow> bytes \<Rightarrow> bytes \<Rightarrow> bool \<Rightarrow> fs \<Rightarrow> bool \<times> fs" where
  "save_file io dst text keep_backup fs0 =
    (let tmp = dst @ dot_tmp
     in case write_tmp io tmp text fs0 of
          (False, fs1) \<Rightarrow> (False, fs1)
        | (True, fs1) \<Rightarrow> durable_replace io tmp dst keep_backup fs1)"

text \<open>Reading a whole state file; \<^verbatim>\<open>std::ifstream\<close> fails to open a file that is not there.\<close>

definition read_file :: "fs \<Rightarrow> bytes \<Rightarrow> bytes option" where
  "read_file fs0 dst = map_option f_content (fs0 dst)"

text \<open>\<^verbatim>\<open>quarantine\<close> renames a file aside; the suffix carries the time of day.\<close>

definition quarantine :: "bool \<Rightarrow> bytes \<Rightarrow> bytes \<Rightarrow> fs \<Rightarrow> bytes \<times> fs" where
  "quarantine rename_ok suffix dst fs0 =
     (if \<not> rename_ok \<or> fs0 dst = None then ([], fs0)
      else (dst @ suffix, fs0(dst @ suffix := fs0 dst, dst := None)))"

text \<open>
  \<^verbatim>\<open>restrict_to_owner\<close> on a plain file: it only ever takes access away from group and others.
\<close>

definition restrict_to_owner :: "bool \<Rightarrow> bytes \<Rightarrow> fs \<Rightarrow> fs" where
  "restrict_to_owner chmod_ok dst fs0 =
     (case fs0 dst of
        None \<Rightarrow> fs0
      | Some f \<Rightarrow>
          if f_mode f AND 0x3F = 0 then fs0
          else if \<not> chmod_ok then fs0
          else fs0(dst := Some (f\<lparr>f_mode := f_mode f AND 0x1C0\<rparr>)))"

section \<open>Atomicity\<close>

lemma suffixes [simp]:
  "dot_tmp \<noteq> []" "dot_bak \<noteq> []" "dot_tmp \<noteq> dot_bak" "dot_bak \<noteq> dot_tmp"
  by (simp_all add: dot_tmp_def dot_bak_def str_def)

lemmas save_defs = save_file_def write_tmp_def durable_replace_def replace_steps_def Let_def
lemmas save_splits = if_splits option.splits bool.splits prod.splits

lemma replace_steps_nonempty: "replace_steps io tmp dst keep fs0 = (ok, fss) \<Longrightarrow> fss \<noteq> []"
  by (auto simp: replace_steps_def Let_def split: save_splits)

text \<open>Whatever a crash leaves on disk while the file is replaced, it is one of two versions.\<close>

lemma replace_steps_atomic:
  assumes "fs \<in> set (snd (replace_steps io (dst @ dot_tmp) dst keep fs0))"
  shows "fs dst = fs0 dst \<or>
     (\<exists>f. fs0 (dst @ dot_tmp) = Some f \<and> fs dst = Some (f\<lparr>f_mode := owner_rw\<rparr>))"
proof (cases "io_open_tmp io \<and> fs0 (dst @ dot_tmp) \<noteq> None")
  case False
  then show ?thesis
    using assms by (auto simp: replace_steps_def split: save_splits)
next
  case True
  then show ?thesis
    using assms by (auto simp: replace_steps_def Let_def split: if_splits)
qed

lemma write_tmp_frame: "write_tmp io tmp text fs0 = (ok, fs1) \<Longrightarrow> q \<noteq> tmp \<Longrightarrow> fs1 q = fs0 q"
  by (auto simp: write_tmp_def Let_def split: if_splits)

lemma write_tmp_content:
  "write_tmp io tmp text fs0 = (True, fs1) \<Longrightarrow> \<exists>m. fs1 tmp = Some \<lparr>f_content = text, f_mode = m\<rparr>"
  by (auto simp: write_tmp_def Let_def split: if_splits)

lemma save_crash_states:
  assumes "write_tmp io (dst @ dot_tmp) text fs0 = (True, fs1)"
    and "fs \<in> set (snd (replace_steps io (dst @ dot_tmp) dst keep fs1))"
  shows "fs dst = fs0 dst \<or> fs dst = Some \<lparr>f_content = text, f_mode = owner_rw\<rparr>"
  using replace_steps_atomic [OF assms(2)] write_tmp_frame [OF assms(1), of dst]
    write_tmp_content [OF assms(1)]
  by auto

lemma durable_replace_ok:
  assumes "durable_replace io (dst @ dot_tmp) dst keep fs0 = (True, fs')"
  shows "\<exists>f. fs0 (dst @ dot_tmp) = Some f \<and> fs' dst = Some (f\<lparr>f_mode := owner_rw\<rparr>)"
  using assms
  by (auto simp: durable_replace_def replace_steps_def Let_def split: save_splits)

lemma save_file_parts:
  assumes "save_file io dst text keep fs0 = (ok, fs')"
  obtains "write_tmp io (dst @ dot_tmp) text fs0 = (False, fs')" "\<not> ok"
  | fs1 where "write_tmp io (dst @ dot_tmp) text fs0 = (True, fs1)"
      "durable_replace io (dst @ dot_tmp) dst keep fs1 = (ok, fs')"
  using assms by (auto simp: save_file_def Let_def split: prod.splits bool.splits)

lemma save_file_ok:
  assumes "save_file io dst text keep fs0 = (True, fs')"
  shows "fs' dst = Some \<lparr>f_content = text, f_mode = owner_rw\<rparr>"
  using assms
proof (cases rule: save_file_parts)
  case (2 fs1)
  then show ?thesis
    using durable_replace_ok [OF 2(2)] write_tmp_content [OF 2(1)] by auto
qed simp

lemma save_file_old_or_new:
  assumes "save_file io dst text keep fs0 = (ok, fs')"
  shows "fs' dst = fs0 dst \<or> fs' dst = Some \<lparr>f_content = text, f_mode = owner_rw\<rparr>"
  using assms
proof (cases rule: save_file_parts)
  case 1
  then show ?thesis
    using write_tmp_frame [OF 1(1), of dst] by simp
next
  case (2 fs1)
  obtain fss where steps: "replace_steps io (dst @ dot_tmp) dst keep fs1 = (ok, fss)" "fs' = last fss"
    using 2(2) by (auto simp: durable_replace_def split: prod.splits)
  then have "fs' \<in> set fss"
    using replace_steps_nonempty [OF steps(1)] by simp
  then show ?thesis
    using save_crash_states [OF 2(1), of fs' keep] steps(1) by simp
qed

lemma durable_replace_backup:
  assumes "durable_replace io (dst @ dot_tmp) dst True fs0 = (True, fs')"
    and "io_unlink io" "io_link io" "fs0 dst = Some old"
  shows "fs' (dst @ dot_bak) = Some old"
  using assms
  by (auto simp: durable_replace_def replace_steps_def Let_def split: save_splits)

lemma save_file_backup:
  assumes "save_file io dst text True fs0 = (True, fs')" "io_unlink io" "io_link io"
    and "fs0 dst = Some old"
  shows "fs' (dst @ dot_bak) = Some old"
  using assms(1)
proof (cases rule: save_file_parts)
  case (2 fs1)
  then show ?thesis
    using durable_replace_backup [OF 2(2)] write_tmp_frame [OF 2(1), of dst] assms by simp
qed simp

lemma save_file_frame:
  assumes "save_file io dst text keep fs0 = (ok, fs')"
    and "q \<noteq> dst" "q \<noteq> dst @ dot_tmp" "q \<noteq> dst @ dot_bak"
  shows "fs' q = fs0 q"
  using assms(1)
proof (cases rule: save_file_parts)
  case 1
  then show ?thesis
    using write_tmp_frame [OF 1(1) assms(3)] by simp
next
  case (2 fs1)
  have "fs' q = fs1 q"
    using 2(2) assms(2-4)
    by (auto simp: durable_replace_def replace_steps_def Let_def split: save_splits)
  then show ?thesis
    using write_tmp_frame [OF 2(1) assms(3)] by simp
qed

lemma restrict_to_owner_mode:
  assumes "restrict_to_owner True dst fs0 dst = Some f"
  shows "f_mode f AND 0x3F = 0"
  using assms
  by (auto simp: restrict_to_owner_def and.assoc split: option.splits if_splits)

section \<open>Stores kept in one file\<close>

text \<open>
  A record store that owns a file: \<open>save\<close> renders it and replaces the file, \<open>load\<close> reads it
  back. \<open>fault\<close> is a read error, the first component of \<open>save\<close> what it reported.
\<close>

locale file_store = record_store render parse restore storable same_config
  for render :: "'s \<Rightarrow> bytes"
    and parse :: "'s \<Rightarrow> bytes \<Rightarrow> LoadResult \<times> 's"
    and restore :: "'s \<Rightarrow> 's \<Rightarrow> 's"
    and storable :: "'s \<Rightarrow> bool"
    and same_config :: "'s \<Rightarrow> 's \<Rightarrow> bool" +
  fixes store_path :: "'s \<Rightarrow> bytes"
    and save :: "io_plan \<Rightarrow> fs \<Rightarrow> 's \<Rightarrow> bool \<times> fs \<times> 's"
    and load :: "nat option \<Rightarrow> fs \<Rightarrow> 's \<Rightarrow> LoadResult \<times> 's"
  assumes save_replaces: "store_path s \<noteq> [] \<Longrightarrow> save io fs0 s = (ok, fs1, s') \<Longrightarrow>
      save_file io (store_path s) (render s) True fs0 = (ok, fs1)"
    and save_nowhere: "store_path s = [] \<Longrightarrow> save io fs0 s = (False, fs0, s)"
    and load_reads: "store_path s \<noteq> [] \<Longrightarrow> load None fs0 s =
      (case read_file fs0 (store_path s) of None \<Rightarrow> (Missing, s) | Some text \<Rightarrow> parse s text)"
    and load_nowhere: "store_path s = [] \<Longrightarrow> load fault fs0 s = (Missing, s)"
    and same_config_path: "same_config s t \<Longrightarrow> store_path s = store_path t"
begin

lemma saved_then_loaded:
  assumes "save io fs0 s = (True, fs1, s')" "storable s" "same_config s t"
  shows "load None fs1 t = (Loaded, restore t s)"
proof -
  have sp: "store_path s \<noteq> []"
    using assms(1) save_nowhere by fastforce
  have "fs1 (store_path s) = Some \<lparr>f_content = render s, f_mode = owner_rw\<rparr>"
    using save_file_ok [OF save_replaces [OF sp assms(1)]] .
  then show ?thesis
    using sp assms same_config_path [OF assms(3)]
    by (simp add: load_reads read_file_def parse_render)
qed

lemma interrupted_save:
  assumes "save io fs0 s = (ok, fs1, s')" "storable s" "same_config s t"
  shows "load None fs1 t = load None fs0 t \<or> load None fs1 t = (Loaded, restore t s)"
proof (cases "store_path s = []")
  case True
  then show ?thesis
    using same_config_path [OF assms(3)] by (simp add: load_nowhere)
next
  case False
  show ?thesis
    using save_file_old_or_new [OF save_replaces [OF False assms(1)]] False assms(2,3)
      same_config_path [OF assms(3)]
    by (auto simp: load_reads read_file_def parse_render)
qed

lemma save_mode:
  assumes "save io fs0 s = (True, fs1, s')" "fs1 (store_path s) = Some f"
  shows "f_mode f = owner_rw"
proof -
  have sp: "store_path s \<noteq> []"
    using assms(1) save_nowhere by fastforce
  show ?thesis
    using save_file_ok [OF save_replaces [OF sp assms(1)]] assms(2) by auto
qed

lemma save_touches_only:
  assumes "save io fs0 s = (ok, fs1, s')" "q \<noteq> store_path s" "q \<noteq> store_path s @ dot_tmp"
    and "q \<noteq> store_path s @ dot_bak"
  shows "fs1 q = fs0 q"
proof (cases "store_path s = []")
  case True
  then show ?thesis
    using assms(1) by (simp add: save_nowhere)
next
  case False
  show ?thesis
    by (rule save_file_frame [OF save_replaces [OF False assms(1)] assms(2-4)])
qed

end

section \<open>Properties\<close>

text \<open>A run in which every system call succeeds.\<close>

definition io_fine :: io_plan where
  "io_fine = \<lparr>io_create = True, io_write = True, io_close = True, io_partial = [],
     io_umask_mode = 0x1A4, io_open_tmp = True, io_fchmod = True, io_fsync_tmp = True,
     io_close_tmp = True, io_unlink = True, io_link = True, io_rename = True, io_open_dir = True,
     io_fsync_dir = True, io_close_dir = True\<rparr>"

text \<open>
  C11. Replacing a state file is atomic at every system call: whichever of them fails, and if
  the daemon dies after any of them, the file holds either what it held before or the whole new
  text, readable and writable by its owner only; no other file than it, its temporary and its
  backup is touched.
\<close>

theorem save_atomic:
  assumes "write_tmp io (dst @ dot_tmp) tx fs0 = (True, fs1)"
    and "fs \<in> set (snd (replace_steps io (dst @ dot_tmp) dst keep fs1))"
  shows "(fs dst = fs0 dst \<or> fs dst = Some \<lparr>f_content = tx, f_mode = owner_rw\<rparr>) \<and>
    snd (save_file io dst tx keep fs0) dst \<in> {fs0 dst, Some \<lparr>f_content = tx, f_mode = owner_rw\<rparr>} \<and>
    (\<forall>q. q \<notin> {dst, dst @ dot_tmp, dst @ dot_bak} \<longrightarrow> snd (save_file io dst tx keep fs0) q = fs0 q)"
proof -
  obtain ok fs' where s: "save_file io dst tx keep fs0 = (ok, fs')" by fastforce
  show ?thesis
    using save_crash_states [OF assms] save_file_old_or_new [OF s] save_file_frame [OF s] s by auto
qed

theorem save_atomic_witness:
  "snd (save_file io_fine [97] [1, 2] True Map.empty) [97] \<in>
     {None, Some \<lparr>f_content = [1, 2], f_mode = owner_rw\<rparr>}"
proof -
  let ?fs1 = "Map.empty([97] @ dot_tmp \<mapsto> \<lparr>f_content = [1, 2], f_mode = 0x1A4\<rparr>)"
  have w: "write_tmp io_fine ([97] @ dot_tmp) [1, 2] Map.empty = (True, ?fs1)"
    by (simp add: write_tmp_def io_fine_def)
  have "?fs1 \<in> set (snd (replace_steps io_fine ([97] @ dot_tmp) [97] True ?fs1))"
    by (simp add: replace_steps_def io_fine_def Let_def)
  from save_atomic [OF w this] show ?thesis by simp
qed

end
