(* ===== verification/Ini.thy ===== *)
theory Ini
  imports Numbers Persist
begin

text \<open>
  The config and settings file syntax, \<^verbatim>\<open>src/src/util/ini.h\<close> and \<^verbatim>\<open>ini.cpp\<close>. The entries are an
  association list kept in the key order of \<^verbatim>\<open>std::map\<close>. The list of keys asked for, which only
  feeds the warning about unknown keys, is an argument of \<open>unread_keys\<close>. Characters are compared
  as unsigned bytes.
\<close>

section \<open>Ordered maps\<close>

fun bytes_less :: "bytes \<Rightarrow> bytes \<Rightarrow> bool" where
  "bytes_less [] [] = False"
| "bytes_less [] (b # bs) = True"
| "bytes_less (a # as) [] = False"
| "bytes_less (a # as) (b # bs) = (a < b \<or> a = b \<and> bytes_less as bs)"

type_synonym entries = "(bytes \<times> bytes) list"

fun map_put :: "bytes \<Rightarrow> bytes \<Rightarrow> entries \<Rightarrow> entries" where
  "map_put k v [] = [(k, v)]"
| "map_put k v ((k', v') # m) =
     (if k = k' then (k, v) # m
      else if bytes_less k k' then (k, v) # (k', v') # m
      else (k', v') # map_put k v m)"

section \<open>Lines\<close>

definition ini_space :: "byte \<Rightarrow> bool" where
  "ini_space b \<longleftrightarrow> b = 32 \<or> b = tab \<or> b = carriage_return \<or> b = newline"

definition trim :: "bytes \<Rightarrow> bytes" where
  "trim s = rev (dropWhile ini_space (rev (dropWhile ini_space s)))"

definition comment_mark :: "byte \<Rightarrow> bool" where
  "comment_mark b \<longleftrightarrow> b = hash_char \<or> b = of_char CHR '';''"

definition quote_mark :: "byte \<Rightarrow> bool" where
  "quote_mark b \<longleftrightarrow> b = 34 \<or> b = 39"

definition clean_value :: "bytes \<Rightarrow> bytes" where
  "clean_value s =
    (let v = trim s
     in if length v \<ge> 2 \<and> quote_mark (hd v) \<and> last v = hd v then butlast (tl v)
        else if list_ex comment_mark v then trim (takeWhile (\<lambda>b. \<not> comment_mark b) v)
        else v)"

definition tolower :: "byte \<Rightarrow> byte" where
  "tolower b = (if of_char CHR ''A'' \<le> b \<and> b \<le> of_char CHR ''Z'' then b + 32 else b)"

datatype IniError = IniCannotOpen | IniUnterminatedSection nat | IniNoEquals nat | IniEmptyKey nat

text \<open>The loop over the lines: \<open>section\<close> is the section in force, \<open>n\<close> the number of the last line read.\<close>

definition equals_sign :: byte where "equals_sign = of_char CHR ''=''"
definition open_bracket :: byte where "open_bracket = of_char CHR ''[''"
definition close_bracket :: byte where "close_bracket = of_char CHR '']''"

definition full_key :: "bytes \<Rightarrow> bytes \<Rightarrow> bytes" where
  "full_key sec key = map tolower (if sec = [] then key else sec @ str ''.'' @ key)"

fun ini_lines :: "bytes list \<Rightarrow> bytes \<Rightarrow> nat \<Rightarrow> entries \<Rightarrow> IniError + entries" where
  "ini_lines [] sec n m = Inr m"
| "ini_lines (line # rest) sec n m =
    (let s = trim line
     in if s = [] \<or> comment_mark (hd s) then ini_lines rest sec (Suc n) m
        else if hd s = open_bracket then
          (if close_bracket \<notin> set s then Inl (IniUnterminatedSection (Suc n))
           else ini_lines rest (trim (takeWhile (\<lambda>b. b \<noteq> close_bracket) (tl s))) (Suc n) m)
        else if equals_sign \<notin> set s then Inl (IniNoEquals (Suc n))
        else
          let key = trim (takeWhile (\<lambda>b. b \<noteq> equals_sign) s);
              val = tl (dropWhile (\<lambda>b. b \<noteq> equals_sign) s)
          in if key = [] then Inl (IniEmptyKey (Suc n))
             else ini_lines rest sec (Suc n) (map_put (full_key sec key) (clean_value val) m))"

text \<open>
  \<open>fault\<close> is where a read error cuts the file short; the loop of \<^verbatim>\<open>getline\<close> ends there as it does
  at the end of the file.
\<close>

definition ini_load :: "nat option \<Rightarrow> fs \<Rightarrow> bytes \<Rightarrow> IniError + entries" where
  "ini_load fault fs0 file_path =
     (case read_file fs0 file_path of
        None \<Rightarrow> Inl IniCannotOpen
      | Some tx \<Rightarrow> ini_lines (fst (read_lines fault tx)) [] 0 [])"

definition ini_set :: "bytes \<Rightarrow> bytes \<Rightarrow> entries \<Rightarrow> entries" where
  "ini_set key val m = map_put (map tolower key) val m"

section \<open>Values\<close>

definition ini_find :: "bytes \<Rightarrow> entries \<Rightarrow> bytes option" where
  "ini_find key m = map_of m key"

definition ini_has :: "bytes \<Rightarrow> entries \<Rightarrow> bool" where
  "ini_has key m \<longleftrightarrow> ini_find key m \<noteq> None"

text \<open>The value of a key when it is there and not empty.\<close>

definition ini_value :: "bytes \<Rightarrow> entries \<Rightarrow> bytes option" where
  "ini_value key m = (case ini_find key m of Some v \<Rightarrow> if v = [] then None else Some v | None \<Rightarrow> None)"

definition get_str :: "bytes \<Rightarrow> bytes \<Rightarrow> entries \<Rightarrow> bytes" where
  "get_str key d m = (case ini_value key m of Some v \<Rightarrow> v | None \<Rightarrow> d)"

text \<open>The getters that report a parse failure: \<open>None\<close> is \<^verbatim>\<open>ok = false\<close>.\<close>

text \<open>\<^verbatim>\<open>get_int\<close> reads a \<^verbatim>\<open>long\<close>, which has \<open>w\<close> bits, 32 or 64 as the platform has it.\<close>

definition get_int :: "nat \<Rightarrow> bytes \<Rightarrow> int \<Rightarrow> entries \<Rightarrow> int option" where
  "get_int w key d m =
     (case ini_value key m of
        None \<Rightarrow> Some d
      | Some v \<Rightarrow>
          (case strtoll v of
             Some n \<Rightarrow> if - (2 ^ (w - 1)) \<le> n \<and> n < 2 ^ (w - 1) then Some n else None
           | None \<Rightarrow> None))"

definition get_int64 :: "bytes \<Rightarrow> int \<Rightarrow> entries \<Rightarrow> int option" where
  "get_int64 key d m = (case ini_value key m of None \<Rightarrow> Some d | Some v \<Rightarrow> strtoll v)"

definition get_double :: "bytes \<Rightarrow> rat \<Rightarrow> entries \<Rightarrow> rat option" where
  "get_double key d m = (case ini_value key m of None \<Rightarrow> Some d | Some v \<Rightarrow> strtod v)"

definition parse_bool :: "bytes \<Rightarrow> bool option" where
  "parse_bool v =
    (let s = map tolower v
     in if s \<in> {str ''1'', str ''true'', str ''yes'', str ''on''} then Some True
        else if s \<in> {str ''0'', str ''false'', str ''no'', str ''off''} then Some False
        else None)"

definition get_bool :: "bytes \<Rightarrow> bool \<Rightarrow> entries \<Rightarrow> bool option" where
  "get_bool key d m = (case ini_value key m of None \<Rightarrow> Some d | Some v \<Rightarrow> parse_bool v)"

text \<open>The getters without a report: on a parse failure the default (and a warning).\<close>

definition get_int_default :: "nat \<Rightarrow> bytes \<Rightarrow> int \<Rightarrow> entries \<Rightarrow> int" where
  "get_int_default w key d m = (case get_int w key d m of Some v \<Rightarrow> v | None \<Rightarrow> d)"

definition get_double_default :: "bytes \<Rightarrow> rat \<Rightarrow> entries \<Rightarrow> rat" where
  "get_double_default key d m = (case get_double key d m of Some v \<Rightarrow> v | None \<Rightarrow> d)"

definition get_bool_default :: "bytes \<Rightarrow> bool \<Rightarrow> entries \<Rightarrow> bool" where
  "get_bool_default key d m = (case get_bool key d m of Some v \<Rightarrow> v | None \<Rightarrow> d)"

definition unread_keys :: "bytes list \<Rightarrow> entries \<Rightarrow> bytes list" where
  "unread_keys reads m = filter (\<lambda>k. k \<notin> set reads) (map fst m)"

text \<open>A 64-bit \<^verbatim>\<open>long\<close> reads what \<^verbatim>\<open>get_int64\<close> does, a narrower one never anything else.\<close>

lemma get_int_64: "get_int 64 key d m = get_int64 key d m"
proof -
  have "- (2 ^ 63) \<le> n \<and> n < 2 ^ 63" if "strtoll v = Some n" for v n
    using that by (auto simp: strtoll_def Let_def split: prod.splits if_splits)
  then show ?thesis by (auto simp: get_int_def get_int64_def split: option.splits)
qed

lemma get_int_narrow: "get_int w key d m = Some n \<Longrightarrow> get_int64 key d m = Some n"
  by (auto simp: get_int_def get_int64_def split: option.splits if_splits)

end
