(* ===== verification/Channels.thy ===== *)
theory Channels
  imports Persist
begin

text \<open>
  The channel slots, \<^verbatim>\<open>src/src/mesh/channels.h\<close> and \<^verbatim>\<open>channels.cpp\<close>: eight slots addressed by
  index, a slot with no 16-byte key being empty, and the file they are kept in.
\<close>

section \<open>Channels\<close>

record Channel =
  ch_name :: bytes
  ch_secret :: bytes

definition no_channel :: Channel where
  "no_channel = \<lparr>ch_name = [], ch_secret = []\<rparr>"

definition kPublicChannelKeyHex :: bytes where
  "kPublicChannelKeyHex = str ''8b3387e9c5cdea6ac9e5edbaa115cd72''"

definition channel_valid :: "Channel \<Rightarrow> bool" where
  "channel_valid ch \<longleftrightarrow> length (ch_secret ch) = 16"

definition channel_hash :: "crypto_ops \<Rightarrow> Channel \<Rightarrow> byte" where
  "channel_hash cr ch = (if \<not> channel_valid ch then 0 else sha256 cr (ch_secret ch) ! 0)"

definition from_hashtag :: "crypto_ops \<Rightarrow> bytes \<Rightarrow> Channel" where
  "from_hashtag cr name = \<lparr>ch_name = name, ch_secret = take 16 (sha256 cr name)\<rparr>"

definition public_channel :: Channel where
  "public_channel =
     (case unhex kPublicChannelKeyHex of
        Some key \<Rightarrow> \<lparr>ch_name = str ''Public'', ch_secret = key\<rparr>
      | None \<Rightarrow> \<lparr>ch_name = str ''Public'', ch_secret = []\<rparr>)"

record ChannelStore =
  chs_path :: bytes
  chs_channels :: "Channel list"
  chs_dirty :: bool

definition kMaxChannels :: nat where "kMaxChannels = 8"

definition new_channels :: "bytes \<Rightarrow> ChannelStore" where
  "new_channels file_path = \<lparr>chs_path = file_path,
     chs_channels = (replicate kMaxChannels no_channel)[0 := public_channel], chs_dirty = False\<rparr>"

definition channel_at :: "nat \<Rightarrow> ChannelStore \<Rightarrow> Channel option" where
  "channel_at i s = (if i < length (chs_channels s) then Some (chs_channels s ! i) else None)"

definition channel_set :: "nat \<Rightarrow> Channel \<Rightarrow> ChannelStore \<Rightarrow> ChannelStore" where
  "channel_set i ch s =
     (if i \<ge> length (chs_channels s) then s
      else s\<lparr>chs_channels := (chs_channels s)[i := ch], chs_dirty := True\<rparr>)"

definition channels_by_hash :: "crypto_ops \<Rightarrow> byte \<Rightarrow> ChannelStore \<Rightarrow> (nat \<times> Channel) list" where
  "channels_by_hash cr h s =
     map (\<lambda>i. (i, chs_channels s ! i))
       (filter (\<lambda>i. channel_valid (chs_channels s ! i) \<and> channel_hash cr (chs_channels s ! i) = h)
         [0..<length (chs_channels s)])"

section \<open>The channels file\<close>

definition channels_header :: bytes where
  "channels_header = str ''# coreletd channels v1''"

definition channels_columns :: bytes where
  "channels_columns = str ''# index'' @ [tab] @ str ''key'' @ [tab] @ str ''name''"

definition channel_row :: "nat \<Rightarrow> Channel \<Rightarrow> bytes" where
  "channel_row i ch = dec_nat i @ tab # hex (ch_secret ch) @ tab # sanitise (ch_name ch)"

definition channel_rows :: "Channel list \<Rightarrow> nat list \<Rightarrow> bytes list" where
  "channel_rows chs idx =
     map (\<lambda>i. channel_row i (chs ! i)) (filter (\<lambda>i. channel_valid (chs ! i)) idx)"

definition channels_render :: "ChannelStore \<Rightarrow> bytes" where
  "channels_render s = concat (map (\<lambda>l. l @ [newline])
     (channels_header # channels_columns #
      channel_rows (chs_channels s) [0..<length (chs_channels s)]))"

text \<open>
  One line: the two tabs, the slot, whether it is already occupied, and the key. \<open>from_chars\<close>
  reads a \<^verbatim>\<open>size_t\<close>.
\<close>

definition channel_line ::
  "Channel list \<times> bool list \<Rightarrow> bytes \<Rightarrow> (Channel list \<times> bool list) option" where
  "channel_line acc line =
    (let (loaded, occupied) = acc
     in case split_fields line 3 of
          Some [idx, key, name] \<Rightarrow>
            (case from_chars_u64 idx of
               None \<Rightarrow> None
             | Some (slot, rest) \<Rightarrow>
                 if rest \<noteq> [] \<or> slot \<ge> kMaxChannels then None
                 else if occupied ! slot then None
                 else case unhex key of
                        None \<Rightarrow> None
                      | Some secret \<Rightarrow>
                          if length secret \<noteq> 16 then None
                          else Some (loaded[slot := \<lparr>ch_name = name, ch_secret = secret\<rparr>],
                                     occupied[slot := True]))
        | _ \<Rightarrow> None)"

definition channels_parse :: "ChannelStore \<Rightarrow> bytes list \<times> bool \<Rightarrow> LoadResult \<times> ChannelStore" where
  "channels_parse s input =
     (case load_lines channels_header channel_line (fst input) False
             (replicate kMaxChannels no_channel, replicate kMaxChannels False) of
        None \<Rightarrow> (Corrupt, s)
      | Some (saw_header, loaded, occupied) \<Rightarrow>
          if snd input then (Corrupt, s)
          else if \<not> saw_header then (Corrupt, s)
          else (Loaded, s\<lparr>chs_channels := loaded, chs_dirty := False\<rparr>))"

definition channels_load :: "nat option \<Rightarrow> fs \<Rightarrow> ChannelStore \<Rightarrow> LoadResult \<times> ChannelStore" where
  "channels_load fault fs0 s =
     (if chs_path s = [] then (Missing, s)
      else case read_file fs0 (chs_path s) of
             None \<Rightarrow> (Missing, s)
           | Some text \<Rightarrow> channels_parse s (read_lines fault text))"

definition channels_save :: "io_plan \<Rightarrow> fs \<Rightarrow> ChannelStore \<Rightarrow> bool \<times> fs \<times> ChannelStore" where
  "channels_save io fs0 s =
     (if chs_path s = [] then (False, fs0, s)
      else case save_file io (chs_path s) (channels_render s) True fs0 of
             (ok, fs1) \<Rightarrow> (ok, fs1, if ok then s\<lparr>chs_dirty := False\<rparr> else s))"

section \<open>Slots\<close>

definition channels_inv :: "ChannelStore \<Rightarrow> bool" where
  "channels_inv s \<longleftrightarrow> length (chs_channels s) = kMaxChannels"

lemma channels_inv_new: "channels_inv (new_channels file_path)"
  by (simp add: channels_inv_def new_channels_def)

lemma channel_set_inv: "channels_inv s \<Longrightarrow> channels_inv (channel_set i ch s)"
  by (simp add: channels_inv_def channel_set_def)

lemma channel_at_set:
  "channel_at j (channel_set i ch s) =
     (if j = i \<and> i < length (chs_channels s) then Some ch else channel_at j s)"
  by (simp add: channel_at_def channel_set_def)

lemma channels_by_hash_iff:
  "(i, ch) \<in> set (channels_by_hash cr h s) \<longleftrightarrow>
     channel_at i s = Some ch \<and> channel_valid ch \<and> channel_hash cr ch = h"
  by (auto simp: channels_by_hash_def channel_at_def split: if_splits)

lemma public_channel_valid: "channel_valid public_channel"
  by (simp add: public_channel_def kPublicChannelKeyHex_def channel_valid_def str_def unhex_def
      nibble_def)

section \<open>Saving and loading\<close>

definition channel_persisted :: "Channel \<Rightarrow> Channel" where
  "channel_persisted ch =
     (if channel_valid ch then ch\<lparr>ch_name := sanitise (ch_name ch)\<rparr> else no_channel)"

definition channels_persisted :: "ChannelStore \<Rightarrow> ChannelStore" where
  "channels_persisted s =
     s\<lparr>chs_channels := map channel_persisted (chs_channels s), chs_dirty := False\<rparr>"

lemma channel_line_row:
  assumes "i < kMaxChannels" "\<not> occupied ! i" "channel_valid ch"
  shows "channel_line (loaded, occupied) (channel_row i ch) =
    Some (loaded[i := channel_persisted ch], occupied[i := True])"
proof -
  have "split_fields (channel_row i ch) 3 = Some [dec_nat i, hex (ch_secret ch), sanitise (ch_name ch)]"
    by (simp add: channel_row_def eval_nat_numeral del: split_fields.simps)
  then show ?thesis
    using assms
    by (cases ch) (simp add: channel_line_def from_chars_u64_def unhex_hex channel_valid_def
        channel_persisted_def kMaxChannels_def)
qed

lemma channel_rows_read:
  assumes "length chs = kMaxChannels" "n \<le> kMaxChannels"
  shows "fold_opt channel_line (replicate kMaxChannels no_channel, replicate kMaxChannels False)
      (channel_rows chs [0..<n]) =
    Some (map channel_persisted (take n chs) @ replicate (kMaxChannels - n) no_channel,
          map channel_valid (take n chs) @ replicate (kMaxChannels - n) False)"
  using assms(2)
proof (induction n)
  case 0
  then show ?case
    by (simp add: channel_rows_def)
next
  case (Suc n)
  have n: "n < length chs"
    using Suc.prems assms(1) by simp
  have rep: "replicate (kMaxChannels - n) x = x # replicate (kMaxChannels - Suc n) x" for x :: 'b
    using Suc.prems by (metis Suc_diff_Suc Suc_le_lessD replicate_Suc)
  have rows: "channel_rows chs [0..<Suc n] = channel_rows chs [0..<n] @
      (if channel_valid (chs ! n) then [channel_row n (chs ! n)] else [])"
    by (simp add: channel_rows_def)
  have IH: "fold_opt channel_line (replicate kMaxChannels no_channel, replicate kMaxChannels False)
      (channel_rows chs [0..<n]) =
    Some (map channel_persisted (take n chs) @ replicate (kMaxChannels - n) no_channel,
          map channel_valid (take n chs) @ replicate (kMaxChannels - n) False)"
    using Suc by simp
  have "\<not> (map channel_valid (take n chs) @ replicate (kMaxChannels - n) False) ! n"
    using n Suc.prems by (simp add: nth_append)
  then have "channel_valid (chs ! n) \<Longrightarrow> ?case"
    using n Suc.prems unfolding rows fold_opt_append IH
    by (simp add: channel_line_row take_Suc_conv_app_nth rep list_update_append)
  moreover have "\<not> channel_valid (chs ! n) \<Longrightarrow> ?case"
    using n unfolding rows fold_opt_append IH
    by (simp add: take_Suc_conv_app_nth rep channel_persisted_def)
  ultimately show ?case
    by blast
qed

lemma channel_row_line: "record_line (channel_row i ch)"
proof -
  have "hd (dec_nat i) \<noteq> hash_char"
    using dec_nat_digits [of i] digits_clean by simp
  moreover have "newline \<noteq> tab"
    by (simp add: char_codes)
  ultimately show ?thesis
    by (simp add: record_line_def channel_row_def)
qed

definition channels_same_config :: "ChannelStore \<Rightarrow> ChannelStore \<Rightarrow> bool" where
  "channels_same_config s t \<longleftrightarrow> chs_path s = chs_path t"

lemma channels_parse_render:
  assumes "channels_inv s" "channels_same_config s t"
  shows "channels_parse t (read_lines None (channels_render s)) = (Loaded, channels_persisted s)"
proof -
  have "load_lines channels_header channel_line (getlines (channels_render s)) False
      (replicate kMaxChannels no_channel, replicate kMaxChannels False) =
    map_option (Pair True) (fold_opt channel_line
      (replicate kMaxChannels no_channel, replicate kMaxChannels False)
      (channel_rows (chs_channels s) [0..<length (chs_channels s)]))"
    unfolding channels_render_def
    by (rule load_lines_file)
      (auto simp add: channels_header_def channels_columns_def str_def char_codes channel_rows_def
        channel_row_line)
  moreover have "fold_opt channel_line
      (replicate kMaxChannels no_channel, replicate kMaxChannels False)
      (channel_rows (chs_channels s) [0..<length (chs_channels s)]) =
    Some (map channel_persisted (chs_channels s), map channel_valid (chs_channels s))"
    using assms(1) channel_rows_read [of "chs_channels s" kMaxChannels]
    by (simp add: channels_inv_def)
  ultimately show ?thesis
    using assms(2)
    by (simp add: channels_parse_def read_lines_def channels_persisted_def channels_same_config_def)
qed

lemma channel_persisted_simps [simp]:
  "channel_valid (channel_persisted ch) = channel_valid ch"
  "channel_persisted (channel_persisted ch) = channel_persisted ch"
  "channel_valid ch \<Longrightarrow> channel_row i (channel_persisted ch) = channel_row i ch"
  by (auto simp: channel_persisted_def channel_valid_def no_channel_def channel_row_def)

lemma channel_rows_persisted:
  "set idx \<subseteq> {..<length chs} \<Longrightarrow> channel_rows (map channel_persisted chs) idx = channel_rows chs idx"
  by (induction idx) (auto simp: channel_rows_def)

interpretation channel_file: file_store channels_render
  "\<lambda>s text. channels_parse s (read_lines None text)" "\<lambda>t s. channels_persisted s" channels_inv
  channels_same_config chs_path channels_save channels_load
proof
  fix s t
  show "channels_inv s \<Longrightarrow> channels_same_config s t \<Longrightarrow>
      channels_parse t (read_lines None (channels_render s)) = (Loaded, channels_persisted s)"
    by (rule channels_parse_render)
  fix tx res t'
  show "channels_parse t (read_lines None tx) = (res, t') \<Longrightarrow> res \<noteq> Loaded \<Longrightarrow> t' = t"
    by (auto simp: channels_parse_def split: option.splits if_splits prod.splits)
next
  fix s
  show "channels_inv s \<Longrightarrow> channels_inv (channels_persisted s)"
    by (simp add: channels_inv_def channels_persisted_def)
  show "channels_render (channels_persisted s) = channels_render s"
    by (subst (1 2) channels_render_def) (simp add: channels_persisted_def channel_rows_persisted
        subset_eq)
  show "channels_persisted (channels_persisted s) = channels_persisted s"
    by (simp add: channels_persisted_def)
qed (auto simp: channels_same_config_def channels_save_def channels_load_def read_lines_def
    split: prod.splits if_splits)

section \<open>Properties\<close>

text \<open>
  The channel file: after a save that reports success the next start loads the same eight
  slots, an empty slot staying empty, and after one that failed either those or what was there
  before.
\<close>

theorem channels_survive_restart:
  assumes "channels_inv s" "channels_same_config s t" "channels_save io fs0 s = (ok, fs1, s')"
  shows "(ok \<longrightarrow> channels_load None fs1 t = (Loaded, channels_persisted s)) \<and>
    (channels_load None fs1 t = channels_load None fs0 t \<or>
     channels_load None fs1 t = (Loaded, channels_persisted s))"
  using channel_file.saved_then_loaded [of io fs0 s fs1 s' t] channel_file.interrupted_save [OF assms(3,1,2)]
    assms by auto

theorem channels_survive_restart_witness:
  "\<exists>fs1 s'. channels_save io_fine Map.empty (new_channels [97]) = (True, fs1, s') \<and>
     channels_load None fs1 (new_channels [97]) = (Loaded, channels_persisted (new_channels [97]))"
proof -
  have c: "channels_same_config (new_channels [97]) (new_channels [97])"
    by (simp add: channels_same_config_def)
  obtain fs1 s' where s: "channels_save io_fine Map.empty (new_channels [97]) = (True, fs1, s')"
    by (simp add: channels_save_def new_channels_def save_defs io_fine_def)
  from channels_survive_restart [OF channels_inv_new c s] s show ?thesis by auto
qed

end
