(* ===== verification/Inbox.thy ===== *)
theory Inbox
  imports Persist Payloads
begin

text \<open>
  The store-and-forward queue of received messages, \<^verbatim>\<open>src/src/mesh/inbox.h\<close> and \<^verbatim>\<open>inbox.cpp\<close>:
  bounded, committed to its file before a message counts as received, and drained oldest
  first.
\<close>

section \<open>The queue\<close>

record StoredMessage =
  sm_is_channel :: bool
  sm_sender_pubkey :: bytes
  sm_channel_index :: byte
  sm_timestamp :: u32
  sm_txt_type :: byte
  sm_text :: bytes
  sm_snr_q4 :: byte
  sm_path_len :: byte

definition new_message :: StoredMessage where
  "new_message = \<lparr>sm_is_channel = False, sm_sender_pubkey = [], sm_channel_index = 0,
     sm_timestamp = 0, sm_txt_type = kTxtPlain, sm_text = [], sm_snr_q4 = 0, sm_path_len = 0xFF\<rparr>"

record MessageInbox =
  ib_path :: bytes
  ib_messages :: "StoredMessage list"
  ib_limit :: nat
  ib_dropped :: u32
  ib_dirty :: bool

definition kDefaultLimit :: nat where "kDefaultLimit = 256"

definition new_inbox :: "nat \<Rightarrow> bytes \<Rightarrow> MessageInbox" where
  "new_inbox limit file_path = \<lparr>ib_path = file_path, ib_messages = [], ib_limit = limit,
     ib_dropped = 0, ib_dirty = False\<rparr>"

text \<open>The loop that drops the oldest message while there are more than the limit.\<close>

fun drop_oldest :: "nat \<Rightarrow> 'm list \<Rightarrow> u32 \<Rightarrow> 'm list \<times> u32" where
  "drop_oldest limit [] dropped = ([], dropped)"
| "drop_oldest limit (m # ms) dropped =
     (if length (m # ms) > limit then drop_oldest limit ms (dropped + 1) else (m # ms, dropped))"

section \<open>The messages file\<close>

definition inbox_header :: bytes where
  "inbox_header = str ''# coreletd messages v1''"

definition inbox_columns :: bytes where
  "inbox_columns = str ''# kind'' @ [tab] @ str ''peer'' @ [tab] @ str ''channel'' @ [tab] @
     str ''timestamp'' @ [tab] @ str ''txt_type'' @ [tab] @ str ''snr_q4'' @ [tab] @
     str ''path_len'' @ [tab] @ str ''text_hex''"

definition message_row :: "StoredMessage \<Rightarrow> bytes" where
  "message_row m = (if sm_is_channel m then str ''channel'' else str ''direct'') @ tab #
     (if sm_sender_pubkey m = [] then str ''-'' else hex (sm_sender_pubkey m)) @ tab #
     dec_nat (unat (sm_channel_index m)) @ tab # dec_nat (unat (sm_timestamp m)) @ tab #
     dec_nat (unat (sm_txt_type m)) @ tab # dec_int (sint (sm_snr_q4 m)) @ tab #
     dec_nat (unat (sm_path_len m)) @ tab # hex (sm_text m)"

definition inbox_render :: "MessageInbox \<Rightarrow> bytes" where
  "inbox_render s = concat (map (\<lambda>l. l @ [newline])
     (inbox_header # inbox_columns # map message_row (ib_messages s)))"

definition parse_kind :: "bytes \<Rightarrow> bool option" where
  "parse_kind f = (if f = str ''channel'' then Some True
                   else if f = str ''direct'' then Some False else None)"

definition parse_peer :: "bool \<Rightarrow> bytes \<Rightarrow> bytes option" where
  "parse_peer is_channel f =
     (if f \<noteq> str ''-'' then
        (case unhex f of
           None \<Rightarrow> None
         | Some pubkey \<Rightarrow> if length pubkey \<noteq> kPubKeySize then None else Some pubkey)
      else if \<not> is_channel then None else Some [])"

definition message_fields :: "bytes list \<Rightarrow> StoredMessage option" where
  "message_fields fds =
     (case parse_kind (fds ! 0) of
        None \<Rightarrow> None
      | Some is_channel \<Rightarrow>
          (case parse_peer is_channel (fds ! 1) of
             None \<Rightarrow> None
           | Some pubkey \<Rightarrow>
               (case (parse_unsigned (fds ! 2) 255, parse_unsigned (fds ! 3) 0xFFFFFFFF,
                      parse_unsigned (fds ! 4) 255, parse_signed (fds ! 5) (- 128) 127,
                      parse_unsigned (fds ! 6) 255) of
                  (Some channel, Some timestamp, Some txt_type, Some sn, Some path_len) \<Rightarrow>
                    (case unhex (fds ! 7) of
                       None \<Rightarrow> None
                     | Some text \<Rightarrow>
                         Some \<lparr>sm_is_channel = is_channel, sm_sender_pubkey = pubkey,
                           sm_channel_index = word_of_nat channel,
                           sm_timestamp = word_of_nat timestamp,
                           sm_txt_type = word_of_nat txt_type, sm_text = text,
                           sm_snr_q4 = word_of_int sn, sm_path_len = word_of_nat path_len\<rparr>)
                | _ \<Rightarrow> None)))"

definition message_line :: "StoredMessage list \<Rightarrow> bytes \<Rightarrow> StoredMessage list option" where
  "message_line loaded line =
     (case split_fields line 8 of
        None \<Rightarrow> None
      | Some fds \<Rightarrow> map_option (\<lambda>m. loaded @ [m]) (message_fields fds))"

text \<open>Unlike the other two stores, this one does not look at the stream's bad bit.\<close>

definition inbox_parse :: "MessageInbox \<Rightarrow> bytes list \<times> bool \<Rightarrow> LoadResult \<times> MessageInbox" where
  "inbox_parse s input =
     (case load_lines inbox_header message_line (fst input) False [] of
        None \<Rightarrow> (Corrupt, s)
      | Some (saw_header, loaded) \<Rightarrow>
          if \<not> saw_header then (Corrupt, s)
          else (case drop_oldest (ib_limit s) loaded (ib_dropped s) of
                  (kept, dropped) \<Rightarrow>
                    (Loaded, s\<lparr>ib_messages := kept, ib_dropped := dropped, ib_dirty := False\<rparr>)))"

definition inbox_load :: "nat option \<Rightarrow> fs \<Rightarrow> MessageInbox \<Rightarrow> LoadResult \<times> MessageInbox" where
  "inbox_load fault fs0 s =
     (if ib_path s = [] then (Missing, s)
      else case read_file fs0 (ib_path s) of
             None \<Rightarrow> (Missing, s)
           | Some text \<Rightarrow> inbox_parse s (read_lines fault text))"

definition inbox_save :: "io_plan \<Rightarrow> fs \<Rightarrow> MessageInbox \<Rightarrow> bool \<times> fs \<times> MessageInbox" where
  "inbox_save io fs0 s =
     (if ib_path s = [] then (False, fs0, s)
      else case save_file io (ib_path s) (inbox_render s) True fs0 of
             (ok, fs1) \<Rightarrow> (ok, fs1, if ok then s\<lparr>ib_dirty := False\<rparr> else s))"

section \<open>Storing and collecting\<close>

definition inbox_enqueue :: "StoredMessage \<Rightarrow> MessageInbox \<Rightarrow> MessageInbox" where
  "inbox_enqueue m s =
     (case drop_oldest (ib_limit s) (ib_messages s @ [m]) (ib_dropped s) of
        (kept, dropped) \<Rightarrow> s\<lparr>ib_messages := kept, ib_dropped := dropped, ib_dirty := True\<rparr>)"

definition inbox_store ::
  "io_plan \<Rightarrow> StoredMessage \<Rightarrow> fs \<Rightarrow> MessageInbox \<Rightarrow> bool \<times> fs \<times> MessageInbox" where
  "inbox_store io m fs0 s =
    (let s1 = inbox_enqueue m s
     in if ib_path s1 = [] then (True, fs0, s1) else inbox_save io fs0 s1)"

definition inbox_pop :: "MessageInbox \<Rightarrow> StoredMessage option \<times> MessageInbox" where
  "inbox_pop s =
     (case ib_messages s of
        [] \<Rightarrow> (None, s)
      | m # ms \<Rightarrow> (Some m, s\<lparr>ib_messages := ms, ib_dirty := True\<rparr>))"

definition inbox_mark_dirty :: "MessageInbox \<Rightarrow> MessageInbox" where
  "inbox_mark_dirty s = s\<lparr>ib_dirty := True\<rparr>"

section \<open>Bound and order\<close>

lemma drop_oldest_eq:
  "drop_oldest limit ms dropped =
     (drop (length ms - limit) ms, dropped + word_of_nat (length ms - limit))"
proof (induction ms arbitrary: dropped)
  case (Cons m ms)
  then show ?case
    by (auto simp: Suc_diff_le not_less)
qed simp

definition message_wf :: "StoredMessage \<Rightarrow> bool" where
  "message_wf m \<longleftrightarrow> (length (sm_sender_pubkey m) = kPubKeySize \<or>
     sm_is_channel m \<and> sm_sender_pubkey m = [])"

definition inbox_inv :: "MessageInbox \<Rightarrow> bool" where
  "inbox_inv s \<longleftrightarrow> length (ib_messages s) \<le> ib_limit s \<and> list_all message_wf (ib_messages s)"

lemma inbox_inv_new: "inbox_inv (new_inbox limit file_path)"
  by (simp add: inbox_inv_def new_inbox_def)

lemma inbox_enqueue_simps [simp]:
  "ib_path (inbox_enqueue m s) = ib_path s" "ib_limit (inbox_enqueue m s) = ib_limit s"
  "ib_dirty (inbox_enqueue m s)"
  by (simp_all add: inbox_enqueue_def drop_oldest_eq)

lemma inbox_enqueue_inv: "inbox_inv s \<Longrightarrow> message_wf m \<Longrightarrow> inbox_inv (inbox_enqueue m s)"
  by (auto simp: inbox_inv_def inbox_enqueue_def drop_oldest_eq list_all_iff dest: in_set_dropD)

lemma inbox_store_inv:
  "inbox_inv s \<Longrightarrow> message_wf m \<Longrightarrow> inbox_store io m fs0 s = (ok, fs1, s') \<Longrightarrow> inbox_inv s'"
  using inbox_enqueue_inv [of s m]
  by (auto simp: inbox_store_def inbox_save_def inbox_inv_def Let_def split: if_splits prod.splits)

lemma inbox_pop_inv: "inbox_inv s \<Longrightarrow> inbox_inv (snd (inbox_pop s))"
  by (auto simp: inbox_inv_def inbox_pop_def split: list.splits)

lemma inbox_enqueue_messages:
  assumes "inbox_inv s" "0 < ib_limit s"
  shows "ib_messages (inbox_enqueue m s) =
    (if length (ib_messages s) < ib_limit s then ib_messages s else tl (ib_messages s)) @ [m]"
proof -
  have "drop (Suc (length xs) - n) (xs @ [m]) = (if length xs < n then xs else tl xs) @ [m]"
    if "length xs \<le> n" "0 < n" for xs :: "StoredMessage list" and n
    using that by (cases xs) auto
  then show ?thesis
    using assms by (simp add: inbox_enqueue_def drop_oldest_eq inbox_inv_def)
qed

section \<open>Saving and loading\<close>

definition inbox_restore :: "MessageInbox \<Rightarrow> MessageInbox \<Rightarrow> MessageInbox" where
  "inbox_restore t s = t\<lparr>ib_messages := ib_messages s, ib_dirty := False\<rparr>"

definition inbox_same_config :: "MessageInbox \<Rightarrow> MessageInbox \<Rightarrow> bool" where
  "inbox_same_config s t \<longleftrightarrow> ib_path s = ib_path t \<and> ib_limit s \<le> ib_limit t"

lemma parse_i8: "parse_signed (dec_int (sint (b :: byte))) (- 128) 127 = Some (sint b)"
proof (rule parse_signed_dec)
  show "- 128 \<le> sint b" "sint b \<le> 127" "- (2 ^ 63) \<le> sint b" "sint b < 2 ^ 63"
    using sint_ge [of b] sint_lt [of b] by auto
qed

lemma message_row_fields:
  "split_fields (message_row m) 8 =
     Some [if sm_is_channel m then str ''channel'' else str ''direct'',
       if sm_sender_pubkey m = [] then str ''-'' else hex (sm_sender_pubkey m),
       dec_nat (unat (sm_channel_index m)), dec_nat (unat (sm_timestamp m)),
       dec_nat (unat (sm_txt_type m)), dec_int (sint (sm_snr_q4 m)),
       dec_nat (unat (sm_path_len m)), hex (sm_text m)]"
proof -
  have "tab \<notin> set (if sm_is_channel m then str ''channel'' else str ''direct'')"
    "tab \<notin> set (if sm_sender_pubkey m = [] then str ''-'' else hex (sm_sender_pubkey m))"
    using hex_clean(1) [of "sm_sender_pubkey m"] by (simp_all add: str_def char_codes)
  then show ?thesis
    by (simp add: message_row_def eval_nat_numeral del: split_fields.simps)
qed

lemma message_line_row:
  assumes "message_wf m"
  shows "message_line loaded (message_row m) = Some (loaded @ [m])"
proof -
  have "parse_kind (if sm_is_channel m then str ''channel'' else str ''direct'') =
      Some (sm_is_channel m)"
    by (simp add: parse_kind_def str_def)
  moreover have "parse_peer (sm_is_channel m)
      (if sm_sender_pubkey m = [] then str ''-'' else hex (sm_sender_pubkey m)) =
      Some (sm_sender_pubkey m)"
    using assms by (auto simp: parse_peer_def message_wf_def not_hex unhex_hex)
  ultimately show ?thesis
    by (simp add: message_line_def message_row_fields message_fields_def parse_byte parse_u32
        parse_i8 unhex_hex)
qed

lemma message_rows_read:
  "list_all message_wf ms \<Longrightarrow>
     fold_opt message_line loaded (map message_row ms) = Some (loaded @ ms)"
  by (induction ms arbitrary: loaded) (simp_all add: message_line_row)

lemma message_row_line: "record_line (message_row m)"
proof -
  have "newline \<notin> set (if sm_is_channel m then str ''channel'' else str ''direct'')"
    "newline \<notin> set (if sm_sender_pubkey m = [] then str ''-'' else hex (sm_sender_pubkey m))"
    "newline \<noteq> tab"
    using hex_clean(2) [of "sm_sender_pubkey m"] by (simp_all add: str_def char_codes)
  then show ?thesis
    by (simp add: record_line_def message_row_def) (simp add: str_def char_codes)
qed

lemma inbox_parse_render:
  assumes "inbox_inv s" "inbox_same_config s t"
  shows "inbox_parse t (read_lines None (inbox_render s)) = (Loaded, inbox_restore t s)"
proof -
  have "load_lines inbox_header message_line (getlines (inbox_render s)) False [] =
      map_option (Pair True) (fold_opt message_line [] (map message_row (ib_messages s)))"
    unfolding inbox_render_def
    by (rule load_lines_file)
      (auto simp add: inbox_header_def inbox_columns_def str_def char_codes message_row_line)
  moreover have "fold_opt message_line [] (map message_row (ib_messages s)) = Some (ib_messages s)"
    using assms(1) message_rows_read [of "ib_messages s" "[]"] by (simp add: inbox_inv_def)
  moreover have "length (ib_messages s) \<le> ib_limit t"
    using assms by (simp add: inbox_inv_def inbox_same_config_def)
  ultimately show ?thesis
    by (simp add: inbox_parse_def read_lines_def inbox_restore_def drop_oldest_eq)
qed

interpretation inbox_file: file_store inbox_render
  "\<lambda>s text. inbox_parse s (read_lines None text)" inbox_restore inbox_inv inbox_same_config
  ib_path inbox_save inbox_load
proof
  fix s t
  show "inbox_inv s \<Longrightarrow> inbox_same_config s t \<Longrightarrow>
      inbox_parse t (read_lines None (inbox_render s)) = (Loaded, inbox_restore t s)"
    by (rule inbox_parse_render)
  show "inbox_inv s \<Longrightarrow> inbox_same_config s t \<Longrightarrow> inbox_inv (inbox_restore t s)"
    by (simp add: inbox_inv_def inbox_restore_def inbox_same_config_def)
  fix tx res t'
  show "inbox_parse t (read_lines None tx) = (res, t') \<Longrightarrow> res \<noteq> Loaded \<Longrightarrow> t' = t"
    by (auto simp: inbox_parse_def split: option.splits if_splits prod.splits)
qed (auto simp: inbox_same_config_def inbox_save_def inbox_load_def read_lines_def
    inbox_restore_def inbox_render_def split: prod.splits if_splits)

text \<open>
  A message \<^verbatim>\<open>store\<close> reports as committed is in the file: a node restarted at that moment, with
  no read error and a limit no smaller, has it as its newest message.
\<close>

lemma inbox_store_commits:
  assumes "inbox_store io m fs0 s = (True, fs1, s')" "ib_path s \<noteq> []" "inbox_inv s"
    and "message_wf m" "inbox_same_config s t"
  shows "inbox_load None fs1 t = (Loaded, inbox_restore t (inbox_enqueue m s))"
proof -
  have "inbox_save io fs0 (inbox_enqueue m s) = (True, fs1, s')"
    using assms(1,2) by (simp add: inbox_store_def)
  then show ?thesis
    using inbox_enqueue_inv [OF assms(3,4)] assms(5)
    by (intro inbox_file.saved_then_loaded) (auto simp: inbox_same_config_def)
qed

section \<open>Properties\<close>

text \<open>
  C19. A stored message is committed before the acknowledgement: when the inbox reports it
  stored, a restart from the file finds it last in the queue, behind the messages that were
  waiting, of which the oldest was dropped if the queue was full.
\<close>

theorem stored_message_committed:
  assumes "inbox_store io m fs0 s = (True, fs1, s')" "ib_path s \<noteq> []" "inbox_inv s"
    and "message_wf m" "inbox_same_config s t" "0 < ib_limit s"
  shows "fst (inbox_load None fs1 t) = Loaded \<and> ib_messages (snd (inbox_load None fs1 t)) =
      (if length (ib_messages s) < ib_limit s then ib_messages s else tl (ib_messages s)) @ [m]"
  using inbox_store_commits [OF assms(1-5)] inbox_enqueue_messages [OF assms(3,6), of m]
  by (simp add: inbox_restore_def)

theorem stored_message_committed_witness:
  "\<exists>fs1 s'. inbox_store io_fine (new_message\<lparr>sm_is_channel := True\<rparr>) Map.empty (new_inbox 4 [97]) =
       (True, fs1, s') \<and>
     ib_messages (snd (inbox_load None fs1 (new_inbox 4 [97]))) = [new_message\<lparr>sm_is_channel := True\<rparr>]"
proof -
  let ?m = "new_message\<lparr>sm_is_channel := True\<rparr>" and ?s = "new_inbox 4 [97]"
  obtain fs1 s' where s: "inbox_store io_fine ?m Map.empty ?s = (True, fs1, s')"
    by (simp add: inbox_store_def inbox_save_def inbox_enqueue_def new_inbox_def save_defs io_fine_def)
  have h: "ib_path ?s \<noteq> []" "message_wf ?m" "inbox_same_config ?s ?s" "0 < ib_limit ?s"
    by (simp_all add: new_inbox_def message_wf_def new_message_def inbox_same_config_def)
  from stored_message_committed [OF s h(1) inbox_inv_new h(2-4)] s show ?thesis
    by (auto simp: new_inbox_def)
qed

end
