(* ===== verification/Contacts.thy ===== *)
theory Contacts
  imports Persist Payloads
begin

text \<open>
  The contact list, \<^verbatim>\<open>src/src/mesh/contacts.h\<close> and \<^verbatim>\<open>contacts.cpp\<close>. A \<^verbatim>\<open>Contact*\<close> handed out by
  the store is the index of the contact; \<^verbatim>\<open>unix_now()\<close> and the outcome of each system call
  are arguments. The ECDH secret a contact caches is a function of two keys that never
  change, so the model computes it where it is used and has no field for it.
\<close>

section \<open>Contacts and the store\<close>

record Contact =
  ct_pubkey :: bytes
  ct_name :: bytes
  ct_type :: byte
  ct_flags :: byte
  ct_lat_e6 :: u32
  ct_lon_e6 :: u32
  ct_adv_timestamp :: u32
  ct_last_seen :: u32
  ct_out_path :: bytes
  ct_path_known :: bool
  ct_last_rssi :: int
  ct_last_snr :: rat
  ct_sync_since :: u32

definition new_contact :: "bytes \<Rightarrow> Contact" where
  "new_contact pubkey = \<lparr>ct_pubkey = pubkey, ct_name = [], ct_type = kAdvTypeChat, ct_flags = 0,
     ct_lat_e6 = 0, ct_lon_e6 = 0, ct_adv_timestamp = 0, ct_last_seen = 0, ct_out_path = [],
     ct_path_known = False, ct_last_rssi = 0, ct_last_snr = 0, ct_sync_since = 0\<rparr>"

definition contact_id :: "Contact \<Rightarrow> byte" where
  "contact_id c = (if ct_pubkey c = [] then 0 else ct_pubkey c ! 0)"

definition contact_secret :: "crypto_ops \<Rightarrow> LocalIdentity \<Rightarrow> Contact \<Rightarrow> bytes" where
  "contact_secret cr self c =
     (case id_shared_secret cr self (ct_pubkey c) of Some s \<Rightarrow> s | None \<Rightarrow> [])"

record ContactStore =
  cs_path :: bytes
  cs_max :: nat
  cs_contacts :: "Contact list"
  cs_dirty :: bool

definition kMaxContacts :: nat where "kMaxContacts = 100"

definition new_contacts :: "bytes \<Rightarrow> nat \<Rightarrow> ContactStore" where
  "new_contacts file_path mx = \<lparr>cs_path = file_path, cs_max = mx, cs_contacts = [], cs_dirty = False\<rparr>"

definition contact_find :: "bytes \<Rightarrow> ContactStore \<Rightarrow> nat option" where
  "contact_find pubkey s = index_where (\<lambda>c. ct_pubkey c = pubkey) (cs_contacts s)"

definition contact_by_id :: "byte \<Rightarrow> ContactStore \<Rightarrow> nat list" where
  "contact_by_id i s =
     filter (\<lambda>k. contact_id (cs_contacts s ! k) = i) [0..<length (cs_contacts s)]"

section \<open>Mutation\<close>

definition upd_contact :: "nat \<Rightarrow> (Contact \<Rightarrow> Contact) \<Rightarrow> ContactStore \<Rightarrow> ContactStore" where
  "upd_contact i f s =
     s\<lparr>cs_contacts := (cs_contacts s)[i := f (cs_contacts s ! i)], cs_dirty := True\<rparr>"

definition contact_upsert :: "bytes \<Rightarrow> ContactStore \<Rightarrow> nat option \<times> ContactStore" where
  "contact_upsert pubkey s =
     (case contact_find pubkey s of
        Some i \<Rightarrow> (Some i, s)
      | None \<Rightarrow>
          if length (cs_contacts s) \<ge> cs_max s then (None, s)
          else (Some (length (cs_contacts s)),
                s\<lparr>cs_contacts := cs_contacts s @ [new_contact pubkey], cs_dirty := True\<rparr>))"

definition contact_touch :: "u32 \<Rightarrow> nat \<Rightarrow> ContactStore \<Rightarrow> ContactStore" where
  "contact_touch now i s = upd_contact i (\<lambda>c. c\<lparr>ct_last_seen := now\<rparr>) s"

definition contact_touch_signal ::
  "u32 \<Rightarrow> nat \<Rightarrow> int \<Rightarrow> rat \<Rightarrow> ContactStore \<Rightarrow> ContactStore" where
  "contact_touch_signal now i rs sn s =
     contact_touch now i (upd_contact i (\<lambda>c. c\<lparr>ct_last_rssi := rs, ct_last_snr := sn\<rparr>) s)"

definition contact_set_path :: "nat \<Rightarrow> bytes \<Rightarrow> ContactStore \<Rightarrow> bool \<times> ContactStore" where
  "contact_set_path i p s =
    (let c = cs_contacts s ! i
     in if ct_path_known c \<and> ct_out_path c = p then (False, s)
        else (True, upd_contact i (\<lambda>c. c\<lparr>ct_out_path := p, ct_path_known := True\<rparr>) s))"

definition contact_clear_path :: "nat \<Rightarrow> ContactStore \<Rightarrow> bool \<times> ContactStore" where
  "contact_clear_path i s =
    (let c = cs_contacts s ! i
     in if \<not> ct_path_known c \<and> ct_out_path c = [] then (False, s)
        else (True, upd_contact i (\<lambda>c. c\<lparr>ct_out_path := [], ct_path_known := False\<rparr>) s))"

text \<open>
  The fds an accepted advert writes, and \<^verbatim>\<open>apply_advert\<close>: the contact, whether it was
  created, and the store.
\<close>

definition advert_update :: "u32 \<Rightarrow> AdvertMsg \<Rightarrow> AdvertAppData \<Rightarrow> Contact \<Rightarrow> Contact" where
  "advert_update now adv app c =
    (let c1 = c\<lparr>ct_adv_timestamp := av_timestamp adv, ct_last_seen := now,
                ct_type := node_type app, ct_flags := ad_flags app\<rparr>;
         c2 = (if app_has_name app then c1\<lparr>ct_name := ad_name app\<rparr> else c1)
     in if app_has_location app
        then c2\<lparr>ct_lat_e6 := ad_lat_e6 app, ct_lon_e6 := ad_lon_e6 app\<rparr> else c2)"

definition apply_advert ::
  "u32 \<Rightarrow> AdvertMsg \<Rightarrow> AdvertAppData \<Rightarrow> ContactStore \<Rightarrow> (nat option \<times> bool) \<times> ContactStore" where
  "apply_advert now adv app s =
    (let existing = contact_find (av_pubkey adv) s
     in case existing of
          Some i \<Rightarrow>
            if av_timestamp adv \<le> ct_adv_timestamp (cs_contacts s ! i) then ((None, False), s)
            else ((Some i, False), upd_contact i (advert_update now adv app) s)
        | None \<Rightarrow>
            (case contact_upsert (av_pubkey adv) s of
               (None, s') \<Rightarrow> ((None, False), s')
             | (Some i, s') \<Rightarrow> ((Some i, True), upd_contact i (advert_update now adv app) s')))"

definition contact_remove :: "bytes \<Rightarrow> ContactStore \<Rightarrow> bool \<times> ContactStore" where
  "contact_remove pubkey s =
     (case contact_find pubkey s of
        None \<Rightarrow> (False, s)
      | Some i \<Rightarrow> (True, s\<lparr>cs_contacts := remove_at i (cs_contacts s), cs_dirty := True\<rparr>))"

section \<open>The contacts file\<close>

definition contacts_header :: bytes where
  "contacts_header = str ''# coreletd contacts v1''"

definition contacts_columns :: bytes where
  "contacts_columns = str ''# pubkey'' @ [tab] @ str ''type'' @ [tab] @ str ''flags'' @ [tab] @
     str ''adv_ts'' @ [tab] @ str ''last_seen'' @ [tab] @ str ''lat_e6'' @ [tab] @ str ''lon_e6'' @
     [tab] @ str ''path'' @ [tab] @ str ''name''"

definition path_field :: "Contact \<Rightarrow> bytes" where
  "path_field c =
     (if ct_path_known c then if ct_out_path c = [] then str ''direct'' else hex (ct_out_path c)
      else str ''-'')"

definition contact_row :: "Contact \<Rightarrow> bytes" where
  "contact_row c = hex (ct_pubkey c) @ tab # dec_nat (unat (ct_type c)) @ tab #
     dec_nat (unat (ct_flags c)) @ tab # dec_nat (unat (ct_adv_timestamp c)) @ tab #
     dec_nat (unat (ct_last_seen c)) @ tab # dec_int (sint (ct_lat_e6 c)) @ tab #
     dec_int (sint (ct_lon_e6 c)) @ tab # path_field c @ tab # sanitise (ct_name c)"

definition contacts_render :: "ContactStore \<Rightarrow> bytes" where
  "contacts_render s = concat (map (\<lambda>l. l @ [newline])
     (contacts_header # contacts_columns # map contact_row (cs_contacts s)))"

text \<open>The \<open>path\<close> column: \<open>direct\<close>, \<open>-\<close>, or the hops in hex.\<close>

definition parse_path :: "bytes \<Rightarrow> (bytes \<times> bool) option" where
  "parse_path f =
     (if f = str ''direct'' then Some ([], True)
      else if f = str ''-'' then Some ([], False)
      else case unhex f of
             None \<Rightarrow> None
           | Some p \<Rightarrow> if p = [] \<or> length p > kMaxPathSize then None else Some (p, True))"

definition contact_fields :: "Contact list \<Rightarrow> bytes list \<Rightarrow> Contact option" where
  "contact_fields loaded fds =
     (case unhex (fds ! 0) of
        None \<Rightarrow> None
      | Some pubkey \<Rightarrow>
          if length pubkey \<noteq> kPubKeySize then None
          else if \<exists>c \<in> set loaded. equal (ct_pubkey c) pubkey then None
          else
            (case (parse_unsigned (fds ! 1) 255, parse_unsigned (fds ! 2) 255,
                   parse_unsigned (fds ! 3) 0xFFFFFFFF, parse_unsigned (fds ! 4) 0xFFFFFFFF,
                   parse_signed (fds ! 5) (- 90000000) 90000000,
                   parse_signed (fds ! 6) (- 180000000) 180000000) of
               (Some typ, Some flgs, Some adv_ts, Some last_seen, Some lat, Some lon) \<Rightarrow>
                 (case parse_path (fds ! 7) of
                    None \<Rightarrow> None
                  | Some (out_path, path_known) \<Rightarrow>
                      Some ((new_contact pubkey)\<lparr>ct_name := fds ! 8, ct_type := word_of_nat typ,
                        ct_flags := word_of_nat flgs, ct_adv_timestamp := word_of_nat adv_ts,
                        ct_last_seen := word_of_nat last_seen, ct_lat_e6 := word_of_int lat,
                        ct_lon_e6 := word_of_int lon, ct_out_path := out_path,
                        ct_path_known := path_known\<rparr>))
             | _ \<Rightarrow> None))"

definition contact_line :: "nat \<Rightarrow> Contact list \<Rightarrow> bytes \<Rightarrow> Contact list option" where
  "contact_line mx loaded line =
     (case split_fields line 9 of
        None \<Rightarrow> None
      | Some fds \<Rightarrow>
          (case contact_fields loaded fds of
             None \<Rightarrow> None
           | Some c \<Rightarrow> if length loaded \<ge> mx then None else Some (loaded @ [c])))"

definition contacts_parse ::
  "ContactStore \<Rightarrow> bytes list \<times> bool \<Rightarrow> LoadResult \<times> ContactStore" where
  "contacts_parse s input =
     (case load_lines contacts_header (contact_line (cs_max s)) (fst input) False [] of
        None \<Rightarrow> (Corrupt, s)
      | Some (saw_header, loaded) \<Rightarrow>
          if snd input then (Corrupt, s)
          else if \<not> saw_header then (Corrupt, s)
          else (Loaded, s\<lparr>cs_contacts := loaded, cs_dirty := False\<rparr>))"

definition contacts_load :: "nat option \<Rightarrow> fs \<Rightarrow> ContactStore \<Rightarrow> LoadResult \<times> ContactStore" where
  "contacts_load fault fs0 s =
     (if cs_path s = [] then (Missing, s)
      else case read_file fs0 (cs_path s) of
             None \<Rightarrow> (Missing, s)
           | Some text \<Rightarrow> contacts_parse s (read_lines fault text))"

definition contacts_save :: "io_plan \<Rightarrow> fs \<Rightarrow> ContactStore \<Rightarrow> bool \<times> fs \<times> ContactStore" where
  "contacts_save io fs0 s =
     (if cs_path s = [] then (False, fs0, s)
      else case save_file io (cs_path s) (contacts_render s) True fs0 of
             (ok, fs1) \<Rightarrow> (ok, fs1, if ok then s\<lparr>cs_dirty := False\<rparr> else s))"

section \<open>Invariant\<close>

text \<open>
  One contact per 32-byte key, no more than the limit, routes that fit a packet, and no
  stale route on a contact that has to be flooded.
\<close>

definition contact_wf :: "Contact \<Rightarrow> bool" where
  "contact_wf c \<longleftrightarrow> length (ct_pubkey c) = kPubKeySize \<and> length (ct_out_path c) \<le> kMaxPathSize \<and>
     (ct_path_known c \<or> ct_out_path c = [])"

definition contacts_inv :: "ContactStore \<Rightarrow> bool" where
  "contacts_inv s \<longleftrightarrow> distinct (map ct_pubkey (cs_contacts s)) \<and>
     length (cs_contacts s) \<le> cs_max s \<and> list_all contact_wf (cs_contacts s)"

lemma new_contact_wf: "length pubkey = kPubKeySize \<Longrightarrow> contact_wf (new_contact pubkey)"
  by (simp add: contact_wf_def new_contact_def)

lemma contacts_inv_new: "contacts_inv (new_contacts file_path mx)"
  by (simp add: contacts_inv_def new_contacts_def)

lemma contact_find_Some:
  "contact_find k s = Some i \<Longrightarrow> i < length (cs_contacts s) \<and> ct_pubkey (cs_contacts s ! i) = k"
  unfolding contact_find_def by (drule index_where_Some) simp

lemma contact_find_None: "contact_find k s = None \<longleftrightarrow> k \<notin> ct_pubkey ` set (cs_contacts s)"
  by (auto simp: contact_find_def index_where_None)

lemma contact_find_nth:
  "contacts_inv s \<Longrightarrow> i < length (cs_contacts s) \<Longrightarrow>
     contact_find (ct_pubkey (cs_contacts s ! i)) s = Some i"
  unfolding contact_find_def contacts_inv_def by (rule index_where_key) auto

lemma upd_contact_simps [simp]:
  "cs_max (upd_contact i f s) = cs_max s" "cs_path (upd_contact i f s) = cs_path s"
  "cs_dirty (upd_contact i f s)" "length (cs_contacts (upd_contact i f s)) = length (cs_contacts s)"
  "i < length (cs_contacts s) \<Longrightarrow> cs_contacts (upd_contact i f s) ! i = f (cs_contacts s ! i)"
  "j \<noteq> i \<Longrightarrow> cs_contacts (upd_contact i f s) ! j = cs_contacts s ! j"
  by (simp_all add: upd_contact_def)

lemma upd_contact_keys:
  "(\<And>c. ct_pubkey (f c) = ct_pubkey c) \<Longrightarrow>
     map ct_pubkey (cs_contacts (upd_contact i f s)) = map ct_pubkey (cs_contacts s)"
  by (simp add: upd_contact_def map_list_update_same)

lemma upd_contact_inv:
  assumes "contacts_inv s" "\<And>c. ct_pubkey (f c) = ct_pubkey c" "\<And>c. contact_wf c \<Longrightarrow> contact_wf (f c)"
  shows "contacts_inv (upd_contact i f s)"
proof (cases "i < length (cs_contacts s)")
  case True
  then show ?thesis
    using assms upd_contact_keys [OF assms(2), of i s]
    by (auto simp: contacts_inv_def list_all_length upd_contact_def nth_list_update)
next
  case False
  then show ?thesis
    using assms(1) by (simp add: contacts_inv_def upd_contact_def list_update_beyond)
qed

lemma contact_upsert_inv:
  assumes "contacts_inv s" "length k = kPubKeySize"
  shows "contacts_inv (snd (contact_upsert k s))"
  using assms new_contact_wf [OF assms(2)]
  by (auto simp: contact_upsert_def contacts_inv_def contact_find_None new_contact_def
      split: option.splits)

lemma contact_touch_inv: "contacts_inv s \<Longrightarrow> contacts_inv (contact_touch now i s)"
  unfolding contact_touch_def by (rule upd_contact_inv) (auto simp: contact_wf_def)

lemma contact_touch_signal_inv:
  "contacts_inv s \<Longrightarrow> contacts_inv (contact_touch_signal now i rs sn s)"
  unfolding contact_touch_signal_def
  by (intro contact_touch_inv upd_contact_inv) (auto simp: contact_wf_def)

lemma contact_set_path_inv:
  "contacts_inv s \<Longrightarrow> length p \<le> kMaxPathSize \<Longrightarrow> contacts_inv (snd (contact_set_path i p s))"
  by (auto simp: contact_set_path_def Let_def contact_wf_def intro!: upd_contact_inv)

lemma contact_clear_path_inv:
  "contacts_inv s \<Longrightarrow> contacts_inv (snd (contact_clear_path i s))"
  by (auto simp: contact_clear_path_def Let_def contact_wf_def intro!: upd_contact_inv)

lemma advert_update_simps [simp]:
  "ct_pubkey (advert_update now adv app c) = ct_pubkey c"
  "ct_adv_timestamp (advert_update now adv app c) = av_timestamp adv"
  "ct_out_path (advert_update now adv app c) = ct_out_path c"
  "ct_path_known (advert_update now adv app c) = ct_path_known c"
  "ct_last_seen (advert_update now adv app c) = now"
  by (simp_all add: advert_update_def Let_def)

lemma apply_advert_inv:
  assumes "contacts_inv s" "length (av_pubkey adv) = kPubKeySize"
  shows "contacts_inv (snd (apply_advert now adv app s))"
proof (cases "contact_find (av_pubkey adv) s")
  case None
  have "contacts_inv (snd (contact_upsert (av_pubkey adv) s))"
    using assms by (rule contact_upsert_inv)
  with None show ?thesis
    by (auto simp: apply_advert_def contact_wf_def split: prod.splits option.splits
        intro!: upd_contact_inv)
next
  case (Some i)
  with assms show ?thesis
    by (auto simp: apply_advert_def contact_wf_def intro!: upd_contact_inv)
qed

lemma contact_remove_inv: "contacts_inv s \<Longrightarrow> contacts_inv (snd (contact_remove k s))"
  using remove_at_set [of _ "cs_contacts s"] length_remove_at_le [of _ "cs_contacts s"]
  by (fastforce simp: contact_remove_def contacts_inv_def list_all_iff distinct_map_remove_at
      split: option.splits intro: order_trans)

section \<open>Saving and loading\<close>

definition coords_ok :: "Contact \<Rightarrow> bool" where
  "coords_ok c \<longleftrightarrow> \<bar>sint (ct_lat_e6 c)\<bar> \<le> 90000000 \<and> \<bar>sint (ct_lon_e6 c)\<bar> \<le> 180000000"

definition contacts_storable :: "ContactStore \<Rightarrow> bool" where
  "contacts_storable s \<longleftrightarrow> contacts_inv s \<and> list_all coords_ok (cs_contacts s)"

definition contact_persisted :: "Contact \<Rightarrow> Contact" where
  "contact_persisted c = c\<lparr>ct_name := sanitise (ct_name c), ct_last_rssi := 0, ct_last_snr := 0,
     ct_sync_since := 0\<rparr>"

definition contacts_persisted :: "ContactStore \<Rightarrow> ContactStore" where
  "contacts_persisted s =
     s\<lparr>cs_contacts := map contact_persisted (cs_contacts s), cs_dirty := False\<rparr>"

definition contacts_same_config :: "ContactStore \<Rightarrow> ContactStore \<Rightarrow> bool" where
  "contacts_same_config s t \<longleftrightarrow> cs_path s = cs_path t \<and> cs_max s = cs_max t"

lemma parse_path_field:
  "contact_wf c \<Longrightarrow> parse_path (path_field c) = Some (ct_out_path c, ct_path_known c)"
  by (auto simp: parse_path_def path_field_def not_hex unhex_hex contact_wf_def)
    (simp add: str_def)

lemma path_field_clean [simp]: "tab \<notin> set (path_field c)" "newline \<notin> set (path_field c)"
  using hex_clean(1,2) [of "ct_out_path c"]
  by (auto simp: path_field_def str_def char_codes)

lemma contact_row_fields:
  "split_fields (contact_row c) 9 = Some [hex (ct_pubkey c), dec_nat (unat (ct_type c)),
     dec_nat (unat (ct_flags c)), dec_nat (unat (ct_adv_timestamp c)),
     dec_nat (unat (ct_last_seen c)), dec_int (sint (ct_lat_e6 c)), dec_int (sint (ct_lon_e6 c)),
     path_field c, sanitise (ct_name c)]"
  by (simp add: contact_row_def eval_nat_numeral del: split_fields.simps)

lemma contact_line_row:
  assumes "contact_wf c" "coords_ok c" "ct_pubkey c \<notin> ct_pubkey ` set loaded" "length loaded < mx"
  shows "contact_line mx loaded (contact_row c) = Some (loaded @ [contact_persisted c])"
proof -
  have lat: "parse_signed (dec_int (sint (ct_lat_e6 c))) (- 90000000) 90000000 =
      Some (sint (ct_lat_e6 c))"
    and lon: "parse_signed (dec_int (sint (ct_lon_e6 c))) (- 180000000) 180000000 =
      Some (sint (ct_lon_e6 c))"
    using assms(2) by (auto simp: coords_ok_def abs_le_iff intro!: parse_signed_dec)
  have key: "\<not> (\<exists>d \<in> set loaded. equal (ct_pubkey d) (ct_pubkey c))"
    using assms(3) by (force simp: equal_def image_iff)
  have size: "length (ct_pubkey c) = kPubKeySize"
    using assms(1) by (simp add: contact_wf_def)
  show ?thesis
    using assms(4) key size
    by (simp add: contact_line_def contact_row_fields contact_fields_def unhex_hex parse_byte
        parse_u32 lat lon parse_path_field [OF assms(1)] contact_persisted_def new_contact_def
        del: kPubKeySize_def)
qed

lemma contact_rows_read:
  assumes "list_all contact_wf cs" "list_all coords_ok cs" "distinct (map ct_pubkey (loaded @ cs))"
    and "length loaded + length cs \<le> mx"
  shows "fold_opt (contact_line mx) loaded (map contact_row cs) =
    Some (loaded @ map contact_persisted cs)"
  using assms
proof (induction cs arbitrary: loaded)
  case (Cons c cs)
  have "contact_line mx loaded (contact_row c) = Some (loaded @ [contact_persisted c])"
    using Cons.prems by (intro contact_line_row) auto
  moreover have "fold_opt (contact_line mx) (loaded @ [contact_persisted c]) (map contact_row cs) =
      Some ((loaded @ [contact_persisted c]) @ map contact_persisted cs)"
    using Cons.prems by (intro Cons.IH) (auto simp: contact_persisted_def)
  ultimately show ?case
    by simp
qed simp

lemma contact_row_line: "length (ct_pubkey c) = kPubKeySize \<Longrightarrow> record_line (contact_row c)"
proof -
  assume "length (ct_pubkey c) = kPubKeySize"
  then have ne: "hex (ct_pubkey c) \<noteq> []"
    using length_hex [of "ct_pubkey c"] by auto
  then have "hd (hex (ct_pubkey c)) \<noteq> hash_char"
    using hd_in_set hex_clean(3) by metis
  moreover have "newline \<noteq> tab"
    by (simp add: char_codes)
  ultimately show ?thesis
    using ne by (simp add: record_line_def contact_row_def)
qed

lemma contacts_parse_render:
  assumes "contacts_storable s" "contacts_same_config s t"
  shows "contacts_parse t (read_lines None (contacts_render s)) =
    (Loaded, contacts_persisted s)"
proof -
  have "\<forall>l \<in> set (map contact_row (cs_contacts s)). record_line l"
    using assms(1)
    by (auto simp: contacts_storable_def contacts_inv_def list_all_iff contact_wf_def
        intro: contact_row_line)
  then have "load_lines contacts_header (contact_line (cs_max t))
      (getlines (contacts_render s)) False [] =
      map_option (Pair True) (fold_opt (contact_line (cs_max t)) [] (map contact_row (cs_contacts s)))"
    unfolding contacts_render_def
    by (rule load_lines_file)
      (simp_all add: contacts_header_def contacts_columns_def str_def char_codes)
  also have "\<dots> = Some (True, map contact_persisted (cs_contacts s))"
    using assms
    by (subst contact_rows_read) (auto simp: contacts_storable_def contacts_inv_def
        contacts_same_config_def)
  finally show ?thesis
    using assms(2)
    by (simp add: contacts_parse_def read_lines_def contacts_persisted_def contacts_same_config_def)
qed

lemma contacts_parse_keeps:
  "contacts_parse t input = (res, t') \<Longrightarrow> res \<noteq> Loaded \<Longrightarrow> t' = t"
  by (auto simp: contacts_parse_def split: option.splits if_splits prod.splits)

lemma contact_persisted_simps [simp]:
  "contact_wf (contact_persisted c) = contact_wf c"
  "coords_ok (contact_persisted c) = coords_ok c"
  "contact_row (contact_persisted c) = contact_row c"
  "ct_pubkey (contact_persisted c) = ct_pubkey c"
  by (simp_all add: contact_persisted_def contact_wf_def coords_ok_def contact_row_def
      path_field_def)

lemma contact_persisted_comp [simp]:
  "contact_wf \<circ> contact_persisted = contact_wf" "coords_ok \<circ> contact_persisted = coords_ok"
  "contact_row \<circ> contact_persisted = contact_row" "ct_pubkey \<circ> contact_persisted = ct_pubkey"
  by (simp_all add: fun_eq_iff)

interpretation contact_file: file_store contacts_render
  "\<lambda>s text. contacts_parse s (read_lines None text)" "\<lambda>t s. contacts_persisted s" contacts_storable
  contacts_same_config cs_path contacts_save contacts_load
proof
  fix s t
  show "contacts_storable s \<Longrightarrow> contacts_same_config s t \<Longrightarrow>
      contacts_parse t (read_lines None (contacts_render s)) = (Loaded, contacts_persisted s)"
    by (rule contacts_parse_render)
next
  fix s
  show "contacts_storable s \<Longrightarrow> contacts_storable (contacts_persisted s)"
    by (simp add: contacts_storable_def contacts_persisted_def contacts_inv_def list.pred_map)
  show "contacts_storable s \<Longrightarrow> contacts_render (contacts_persisted s) = contacts_render s"
    by (simp add: contacts_render_def contacts_persisted_def)
  show "contacts_persisted (contacts_persisted s) = contacts_persisted s"
    by (simp add: contacts_persisted_def contact_persisted_def)
qed (auto simp: contacts_same_config_def contacts_save_def contacts_load_def read_lines_def
    contacts_parse_keeps split: prod.splits if_splits)

text \<open>A store that loads is well formed and can be saved again.\<close>

lemma parse_signed_range: "parse_signed f mn mx = Some v \<Longrightarrow> mn \<le> v \<and> v \<le> mx"
  by (auto simp: parse_signed_def split: if_splits option.splits)

lemma parse_path_wf:
  "parse_path f = Some (p, known) \<Longrightarrow> length p \<le> kMaxPathSize \<and> (known \<or> p = [])"
  by (auto simp: parse_path_def split: if_splits option.splits)

lemma contact_fields_wf:
  assumes "contact_fields loaded fds = Some c"
  shows "contact_wf c" "coords_ok c" "ct_pubkey c \<notin> ct_pubkey ` set loaded"
proof -
  have *: "contact_wf c \<and> coords_ok c \<and> ct_pubkey c \<notin> ct_pubkey ` set loaded"
    using assms
    by (auto simp: contact_fields_def contact_wf_def coords_ok_def new_contact_def equal_def
        sint_of_int_u32 abs_le_iff split: option.splits if_splits
        dest!: parse_path_wf parse_signed_range)
  then show "contact_wf c" "coords_ok c" "ct_pubkey c \<notin> ct_pubkey ` set loaded"
    by simp_all
qed

lemma contact_line_inv:
  assumes "contact_line mx loaded line = Some loaded'"
    and "distinct (map ct_pubkey loaded) \<and> length loaded \<le> mx \<and> list_all contact_wf loaded \<and>
      list_all coords_ok loaded"
  shows "distinct (map ct_pubkey loaded') \<and> length loaded' \<le> mx \<and> list_all contact_wf loaded' \<and>
    list_all coords_ok loaded'"
  using assms contact_fields_wf [of loaded]
  by (auto simp: contact_line_def split: option.splits if_splits)

lemma contacts_parse_storable:
  assumes "contacts_parse s input = (Loaded, s')"
  shows "contacts_storable s'"
proof -
  obtain loaded where *: "load_lines contacts_header (contact_line (cs_max s)) (fst input) False [] =
      Some (True, loaded)" "s' = s\<lparr>cs_contacts := loaded, cs_dirty := False\<rparr>"
    using assms by (auto simp: contacts_parse_def split: option.splits if_splits prod.splits)
  have "distinct (map ct_pubkey loaded) \<and> length loaded \<le> cs_max s \<and> list_all contact_wf loaded \<and>
      list_all coords_ok loaded"
    using *(1) by (rule load_lines_invariant) (auto elim!: contact_line_inv)
  then show ?thesis
    by (simp add: *(2) contacts_storable_def contacts_inv_def)
qed

text \<open>
  Coordinates outside the range \<^verbatim>\<open>load\<close> accepts make the whole file unreadable, and nothing
  on the way into the store checks them.
\<close>

lemma contact_line_coords:
  assumes "\<not> coords_ok c"
  shows "contact_line mx loaded (contact_row c) = None"
proof -
  have out: "parse_signed (dec_int (sint w)) (- m) m = None" if "m < \<bar>sint w\<bar>" for w :: u32 and m
  proof (rule parse_signed_dec_out)
    show "sint w < - m \<or> m < sint w"
      using that by linarith
    show "- (2 ^ 63) \<le> sint w" "sint w < 2 ^ 63"
      using sint_ge [of w] sint_lt [of w] by auto
  qed
  have "90000000 < \<bar>sint (ct_lat_e6 c)\<bar> \<or> 180000000 < \<bar>sint (ct_lon_e6 c)\<bar>"
    using assms by (auto simp: coords_ok_def)
  then have "parse_signed (dec_int (sint (ct_lat_e6 c))) (- 90000000) 90000000 = None \<or>
      parse_signed (dec_int (sint (ct_lon_e6 c))) (- 180000000) 180000000 = None"
    by (elim disjE) (simp_all only: out simp_thms)
  then show ?thesis
    by (auto simp: contact_line_def contact_row_fields contact_fields_def split: option.splits)
qed

lemma contacts_unreadable:
  assumes "contacts_inv s" "c \<in> set (cs_contacts s)" "\<not> coords_ok c"
  shows "contacts_parse t (read_lines None (contacts_render s)) = (Corrupt, t)"
proof -
  have "\<forall>l \<in> set (map contact_row (cs_contacts s)). record_line l"
    using assms(1)
    by (auto simp: contacts_inv_def list_all_iff contact_wf_def intro: contact_row_line)
  then have "load_lines contacts_header (contact_line (cs_max t))
      (getlines (contacts_render s)) False [] =
      map_option (Pair True) (fold_opt (contact_line (cs_max t)) [] (map contact_row (cs_contacts s)))"
    unfolding contacts_render_def
    by (rule load_lines_file)
      (simp_all add: contacts_header_def contacts_columns_def str_def char_codes)
  also have "\<dots> = None"
    using fold_opt_stuck [of "contact_row c" "map contact_row (cs_contacts s)"
        "contact_line (cs_max t)" "[]"] assms(2,3)
    by (simp add: contact_line_coords)
  finally show ?thesis
    by (simp add: contacts_parse_def read_lines_def)
qed

section \<open>The store as a map from keys\<close>

text \<open>
  The abstract view the receive path relies on: a finite map from public keys, in which an
  advert changes at most its own key and a held advert time never goes back.
\<close>

definition contact_map :: "ContactStore \<Rightarrow> bytes \<Rightarrow> Contact option" where
  "contact_map s k = map_option ((!) (cs_contacts s)) (contact_find k s)"

lemma contact_map_map_of:
  "contact_map s = map_of (map (\<lambda>c. (ct_pubkey c, c)) (cs_contacts s))"
  by (rule ext) (simp add: contact_map_def contact_find_def index_where_map_of)

lemma contact_map_upd:
  assumes "contact_find k s = Some i" "\<And>c. ct_pubkey (f c) = ct_pubkey c" "contacts_inv s"
  shows "contact_map (upd_contact i f s) = (contact_map s)(k \<mapsto> f (cs_contacts s ! i))"
proof
  fix q
  have keys: "contact_find q (upd_contact i f s) = contact_find q s"
    unfolding contact_find_def
    by (subst (1 2) index_where_map) (simp add: upd_contact_keys assms(2))
  have i: "i < length (cs_contacts s)" "ct_pubkey (cs_contacts s ! i) = k"
    using contact_find_Some [OF assms(1)] by auto
  show "contact_map (upd_contact i f s) q = ((contact_map s)(k \<mapsto> f (cs_contacts s ! i))) q"
  proof (cases "q = k")
    case True
    then show ?thesis
      using assms(1) i keys by (simp add: contact_map_def)
  next
    case False
    then have "contact_find q s \<noteq> Some i"
      using contact_find_Some [of q s i] i by auto
    then show ?thesis
      using False keys by (cases "contact_find q s") (auto simp: contact_map_def)
  qed
qed

lemma contact_upsert_map:
  assumes "contact_map s k = None" "length (cs_contacts s) < cs_max s"
  shows "contact_upsert k s = (Some (length (cs_contacts s)), snd (contact_upsert k s))"
    and "contact_map (snd (contact_upsert k s)) = (contact_map s)(k \<mapsto> new_contact k)"
    and "contact_find k (snd (contact_upsert k s)) = Some (length (cs_contacts s))"
proof -
  have none: "contact_find k s = None"
    using assms(1) by (simp add: contact_map_def)
  then show "contact_upsert k s = (Some (length (cs_contacts s)), snd (contact_upsert k s))"
    using assms(2) by (simp add: contact_upsert_def)
  have st: "snd (contact_upsert k s) =
      s\<lparr>cs_contacts := cs_contacts s @ [new_contact k], cs_dirty := True\<rparr>"
    using none assms(2) by (simp add: contact_upsert_def)
  have key: "ct_pubkey (new_contact k) = k"
    by (simp add: new_contact_def)
  have app: "index_where P (xs @ [x]) = Some (length xs)"
    if "\<forall>y \<in> set xs. \<not> P y" "P x" for P :: "Contact \<Rightarrow> bool" and xs x
    using that by (induction xs) auto
  show "contact_find k (snd (contact_upsert k s)) = Some (length (cs_contacts s))"
    unfolding st contact_find_def using none key
    by (auto simp: contact_find_def index_where_None intro!: app)
  show "contact_map (snd (contact_upsert k s)) = (contact_map s)(k \<mapsto> new_contact k)"
  proof
    fix q
    show "contact_map (snd (contact_upsert k s)) q = ((contact_map s)(k \<mapsto> new_contact k)) q"
      using none assms key
      by (auto simp: contact_map_map_of contact_upsert_def map_add_def split: option.splits)
  qed
qed

lemma contact_remove_map:
  assumes "contacts_inv s"
  shows "fst (contact_remove k s) = (contact_map s k \<noteq> None)"
    and "contact_map (snd (contact_remove k s)) = (contact_map s)(k := None)"
proof -
  show "fst (contact_remove k s) = (contact_map s k \<noteq> None)"
    by (auto simp: contact_remove_def contact_map_def split: option.splits)
  show "contact_map (snd (contact_remove k s)) = (contact_map s)(k := None)"
  proof (cases "contact_find k s")
    case None
    then show ?thesis
      by (auto simp: contact_remove_def contact_map_def)
  next
    case (Some i)
    then have "remove_at i (cs_contacts s) = filter (\<lambda>c. ct_pubkey c \<noteq> k) (cs_contacts s)"
      using assms by (intro remove_at_key) (auto simp: contacts_inv_def contact_find_def)
    moreover have "map_of (map (\<lambda>c. (ct_pubkey c, c)) (filter (\<lambda>c. ct_pubkey c \<noteq> k) cs)) q =
        (if q = k then None else map_of (map (\<lambda>c. (ct_pubkey c, c)) cs) q)" for cs :: "Contact list" and q
      by (induction cs) auto
    ultimately show ?thesis
      using Some by (simp add: contact_remove_def contact_map_map_of fun_eq_iff)
  qed
qed

text \<open>\<^verbatim>\<open>apply_advert\<close> as an operation on that map.\<close>

definition accept_advert ::
  "u32 \<Rightarrow> AdvertMsg \<Rightarrow> AdvertAppData \<Rightarrow> (bytes \<Rightarrow> Contact option) \<Rightarrow> bytes \<Rightarrow> Contact option" where
  "accept_advert now adv app m =
     m(av_pubkey adv \<mapsto> advert_update now adv app
         (case m (av_pubkey adv) of Some c \<Rightarrow> c | None \<Rightarrow> new_contact (av_pubkey adv)))"

definition advert_accepted :: "AdvertMsg \<Rightarrow> ContactStore \<Rightarrow> bool" where
  "advert_accepted adv s =
     (case contact_map s (av_pubkey adv) of
        Some c \<Rightarrow> ct_adv_timestamp c < av_timestamp adv
      | None \<Rightarrow> length (cs_contacts s) < cs_max s)"

lemma apply_advert_accepted:
  assumes "contacts_inv s" "advert_accepted adv s" "length (av_pubkey adv) = kPubKeySize"
  shows "\<exists>i. fst (apply_advert now adv app s) = (Some i, contact_map s (av_pubkey adv) = None)"
    and "contact_map (snd (apply_advert now adv app s)) = accept_advert now adv app (contact_map s)"
proof -
  have *: "(\<exists>i. fst (apply_advert now adv app s) = (Some i, contact_map s (av_pubkey adv) = None)) \<and>
    contact_map (snd (apply_advert now adv app s)) = accept_advert now adv app (contact_map s)"
  proof (cases "contact_find (av_pubkey adv) s")
    case (Some i)
    then have "contact_map s (av_pubkey adv) = Some (cs_contacts s ! i)"
      by (simp add: contact_map_def)
    then show ?thesis
      using assms Some contact_map_upd [OF Some, of "advert_update now adv app"]
      by (simp add: apply_advert_def advert_accepted_def accept_advert_def not_le)
  next
    case None
    then have none: "contact_map s (av_pubkey adv) = None"
      by (simp add: contact_map_def)
    with assms(2) have room: "length (cs_contacts s) < cs_max s"
      by (simp add: advert_accepted_def)
    obtain s' where s': "contact_upsert (av_pubkey adv) s = (Some (length (cs_contacts s)), s')"
      using contact_upsert_map(1) [OF none room] by blast
    have new: "cs_contacts s' ! length (cs_contacts s) = new_contact (av_pubkey adv)"
      using s' None room by (auto simp: contact_upsert_def)
    note up = contact_upsert_map(2,3) [OF none room, unfolded s' snd_conv]
    have "contacts_inv s'"
      using contact_upsert_inv [OF assms(1,3)] s' by simp
    then show ?thesis
      using contact_map_upd [OF up(2), of "advert_update now adv app"] up(1) new none None s'
      by (simp add: apply_advert_def accept_advert_def)
  qed
  then show "\<exists>i. fst (apply_advert now adv app s) = (Some i, contact_map s (av_pubkey adv) = None)"
    "contact_map (snd (apply_advert now adv app s)) = accept_advert now adv app (contact_map s)"
    by blast+
qed

lemma apply_advert_refused:
  assumes "\<not> advert_accepted adv s"
  shows "apply_advert now adv app s = ((None, False), s)"
  using assms
  by (auto simp: apply_advert_def advert_accepted_def contact_map_def contact_upsert_def not_less
      split: option.splits)

section \<open>Replay protection\<close>

text \<open>
  What the receive path needs of a table of last advert times: an offer is taken only when it
  is newer than what is held for its key, and a refused one leaves no trace.
\<close>

fun run_offers :: "('a \<Rightarrow> 's \<Rightarrow> bool \<times> 's) \<Rightarrow> 'a list \<Rightarrow> 's \<Rightarrow> 'a list \<times> 's" where
  "run_offers offer [] s = ([], s)"
| "run_offers offer (a # as) s =
     (case offer a s of (ok, s1) \<Rightarrow>
        case run_offers offer as s1 of (taken, s2) \<Rightarrow> (if ok then a # taken else taken, s2))"

locale advert_table =
  fixes inv :: "'s \<Rightarrow> bool"
    and held :: "'s \<Rightarrow> 'k \<Rightarrow> 't :: linorder option"
    and offer :: "'a \<Rightarrow> 's \<Rightarrow> bool \<times> 's"
    and key_of :: "'a \<Rightarrow> 'k"
    and time_of :: "'a \<Rightarrow> 't"
    and proper :: "'a \<Rightarrow> bool"
  assumes offer_inv: "inv s \<Longrightarrow> proper a \<Longrightarrow> inv (snd (offer a s))"
    and taken_held: "inv s \<Longrightarrow> proper a \<Longrightarrow> offer a s = (True, s') \<Longrightarrow>
      held s' = (held s)(key_of a \<mapsto> time_of a)"
    and taken_newer: "inv s \<Longrightarrow> proper a \<Longrightarrow> offer a s = (True, s') \<Longrightarrow>
      held s (key_of a) = Some t \<Longrightarrow> t < time_of a"
    and refused_same: "offer a s = (False, s') \<Longrightarrow> s' = s"
begin

lemma taken_after:
  assumes "inv s" "list_all proper as" "run_offers offer as s = (taken, s')"
    and "held s k = Some t"
  shows "(\<forall>a \<in> set taken. key_of a = k \<longrightarrow> t < time_of a) \<and> (\<exists>t'. held s' k = Some t' \<and> t \<le> t')"
  using assms
proof (induction "as" arbitrary: s taken t)
  case (Cons a "as")
  obtain ok s1 where o: "offer a s = (ok, s1)"
    by fastforce
  obtain rest where r: "run_offers offer as s1 = (rest, s')" "taken = (if ok then a # rest else rest)"
    using Cons.prems(3) o by (auto split: prod.splits)
  have i1: "inv s1"
    using offer_inv [OF Cons.prems(1), of a] Cons.prems(2) o by simp
  show ?case
  proof (cases ok)
    case False
    then show ?thesis
      using Cons.IH [OF i1 _ r(1), of t] refused_same [of a s s1] o r Cons.prems by simp
  next
    case True
    show ?thesis
    proof (cases "key_of a = k")
      case True
      have "t < time_of a"
        using taken_newer [of s a s1 t] o \<open>ok\<close> Cons.prems True by simp
      moreover have "held s1 k = Some (time_of a)"
        using taken_held [of s a s1] o \<open>ok\<close> Cons.prems True by simp
      ultimately show ?thesis
        using Cons.IH [OF i1 _ r(1), of "time_of a"] Cons.prems(2) r(2) \<open>ok\<close> by fastforce
    next
      case False
      have "held s1 k = Some t"
        using taken_held [of s a s1] o \<open>ok\<close> Cons.prems False by simp
      then show ?thesis
        using Cons.IH [OF i1 _ r(1), of t] Cons.prems(2) r(2) \<open>ok\<close> False by simp
    qed
  qed
qed simp

lemma taken_increasing:
  assumes "inv s" "list_all proper as" "run_offers offer as s = (taken, s')"
  shows "sorted_wrt (\<lambda>a b. key_of a = key_of b \<longrightarrow> time_of a < time_of b) taken"
  using assms
proof (induction "as" arbitrary: s taken)
  case (Cons a "as")
  obtain ok s1 where o: "offer a s = (ok, s1)"
    by fastforce
  obtain rest where r: "run_offers offer as s1 = (rest, s')" "taken = (if ok then a # rest else rest)"
    using Cons.prems(3) o by (auto split: prod.splits)
  have i1: "inv s1"
    using offer_inv [OF Cons.prems(1), of a] Cons.prems(2) o by simp
  have "sorted_wrt (\<lambda>a b. key_of a = key_of b \<longrightarrow> time_of a < time_of b) rest"
    using Cons.IH [OF i1 _ r(1)] Cons.prems(2) by simp
  moreover have "\<forall>b \<in> set rest. key_of b = key_of a \<longrightarrow> time_of a < time_of b" if ok
    using taken_after [OF i1 _ r(1), of "key_of a" "time_of a"] taken_held [of s a s1] o that
      Cons.prems by simp
  ultimately show ?case
    using r(2) by auto
qed simp

end

text \<open>An advert as the node hears it: when, what, and the application data it carried.\<close>

type_synonym heard_advert = "u32 \<times> AdvertMsg \<times> AdvertAppData"

definition offer_advert :: "heard_advert \<Rightarrow> ContactStore \<Rightarrow> bool \<times> ContactStore" where
  "offer_advert a s =
     (case a of (now, adv, app) \<Rightarrow>
        case apply_advert now adv app s of ((c, created), s') \<Rightarrow> (c \<noteq> None, s'))"

definition held_time :: "ContactStore \<Rightarrow> bytes \<Rightarrow> u32 option" where
  "held_time s k = map_option ct_adv_timestamp (contact_map s k)"

lemma offer_advert_eq:
  assumes "contacts_inv s" "length (av_pubkey adv) = kPubKeySize"
  shows "offer_advert (now, adv, app) s =
    (advert_accepted adv s, snd (apply_advert now adv app s))"
  using apply_advert_accepted(1) [OF assms(1) _ assms(2), of now app] apply_advert_refused [of adv s now app]
  by (cases "advert_accepted adv s") (fastforce simp: offer_advert_def split: prod.splits)+

interpretation adverts: advert_table contacts_inv held_time offer_advert
  "\<lambda>(now, adv, app). av_pubkey adv" "\<lambda>(now, adv, app). av_timestamp adv"
  "\<lambda>(now, adv, app). length (av_pubkey adv) = kPubKeySize"
proof
  fix s and a :: heard_advert and s' t
  obtain now adv app where a: "a = (now, adv, app)"
    by (cases a)
  let ?proper = "case a of (now, adv, app) \<Rightarrow> length (av_pubkey adv) = kPubKeySize"
  show "contacts_inv (snd (offer_advert a s))" if "contacts_inv s" ?proper
    using that by (simp add: a offer_advert_eq apply_advert_inv)
  show "held_time s' = (held_time s)((case a of (now, adv, app) \<Rightarrow> av_pubkey adv) \<mapsto>
      (case a of (now, adv, app) \<Rightarrow> av_timestamp adv))"
    if "contacts_inv s" ?proper "offer_advert a s = (True, s')"
    using that apply_advert_accepted(2) [of s adv now app]
    by (auto simp: a offer_advert_eq held_time_def accept_advert_def fun_eq_iff)
  show "t < (case a of (now, adv, app) \<Rightarrow> av_timestamp adv)"
    if "contacts_inv s" ?proper "offer_advert a s = (True, s')"
      "held_time s (case a of (now, adv, app) \<Rightarrow> av_pubkey adv) = Some t"
    using that by (auto simp: a offer_advert_eq held_time_def advert_accepted_def)
  show "s' = s" if "offer_advert a s = (False, s')"
    using that
    by (auto simp: a offer_advert_def apply_advert_def contact_upsert_def
        split: prod.splits option.splits if_splits)
qed

section \<open>Properties\<close>

text \<open>
  The contact file: a save that reports success is read back by the next start as the
  contacts saved, names with their separators replaced and link quality reset; a save that fails
  anywhere leaves a file that loads as before or as if the save had succeeded.
\<close>

theorem contacts_survive_restart:
  assumes "contacts_storable s" "contacts_same_config s t" "contacts_save io fs0 s = (ok, fs1, s')"
  shows "(ok \<longrightarrow> contacts_load None fs1 t = (Loaded, contacts_persisted s)) \<and>
    (contacts_load None fs1 t = contacts_load None fs0 t \<or>
     contacts_load None fs1 t = (Loaded, contacts_persisted s))"
  using contact_file.saved_then_loaded [of io fs0 s fs1 s' t] contact_file.interrupted_save [OF assms(3,1,2)]
    assms by auto

definition one_contact :: ContactStore where
  "one_contact = \<lparr>cs_path = [97], cs_max = 100, cs_contacts = [new_contact (replicate 32 7)], cs_dirty = True\<rparr>"

lemma one_contact_inv: "contacts_inv one_contact"
  by (simp add: one_contact_def contacts_inv_def contact_wf_def new_contact_def)

theorem contacts_survive_restart_witness:
  "\<exists>fs1 s'. contacts_save io_fine Map.empty one_contact = (True, fs1, s') \<and>
     contacts_load None fs1 one_contact = (Loaded, contacts_persisted one_contact)"
proof -
  have st: "contacts_storable one_contact" "contacts_same_config one_contact one_contact"
    using one_contact_inv by (simp_all add: contacts_storable_def coords_ok_def
        contacts_same_config_def one_contact_def new_contact_def)
  obtain fs1 s' where s: "contacts_save io_fine Map.empty one_contact = (True, fs1, s')"
    by (simp add: contacts_save_def one_contact_def save_defs io_fine_def)
  from contacts_survive_restart [OF st s] s show ?thesis by auto
qed

lemma contact_map_mem: "contact_map s k = Some c \<Longrightarrow> c \<in> set (cs_contacts s)"
  using contact_find_Some [of k s] by (auto simp: contact_map_def)

text \<open>
  A location outside the globe, in an advert that is signed and newer and so accepted, makes
  the whole contact file unreadable: the save succeeds and the next load finds it corrupt.
\<close>

theorem bad_location_loses_contacts:
  assumes "contacts_inv s" "length (av_pubkey adv) = kPubKeySize" "advert_accepted adv s"
    and "app_has_location app" "90000000 < sint (ad_lat_e6 app)"
    and "contacts_save io fs0 (snd (apply_advert now adv app s)) = (True, fs1, s')"
    and "cs_path t = cs_path s"
  shows "contacts_load None fs1 t = (Corrupt, t)"
proof -
  let ?s1 = "snd (apply_advert now adv app s)"
  have inv: "contacts_inv ?s1" by (rule apply_advert_inv [OF assms(1,2)])
  have path: "cs_path ?s1 = cs_path s"
    by (simp add: apply_advert_def contact_upsert_def split: option.splits)
  obtain c where c: "c \<in> set (cs_contacts ?s1)" "ct_lat_e6 c = ad_lat_e6 app"
  proof -
    let ?c = "advert_update now adv app
         (case contact_map s (av_pubkey adv) of Some c \<Rightarrow> c | None \<Rightarrow> new_contact (av_pubkey adv))"
    have "contact_map ?s1 (av_pubkey adv) = Some ?c"
      using apply_advert_accepted(2) [OF assms(1,3,2)] by (simp add: accept_advert_def)
    then have "?c \<in> set (cs_contacts ?s1)" by (rule contact_map_mem)
    then show thesis
      by (rule that) (use assms(4) in \<open>simp add: advert_update_def Let_def\<close>)
  qed
  have "\<not> coords_ok c" using c(2) assms(5) by (simp add: coords_ok_def)
  from contacts_unreadable [OF inv c(1) this]
  have parse: "contacts_parse t (read_lines None (contacts_render ?s1)) = (Corrupt, t)" .
  have ne: "cs_path ?s1 \<noteq> []" using assms(6) by (auto simp: contacts_save_def)
  then have "save_file io (cs_path ?s1) (contacts_render ?s1) True fs0 = (True, fs1)"
    using assms(6) by (auto simp: contacts_save_def split: prod.splits)
  from save_file_ok [OF this] show ?thesis
    using ne parse path assms(7) by (simp add: contacts_load_def read_file_def)
qed

theorem bad_location_loses_contacts_witness:
  "\<exists>fs1 s'. contacts_save io_fine Map.empty (snd (apply_advert 9
       \<lparr>av_pubkey = replicate 32 7, av_timestamp = 5, av_signature = [], av_appdata = []\<rparr>
       \<lparr>ad_flags = kAdvHasLocation, ad_lat_e6 = 90000001, ad_lon_e6 = 0, ad_feature1 = 0, ad_feature2 = 0,
         ad_name = []\<rparr> one_contact)) = (True, fs1, s') \<and>
     contacts_load None fs1 one_contact = (Corrupt, one_contact)"
proof -
  let ?adv = "\<lparr>av_pubkey = replicate 32 7, av_timestamp = 5, av_signature = [], av_appdata = []\<rparr>"
  let ?app = "\<lparr>ad_flags = kAdvHasLocation, ad_lat_e6 = 90000001, ad_lon_e6 = 0, ad_feature1 = 0, ad_feature2 = 0,
         ad_name = []\<rparr>"
  let ?s1 = "snd (apply_advert 9 ?adv ?app one_contact)"
  have f: "contact_find (replicate 32 7) one_contact = Some 0"
    by (simp add: contact_find_def one_contact_def new_contact_def equal_def)
  have acc: "advert_accepted ?adv one_contact"
    by (simp add: advert_accepted_def contact_map_def f) (simp add: one_contact_def new_contact_def)
  have loc: "app_has_location ?app" "90000000 < sint (ad_lat_e6 ?app)"
    by (simp_all add: app_has_location_def has_flag_def kAdvHasLocation_def)
  have "cs_path ?s1 = [97]"
    by (simp add: apply_advert_def f) (simp add: one_contact_def new_contact_def)
  then obtain fs1 s' where s: "contacts_save io_fine Map.empty ?s1 = (True, fs1, s')"
    by (simp add: contacts_save_def save_defs io_fine_def)
  have len: "length (av_pubkey ?adv) = kPubKeySize" by simp
  show ?thesis
    using bad_location_loses_contacts [OF one_contact_inv len acc loc s refl] s by blast
qed

text \<open>
  C17. The contact list implements a map from public keys: an accepted advert is one update of
  it, a refused one changes nothing, and removal deletes one key. An advert is accepted exactly
  when it is newer than the one held or the table has room for a new contact.
\<close>

theorem contacts_refine_map:
  assumes "contacts_inv s" "length (av_pubkey adv) = kPubKeySize"
  shows "contact_map (snd (apply_advert now adv app s)) =
      (if advert_accepted adv s then accept_advert now adv app (contact_map s) else contact_map s) \<and>
    (fst (fst (apply_advert now adv app s)) \<noteq> None \<longleftrightarrow> advert_accepted adv s) \<and>
    contact_map (snd (contact_remove k s)) = (contact_map s)(k := None) \<and>
    fst (contact_remove k s) = (contact_map s k \<noteq> None)"
proof (cases "advert_accepted adv s")
  case True
  from apply_advert_accepted [OF assms(1) True assms(2), of now app] True
  show ?thesis using contact_remove_map [OF assms(1), of k] by auto
next
  case False
  then show ?thesis
    using apply_advert_refused [OF False] contact_remove_map [OF assms(1), of k] by simp
qed

theorem contacts_refine_map_witness:
  "contact_map (snd (contact_remove (replicate 32 7) one_contact)) (replicate 32 7) = None"
proof -
  have "length (av_pubkey \<lparr>av_pubkey = replicate 32 7, av_timestamp = 5, av_signature = [], av_appdata = []\<rparr>) =
      kPubKeySize" by simp
  from contacts_refine_map [OF one_contact_inv this] show ?thesis by simp
qed

text \<open>
  C18. Replay protection: whatever adverts are heard in whatever order, those that are taken
  from one key carry strictly increasing timestamps.
\<close>

theorem no_advert_replay:
  assumes "contacts_inv s" "\<forall>(now, adv, app) \<in> set heard. length (av_pubkey adv) = kPubKeySize"
    and "run_offers offer_advert heard s = (taken, s')"
  shows "sorted_wrt (\<lambda>(n1, a1, p1) (n2, a2, p2). av_pubkey a1 = av_pubkey a2 \<longrightarrow>
      av_timestamp a1 < av_timestamp a2) taken"
proof -
  have "list_all (\<lambda>(now, adv, app). length (av_pubkey adv) = kPubKeySize) heard"
    using assms(2) by (simp add: list_all_iff)
  from adverts.taken_increasing [OF assms(1) this assms(3)] show ?thesis
    by (simp add: case_prod_unfold)
qed

theorem no_advert_replay_witness:
  "sorted_wrt (\<lambda>(n1, a1, p1) (n2, a2, p2). av_pubkey a1 = av_pubkey a2 \<longrightarrow> av_timestamp a1 < av_timestamp a2)
     (fst (run_offers offer_advert
        (replicate 2 (9, \<lparr>av_pubkey = replicate 32 7, av_timestamp = 5, av_signature = [], av_appdata = []\<rparr>,
           new_appdata)) one_contact))"
proof -
  let ?h = "replicate 2 (9, \<lparr>av_pubkey = replicate 32 7, av_timestamp = 5, av_signature = [], av_appdata = []\<rparr>,
           new_appdata) :: heard_advert list"
  have "\<forall>(now, adv, app) \<in> set ?h. length (av_pubkey adv) = kPubKeySize" by simp
  from no_advert_replay [OF one_contact_inv this prod.collapse [symmetric]] show ?thesis .
qed

end
