(* ===== verification/EventLoop.thy ===== *)
theory EventLoop
  imports Prelude
begin

text \<open>
  The poll loop, \<^verbatim>\<open>src/src/daemon/eventloop.h\<close> and \<^verbatim>\<open>eventloop.cpp\<close>, on the clock interface of
  \<^verbatim>\<open>src/src/util/clock.h\<close>. A callback is a value of \<open>timer_cb\<close> or \<open>watch_cb\<close> that says which
  member function it runs; the loop itself is parametrised by what running one does. The
  maps keyed by registration id are association lists in id order; ids come from a counter
  and are never reused.
\<close>

section \<open>Registrations\<close>

datatype timer_cb = CbPump | CbSeenSweep | CbRfSummary | CbRetry nat | CbAdvert
  | CbDeliveredSweep | CbFlush | CbSaveRequest | CbOther nat

datatype watch_cb = WbListen | WbClient | WbRadio

record timer_entry =
  te_due :: u32
  te_interval :: u32
  te_cb :: timer_cb
  te_dead :: bool

record watch_entry =
  we_fd :: int
  we_events :: u16
  we_cb :: watch_cb
  we_dead :: bool

record loop =
  lp_now :: u32
  lp_virtual :: bool
  lp_watches :: "(nat \<times> watch_entry) list"
  lp_timers :: "(nat \<times> timer_entry) list"
  lp_next_watch :: nat
  lp_next_timer :: nat
  lp_stop :: bool
  lp_dirty :: bool

definition new_loop :: "u32 \<Rightarrow> bool \<Rightarrow> loop" where
  "new_loop now virt = \<lparr>lp_now = now, lp_virtual = virt, lp_watches = [], lp_timers = [],
     lp_next_watch = 1, lp_next_timer = 1, lp_stop = False, lp_dirty = False\<rparr>"

text \<open>\<^verbatim>\<open>set_now_ms\<close> moves a \<^verbatim>\<open>ManualClock\<close> and does nothing on the real one.\<close>

definition set_now_ms :: "u32 \<Rightarrow> loop \<Rightarrow> loop" where
  "set_now_ms ms lp = (if lp_virtual lp then lp\<lparr>lp_now := ms\<rparr> else lp)"

definition upd_entry :: "nat \<Rightarrow> ('e \<Rightarrow> 'e) \<Rightarrow> (nat \<times> 'e) list \<Rightarrow> (nat \<times> 'e) list" where
  "upd_entry i f es = map (\<lambda>(k, e). (k, if k = i then f e else e)) es"

definition add_fd :: "int \<Rightarrow> u16 \<Rightarrow> watch_cb \<Rightarrow> loop \<Rightarrow> nat \<times> loop" where
  "add_fd fd events cb lp =
    (let i = lp_next_watch lp
     in (i, lp\<lparr>lp_watches := lp_watches lp @
                  [(i, \<lparr>we_fd = fd, we_events = events, we_cb = cb, we_dead = False\<rparr>)],
               lp_next_watch := i + 1\<rparr>))"

definition update_fd :: "nat \<Rightarrow> u16 \<Rightarrow> loop \<Rightarrow> loop" where
  "update_fd i events lp =
     lp\<lparr>lp_watches := upd_entry i (\<lambda>w. w\<lparr>we_events := events\<rparr>) (lp_watches lp)\<rparr>"

definition remove_fd :: "nat \<Rightarrow> loop \<Rightarrow> loop" where
  "remove_fd i lp =
     (if map_of (lp_watches lp) i = None then lp
      else lp\<lparr>lp_watches := upd_entry i (\<lambda>w. w\<lparr>we_dead := True\<rparr>) (lp_watches lp),
              lp_dirty := True\<rparr>)"

definition add_timer :: "u32 \<Rightarrow> timer_cb \<Rightarrow> loop \<Rightarrow> nat \<times> loop" where
  "add_timer delay_ms cb lp =
    (let i = lp_next_timer lp
     in (i, lp\<lparr>lp_timers := lp_timers lp @
                  [(i, \<lparr>te_due = lp_now lp + delay_ms, te_interval = 0, te_cb = cb, te_dead = False\<rparr>)],
               lp_next_timer := i + 1\<rparr>))"

definition add_repeating :: "u32 \<Rightarrow> timer_cb \<Rightarrow> loop \<Rightarrow> nat \<times> loop" where
  "add_repeating interval_ms cb lp =
    (let iv = (if interval_ms = 0 then 1 else interval_ms); i = lp_next_timer lp
     in (i, lp\<lparr>lp_timers := lp_timers lp @
                  [(i, \<lparr>te_due = lp_now lp + iv, te_interval = iv, te_cb = cb, te_dead = False\<rparr>)],
               lp_next_timer := i + 1\<rparr>))"

definition cancel_timer :: "nat \<Rightarrow> loop \<Rightarrow> loop" where
  "cancel_timer i lp =
     (if map_of (lp_timers lp) i = None then lp
      else lp\<lparr>lp_timers := upd_entry i (\<lambda>t. t\<lparr>te_dead := True\<rparr>) (lp_timers lp),
              lp_dirty := True\<rparr>)"

text \<open>
  A \<^verbatim>\<open>Registration\<close> member is the id it holds, if any; resetting it deregisters, and assigning
  over it resets what it held after the new registration was made.
\<close>

definition reset_timer :: "nat option \<Rightarrow> loop \<Rightarrow> loop" where
  "reset_timer h lp = (case h of None \<Rightarrow> lp | Some i \<Rightarrow> cancel_timer i lp)"

definition reset_watch :: "nat option \<Rightarrow> loop \<Rightarrow> loop" where
  "reset_watch h lp = (case h of None \<Rightarrow> lp | Some i \<Rightarrow> remove_fd i lp)"

section \<open>What is due\<close>

definition te_remaining :: "u32 \<Rightarrow> timer_entry \<Rightarrow> int" where
  "te_remaining now t = sdiff (te_due t) now"

definition next_due_ms :: "loop \<Rightarrow> int option" where
  "next_due_ms lp =
     fold (\<lambda>(i, t) soonest.
         if te_dead t then soonest
         else (let remaining = te_remaining (lp_now lp) t
               in case soonest of
                    None \<Rightarrow> Some remaining
                  | Some s \<Rightarrow> if remaining < s then Some remaining else soonest))
       (lp_timers lp) None"

definition next_timeout_ms :: "loop \<Rightarrow> int" where
  "next_timeout_ms lp =
     (case next_due_ms lp of
        None \<Rightarrow> - 1
      | Some s \<Rightarrow> if s < 0 then 0 else min s 60000)"

definition due_timers :: "loop \<Rightarrow> nat list" where
  "due_timers lp =
     map fst (filter (\<lambda>(i, t). \<not> te_dead t \<and> te_remaining (lp_now lp) t \<le> 0) (lp_timers lp))"

definition reap :: "loop \<Rightarrow> loop" where
  "reap lp =
     (if \<not> lp_dirty lp then lp
      else lp\<lparr>lp_watches := filter (\<lambda>(i, w). \<not> we_dead w) (lp_watches lp),
              lp_timers := filter (\<lambda>(i, t). \<not> te_dead t) (lp_timers lp), lp_dirty := False\<rparr>)"

section \<open>Running the loop\<close>

text \<open>
  The state of everything the callbacks touch is a world with the loop in it: \<open>'w\<close>, with a
  getter and a setter for the loop, and \<open>run_cb\<close> for what a callback does.
\<close>

record 'w loop_ops =
  get_loop :: "'w \<Rightarrow> loop"
  upd_loop :: "(loop \<Rightarrow> loop) \<Rightarrow> 'w \<Rightarrow> 'w"
  run_cb :: "timer_cb \<Rightarrow> 'w \<Rightarrow> 'w"
  run_watch :: "watch_cb \<Rightarrow> u16 \<Rightarrow> 'w \<Rightarrow> 'w"

definition fire_timer :: "'w loop_ops \<Rightarrow> u32 \<Rightarrow> nat \<Rightarrow> 'w \<Rightarrow> 'w" where
  "fire_timer ops now i w =
     (case map_of (lp_timers (get_loop ops w)) i of
        None \<Rightarrow> w
      | Some t \<Rightarrow>
          if te_dead t then w
          else if te_interval t > 0
          then run_cb ops (te_cb t)
                 (upd_loop ops (\<lambda>lp. lp\<lparr>lp_timers :=
                    upd_entry i (\<lambda>t. t\<lparr>te_due := now + te_interval t\<rparr>) (lp_timers lp)\<rparr>) w)
          else run_cb ops (te_cb t)
                 (upd_loop ops (\<lambda>lp. lp\<lparr>lp_timers :=
                    upd_entry i (\<lambda>t. t\<lparr>te_dead := True\<rparr>) (lp_timers lp), lp_dirty := True\<rparr>) w))"

definition run_due_timers :: "'w loop_ops \<Rightarrow> 'w \<Rightarrow> 'w" where
  "run_due_timers ops w =
     fold (fire_timer ops (lp_now (get_loop ops w))) (due_timers (get_loop ops w)) w"

text \<open>
  What a pass of \<^verbatim>\<open>run()\<close> gets from outside: what the interrupt check answers before and after the
  \<^verbatim>\<open>poll\<close>, how many milliseconds that call took, and its outcome. \<open>Poll_Error eintr\<close> is a failed call,
  \<open>Poll_Ready rs\<close> has the returned events by watch id, in the order of the descriptors.
\<close>

datatype poll_outcome = Poll_Error bool | Poll_Ready "(nat \<times> u16) list"

record poll_pass =
  pp_interrupted :: bool
  pp_took :: u32
  pp_outcome :: poll_outcome
  pp_interrupted_after :: bool

text \<open>The real clock moves by itself; a virtual one only when it is set.\<close>

definition time_passes :: "u32 \<Rightarrow> loop \<Rightarrow> loop" where
  "time_passes ms lp = (if lp_virtual lp then lp else lp\<lparr>lp_now := lp_now lp + ms\<rparr>)"

fun run_watches :: "'w loop_ops \<Rightarrow> (nat \<times> u16) list \<Rightarrow> 'w \<Rightarrow> nat \<times> 'w" where
  "run_watches ops [] w = (0, w)"
| "run_watches ops ((i, revents) # rest) w =
     (case map_of (lp_watches (get_loop ops w)) i of
        None \<Rightarrow> run_watches ops rest w
      | Some e \<Rightarrow>
          if we_dead e then run_watches ops rest w
          else let w1 = run_watch ops (we_cb e) revents w
               in if lp_stop (get_loop ops w1) then (length rest, w1)
                  else run_watches ops rest w1)"

text \<open>A virtual clock with nothing left to dispatch moves to whatever is due next.\<close>

definition skip_ahead :: "'w loop_ops \<Rightarrow> nat \<Rightarrow> 'w \<Rightarrow> 'w" where
  "skip_ahead ops n w =
    (let lp = get_loop ops w
     in if \<not> lp_stop lp \<and> lp_virtual lp \<and> n = 0
        then (case next_due_ms lp of
                Some due \<Rightarrow> if due > 0 then upd_loop ops (set_now_ms (lp_now lp + word_of_int due)) w else w
              | None \<Rightarrow> w)
        else w)"

definition dispatch_pass :: "'w loop_ops \<Rightarrow> (nat \<times> u16) list \<Rightarrow> 'w \<Rightarrow> 'w" where
  "dispatch_pass ops rs w =
    (case run_watches ops (filter (\<lambda>(i, r). r \<noteq> 0) rs) w of (n, w1) \<Rightarrow>
       let w2 = skip_ahead ops n w1
       in if \<not> lp_stop (get_loop ops w2) then run_due_timers ops w2 else w2)"

text \<open>One pass; the result says whether the loop goes round again.\<close>

definition run_iteration :: "'w loop_ops \<Rightarrow> poll_pass \<Rightarrow> 'w \<Rightarrow> bool \<times> 'w" where
  "run_iteration ops p w =
    (if pp_interrupted p then (False, w)
     else
       let w1 = upd_loop ops reap w;
           lp = get_loop ops w1;
           pfds = filter (\<lambda>(i, e). \<not> we_dead e \<and> we_fd e \<ge> 0) (lp_watches lp);
           timeout = next_timeout_ms lp
       in if pfds = [] \<and> timeout < 0 then (False, w1)
          else
            let w2 = upd_loop ops (time_passes (pp_took p)) w1
            in case pp_outcome p of
                 Poll_Error eintr \<Rightarrow> (eintr \<and> \<not> pp_interrupted_after p, w2)
               | Poll_Ready rs \<Rightarrow>
                   let w3 = dispatch_pass ops rs w2 in (\<not> lp_stop (get_loop ops w3), w3))"

text \<open>
  \<^verbatim>\<open>run()\<close> over the passes it makes; the result says whether it returned within them.
\<close>

fun run_passes :: "'w loop_ops \<Rightarrow> poll_pass list \<Rightarrow> 'w \<Rightarrow> bool \<times> 'w" where
  "run_passes ops [] w = (False, w)"
| "run_passes ops (p # rest) w =
     (case run_iteration ops p w of
        (again, w') \<Rightarrow> if again then run_passes ops rest w' else (True, w'))"

definition run_loop :: "'w loop_ops \<Rightarrow> poll_pass list \<Rightarrow> 'w \<Rightarrow> bool \<times> 'w" where
  "run_loop ops ps w = run_passes ops ps (upd_loop ops (\<lambda>lp. lp\<lparr>lp_stop := False\<rparr>) w)"

text \<open>
  \<^verbatim>\<open>advance\<close> ends when no timer is due before the target; a callback that keeps arming timers
  with no delay keeps it going, so the passes it may make are counted by \<open>fuel\<close>.
\<close>

fun advance_loop :: "'w loop_ops \<Rightarrow> nat \<Rightarrow> u32 \<Rightarrow> 'w \<Rightarrow> 'w option" where
  "advance_loop ops 0 target w = None"
| "advance_loop ops (Suc fuel) target w =
    (if lp_stop (get_loop ops w) then Some w
     else
       let w1 = upd_loop ops reap w;
           lp = get_loop ops w1;
           remaining = sdiff target (lp_now lp)
       in if remaining \<le> 0 then Some w1
          else case next_due_ms lp of
                 None \<Rightarrow> Some w1
               | Some due \<Rightarrow>
                   if due > remaining then Some w1
                   else let w2 = (if due > 0
                                  then upd_loop ops (set_now_ms (lp_now lp + word_of_int due)) w1
                                  else w1)
                        in advance_loop ops fuel target (run_due_timers ops w2))"

definition advance :: "'w loop_ops \<Rightarrow> nat \<Rightarrow> u32 \<Rightarrow> 'w \<Rightarrow> 'w option" where
  "advance ops fuel ms w =
     (if \<not> lp_virtual (get_loop ops w) then Some w
      else
        let target = lp_now (get_loop ops w) + ms
        in map_option
             (\<lambda>w. if \<not> lp_stop (get_loop ops w) \<and> sdiff target (lp_now (get_loop ops w)) > 0
                  then upd_loop ops (set_now_ms target) w else w)
             (advance_loop ops fuel target (upd_loop ops (\<lambda>lp. lp\<lparr>lp_stop := False\<rparr>) w)))"

definition stop :: "loop \<Rightarrow> loop" where
  "stop lp = lp\<lparr>lp_stop := True\<rparr>"

section \<open>Timers across the clock wrap\<close>

definition live_timers :: "loop \<Rightarrow> (nat \<times> timer_entry) list" where
  "live_timers lp = filter (\<lambda>(i, t). \<not> te_dead t) (lp_timers lp)"

definition live_remaining :: "loop \<Rightarrow> int list" where
  "live_remaining lp = map (\<lambda>(i, t). te_remaining (lp_now lp) t) (live_timers lp)"

text \<open>Ids are unique and below the counter, so no handle can name another registration.\<close>

definition loop_wf :: "loop \<Rightarrow> bool" where
  "loop_wf lp \<longleftrightarrow> distinct (map fst (lp_timers lp)) \<and> list_all (\<lambda>i. i < lp_next_timer lp) (map fst (lp_timers lp))"

lemma upd_entry_keys [simp]: "map fst (upd_entry i f es) = map fst es"
  by (simp add: upd_entry_def case_prod_beta comp_def)

lemma upd_entry_fst [simp]: "fst ` set (upd_entry i f es) = fst ` set es"
  by (metis upd_entry_keys list.set_map)

lemma loop_wf_new: "loop_wf (new_loop now virt)"
  by (simp add: loop_wf_def new_loop_def)

lemma add_timer_wf: "loop_wf lp \<Longrightarrow> loop_wf (snd (add_timer d cb lp))"
  by (auto simp: loop_wf_def add_timer_def Let_def less_Suc_eq list_all_iff)

lemma add_repeating_wf: "loop_wf lp \<Longrightarrow> loop_wf (snd (add_repeating d cb lp))"
  by (auto simp: loop_wf_def add_repeating_def Let_def less_Suc_eq list_all_iff)

lemma cancel_timer_wf: "loop_wf lp \<Longrightarrow> loop_wf (cancel_timer i lp)"
  by (simp add: loop_wf_def cancel_timer_def del: list.pred_map)

lemma reap_wf: "loop_wf lp \<Longrightarrow> loop_wf (reap lp)"
  by (auto simp: loop_wf_def reap_def distinct_map inj_on_def list_all_iff)

lemma cancelled_is_dead:
  assumes "loop_wf lp" "(i, t) \<in> set (lp_timers (cancel_timer i lp))"
  shows "te_dead t"
  using assms
  by (auto simp: cancel_timer_def upd_entry_def split: if_splits)
    (metis domI map_of_eq_None_iff fst_conv image_eqI option.distinct(1))

lemma cancelled_never_due: "loop_wf lp \<Longrightarrow> i \<notin> set (due_timers (cancel_timer i lp))"
  using cancelled_is_dead [of lp i] by (auto simp: due_timers_def)

lemma fired_once:
  assumes "map_of (lp_timers (get_loop ops w)) i = Some t" "te_dead t"
  shows "fire_timer ops now i w = w"
  using assms by (simp add: fire_timer_def)

lemma sdiff_after:
  assumes "unat e \<le> unat d" "unat d < 2 ^ 31"
  shows "sdiff (a + d) (a + e) = int (unat d) - int (unat e)"
proof -
  have "unat (d - e) = unat d - unat e"
    using assms(1) by (simp add: unat_sub word_le_nat_alt)
  then show ?thesis
    using assms sint_u32_small [of "d - e"] by (simp add: sdiff_def)
qed

text \<open>A timer armed for \<open>d\<close> ms is due after exactly \<open>d\<close> ms, wherever the clock wraps.\<close>

lemma armed_timer_due_exactly:
  assumes "loop_wf lp" "add_timer d cb lp = (i, lp')" "unat e \<le> unat d" "unat d < 2 ^ 31"
  shows "\<exists>t. map_of (lp_timers lp') i = Some t \<and> te_cb t = cb \<and> \<not> te_dead t \<and>
      (te_remaining (lp_now lp + e) t \<le> 0 \<longleftrightarrow> e = d)"
proof -
  have "i \<notin> fst ` set (lp_timers lp)"
    using assms(1,2) by (auto simp: loop_wf_def add_timer_def Let_def list_all_iff)
  then have "map_of (lp_timers lp) i = None"
    by (simp add: map_of_eq_None_iff)
  moreover have "sdiff (lp_now lp + d) (lp_now lp + e) \<le> 0 \<longleftrightarrow> unat d \<le> unat e"
    unfolding sdiff_after [OF assms(3,4)] by linarith
  moreover have "unat d \<le> unat e \<longleftrightarrow> e = d"
    using assms(3) by (metis order_antisym order_refl word_unat_eq_iff)
  ultimately show ?thesis
    using assms(2) by (auto simp: add_timer_def Let_def map_add_def te_remaining_def)
qed

section \<open>The soonest timer\<close>

lemma fold_soonest_Some:
  "fold (\<lambda>(i, t) soonest. if te_dead t then soonest
         else (let remaining = te_remaining now t
               in case soonest of None \<Rightarrow> Some remaining
                  | Some s \<Rightarrow> if remaining < s then Some remaining else soonest)) ts (Some s) =
    Some (fold min (map (\<lambda>(i, t). te_remaining now t) (filter (\<lambda>(i, t). \<not> te_dead t) ts)) s)"
  by (induction ts arbitrary: s) (auto simp: Let_def min_def)

lemma fold_soonest_None:
  "fold (\<lambda>(i, t) soonest. if te_dead t then soonest
         else (let remaining = te_remaining now t
               in case soonest of None \<Rightarrow> Some remaining
                  | Some s \<Rightarrow> if remaining < s then Some remaining else soonest)) ts None =
    (case map (\<lambda>(i, t). te_remaining now t) (filter (\<lambda>(i, t). \<not> te_dead t) ts) of
       [] \<Rightarrow> None | r # rs \<Rightarrow> Some (fold min rs r))"
  by (induction ts) (auto simp: Let_def fold_soonest_Some)

lemma next_due_ms_Min:
  "next_due_ms lp =
     (if live_remaining lp = [] then None else Some (Min (set (live_remaining lp))))"
proof -
  have "next_due_ms lp = (case live_remaining lp of [] \<Rightarrow> None | r # rs \<Rightarrow> Some (fold min rs r))"
    by (simp add: next_due_ms_def fold_soonest_None live_remaining_def live_timers_def)
  then show ?thesis
    by (cases "live_remaining lp") (simp_all add: Min.set_eq_fold del: list.set)
qed

lemma next_due_le: "x \<in> set (live_remaining lp) \<Longrightarrow> \<exists>s. next_due_ms lp = Some s \<and> s \<le> x"
  by (cases "live_remaining lp") (auto simp: next_due_ms_Min)

lemma due_timers_iff:
  "due_timers lp \<noteq> [] \<longleftrightarrow> (\<exists>s. next_due_ms lp = Some s \<and> s \<le> 0)"
proof -
  have "due_timers lp \<noteq> [] \<longleftrightarrow> (\<exists>x \<in> set (live_remaining lp). x \<le> 0)"
    by (auto simp: due_timers_def live_remaining_def live_timers_def filter_empty_conv)
  also have "\<dots> \<longleftrightarrow> (\<exists>s. next_due_ms lp = Some s \<and> s \<le> 0)"
    by (auto simp: next_due_ms_Min Min_le_iff)
  finally show ?thesis .
qed

lemma reap_live [simp]: "live_timers (reap lp) = live_timers lp" "lp_now (reap lp) = lp_now lp"
  by (auto simp: reap_def live_timers_def)

lemma reap_next_due [simp]: "next_due_ms (reap lp) = next_due_ms lp"
  by (simp add: next_due_ms_Min live_remaining_def)

lemma next_timeout_bounds: "- 1 \<le> next_timeout_ms lp" "next_timeout_ms lp \<le> 60000"
  by (auto simp: next_timeout_ms_def split: option.splits)

text \<open>The loop never sleeps past a timer.\<close>

lemma next_timeout_not_late:
  assumes "(i, t) \<in> set (live_timers lp)"
  shows "0 \<le> next_timeout_ms lp" "next_timeout_ms lp \<le> max 0 (te_remaining (lp_now lp) t)"
proof -
  have "te_remaining (lp_now lp) t \<in> set (live_remaining lp)"
    using assms by (force simp: live_remaining_def)
  then obtain s where "next_due_ms lp = Some s" "s \<le> te_remaining (lp_now lp) t"
    using next_due_le by blast
  then show "0 \<le> next_timeout_ms lp" "next_timeout_ms lp \<le> max 0 (te_remaining (lp_now lp) t)"
    by (auto simp: next_timeout_ms_def)
qed

section \<open>What the loop keeps\<close>

text \<open>
  A fact that every callback keeps, and that no change of the loop's own bookkeeping touches, holds
  after any run of the loop.
\<close>

locale loop_predicate =
  fixes ops :: "'w loop_ops" and P :: "'w \<Rightarrow> bool"
  assumes upd_keeps: "P w \<Longrightarrow> P (upd_loop ops f w)"
    and cb_keeps: "P w \<Longrightarrow> P (run_cb ops cb w)"
    and watch_keeps: "P w \<Longrightarrow> P (run_watch ops wb revents w)"
begin

lemma fire_keeps: "P w \<Longrightarrow> P (fire_timer ops now i w)"
  by (simp add: fire_timer_def upd_keeps cb_keeps split: option.split)

lemma due_keeps: "P w \<Longrightarrow> P (run_due_timers ops w)"
proof -
  have "P (fold (fire_timer ops now) is v)" if "P v" for now "is" v
    using that by (induction "is" arbitrary: v) (simp_all add: fire_keeps)
  then show "P w \<Longrightarrow> P (run_due_timers ops w)" by (simp add: run_due_timers_def)
qed

lemma watches_keep: "P w \<Longrightarrow> P (snd (run_watches ops rs w))"
  by (induction rs arbitrary: w) (auto simp: watch_keeps Let_def split: option.split)

lemma dispatch_keeps: "P w \<Longrightarrow> P (dispatch_pass ops rs w)"
  using watches_keep [of w "filter (\<lambda>(i, r). r \<noteq> 0) rs"]
  by (auto simp: dispatch_pass_def skip_ahead_def Let_def intro!: due_keeps upd_keeps split: prod.split option.split)

lemma iteration_keeps: "P w \<Longrightarrow> P (snd (run_iteration ops p w))"
  by (simp add: run_iteration_def Let_def upd_keeps dispatch_keeps split: poll_outcome.split)

lemma passes_keep: "P w \<Longrightarrow> P (snd (run_passes ops ps w))"
proof (induction ps arbitrary: w)
  case (Cons p ps)
  from iteration_keeps [OF Cons.prems, of p] Cons.IH show ?case by (auto split: prod.split)
qed simp

lemma run_keeps: "P w \<Longrightarrow> P (snd (run_loop ops ps w))"
  by (simp add: run_loop_def passes_keep upd_keeps)

end

text \<open>A signal ends the loop: the first pass whose interrupt check says so is the last one.\<close>

lemma interrupt_ends_loop: "pp_interrupted p \<Longrightarrow> fst (run_passes ops (ps @ p # rest) w)"
  by (induction ps arbitrary: w) (auto simp: run_iteration_def split: prod.split)

text \<open>
  With a virtual clock every pass that was not stopped has dispatched all that was ready, so the clock
  moves to the next timer also after a pass in which something was.
\<close>

lemma watches_all_run:
  "run_watches ops rs w = (n, w1) \<Longrightarrow> \<not> lp_stop (get_loop ops w1) \<Longrightarrow> n = 0"
  by (induction ops rs w rule: run_watches.induct) (auto simp: Let_def split: option.splits if_splits)

lemma clock_moves_after_ready:
  assumes "run_watches ops rs w = (n, w1)" "\<not> lp_stop (get_loop ops w1)" "lp_virtual (get_loop ops w1)"
    and "next_due_ms (get_loop ops w1) = Some due" "0 < due"
  shows "skip_ahead ops n w1 = upd_loop ops (set_now_ms (lp_now (get_loop ops w1) + word_of_int due)) w1"
  using watches_all_run [OF assms(1,2)] assms(2-5) by (simp add: skip_ahead_def Let_def)

section \<open>Properties\<close>

text \<open>
  C30. A one-shot timer is due exactly when its delay has passed and not a millisecond before,
  also across the wrap of the 32-bit millisecond clock, for delays below \<open>2\<^sup>31\<close> ms; once cancelled
  it is never due.
\<close>

theorem timer_due_exactly:
  assumes "loop_wf lp" "add_timer d cb lp = (i, lp')" "unat e \<le> unat d" "unat d < 2 ^ 31"
  shows "(\<exists>t. map_of (lp_timers lp') i = Some t \<and> te_cb t = cb \<and> \<not> te_dead t \<and>
      (te_remaining (lp_now lp + e) t \<le> 0 \<longleftrightarrow> e = d)) \<and>
    i \<notin> set (due_timers (cancel_timer i lp'))"
proof -
  have "loop_wf lp'" using add_timer_wf [OF assms(1), of d cb] assms(2) by simp
  from cancelled_never_due [OF this] armed_timer_due_exactly [OF assms] show ?thesis by blast
qed

theorem timer_due_exactly_witness:
  "\<exists>t. map_of (lp_timers (snd (add_timer 8000 CbAdvert (new_loop 0xFFFFFF00 False)))) 1 = Some t \<and>
     (te_remaining (0xFFFFFF00 + 8000) t \<le> 0)"
proof -
  have a: "add_timer 8000 CbAdvert (new_loop 0xFFFFFF00 False) =
      (1, snd (add_timer 8000 CbAdvert (new_loop 0xFFFFFF00 False)))"
    by (simp add: add_timer_def new_loop_def)
  have now: "lp_now (new_loop 0xFFFFFF00 False) = 0xFFFFFF00" by (simp add: new_loop_def)
  show ?thesis
    using conjunct1 [OF timer_due_exactly [OF loop_wf_new a, of 8000]] by (auto simp: now)
qed

text \<open>
  C31. The loop never sleeps past a timer: whenever a timer is armed the poll timeout is not
  infinite and ends no later than the timer is due, and it is at most a minute; timers are
  dispatched exactly when one of them is due.
\<close>

theorem never_sleeps_past_a_timer:
  assumes "(i, t) \<in> set (live_timers lp)"
  shows "0 \<le> next_timeout_ms lp \<and> next_timeout_ms lp \<le> max 0 (te_remaining (lp_now lp) t) \<and>
    next_timeout_ms lp \<le> 60000 \<and> (due_timers lp \<noteq> [] \<longleftrightarrow> next_timeout_ms lp = 0)"
proof -
  have "next_timeout_ms lp = 0 \<longleftrightarrow> due_timers lp \<noteq> []"
    by (auto simp: due_timers_iff next_timeout_ms_def split: option.splits)
  then show ?thesis
    using next_timeout_not_late [OF assms] next_timeout_bounds(2) [of lp] by simp
qed

theorem never_sleeps_past_a_timer_witness:
  "next_timeout_ms (snd (add_timer 250 CbPump (new_loop 0xFFFFFFF0 False))) \<le> 250"
proof -
  let ?lp = "snd (add_timer 250 CbPump (new_loop 0xFFFFFFF0 False))"
  let ?t = "\<lparr>te_due = 0xFFFFFFF0 + 250, te_interval = 0, te_cb = CbPump, te_dead = False\<rparr>"
  have "(1, ?t) \<in> set (live_timers ?lp)" by (simp add: add_timer_def new_loop_def live_timers_def)
  moreover have "te_remaining (lp_now ?lp) ?t = 250"
    by (simp add: add_timer_def new_loop_def te_remaining_def sdiff_def)
  ultimately show ?thesis using never_sleeps_past_a_timer [of 1 ?t ?lp] by simp
qed

end
