(* ===== verification/Radio.thy ===== *)
theory Radio
  imports EventLoop Packet
begin

text \<open>
  The radio interface and the transmit budget, \<^verbatim>\<open>src/src/radio/radio.h\<close> and \<^verbatim>\<open>radio.cpp\<close>. The
  code computes in \<^verbatim>\<open>double\<close>; the model computes the same expressions exactly, over the
  rationals. Sums of airtime are \<^verbatim>\<open>uint64_t\<close> in the code and cannot reach its width.
\<close>

section \<open>Parameters\<close>

record RadioParams =
  rp_freq_mhz :: rat
  rp_bw_khz :: rat
  rp_sf :: byte
  rp_cr :: byte
  rp_tx_power_dbm :: int
  rp_tcxo_voltage :: rat
  rp_dio2_as_rf_switch :: bool
  rp_rx_boosted_gain :: bool
  rp_current_limit_ma :: int
  rp_duty_cycle_pct :: rat

definition default_params :: RadioParams where
  "default_params = \<lparr>rp_freq_mhz = 0, rp_bw_khz = 125 / 2, rp_sf = 8, rp_cr = 5,
     rp_tx_power_dbm = 22, rp_tcxo_voltage = 9 / 5, rp_dio2_as_rf_switch = True,
     rp_rx_boosted_gain = True, rp_current_limit_ma = 140, rp_duty_cycle_pct = 10\<rparr>"

definition kMinTxPowerDbm :: int where "kMinTxPowerDbm = - 9"
definition kMaxTxPowerDbm :: int where "kMaxTxPowerDbm = 22"

definition kBandwidthsKhz :: "rat list" where
  "kBandwidthsKhz = [781 / 100, 1042 / 100, 1563 / 100, 2083 / 100, 3125 / 100, 4167 / 100,
     625 / 10, 125, 250, 500]"

definition nearest_bandwidth :: "rat \<Rightarrow> rat option" where
  "nearest_bandwidth khz =
     find (\<lambda>supported. \<bar>khz - supported\<bar> \<le> supported * (1 / 100)) kBandwidthsKhz"

definition has_frequency :: "RadioParams \<Rightarrow> bool" where
  "has_frequency p \<longleftrightarrow> rp_freq_mhz p > 0"

definition low_data_rate_optimize :: "RadioParams \<Rightarrow> bool" where
  "low_data_rate_optimize p =
     (if rp_sf p < 5 \<or> rp_bw_khz p \<le> 0 then False
      else 2 ^ unat (rp_sf p) / rp_bw_khz p \<ge> 16)"

definition preamble_symbols :: "RadioParams \<Rightarrow> nat" where
  "preamble_symbols p = (if rp_sf p \<le> 8 then 32 else 16)"

definition sfd_symbols :: "RadioParams \<Rightarrow> rat" where
  "sfd_symbols p = (if rp_sf p \<le> 6 then 625 / 100 else 425 / 100)"

text \<open>LoRa time on air of \<open>n\<close> bytes: symbols after the sync word, seconds, whole milliseconds.\<close>

definition payload_symbols :: "RadioParams \<Rightarrow> nat \<Rightarrow> rat" where
  "payload_symbols p n =
    (let sf = (of_nat (unat (rp_sf p)) :: rat);
         cr = (if 5 \<le> rp_cr p \<and> rp_cr p \<le> 8 then of_nat (unat (rp_cr p)) - 4 else 4);
         header_coeff = (if rp_sf p \<le> 6 then 0 else 8);
         numerator = max (8 * of_nat n + 16 - 4 * sf + header_coeff + 20) 0;
         denominator = 4 * (sf - (if low_data_rate_optimize p then 2 else 0))
     in max (8 + of_int \<lceil>numerator / denominator\<rceil> * (4 + cr)) 8)"

definition airtime_exact :: "RadioParams \<Rightarrow> nat \<Rightarrow> rat" where
  "airtime_exact p n =
    (let bw_hz = rp_bw_khz p * 1000;
         t_sym = 2 ^ unat (rp_sf p) / bw_hz;
         t_preamble = (of_nat (preamble_symbols p) + sfd_symbols p) * t_sym
     in t_preamble + payload_symbols p n * t_sym)"

definition airtime_ms :: "RadioParams \<Rightarrow> nat \<Rightarrow> u32" where
  "airtime_ms p n =
     (if rp_sf p < 5 \<or> rp_bw_khz p \<le> 0 then 0
      else word_of_int \<lceil>airtime_exact p n * 1000\<rceil>)"

section \<open>The radio as the dispatcher sees it\<close>

text \<open>
  The virtual methods of \<^verbatim>\<open>Radio\<close> over the state \<open>'r\<close> of a driver. The \<^verbatim>\<open>const\<close> ones cannot
  change it; \<^verbatim>\<open>channel_busy\<close> and \<^verbatim>\<open>send\<close> can.
\<close>

record 'r radio_ops =
  tx_busy :: "'r \<Rightarrow> bool"
  ready :: "'r \<Rightarrow> bool"
  params :: "'r \<Rightarrow> RadioParams"
  channel_busy :: "'r \<Rightarrow> bool \<times> 'r"
  radio_send :: "bytes \<Rightarrow> 'r \<Rightarrow> bool \<times> 'r"
  radio_reconfigure :: "RadioParams \<Rightarrow> 'r \<Rightarrow> 'r"

record RxPacket =
  rx_data :: bytes
  rx_rssi :: int
  rx_snr :: rat
  rx_at :: u32

datatype RxError = HeaderError | CrcError | Timeout

record RxFailure =
  rf_error :: RxError
  rf_has_signal :: bool
  rf_rssi :: int
  rf_snr :: rat

section \<open>Duty cycle\<close>

record duty_entry =
  de_at_ms :: u32
  de_airtime_ms :: u32

record DutyCycle =
  dc_percent :: rat
  dc_entries :: "duty_entry list"

definition kWindowMs :: u32 where "kWindowMs = 3600000"

definition entry_age :: "u32 \<Rightarrow> duty_entry \<Rightarrow> int" where
  "entry_age now e = sdiff now (de_at_ms e)"

definition duty_set_percent :: "rat \<Rightarrow> DutyCycle \<Rightarrow> DutyCycle" where
  "duty_set_percent pct d = d\<lparr>dc_percent := pct\<rparr>"

definition prune :: "u32 \<Rightarrow> DutyCycle \<Rightarrow> DutyCycle" where
  "prune now d =
     d\<lparr>dc_entries := filter (\<lambda>e. \<not> entry_age now e > sint kWindowMs) (dc_entries d)\<rparr>"

definition duty_record :: "u32 \<Rightarrow> u32 \<Rightarrow> DutyCycle \<Rightarrow> DutyCycle" where
  "duty_record now airtime d =
    (let d1 = prune now d
     in d1\<lparr>dc_entries := dc_entries d1 @ [\<lparr>de_at_ms = now, de_airtime_ms = airtime\<rparr>]\<rparr>)"

definition total_airtime :: "duty_entry list \<Rightarrow> nat" where
  "total_airtime es = sum_list (map (\<lambda>e. unat (de_airtime_ms e)) es)"

definition used_pct :: "u32 \<Rightarrow> DutyCycle \<Rightarrow> rat \<times> DutyCycle" where
  "used_pct now d =
    (let d1 = prune now d
     in (100 * of_nat (total_airtime (dc_entries d1)) / of_nat (unat kWindowMs), d1))"

definition budget :: "rat \<Rightarrow> rat" where
  "budget pct = of_nat (unat kWindowMs) * pct / 100"

text \<open>The loop that looks for the entry whose expiry frees enough.\<close>

fun release_wait :: "u32 \<Rightarrow> rat \<Rightarrow> nat \<Rightarrow> duty_entry list \<Rightarrow> u32" where
  "release_wait now excess released [] = kWindowMs"
| "release_wait now excess released (e # es) =
    (let released' = released + unat (de_airtime_ms e)
     in if of_nat released' < excess then release_wait now excess released' es
        else let remaining = sint kWindowMs - entry_age now e
             in if remaining > 0 then word_of_int remaining else 0)"

definition wait_ms :: "u32 \<Rightarrow> u32 \<Rightarrow> DutyCycle \<Rightarrow> u32 \<times> DutyCycle" where
  "wait_ms now candidate d =
     (if dc_percent d \<le> 0 \<or> dc_percent d \<ge> 100 then (0, d)
      else
        let d1 = prune now d;
            needed = of_nat (total_airtime (dc_entries d1) + unat candidate);
            b = budget (dc_percent d)
        in if needed \<le> b then (0, d1)
           else if of_nat (unat candidate) > b then (kWindowMs, d1)
           else (release_wait now (needed - b) 0 (dc_entries d1), d1))"

section \<open>Bandwidths and airtime\<close>

lemma nearest_bandwidth_supported:
  "nearest_bandwidth khz = Some bw \<Longrightarrow> bw \<in> set kBandwidthsKhz \<and> \<bar>khz - bw\<bar> \<le> bw / 100"
  unfolding nearest_bandwidth_def by (drule find_Some_in_set) simp

lemma airtime_exact_symbols:
  "airtime_exact p n = (of_nat (preamble_symbols p) + sfd_symbols p + payload_symbols p n) *
     (2 ^ unat (rp_sf p) / (rp_bw_khz p * 1000))"
  by (simp only: airtime_exact_def Let_def distrib_right)

lemma payload_symbols_mono:
  assumes "m \<le> n" "5 \<le> rp_sf p"
  shows "payload_symbols p m \<le> payload_symbols p n"
proof -
  have sf: "(5 :: rat) \<le> of_nat (unat (rp_sf p))"
    using assms(2) of_nat_mono [of 5 "unat (rp_sf p)"] by (simp only: word_le_nat_alt) simp
  have cr: "(0 :: rat) \<le> 4 + (if 5 \<le> rp_cr p \<and> rp_cr p \<le> 8 then of_nat (unat (rp_cr p)) - 4 else 4)"
    using of_nat_0_le_iff [where ?'a = rat, of "unat (rp_cr p)"] by simp
  show ?thesis
    unfolding payload_symbols_def Let_def using assms(1) sf cr
    by (intro max.mono add_mono mult_right_mono of_int_le_iff [THEN iffD2] ceiling_mono
        divide_right_mono diff_mono mult_left_mono order_refl) (simp_all split: if_splits)
qed

lemma airtime_exact_mono:
  assumes "m \<le> n" "5 \<le> rp_sf p" "0 < rp_bw_khz p"
  shows "airtime_exact p m \<le> airtime_exact p n"
  unfolding airtime_exact_symbols
  using payload_symbols_mono [OF assms(1,2)] assms(3) by (intro mult_right_mono) simp_all

lemma airtime_exact_positive:
  assumes "0 < rp_bw_khz p"
  shows "0 < airtime_exact p n"
proof -
  have "(8 :: rat) \<le> payload_symbols p n"
    by (simp add: payload_symbols_def Let_def)
  moreover have "0 < sfd_symbols p"
    by (simp add: sfd_symbols_def)
  ultimately show ?thesis
    unfolding airtime_exact_symbols using assms by (intro mult_pos_pos) (simp_all add: add_nonneg_pos)
qed

section \<open>The budget is kept\<close>

text \<open>Airtime recorded within the last hour, and a log in the order it was recorded.\<close>

definition in_window :: "u32 \<Rightarrow> duty_entry list \<Rightarrow> nat" where
  "in_window now es = total_airtime (filter (\<lambda>e. entry_age now e < sint kWindowMs) es)"

definition duty_ordered :: "u32 \<Rightarrow> duty_entry list \<Rightarrow> bool" where
  "duty_ordered now es \<longleftrightarrow> list_all (\<lambda>e. 0 \<le> entry_age now e) es \<and>
     sorted_wrt (\<lambda>a b. entry_age now b \<le> entry_age now a) es"

lemma window_value [simp]: "sint kWindowMs = 3600000" "unat kWindowMs = 3600000"
  by (simp_all add: kWindowMs_def)

lemma total_airtime_simps [simp]:
  "total_airtime [] = 0" "total_airtime (e # es) = unat (de_airtime_ms e) + total_airtime es"
  "total_airtime (xs @ ys) = total_airtime xs + total_airtime ys"
  by (simp_all add: total_airtime_def)

lemma in_window_le: "in_window now es \<le> total_airtime es"
  unfolding in_window_def total_airtime_def by (rule sum_list_filter_le)

lemma in_window_prune [simp]: "in_window now (dc_entries (prune now d)) = in_window now (dc_entries d)"
  by (simp add: in_window_def prune_def) (rule arg_cong [of _ _ total_airtime], rule filter_cong, auto)

lemma prune_ordered: "duty_ordered now (dc_entries d) \<Longrightarrow> duty_ordered now (dc_entries (prune now d))"
  by (auto simp: duty_ordered_def prune_def list_all_iff sorted_wrt_filter)

lemma release_wait_split:
  assumes "of_nat released < excess" "excess \<le> of_nat (released + total_airtime es)"
  obtains xs e ys where "es = xs @ e # ys"
    and "excess \<le> of_nat (released + total_airtime (xs @ [e]))"
    and "of_nat (released + total_airtime xs) < excess"
    and "release_wait now excess released es =
      (if 3600000 - entry_age now e > 0 then word_of_int (3600000 - entry_age now e) else 0)"
  using assms
proof (induction es arbitrary: released thesis)
  case Nil
  then show ?case
    by simp
next
  case (Cons e es)
  show ?case
  proof (cases "of_nat (released + unat (de_airtime_ms e)) < excess")
    case True
    obtain xs d ys where "es = xs @ d # ys"
      "excess \<le> of_nat (released + unat (de_airtime_ms e) + total_airtime (xs @ [d]))"
      "of_nat (released + unat (de_airtime_ms e) + total_airtime xs) < excess"
      "release_wait now excess (released + unat (de_airtime_ms e)) es =
        (if 3600000 - entry_age now d > 0 then word_of_int (3600000 - entry_age now d) else 0)"
      using Cons.IH [OF _ True] Cons.prems(3) by (auto simp: add.assoc)
    then show ?thesis
      using Cons.prems(1) [of "e # xs" d ys] True by (simp add: Let_def add.assoc)
  next
    case False
    then show ?thesis
      using Cons.prems(1) [of "[]" e es] Cons.prems(2) by (simp add: Let_def)
  qed
qed

lemma in_window_aged:
  assumes "\<forall>x \<in> set xs. 3600000 \<le> entry_age now x"
  shows "in_window now (xs @ ys) = in_window now ys"
  using assms by (simp add: in_window_def filter_False not_less)

lemma ordered_prefix:
  assumes "duty_ordered now (xs @ e # ys)" "x \<in> set xs"
  shows "entry_age now e \<le> entry_age now x"
  using assms by (auto simp: duty_ordered_def sorted_wrt_append)

lemma word_of_small: "0 < r \<Longrightarrow> r \<le> 3600000 \<Longrightarrow> uint (word_of_int r :: u32) = r"
  by (simp add: unsigned_of_int take_bit_int_eq_self)

lemma wait_ms_cases:
  assumes "wait_ms now candidate d = (w, d')" "0 < dc_percent d" "dc_percent d < 100"
    and "duty_ordered now (dc_entries d)"
  obtains (fits) "w = 0"
      "of_nat (total_airtime (dc_entries (prune now d)) + unat candidate) \<le> budget (dc_percent d)"
  | (too_big) "w = kWindowMs" "budget (dc_percent d) < of_nat (unat candidate)"
  | (aging) xs e ys where "dc_entries (prune now d) = xs @ e # ys"
      "of_nat (total_airtime ys + unat candidate) \<le> budget (dc_percent d)"
      "budget (dc_percent d) < of_nat (total_airtime (e # ys) + unat candidate)"
      "uint w = max 0 (3600000 - entry_age now e)" "0 \<le> entry_age now e"
      "\<forall>x \<in> set xs. entry_age now e \<le> entry_age now x"
proof -
  let ?es = "dc_entries (prune now d)" and ?b = "budget (dc_percent d)"
  let ?n = "of_nat (total_airtime ?es + unat candidate) :: rat"
  consider "?n \<le> ?b" "w = 0" | "?b < of_nat (unat candidate)" "w = kWindowMs"
    | "?b < ?n" "of_nat (unat candidate) \<le> ?b" "release_wait now (?n - ?b) 0 ?es = w"
    using assms(1-3) unfolding wait_ms_def Let_def by (auto split: if_splits)
  then show ?thesis
  proof cases
    case 3
    obtain xs e ys where es: "?es = xs @ e # ys" "?n - ?b \<le> of_nat (0 + total_airtime (xs @ [e]))"
      "of_nat (0 + total_airtime xs) < ?n - ?b"
      "release_wait now (?n - ?b) 0 ?es =
        (if 3600000 - entry_age now e > 0 then word_of_int (3600000 - entry_age now e) else 0)"
      by (rule release_wait_split [of 0 "?n - ?b" ?es now]) (use 3 in auto)
    have ord: "duty_ordered now (xs @ e # ys)"
      using prune_ordered [OF assms(4)] es(1) by simp
    then have age: "0 \<le> entry_age now e"
      by (simp add: duty_ordered_def)
    have "of_nat (total_airtime ys + unat candidate) \<le> ?b"
      "?b < of_nat (total_airtime (e # ys) + unat candidate)"
      using es(1-3) by (simp_all add: algebra_simps)
    moreover have "uint w = max 0 (3600000 - entry_age now e)"
      using es(4) 3(3) age word_of_small [of "3600000 - entry_age now e"] by (simp split: if_splits)
    ultimately show ?thesis
      using aging es(1) age ordered_prefix [OF ord] by blast
  qed (use fits too_big in auto)
qed

text \<open>\<open>0\<close> is answered only when the candidate fits beside what the last hour already spent.\<close>

lemma wait_zero_fits:
  assumes "wait_ms now candidate d = (0, d')" "0 < dc_percent d" "dc_percent d < 100"
    and "duty_ordered now (dc_entries d)"
  shows "of_nat (in_window now (dc_entries d) + unat candidate) \<le> budget (dc_percent d)"
  using assms
proof (cases rule: wait_ms_cases)
  case fits
  have "in_window now (dc_entries d) \<le> total_airtime (dc_entries (prune now d))"
    using in_window_le [of now "dc_entries (prune now d)"] by simp
  then show ?thesis
    using fits(2) by (meson add_right_mono of_nat_mono order_trans)
next
  case too_big
  then show ?thesis
    by (simp add: kWindowMs_def)
next
  case (aging xs e ys)
  then have "\<forall>x \<in> set (xs @ [e]). 3600000 \<le> entry_age now x"
    by auto
  then have "in_window now ((xs @ [e]) @ ys) = in_window now ys"
    by (rule in_window_aged)
  then have "in_window now (dc_entries d) \<le> total_airtime ys"
    using in_window_prune [of now d] in_window_le [of now ys] aging(1) by simp
  then show ?thesis
    using aging(2) by (meson add_right_mono of_nat_mono order_trans)
qed

text \<open>The answer is never more than the window.\<close>

lemma wait_bounded:
  assumes "wait_ms now candidate d = (w, d')" "duty_ordered now (dc_entries d)"
  shows "uint w \<le> 3600000"
proof (cases "0 < dc_percent d \<and> dc_percent d < 100")
  case True
  then show ?thesis
    using wait_ms_cases [OF assms(1) _ _ assms(2)] by (fastforce simp: kWindowMs_def)
next
  case False
  then show ?thesis
    using assms(1) by (auto simp: wait_ms_def)
qed

text \<open>Time passing ages every entry alike, as long as no age reaches half the clock.\<close>

lemma entry_age_later:
  assumes "0 \<le> entry_age now e" "entry_age now e + uint w < 2 ^ 31"
  shows "entry_age (now + w) e = entry_age now e + uint w"
proof -
  let ?x = "now - de_at_ms e"
  have x: "sint ?x = uint ?x"
    using assms(1) by (simp add: entry_age_def sdiff_def sint_u32_nonneg)
  have "uint (?x + w) = uint ?x + uint w"
    using assms(2) x by (simp add: entry_age_def sdiff_def uint_plus_if')
  moreover have "sint (?x + w) = int (unat (?x + w))"
    using assms(2) x calculation(1)
    by (intro sint_u32_small) (simp add: entry_age_def sdiff_def unat_eq_nat_uint)
  moreover have later: "now + w - de_at_ms e = ?x + w"
    by simp
  ultimately show ?thesis
    unfolding entry_age_def sdiff_def later using x by simp
qed

lemma duty_ordered_later:
  assumes "duty_ordered now es" "\<forall>e \<in> set es. entry_age now e + uint w < 2 ^ 31"
  shows "duty_ordered (now + w) es"
proof -
  have "entry_age (now + w) e = entry_age now e + uint w" if "e \<in> set es" for e
    using assms that by (intro entry_age_later) (auto simp: duty_ordered_def list_all_iff)
  moreover have "sorted_wrt (\<lambda>a b. entry_age now b \<le> entry_age now a) es"
    using assms(1) by (simp add: duty_ordered_def)
  ultimately show ?thesis
    using assms(1)
    by (auto simp: duty_ordered_def list_all_iff elim!: sorted_wrt_mono_rel [rotated])
qed

lemma wait_ms_state: "snd (wait_ms now candidate d) = (if 0 < dc_percent d \<and> dc_percent d < 100 then prune now d else d)"
  by (simp add: wait_ms_def Let_def)

lemma pruned_ages:
  assumes "e \<in> set (dc_entries (prune now d))"
  shows "entry_age now e \<le> 3600000"
  using assms by (simp add: prune_def)

lemma pruned_later:
  assumes "duty_ordered now (dc_entries d)" "uint w \<le> 3600000" "e \<in> set (dc_entries (prune now d))"
  shows "entry_age (now + w) e = entry_age now e + uint w"
  using assms pruned_ages [OF assms(3)]
  by (intro entry_age_later) (auto simp: duty_ordered_def list_all_iff prune_def)

lemma pruned_ordered_later:
  assumes "duty_ordered now (dc_entries d)" "uint w \<le> 3600000"
  shows "duty_ordered (now + w) (dc_entries (prune now d))"
proof (rule duty_ordered_later [OF prune_ordered [OF assms(1)]], intro ballI)
  fix e
  assume "e \<in> set (dc_entries (prune now d))"
  then show "entry_age now e + uint w < 2 ^ 31"
    using pruned_ages [of e now d] assms(2) by simp
qed

lemma in_window_append: "in_window now (xs @ ys) = in_window now xs + in_window now ys"
  by (simp add: in_window_def)

text \<open>Entries before which nothing in the window is left over are themselves out of it.\<close>

lemma release_entry_aged:
  assumes "duty_ordered t (xs' @ e' # ys')" "in_window t (xs' @ e' # ys') \<le> total_airtime ys"
    and "total_airtime ys < total_airtime (e' # ys')"
  shows "3600000 \<le> entry_age t e'"
proof (rule ccontr)
  assume "\<not> 3600000 \<le> entry_age t e'"
  then have "\<forall>x \<in> set (e' # ys'). entry_age t x < 3600000"
    using assms(1) by (auto simp: duty_ordered_def sorted_wrt_append)
  then have "in_window t (e' # ys') = total_airtime (e' # ys')"
    unfolding in_window_def by (subst filter_True) auto
  then show False
    using assms(2,3) by (simp add: in_window_append)
qed

lemma airtime_over_budget:
  assumes "of_nat (x + c) \<le> (b :: rat)" "b < of_nat (y + c)"
  shows "(x :: nat) < y"
proof -
  have "(of_nat (x + c) :: rat) < of_nat (y + c)"
    using assms by (rule order.strict_trans1)
  then show ?thesis
    by (simp only: of_nat_less_iff add_less_cancel_right)
qed

text \<open>
  Waiting as long as it says is enough: a candidate that fits the budget at all is let
  through at the end of the wait.
\<close>

lemma wait_is_enough:
  assumes "wait_ms now candidate d = (w, d')" "0 < dc_percent d" "dc_percent d < 100"
    and "duty_ordered now (dc_entries d)"
    and "of_nat (unat candidate) \<le> budget (dc_percent d)"
  shows "fst (wait_ms (now + w) candidate d') = 0"
proof -
  have d': "d' = prune now d"
    using wait_ms_state [of now candidate d] assms(1-3) by simp
  have pct: "dc_percent d' = dc_percent d"
    by (simp add: d' prune_def)
  have w: "uint w \<le> 3600000"
    using wait_bounded [OF assms(1,4)] .
  have ord: "duty_ordered (now + w) (dc_entries d')"
    unfolding d' using pruned_ordered_later [OF assms(4) w] .
  obtain w2 d2 where w2: "wait_ms (now + w) candidate d' = (w2, d2)"
    by fastforce
  show ?thesis
    using w2 assms(2,3) [folded pct] ord
  proof (cases rule: wait_ms_cases)
    case fits
    then show ?thesis
      using w2 by simp
  next
    case too_big
    then show ?thesis
      using assms(5) pct by simp
  next
    case second: (aging xs' e' ys')
    show ?thesis
      using assms(1-4)
    proof (cases rule: wait_ms_cases)
      case fits
      have "total_airtime (dc_entries (prune (now + w) d')) \<le> total_airtime (dc_entries d')"
        by (simp add: prune_def total_airtime_def sum_list_filter_le)
      moreover have "total_airtime (dc_entries (prune now d)) < total_airtime (e' # ys')"
        by (rule airtime_over_budget [OF fits(2) second(3) [unfolded pct]])
      ultimately show ?thesis
        using second(1) d' by simp
    next
      case too_big
      then show ?thesis
        using assms(5) by simp
    next
      case (aging xs e ys)
      have aged: "\<forall>x \<in> set (xs @ [e]). 3600000 \<le> entry_age (now + w) x"
        using aging pruned_later [OF assms(4) w] by fastforce
      have "in_window (now + w) (dc_entries d') = in_window (now + w) ((xs @ [e]) @ ys)"
        by (simp add: d' aging(1))
      also have "\<dots> = in_window (now + w) ys"
        using aged by (rule in_window_aged)
      finally have le: "in_window (now + w) (dc_entries (prune (now + w) d')) \<le> total_airtime ys"
        using in_window_le [of "now + w" ys] by simp
      have "3600000 \<le> entry_age (now + w) e'"
      proof (rule release_entry_aged)
        show "duty_ordered (now + w) (xs' @ e' # ys')" using prune_ordered [OF ord] second(1) by simp
        show "in_window (now + w) (xs' @ e' # ys') \<le> total_airtime ys" using le second(1) by simp
        show "total_airtime ys < total_airtime (e' # ys')"
          by (rule airtime_over_budget [OF aging(2) second(3) [unfolded pct]])
      qed
      then show ?thesis
        using second(4) w2 by (simp add: uint_0_iff)
    qed
  qed
qed

text \<open>
  And the budget holds afterwards: once the packet let through is on record, the last hour
  is within the percentage.
\<close>

lemma in_window_shrinks:
  assumes "duty_ordered now (dc_entries d)" "uint dt \<le> 3600000"
  shows "in_window (now + dt) (dc_entries (prune now d)) \<le> in_window now (dc_entries (prune now d))"
proof -
  let ?es = "dc_entries (prune now d)"
  have "entry_age now e < 3600000" if "e \<in> set ?es" "entry_age (now + dt) e < 3600000" for e
    using pruned_later [OF assms that(1)] that(2) uint_ge_0 [of dt] by linarith
  then have "filter (\<lambda>e. entry_age (now + dt) e < 3600000) ?es =
      filter (\<lambda>e. entry_age (now + dt) e < 3600000) (filter (\<lambda>e. entry_age now e < 3600000) ?es)"
    by (auto intro!: filter_cong)
  then show ?thesis
    unfolding in_window_def window_value total_airtime_def by (metis sum_list_filter_le)
qed

lemma recorded_within_budget:
  assumes "wait_ms now candidate d = (0, d')" "0 < dc_percent d" "dc_percent d < 100"
    and "duty_ordered now (dc_entries d)" "unat airtime \<le> unat candidate" "uint dt \<le> 3600000"
  shows "of_nat (in_window (now + dt) (dc_entries (duty_record (now + dt) airtime d'))) \<le>
    budget (dc_percent d)"
proof -
  have d': "d' = prune now d"
    using wait_ms_state [of now candidate d] assms(1-3) by simp
  have "in_window (now + dt) (dc_entries (duty_record (now + dt) airtime d')) =
      in_window (now + dt) (dc_entries d') + unat airtime"
    using in_window_prune [of "now + dt" d']
    by (simp add: duty_record_def in_window_append Let_def) (simp add: in_window_def entry_age_def)
  also have "\<dots> \<le> in_window now (dc_entries d) + unat candidate"
    using in_window_shrinks [OF assms(4,6)] assms(5) by (simp add: d')
  finally show ?thesis
    using wait_zero_fits [OF assms(1-4)] by (meson of_nat_mono order_trans)
qed

lemma duty_record_ordered:
  assumes "duty_ordered now (dc_entries d)" 
  shows "duty_ordered now (dc_entries (duty_record now airtime d))"
  using prune_ordered [OF assms]
  by (auto simp: duty_record_def Let_def duty_ordered_def sorted_wrt_append entry_age_def list_all_iff)

section \<open>Properties\<close>





text \<open>
  The age of a recorded transmission is a signed 32-bit difference, so one that was never
  pruned reads as lying in the future between \<open>2\<^sup>31\<close> and \<open>2\<^sup>32\<close> milliseconds after it was made
  (24.9 to 49.7 days), is not pruned then either, and holds new transmissions back again.
\<close>

theorem stale_airtime_counts_again:
  assumes "2 ^ 31 \<le> unat dt" "d = \<lparr>dc_percent = pct, dc_entries = [\<lparr>de_at_ms = t, de_airtime_ms = a\<rparr>]\<rparr>"
  shows "prune (t + dt) d = d \<and> fst (used_pct (t + dt) d) = 100 * of_nat (unat a) / 3600000"
proof -
  have "sint dt < 0"
  proof (rule ccontr)
    assume "\<not> sint dt < 0"
    then have "sint dt = int (unat dt)" using sint_u32_nonneg [of dt] by (simp only: not_less uint_nat)
    then show False using of_nat_mono [OF assms(1), where ?'a = int] sint_lt [of dt] by simp
  qed
  then have "prune (t + dt) d = d"
    by (simp add: assms(2) prune_def entry_age_def sdiff_def)
  then show ?thesis by (simp add: used_pct_def assms(2))
qed

theorem stale_airtime_counts_again_witness:
  "fst (used_pct (7 + 0x80000000) \<lparr>dc_percent = 10, dc_entries = [\<lparr>de_at_ms = 7, de_airtime_ms = 360000\<rparr>]\<rparr>) = 10"
  using stale_airtime_counts_again [OF _ refl, of "0x80000000" 7 10 360000] by simp

section \<open>What a radio promises\<close>

text \<open>
  What the daemon relies on of a radio: \<open>Q\<close> is kept by all three calls, a new configuration takes
  effect as a whole, and nothing else changes the parameters.
\<close>

locale radio_contract =
  fixes ro :: "'r radio_ops" and Q :: "'r \<Rightarrow> bool"
  assumes radio_send_ok: "Q r \<Longrightarrow> Q (snd (radio_send ro raw r)) \<and> params ro (snd (radio_send ro raw r)) = params ro r"
    and radio_listen_ok: "Q r \<Longrightarrow> Q (snd (channel_busy ro r)) \<and> params ro (snd (channel_busy ro r)) = params ro r"
    and radio_reconfigure_ok: "Q r \<Longrightarrow> Q (radio_reconfigure ro p r) \<and> params ro (radio_reconfigure ro p r) = p"

text \<open>A radio for evaluation: always up, with a frequency, recording what it is given.\<close>

definition log_radio :: "bytes list radio_ops" where
  "log_radio = \<lparr>tx_busy = (\<lambda>r. False), ready = (\<lambda>r. True),
     params = (\<lambda>r. default_params\<lparr>rp_freq_mhz := 868\<rparr>), channel_busy = (\<lambda>r. (False, r)),
     radio_send = (\<lambda>raw r. (True, r @ [raw])), radio_reconfigure = (\<lambda>p r. r)\<rparr>"

end
