(* ===== verification/Dispatcher.thy ===== *)
theory Dispatcher
  imports Radio "HOL-Library.Multiset"
begin

text \<open>
  The dispatcher, \<^verbatim>\<open>src/src/mesh/dispatcher.h\<close> and \<^verbatim>\<open>dispatcher.cpp\<close>: deduplication, the priority
  transmit queue, duty-cycle pacing and listen-before-transmit. Its state, the loop and the
  radio are fields of an extensible world record; a component built on the dispatcher adds
  its own fields, and the callbacks it registered are the parameters \<open>h\<close> (transmit result),
  \<open>raw_rx\<close> and \<open>rx\<close>. \<^verbatim>\<open>crypto::random_bytes\<close> draws from the stream \<open>w_random\<close>.
\<close>

section \<open>State\<close>

definition kPriorityAck :: byte where "kPriorityAck = 1"
definition kPriorityResponse :: byte where "kPriorityResponse = 2"
definition kPriorityDirect :: byte where "kPriorityDirect = 3"
definition kPriorityFlood :: byte where "kPriorityFlood = 4"
definition kPriorityRepeat :: byte where "kPriorityRepeat = 5"
definition kPriorityAdvert :: byte where "kPriorityAdvert = 6"

definition kSeenTtlMs :: u32 where "kSeenTtlMs = 60000"
definition kExpiryPerPriorityMs :: u32 where "kExpiryPerPriorityMs = 10000"
definition kJitterMs :: u32 where "kJitterMs = 400"
definition kRfSummaryMs :: u32 where "kRfSummaryMs = 300000"
definition kChannelBusyRetryMs :: u32 where "kChannelBusyRetryMs = 60"
definition kChannelBusyJitterMs :: u32 where "kChannelBusyJitterMs = 60"
definition kChannelBusyMaxMs :: u32 where "kChannelBusyMaxMs = 4000"
definition kRadioDownRecheckMs :: u32 where "kRadioDownRecheckMs = 1000"
definition kDefaultQueueLimit :: nat where "kDefaultQueueLimit = 128"

record DispatcherStats =
  st_rx_total :: u32
  st_rx_dup :: u32
  st_rx_bad :: u32
  st_rx_header_err :: u32
  st_rx_crc_err :: u32
  st_rx_timeout :: u32
  st_rx_flood :: u32
  st_rx_direct :: u32
  st_tx_deferred :: u32
  st_tx_forced :: u32
  st_tx_total :: u32
  st_tx_flood :: u32
  st_tx_direct :: u32
  st_tx_dropped :: u32
  st_airtime_ms :: u64
  st_last_rssi :: int
  st_last_snr :: rat
  st_last_failed_rssi :: int
  st_last_failed_snr :: rat

definition zero_stats :: DispatcherStats where
  "zero_stats = \<lparr>st_rx_total = 0, st_rx_dup = 0, st_rx_bad = 0, st_rx_header_err = 0,
     st_rx_crc_err = 0, st_rx_timeout = 0, st_rx_flood = 0, st_rx_direct = 0, st_tx_deferred = 0,
     st_tx_forced = 0, st_tx_total = 0, st_tx_flood = 0, st_tx_direct = 0, st_tx_dropped = 0,
     st_airtime_ms = 0, st_last_rssi = 0, st_last_snr = 0, st_last_failed_rssi = 0,
     st_last_failed_snr = 0\<rparr>"

text \<open>A queued packet; its result handler is the operation it belongs to, if any.\<close>

record Queued =
  q_packet :: Packet
  q_priority :: byte
  q_expiry_ms :: u32
  q_not_before_ms :: u32
  q_seq :: nat
  q_on_result :: "nat option"

record Dispatcher =
  dp_duty :: DutyCycle
  dp_queue :: "Queued list"
  dp_queue_limit :: nat
  dp_next_seq :: nat
  dp_seen_sweep :: "nat option"
  dp_rf_summary :: "nat option"
  dp_pump_timer :: "nat option"
  dp_pump_due_ms :: u32
  dp_busy_since_ms :: u32
  dp_seen :: "u32 \<Rightarrow> u32 option"
  dp_stats :: DispatcherStats

record 'r dworld =
  w_loop :: loop
  w_radio :: 'r
  w_random :: "nat \<Rightarrow> byte"
  w_disp :: Dispatcher

definition new_dispatcher :: "RadioParams \<Rightarrow> nat \<Rightarrow> Dispatcher" where
  "new_dispatcher p queue_limit =
     \<lparr>dp_duty = \<lparr>dc_percent = rp_duty_cycle_pct p, dc_entries = []\<rparr>, dp_queue = [],
      dp_queue_limit = max queue_limit 1, dp_next_seq = 0, dp_seen_sweep = None,
      dp_rf_summary = None, dp_pump_timer = None, dp_pump_due_ms = 0, dp_busy_since_ms = 0,
      dp_seen = Map.empty, dp_stats = zero_stats\<rparr>"

abbreviation now_ms :: "('r, 'm) dworld_scheme \<Rightarrow> u32" where
  "now_ms w \<equiv> lp_now (w_loop w)"

definition upd_disp ::
  "(Dispatcher \<Rightarrow> Dispatcher) \<Rightarrow> ('r, 'm) dworld_scheme \<Rightarrow> ('r, 'm) dworld_scheme" where
  "upd_disp f w = w\<lparr>w_disp := f (w_disp w)\<rparr>"

definition upd_stats ::
  "(DispatcherStats \<Rightarrow> DispatcherStats) \<Rightarrow> ('r, 'm) dworld_scheme \<Rightarrow> ('r, 'm) dworld_scheme" where
  "upd_stats f w = upd_disp (\<lambda>d. d\<lparr>dp_stats := f (dp_stats d)\<rparr>) w"

definition draw_byte :: "('r, 'm) dworld_scheme \<Rightarrow> byte \<times> ('r, 'm) dworld_scheme" where
  "draw_byte w = (w_random w 0, w\<lparr>w_random := (\<lambda>i. w_random w (Suc i))\<rparr>)"

section \<open>Deduplication\<close>

definition pack_hash :: "bytes \<Rightarrow> u32" where
  "pack_hash h =
     fold (\<lambda>i v. v OR push_bit (i * 8) (ucast (h ! i))) [0..<min 4 (length h)] 0"

definition mark_seen :: "u32 \<Rightarrow> u32 \<Rightarrow> Dispatcher \<Rightarrow> bool \<times> Dispatcher" where
  "mark_seen now key d =
    (let d' = d\<lparr>dp_seen := (dp_seen d)(key \<mapsto> now + kSeenTtlMs)\<rparr>
     in case dp_seen d key of
          Some expiry \<Rightarrow> (sdiff expiry now > 0, d')
        | None \<Rightarrow> (False, d'))"

definition check_and_mark_seen ::
  "crypto_ops \<Rightarrow> Packet \<Rightarrow> ('r, 'm) dworld_scheme \<Rightarrow> bool \<times> ('r, 'm) dworld_scheme" where
  "check_and_mark_seen cr p w =
     (case mark_seen (now_ms w) (pack_hash (dedup_hash cr p)) (w_disp w) of
        (seen, d) \<Rightarrow> (seen, w\<lparr>w_disp := d\<rparr>))"

definition sweep_seen :: "u32 \<Rightarrow> Dispatcher \<Rightarrow> Dispatcher" where
  "sweep_seen now d = d\<lparr>dp_seen := (\<lambda>k. case dp_seen d k of
         None \<Rightarrow> None
       | Some e \<Rightarrow> if sdiff e now \<le> 0 then None else Some e)\<rparr>"

definition expire_seen :: "('r, 'm) dworld_scheme \<Rightarrow> ('r, 'm) dworld_scheme" where
  "expire_seen w = upd_disp (sweep_seen (now_ms w)) w"

section \<open>The transmit queue\<close>

definition queued_less :: "Queued \<Rightarrow> Queued \<Rightarrow> bool" where
  "queued_less a b =
     (if q_priority a \<noteq> q_priority b then q_priority a < q_priority b
      else if q_expiry_ms a \<noteq> q_expiry_ms b then sdiff (q_expiry_ms a) (q_expiry_ms b) < 0
      else q_seq a < q_seq b)"

text \<open>\<^verbatim>\<open>std::upper_bound\<close>: the halving search over \<open>len\<close> elements from \<open>first\<close>.\<close>

function upper_bound :: "('a \<Rightarrow> 'a \<Rightarrow> bool) \<Rightarrow> 'a list \<Rightarrow> 'a \<Rightarrow> nat \<Rightarrow> nat \<Rightarrow> nat" where
  "upper_bound lt xs v first len =
     (if len = 0 then first
      else let half = len div 2; middle = first + half
           in if lt v (xs ! middle) then upper_bound lt xs v first half
              else upper_bound lt xs v (middle + 1) (len - half - 1))"
  by pat_completeness auto
termination
  by (relation "measure (\<lambda>(lt, xs, v, first, len). len)") auto

declare upper_bound.simps [simp del]

definition queue_insert :: "Queued \<Rightarrow> Queued list \<Rightarrow> Queued list" where
  "queue_insert q qs =
    (let pos = upper_bound queued_less qs q 0 (length qs) in take pos qs @ q # drop pos qs)"

text \<open>The least urgent entry, the oldest of those; what overflow discards.\<close>

definition victim_index :: "Queued list \<Rightarrow> nat" where
  "victim_index qs =
     fold (\<lambda>i victim.
         if q_priority (qs ! i) > q_priority (qs ! victim) \<or>
            q_priority (qs ! i) = q_priority (qs ! victim) \<and> q_seq (qs ! i) < q_seq (qs ! victim)
         then i else victim)
       [1..<length qs] 0"

definition notify ::
  "(nat \<Rightarrow> bool \<Rightarrow> ('r, 'm) dworld_scheme \<Rightarrow> ('r, 'm) dworld_scheme) \<Rightarrow> Queued \<Rightarrow> bool \<Rightarrow>
    ('r, 'm) dworld_scheme \<Rightarrow> ('r, 'm) dworld_scheme" where
  "notify h q transmitted w =
     (case q_on_result q of None \<Rightarrow> w | Some op_id \<Rightarrow> h op_id transmitted w)"

definition schedule_pump :: "u32 \<Rightarrow> ('r, 'm) dworld_scheme \<Rightarrow> ('r, 'm) dworld_scheme" where
  "schedule_pump delay_ms w =
    (let due = now_ms w + delay_ms; d = w_disp w
     in if dp_pump_timer d \<noteq> None \<and> sdiff due (dp_pump_due_ms d) \<ge> 0 then w
        else case add_timer delay_ms CbPump (w_loop w) of
               (t, lp) \<Rightarrow> w\<lparr>w_loop := reset_timer (dp_pump_timer d) lp,
                             w_disp := d\<lparr>dp_pump_due_ms := due, dp_pump_timer := Some t\<rparr>\<rparr>)"

text \<open>Dropping what expired at the front of the queue.\<close>

fun drop_expired ::
  "(nat \<Rightarrow> bool \<Rightarrow> ('r, 'm) dworld_scheme \<Rightarrow> ('r, 'm) dworld_scheme) \<Rightarrow> u32 \<Rightarrow> nat \<Rightarrow>
    ('r, 'm) dworld_scheme \<Rightarrow> ('r, 'm) dworld_scheme" where
  "drop_expired h now 0 w = w"
| "drop_expired h now (Suc n) w =
     (case dp_queue (w_disp w) of
        [] \<Rightarrow> w
      | q # qs \<Rightarrow>
          if sdiff (q_expiry_ms q) now \<le> 0
          then drop_expired h now n
                 (notify h q False
                   (upd_stats (\<lambda>s. s\<lparr>st_tx_dropped := st_tx_dropped s + 1\<rparr>)
                     (upd_disp (\<lambda>d. d\<lparr>dp_queue := qs\<rparr>) w)))
          else w)"

definition eligible_index :: "u32 \<Rightarrow> Queued list \<Rightarrow> nat option" where
  "eligible_index now qs = index_where (\<lambda>q. sdiff (q_not_before_ms q) now \<le> 0) qs"

definition soonest_ms :: "u32 \<Rightarrow> Queued list \<Rightarrow> int" where
  "soonest_ms now qs = fold min (map (\<lambda>q. sdiff (q_not_before_ms q) now) qs)
     (sdiff (q_not_before_ms (hd qs)) now)"

text \<open>
  Handing the selected entry to the radio, once the budget and the channel allow it. The
  result says whether \<^verbatim>\<open>pump()\<close> has to be entered again.
\<close>

definition transmit ::
  "'r radio_ops \<Rightarrow> (nat \<Rightarrow> bool \<Rightarrow> ('r, 'm) dworld_scheme \<Rightarrow> ('r, 'm) dworld_scheme) \<Rightarrow> nat \<Rightarrow> bytes \<Rightarrow>
    ('r, 'm) dworld_scheme \<Rightarrow> bool \<times> ('r, 'm) dworld_scheme" where
  "transmit ro h i raw w =
    (let qs = dp_queue (w_disp w);
         q = qs ! i;
         w1 = upd_disp (\<lambda>d. d\<lparr>dp_busy_since_ms := 0, dp_queue := remove_at i qs\<rparr>) w
     in if length raw > kMaxPacketSize
        then (True, notify h q False (upd_stats (\<lambda>s. s\<lparr>st_tx_dropped := st_tx_dropped s + 1\<rparr>) w1))
        else case radio_send ro raw (w_radio w1) of
          (False, r) \<Rightarrow>
            (False, schedule_pump 20
               (upd_disp (\<lambda>d. d\<lparr>dp_queue := q # dp_queue d\<rparr>) (w1\<lparr>w_radio := r\<rparr>)))
        | (True, r) \<Rightarrow>
            (False, notify h q True
               (upd_stats (\<lambda>s. let s1 = s\<lparr>st_tx_total := st_tx_total s + 1\<rparr>
                    in if is_flood (q_packet q) then s1\<lparr>st_tx_flood := st_tx_flood s1 + 1\<rparr>
                       else s1\<lparr>st_tx_direct := st_tx_direct s1 + 1\<rparr>)
                 (w1\<lparr>w_radio := r\<rparr>))))"

text \<open>
  Listening first: a busy channel defers the transmission until it has been busy for
  \<^verbatim>\<open>kChannelBusyMaxMs\<close>.
\<close>

definition listen_then_transmit ::
  "'r radio_ops \<Rightarrow> (nat \<Rightarrow> bool \<Rightarrow> ('r, 'm) dworld_scheme \<Rightarrow> ('r, 'm) dworld_scheme) \<Rightarrow> nat \<Rightarrow> bytes \<Rightarrow>
    ('r, 'm) dworld_scheme \<Rightarrow> bool \<times> ('r, 'm) dworld_scheme" where
  "listen_then_transmit ro h i raw w =
    (let now = now_ms w
     in case channel_busy ro (w_radio w) of (busy, r) \<Rightarrow>
          let w1 = w\<lparr>w_radio := r\<rparr>
          in if \<not> busy then transmit ro h i raw w1
             else
               let since = (if dp_busy_since_ms (w_disp w1) = 0 then now
                            else dp_busy_since_ms (w_disp w1));
                   w2 = upd_disp (\<lambda>d. d\<lparr>dp_busy_since_ms := since\<rparr>) w1
               in if now - since < kChannelBusyMaxMs
                  then case draw_byte (upd_stats (\<lambda>s. s\<lparr>st_tx_deferred := st_tx_deferred s + 1\<rparr>) w2) of
                         (b, w3) \<Rightarrow>
                           (False, schedule_pump (kChannelBusyRetryMs + ucast b mod kChannelBusyJitterMs) w3)
                  else transmit ro h i raw
                         (upd_stats (\<lambda>s. s\<lparr>st_tx_forced := st_tx_forced s + 1\<rparr>) w2))"

definition pump_step ::
  "'r radio_ops \<Rightarrow> (nat \<Rightarrow> bool \<Rightarrow> ('r, 'm) dworld_scheme \<Rightarrow> ('r, 'm) dworld_scheme) \<Rightarrow>
    ('r, 'm) dworld_scheme \<Rightarrow> bool \<times> ('r, 'm) dworld_scheme" where
  "pump_step ro h w =
    (if dp_queue (w_disp w) = [] then (False, w)
     else if tx_busy ro (w_radio w) then (False, w)
     else
       let now = now_ms w;
           w1 = drop_expired h now (length (dp_queue (w_disp w))) w;
           qs = dp_queue (w_disp w1)
       in if qs = [] then (False, w1)
          else if \<not> ready ro (w_radio w1) \<or> \<not> has_frequency (params ro (w_radio w1))
          then (False, schedule_pump kRadioDownRecheckMs w1)
          else case eligible_index now qs of
                 None \<Rightarrow>
                   let soonest = soonest_ms now qs
                   in (False, schedule_pump (if soonest > 0 then word_of_int soonest else 1) w1)
               | Some i \<Rightarrow>
                   let raw = packet_encode (q_packet (qs ! i));
                       candidate = airtime_ms (params ro (w_radio w1)) (length raw)
                   in case wait_ms now candidate (dp_duty (w_disp w1)) of (wait, duty) \<Rightarrow>
                        let w2 = upd_disp (\<lambda>d. d\<lparr>dp_duty := duty\<rparr>) w1
                        in if wait > 0
                           then (False, schedule_pump (min wait 30000)
                                   (upd_disp (\<lambda>d. d\<lparr>dp_duty := snd (used_pct now (dp_duty d))\<rparr>) w2))
                           else listen_then_transmit ro h i raw w2)"

text \<open>
  \<^verbatim>\<open>pump()\<close> enters itself again only after discarding an oversized packet, so as many rounds
  as there are packets are enough.
\<close>

fun pump_rounds ::
  "'r radio_ops \<Rightarrow> (nat \<Rightarrow> bool \<Rightarrow> ('r, 'm) dworld_scheme \<Rightarrow> ('r, 'm) dworld_scheme) \<Rightarrow> nat \<Rightarrow>
    ('r, 'm) dworld_scheme \<Rightarrow> ('r, 'm) dworld_scheme" where
  "pump_rounds ro h 0 w = w"
| "pump_rounds ro h (Suc n) w =
     (case pump_step ro h w of (again, w') \<Rightarrow> if again then pump_rounds ro h n w' else w')"

definition pump ::
  "'r radio_ops \<Rightarrow> (nat \<Rightarrow> bool \<Rightarrow> ('r, 'm) dworld_scheme \<Rightarrow> ('r, 'm) dworld_scheme) \<Rightarrow>
    ('r, 'm) dworld_scheme \<Rightarrow> ('r, 'm) dworld_scheme" where
  "pump ro h w = pump_rounds ro h (Suc (length (dp_queue (w_disp w)))) w"

text \<open>What the timer of \<^verbatim>\<open>schedule_pump\<close> runs.\<close>

definition on_pump_timer ::
  "'r radio_ops \<Rightarrow> (nat \<Rightarrow> bool \<Rightarrow> ('r, 'm) dworld_scheme \<Rightarrow> ('r, 'm) dworld_scheme) \<Rightarrow>
    ('r, 'm) dworld_scheme \<Rightarrow> ('r, 'm) dworld_scheme" where
  "on_pump_timer ro h w =
    (let d = w_disp w
     in pump ro h (w\<lparr>w_loop := reset_timer (dp_pump_timer d) (w_loop w),
                     w_disp := d\<lparr>dp_pump_timer := None, dp_pump_due_ms := 0\<rparr>\<rparr>))"

section \<open>Sending\<close>

definition drop_overflow ::
  "(nat \<Rightarrow> bool \<Rightarrow> ('r, 'm) dworld_scheme \<Rightarrow> ('r, 'm) dworld_scheme) \<Rightarrow>
    ('r, 'm) dworld_scheme \<Rightarrow> ('r, 'm) dworld_scheme" where
  "drop_overflow h w =
    (let qs = dp_queue (w_disp w)
     in if length qs > dp_queue_limit (w_disp w) then
          let v = victim_index qs
          in notify h (qs ! v) False
               (upd_stats (\<lambda>s. s\<lparr>st_tx_dropped := st_tx_dropped s + 1\<rparr>)
                 (upd_disp (\<lambda>d. d\<lparr>dp_queue := remove_at v qs\<rparr>) w))
        else w)"

definition enqueue ::
  "Packet \<Rightarrow> byte \<Rightarrow> u32 \<Rightarrow> nat option \<Rightarrow> ('r, 'm) dworld_scheme \<Rightarrow> ('r, 'm) dworld_scheme" where
  "enqueue p priority delay_ms on_result w =
    (let now = now_ms w
     in upd_disp (\<lambda>d.
          let q = \<lparr>q_packet = p, q_priority = priority,
                   q_expiry_ms = now + kExpiryPerPriorityMs * ucast priority,
                   q_not_before_ms = now + delay_ms, q_seq = dp_next_seq d,
                   q_on_result = on_result\<rparr>
          in d\<lparr>dp_next_seq := dp_next_seq d + 1, dp_queue := queue_insert q (dp_queue d)\<rparr>) w)"

definition disp_send ::
  "crypto_ops \<Rightarrow> 'r radio_ops \<Rightarrow>
    (nat \<Rightarrow> bool \<Rightarrow> ('r, 'm) dworld_scheme \<Rightarrow> ('r, 'm) dworld_scheme) \<Rightarrow> Packet \<Rightarrow> byte \<Rightarrow> u32 \<Rightarrow>
    nat option \<Rightarrow> ('r, 'm) dworld_scheme \<Rightarrow> bool \<times> ('r, 'm) dworld_scheme" where
  "disp_send cr ro h p priority delay_ms on_result w =
    (if \<not> packet_valid p
     then (False, upd_stats (\<lambda>s. s\<lparr>st_tx_dropped := st_tx_dropped s + 1\<rparr>) w)
     else
       let w1 = snd (check_and_mark_seen cr p w);
           w2 = enqueue p priority delay_ms on_result w1;
           w3 = drop_overflow h w2
       in (True, pump ro h w3))"

definition disp_reconfigure ::
  "'r radio_ops \<Rightarrow> (nat \<Rightarrow> bool \<Rightarrow> ('r, 'm) dworld_scheme \<Rightarrow> ('r, 'm) dworld_scheme) \<Rightarrow> RadioParams \<Rightarrow>
    ('r, 'm) dworld_scheme \<Rightarrow> ('r, 'm) dworld_scheme" where
  "disp_reconfigure ro h p w =
    (let w1 = upd_disp (\<lambda>d. d\<lparr>dp_duty := duty_set_percent (rp_duty_cycle_pct p) (dp_duty d)\<rparr>) w;
         w2 = (if p \<noteq> params ro (w_radio w1)
               then w1\<lparr>w_radio := radio_reconfigure ro p (w_radio w1)\<rparr> else w1)
     in pump ro h w2)"

section \<open>Radio events\<close>

definition disp_start ::
  "('r \<Rightarrow> bool \<times> 'r) \<Rightarrow> ('r, 'm) dworld_scheme \<Rightarrow> bool \<times> ('r, 'm) dworld_scheme" where
  "disp_start radio_begin w =
     (case radio_begin (w_radio w) of
        (False, r) \<Rightarrow> (False, w\<lparr>w_radio := r\<rparr>)
      | (True, r) \<Rightarrow>
          (case add_repeating kSeenTtlMs CbSeenSweep (w_loop w) of (t1, lp1) \<Rightarrow>
           case add_repeating kRfSummaryMs CbRfSummary (reset_timer (dp_seen_sweep (w_disp w)) lp1) of
             (t2, lp2) \<Rightarrow>
               (True, w\<lparr>w_radio := r, w_loop := reset_timer (dp_rf_summary (w_disp w)) lp2,
                  w_disp := (w_disp w)\<lparr>dp_seen_sweep := Some t1, dp_rf_summary := Some t2\<rparr>\<rparr>)))"

definition on_radio_rx_error :: "RxFailure \<Rightarrow> ('r, 'm) dworld_scheme \<Rightarrow> ('r, 'm) dworld_scheme" where
  "on_radio_rx_error f w =
    (let w1 = upd_stats (\<lambda>s. case rf_error f of
                HeaderError \<Rightarrow> s\<lparr>st_rx_header_err := st_rx_header_err s + 1\<rparr>
              | CrcError \<Rightarrow> s\<lparr>st_rx_crc_err := st_rx_crc_err s + 1\<rparr>
              | Timeout \<Rightarrow> s\<lparr>st_rx_timeout := st_rx_timeout s + 1\<rparr>) w
     in if rf_has_signal f
        then upd_stats (\<lambda>s. s\<lparr>st_last_failed_rssi := rf_rssi f, st_last_failed_snr := rf_snr f\<rparr>) w1
        else w1)"

definition on_radio_rx ::
  "crypto_ops \<Rightarrow> (Packet \<Rightarrow> bytes \<Rightarrow> ('r, 'm) dworld_scheme \<Rightarrow> ('r, 'm) dworld_scheme) \<Rightarrow>
    (Packet \<Rightarrow> ('r, 'm) dworld_scheme \<Rightarrow> ('r, 'm) dworld_scheme) \<Rightarrow> RxPacket \<Rightarrow>
    ('r, 'm) dworld_scheme \<Rightarrow> ('r, 'm) dworld_scheme" where
  "on_radio_rx cr raw_rx rx r w =
    (let w1 = upd_stats (\<lambda>s. s\<lparr>st_rx_total := st_rx_total s + 1, st_last_rssi := rx_rssi r,
                               st_last_snr := rx_snr r\<rparr>) w
     in case packet_decode (rx_data r) of
          None \<Rightarrow> upd_stats (\<lambda>s. s\<lparr>st_rx_bad := st_rx_bad s + 1\<rparr>) w1
        | Some p0 \<Rightarrow>
            let p = p0\<lparr>rssi := rx_rssi r, snr := rx_snr r, rx_millis := rx_at r\<rparr>;
                w2 = upd_stats (\<lambda>s. if is_flood p then s\<lparr>st_rx_flood := st_rx_flood s + 1\<rparr>
                                    else s\<lparr>st_rx_direct := st_rx_direct s + 1\<rparr>) w1;
                w3 = raw_rx p (rx_data r) w2
            in case check_and_mark_seen cr p w3 of
                 (True, w4) \<Rightarrow> upd_stats (\<lambda>s. s\<lparr>st_rx_dup := st_rx_dup s + 1\<rparr>) w4
               | (False, w4) \<Rightarrow> rx p w4)"

definition on_radio_tx_done :: "u32 \<Rightarrow> ('r, 'm) dworld_scheme \<Rightarrow> ('r, 'm) dworld_scheme" where
  "on_radio_tx_done airtime w =
    (let w1 = upd_stats (\<lambda>s. s\<lparr>st_airtime_ms := st_airtime_ms s + ucast airtime\<rparr>) w;
         w2 = upd_disp (\<lambda>d. d\<lparr>dp_duty := duty_record (now_ms w1) airtime (dp_duty d)\<rparr>) w1
     in case draw_byte w2 of
          (b, w3) \<Rightarrow> schedule_pump (1 + ucast b * kJitterMs div 255) w3)"

section \<open>Tables of recent keys\<close>

text \<open>
  The contract of a table that remembers a key for \<open>ttl\<close> milliseconds after it was last
  marked; the dispatcher and the node's message deduplication both keep one.
\<close>

locale ttl_table =
  fixes wf :: "'s \<Rightarrow> bool"
    and look :: "'s \<Rightarrow> 'k \<Rightarrow> u32 option"
    and mark :: "u32 \<Rightarrow> 'k \<Rightarrow> 's \<Rightarrow> bool \<times> 's"
    and sweep :: "u32 \<Rightarrow> 's \<Rightarrow> 's"
    and ttl :: u32
  assumes mark_wf: "wf s \<Longrightarrow> wf (snd (mark now k s))"
    and sweep_wf: "wf s \<Longrightarrow> wf (sweep now s)"
    and mark_seen: "wf s \<Longrightarrow> fst (mark now k s) \<longleftrightarrow> (\<exists>e. look s k = Some e \<and> sdiff e now > 0)"
    and mark_look: "wf s \<Longrightarrow> look (snd (mark now k s)) k = Some (now + ttl)"
    and sweep_look: "wf s \<Longrightarrow> look (sweep now s) k =
      (case look s k of None \<Rightarrow> None | Some e \<Rightarrow> if sdiff e now \<le> 0 then None else Some e)"
    and ttl_range: "unat ttl < 2 ^ 31"
begin

lemma marked_remaining:
  assumes "unat dt \<le> unat ttl"
  shows "sdiff (now + ttl) (now + dt) = int (unat ttl) - int (unat dt)"
  using sdiff_after [OF assms ttl_range] .

lemma repeat_suppressed:
  assumes "wf s" "unat dt < unat ttl"
  shows "fst (mark (now + dt) k (snd (mark now k s)))"
proof -
  have "sdiff (now + ttl) (now + dt) > 0"
    unfolding marked_remaining [OF less_imp_le [OF assms(2)]] using assms(2) by linarith
  then show ?thesis
    using assms(1) by (simp add: mark_seen mark_wf mark_look)
qed

lemma forgotten_at_ttl: "wf s \<Longrightarrow> \<not> fst (mark (now + ttl) k (snd (mark now k s)))"
  using marked_remaining [of ttl now] by (simp add: mark_seen mark_wf mark_look)

lemma sweep_invisible: "wf s \<Longrightarrow> fst (mark now k (sweep now s)) = fst (mark now k s)"
  by (auto simp: mark_seen sweep_wf sweep_look split: option.splits)

lemma sweep_drops_stale: "wf s \<Longrightarrow> look (sweep now s) k = Some e \<Longrightarrow> sdiff e now > 0"
  by (auto simp: sweep_look split: option.splits if_splits)

end

interpretation seen: ttl_table "\<lambda>d. True" dp_seen mark_seen sweep_seen kSeenTtlMs
  by unfold_locales
    (auto simp: mark_seen_def sweep_seen_def kSeenTtlMs_def Let_def split: option.splits)

section \<open>Where a packet goes in the queue\<close>

lemma upper_bound_partition:
  assumes "\<And>i. i < length xs \<Longrightarrow> lt v (xs ! i) \<longleftrightarrow> k \<le> i"
    and "first \<le> k" "k \<le> first + len" "first + len \<le> length xs"
  shows "upper_bound lt xs v first len = k"
  using assms(2-4)
proof (induction len arbitrary: first rule: less_induct)
  case (less len)
  show ?case
  proof (cases "len = 0")
    case True
    then show ?thesis
      using less.prems by (simp add: upper_bound.simps)
  next
    case False
    let ?half = "len div 2"
    have mid: "lt v (xs ! (first + ?half)) \<longleftrightarrow> k \<le> first + ?half"
      using assms(1) less.prems False by simp
    show ?thesis
    proof (cases "k \<le> first + ?half")
      case True
      then show ?thesis
        using less.IH [of ?half first] less.prems False mid
        by (subst upper_bound.simps) (simp add: Let_def)
    next
      case right: False
      then show ?thesis
        using less.IH [of "len - ?half - 1" "first + ?half + 1"] less.prems False mid
        by (subst upper_bound.simps) (simp add: Let_def)
    qed
  qed
qed

text \<open>
  The order packets leave in: by priority, then in the order they were queued. An entry is
  aged at \<open>now\<close> when it was queued no later than \<open>now\<close>, on a clock that has not run half
  round since.
\<close>

definition before :: "Queued \<Rightarrow> Queued \<Rightarrow> bool" where
  "before a b \<longleftrightarrow> q_priority a < q_priority b \<or> q_priority a = q_priority b \<and> q_seq a < q_seq b"

definition aged :: "u32 \<Rightarrow> Queued \<Rightarrow> bool" where
  "aged now q \<longleftrightarrow> 0 \<le> sdiff now (q_expiry_ms q - kExpiryPerPriorityMs * ucast (q_priority q))"

lemma queued_less_new:
  assumes "q_expiry_ms q = now + kExpiryPerPriorityMs * ucast (q_priority q)" "aged now e"
    and "q_seq e < q_seq q"
  shows "queued_less q e \<longleftrightarrow> q_priority q < q_priority e"
proof (cases "q_priority q = q_priority e")
  case True
  then have "sdiff (q_expiry_ms q) (q_expiry_ms e) = sdiff now
      (q_expiry_ms e - kExpiryPerPriorityMs * ucast (q_priority e))"
    using assms(1) by (simp add: sdiff_def algebra_simps)
  then show ?thesis
    using True assms(2,3) by (auto simp: queued_less_def aged_def)
qed (simp add: queued_less_def)

lemma sorted_before_partition:
  assumes "sorted_wrt before qs" "i < length qs"
  shows "p < q_priority (qs ! i) \<longleftrightarrow> length (filter (\<lambda>e. q_priority e \<le> p) qs) \<le> i"
  using assms
proof (induction qs arbitrary: i)
  case (Cons a qs)
  show ?case
  proof (cases "q_priority a \<le> p")
    case True
    then show ?thesis
      using Cons by (cases i) (auto simp: not_less)
  next
    case False
    then have "\<forall>b \<in> set (a # qs). p < q_priority b"
      using Cons.prems(1) by (fastforce simp: before_def)
    moreover from this have "filter (\<lambda>e. q_priority e \<le> p) (a # qs) = []"
      by (auto simp: filter_empty_conv not_le)
    ultimately show ?thesis
      using Cons.prems(2) by (cases i) simp_all
  qed
qed simp

lemma queue_insert_eq:
  assumes "sorted_wrt before qs" "\<forall>e \<in> set qs. aged now e \<and> q_seq e < q_seq q"
    and "q_expiry_ms q = now + kExpiryPerPriorityMs * ucast (q_priority q)"
  shows "queue_insert q qs =
    filter (\<lambda>e. q_priority e \<le> q_priority q) qs @ q # filter (\<lambda>e. q_priority q < q_priority e) qs"
proof -
  let ?k = "length (filter (\<lambda>e. q_priority e \<le> q_priority q) qs)"
  have "upper_bound queued_less qs q 0 (length qs) = ?k"
  proof (rule upper_bound_partition)
    fix i
    assume "i < length qs"
    then show "queued_less q (qs ! i) \<longleftrightarrow> ?k \<le> i"
      using assms sorted_before_partition [OF assms(1), of i "q_priority q"]
        queued_less_new [OF assms(3), of "qs ! i"] by simp
  qed (use length_filter_le in auto)
  moreover have "take (length (filter (\<lambda>e. q_priority e \<le> p) qs)) qs = filter (\<lambda>e. q_priority e \<le> p) qs \<and>
      drop (length (filter (\<lambda>e. q_priority e \<le> p) qs)) qs = filter (\<lambda>e. p < q_priority e) qs" for p
    using assms(1)
  proof (induction qs)
    case (Cons a qs)
    show ?case
    proof (cases "q_priority a \<le> p")
      case True
      then show ?thesis
        using Cons by simp
    next
      case False
      then have "\<forall>b \<in> set qs. \<not> q_priority b \<le> p"
        using Cons.prems by (fastforce simp: before_def)
      then show ?thesis
        using False by (simp add: not_le)
    qed
  qed simp
  ultimately show ?thesis
    by (simp add: queue_insert_def)
qed

lemma queue_insert_sorted:
  assumes "sorted_wrt before qs" "\<forall>e \<in> set qs. aged now e \<and> q_seq e < q_seq q"
    and "q_expiry_ms q = now + kExpiryPerPriorityMs * ucast (q_priority q)"
  shows "sorted_wrt before (queue_insert q qs)"
  unfolding queue_insert_eq [OF assms]
  using assms(1,2) by (auto simp: sorted_wrt_append sorted_wrt_filter before_def)

lemma queue_insert_mset: "mset (queue_insert q qs) = add_mset q (mset qs)"
proof -
  have "mset (take n qs) + mset (drop n qs) = mset qs" for n
    by (metis append_take_drop_id mset_append)
  then show ?thesis
    by (simp add: queue_insert_def Let_def)
qed

lemma queue_insert_set [simp]: "set (queue_insert q qs) = insert q (set qs)"
  using queue_insert_mset [of q qs] by (metis set_mset_add_mset_insert set_mset_mset)

lemma queue_insert_length [simp]: "length (queue_insert q qs) = Suc (length qs)"
  using queue_insert_mset [of q qs] by (metis size_add_mset size_mset)

section \<open>What overflow discards\<close>

definition less_urgent :: "Queued \<Rightarrow> Queued \<Rightarrow> bool" where
  "less_urgent a b \<longleftrightarrow> q_priority a > q_priority b \<or> q_priority a = q_priority b \<and> q_seq a < q_seq b"

lemma victim_fold:
  assumes "v < length qs" "\<forall>i \<in> set is. i < length qs"
    and "fold (\<lambda>i victim. if less_urgent (qs ! i) (qs ! victim) then i else victim) is v = r"
  shows "r < length qs \<and> (\<forall>i \<in> insert v (set is). \<not> less_urgent (qs ! i) (qs ! r))"
  using assms
proof (induction "is" arbitrary: v)
  case Nil
  then show ?case
    by (auto simp: less_urgent_def)
next
  case (Cons i "is")
  let ?v = "if less_urgent (qs ! i) (qs ! v) then i else v"
  have "r < length qs \<and> (\<forall>j \<in> insert ?v (set is). \<not> less_urgent (qs ! j) (qs ! r))"
    using Cons.IH [of ?v] Cons.prems by simp
  then show ?case
    by (auto simp: less_urgent_def split: if_splits)
qed

lemma victim_index_least_urgent:
  assumes "qs \<noteq> []"
  shows "victim_index qs < length qs"
    and "e \<in> set qs \<Longrightarrow> \<not> less_urgent e (qs ! victim_index qs)"
proof -
  have eq: "fold (\<lambda>i victim. if less_urgent (qs ! i) (qs ! victim) then i else victim)
      [1..<length qs] 0 = victim_index qs"
    by (simp add: victim_index_def less_urgent_def)
  have *: "victim_index qs < length qs \<and>
      (\<forall>i \<in> insert 0 (set [1..<length qs]). \<not> less_urgent (qs ! i) (qs ! victim_index qs))"
    by (rule victim_fold [OF _ _ eq]) (use assms in auto)
  then show "victim_index qs < length qs"
    by simp
  show "\<not> less_urgent e (qs ! victim_index qs)" if e: "e \<in> set qs"
  proof -
    obtain i where i: "i < length qs" "qs ! i = e"
      using e by (auto simp: in_set_conv_nth)
    then have "i \<in> insert 0 (set [1..<length qs])"
      by (cases i) auto
    then show ?thesis
      using * i(2) by blast
  qed
qed

section \<open>Clients of the dispatcher\<close>

text \<open>
  What the dispatcher relies on when it tells a client how a packet ended: the callback
  leaves the dispatcher, the radio and the time alone. It may arm timers.
\<close>

locale tx_client =
  fixes h :: "nat \<Rightarrow> bool \<Rightarrow> ('r, 'm) dworld_scheme \<Rightarrow> ('r, 'm) dworld_scheme"
  assumes h_disp: "w_disp (h i b w) = w_disp w"
    and h_radio: "w_radio (h i b w) = w_radio w"
    and h_now: "lp_now (w_loop (h i b w)) = lp_now (w_loop w)"
begin

lemma notify_simps [simp]:
  "w_disp (notify h q b w) = w_disp w" "w_radio (notify h q b w) = w_radio w"
  "lp_now (w_loop (notify h q b w)) = lp_now (w_loop w)"
  by (simp_all add: notify_def h_disp h_radio h_now split: option.splits)

end

lemma upd_disp_simps [simp]:
  "w_disp (upd_disp f w) = f (w_disp w)" "w_radio (upd_disp f w) = w_radio w"
  "w_loop (upd_disp f w) = w_loop w" "w_random (upd_disp f w) = w_random w"
  by (simp_all add: upd_disp_def)

lemma upd_stats_simps [simp]:
  "dp_queue (w_disp (upd_stats f w)) = dp_queue (w_disp w)"
  "dp_duty (w_disp (upd_stats f w)) = dp_duty (w_disp w)"
  "dp_queue_limit (w_disp (upd_stats f w)) = dp_queue_limit (w_disp w)"
  "dp_next_seq (w_disp (upd_stats f w)) = dp_next_seq (w_disp w)"
  "dp_seen (w_disp (upd_stats f w)) = dp_seen (w_disp w)"
  "dp_busy_since_ms (w_disp (upd_stats f w)) = dp_busy_since_ms (w_disp w)"
  "w_radio (upd_stats f w) = w_radio w" "w_loop (upd_stats f w) = w_loop w"
  by (simp_all add: upd_stats_def)

lemma cancel_timer_now [simp]: "lp_now (cancel_timer i lp) = lp_now lp"
  by (simp add: cancel_timer_def)

lemma reset_timer_now [simp]: "lp_now (reset_timer t lp) = lp_now lp"
  by (simp add: reset_timer_def split: option.splits)

lemma schedule_pump_simps [simp]:
  "dp_queue (w_disp (schedule_pump d w)) = dp_queue (w_disp w)"
  "dp_duty (w_disp (schedule_pump d w)) = dp_duty (w_disp w)"
  "dp_queue_limit (w_disp (schedule_pump d w)) = dp_queue_limit (w_disp w)"
  "dp_next_seq (w_disp (schedule_pump d w)) = dp_next_seq (w_disp w)"
  "dp_seen (w_disp (schedule_pump d w)) = dp_seen (w_disp w)"
  "dp_busy_since_ms (w_disp (schedule_pump d w)) = dp_busy_since_ms (w_disp w)"
  "w_radio (schedule_pump d w) = w_radio w"
  "lp_now (w_loop (schedule_pump d w)) = lp_now (w_loop w)"
  by (simp_all add: schedule_pump_def add_timer_def Let_def)

lemma draw_byte_simps [simp]:
  "w_disp (snd (draw_byte w)) = w_disp w" "w_radio (snd (draw_byte w)) = w_radio w"
  "w_loop (snd (draw_byte w)) = w_loop w"
  by (simp_all add: draw_byte_def)

lemma check_and_mark_seen_simps [simp]:
  "dp_queue (w_disp (snd (check_and_mark_seen cr p w))) = dp_queue (w_disp w)"
  "dp_queue_limit (w_disp (snd (check_and_mark_seen cr p w))) = dp_queue_limit (w_disp w)"
  "dp_next_seq (w_disp (snd (check_and_mark_seen cr p w))) = dp_next_seq (w_disp w)"
  "dp_duty (w_disp (snd (check_and_mark_seen cr p w))) = dp_duty (w_disp w)"
  "w_radio (snd (check_and_mark_seen cr p w)) = w_radio w"
  "w_loop (snd (check_and_mark_seen cr p w)) = w_loop w"
  by (simp_all add: check_and_mark_seen_def mark_seen_def Let_def split: option.splits prod.splits)

text \<open>What is left of the queue once the expired packets at its front are dropped.\<close>

definition unexpired :: "('r, 'm) dworld_scheme \<Rightarrow> Queued list" where
  "unexpired w = dropWhile (\<lambda>q. sdiff (q_expiry_ms q) (now_ms w) \<le> 0) (dp_queue (w_disp w))"

definition queue_valid :: "('r, 'm) dworld_scheme \<Rightarrow> bool" where
  "queue_valid w \<longleftrightarrow> list_all (\<lambda>q. packet_valid (q_packet q)) (dp_queue (w_disp w))"

text \<open>
  The invariant of the transmit queue: bounded, only packets that fit the wire, and sequence
  numbers that name entries.
\<close>

definition disp_inv :: "('r, 'm) dworld_scheme \<Rightarrow> bool" where
  "disp_inv w \<longleftrightarrow> queue_valid w \<and> 1 \<le> dp_queue_limit (w_disp w) \<and>
     length (dp_queue (w_disp w)) \<le> dp_queue_limit (w_disp w) \<and>
     distinct (map q_seq (dp_queue (w_disp w))) \<and>
     list_all (\<lambda>q. q_seq q < dp_next_seq (w_disp w)) (dp_queue (w_disp w))"

definition in_order :: "('r, 'm) dworld_scheme \<Rightarrow> bool" where
  "in_order w \<longleftrightarrow> sorted_wrt before (dp_queue (w_disp w)) \<and>
     list_all (aged (now_ms w)) (dp_queue (w_disp w))"

lemma remove_at_mset: "i < length qs \<Longrightarrow> add_mset (qs ! i) (mset (remove_at i qs)) = mset qs"
  by (induction qs arbitrary: i) (auto simp: nth_Cons split: nat.splits)

lemma distinct_move_front:
  assumes "i < length qs" "distinct (map f qs)"
  shows "distinct (map f (qs ! i # remove_at i qs))"
proof -
  have "mset (qs ! i # remove_at i qs) = mset qs"
    using remove_at_mset [OF assms(1)] by simp
  then have "mset (map f (qs ! i # remove_at i qs)) = mset (map f qs)"
    by (metis mset_map)
  then show ?thesis
    using assms(2) mset_eq_imp_distinct_iff by blast
qed

lemma sorted_remove_at: "sorted_wrt P qs \<Longrightarrow> sorted_wrt P (remove_at i qs)"
proof (induction qs arbitrary: i)
  case (Cons q qs)
  then show ?case
    using remove_at_set [of _ qs, THEN subsetD] by (cases i) auto
qed simp

lemma sorted_unexpired: "sorted_wrt P (dp_queue (w_disp w)) \<Longrightarrow> sorted_wrt P (unexpired w)"
  unfolding unexpired_def
  by (metis sorted_wrt_append takeWhile_dropWhile_id)

lemma distinct_unexpired: "distinct (map f (dp_queue (w_disp w))) \<Longrightarrow> distinct (map f (unexpired w))"
  unfolding unexpired_def
  by (metis distinct_append map_append takeWhile_dropWhile_id)

context tx_client
begin

lemma drop_expired_queue:
  assumes "length (dp_queue (w_disp w)) \<le> n"
  shows "dp_queue (w_disp (drop_expired h now n w)) =
      dropWhile (\<lambda>q. sdiff (q_expiry_ms q) now \<le> 0) (dp_queue (w_disp w))"
    and "w_radio (drop_expired h now n w) = w_radio w"
    and "dp_duty (w_disp (drop_expired h now n w)) = dp_duty (w_disp w)"
    and "dp_queue_limit (w_disp (drop_expired h now n w)) = dp_queue_limit (w_disp w)"
    and "dp_next_seq (w_disp (drop_expired h now n w)) = dp_next_seq (w_disp w)"
    and "dp_busy_since_ms (w_disp (drop_expired h now n w)) = dp_busy_since_ms (w_disp w)"
    and "lp_now (w_loop (drop_expired h now n w)) = lp_now (w_loop w)"
  using assms by (induction n arbitrary: w) (auto split: list.splits)

lemma transmit_effect:
  assumes "transmit ro h i raw w = (again, w')" "i < length (dp_queue (w_disp w))"
  shows "again \<longleftrightarrow> length raw > kMaxPacketSize"
    and "dp_queue_limit (w_disp w') = dp_queue_limit (w_disp w)"
    and "dp_next_seq (w_disp w') = dp_next_seq (w_disp w)"
    and "dp_duty (w_disp w') = dp_duty (w_disp w)"
    and "lp_now (w_loop w') = lp_now (w_loop w)"
    and "dp_queue (w_disp w') = remove_at i (dp_queue (w_disp w)) \<or>
      dp_queue (w_disp w') = dp_queue (w_disp w) ! i # remove_at i (dp_queue (w_disp w)) \<and>
      \<not> fst (radio_send ro raw (w_radio w))"
  using assms by (auto simp: transmit_def Let_def split: if_splits prod.splits bool.splits)

lemma listen_then_transmit_cases:
  assumes "listen_then_transmit ro h i raw w = (again, w')"
  obtains (deferred) "\<not> again" "fst (channel_busy ro (w_radio w))"
      "w_radio w' = snd (channel_busy ro (w_radio w))"
      "dp_queue (w_disp w') = dp_queue (w_disp w)"
      "dp_queue_limit (w_disp w') = dp_queue_limit (w_disp w)"
      "dp_next_seq (w_disp w') = dp_next_seq (w_disp w)" "dp_duty (w_disp w') = dp_duty (w_disp w)"
      "lp_now (w_loop w') = lp_now (w_loop w)"
  | (sent) w1 where "transmit ro h i raw w1 = (again, w')"
      "w_radio w1 = snd (channel_busy ro (w_radio w))"
      "dp_queue (w_disp w1) = dp_queue (w_disp w)"
      "dp_queue_limit (w_disp w1) = dp_queue_limit (w_disp w)"
      "dp_next_seq (w_disp w1) = dp_next_seq (w_disp w)" "dp_duty (w_disp w1) = dp_duty (w_disp w)"
      "lp_now (w_loop w1) = lp_now (w_loop w)"
proof (cases "channel_busy ro (w_radio w)")
  case (Pair busy r)
  let ?w1 = "w\<lparr>w_radio := r\<rparr>"
  let ?since = "if dp_busy_since_ms (w_disp ?w1) = 0 then now_ms w else dp_busy_since_ms (w_disp ?w1)"
  let ?w2 = "upd_disp (\<lambda>d. d\<lparr>dp_busy_since_ms := ?since\<rparr>) ?w1"
  consider "\<not> busy" | "busy" "now_ms w - ?since < kChannelBusyMaxMs"
    | "busy" "\<not> now_ms w - ?since < kChannelBusyMaxMs"
    by blast
  then show ?thesis
  proof cases
    case 1
    then show ?thesis
      using assms Pair sent [of ?w1] by (simp add: listen_then_transmit_def Let_def)
  next
    case 2
    have "\<not> again \<and> w_radio w' = r \<and> dp_queue (w_disp w') = dp_queue (w_disp w) \<and>
      dp_queue_limit (w_disp w') = dp_queue_limit (w_disp w) \<and>
      dp_next_seq (w_disp w') = dp_next_seq (w_disp w) \<and>
      dp_duty (w_disp w') = dp_duty (w_disp w) \<and> lp_now (w_loop w') = lp_now (w_loop w)"
      using assms Pair 2 by (auto simp: listen_then_transmit_def Let_def draw_byte_def)
    then show ?thesis
      using deferred Pair 2 by simp
  next
    case 3
    then show ?thesis
      using assms Pair
        sent [of "upd_stats (\<lambda>s. s\<lparr>st_tx_forced := st_tx_forced s + 1\<rparr>) ?w2"]
      by (simp add: listen_then_transmit_def Let_def)
  qed
qed

text \<open>
  The parts of a pump: nothing to do, held back (or everything expired), or one packet offered
  to the radio.
\<close>

lemma pump_step_cases:
  assumes "pump_step ro h w = (again, w')"
  obtains (idle) "w' = w" "\<not> again" "dp_queue (w_disp w) = [] \<or> tx_busy ro (w_radio w)"
  | (held) "\<not> again" "w_radio w' = w_radio w" "dp_queue (w_disp w') = unexpired w"
      "dp_queue_limit (w_disp w') = dp_queue_limit (w_disp w)"
      "dp_next_seq (w_disp w') = dp_next_seq (w_disp w)" "lp_now (w_loop w') = lp_now (w_loop w)"
  | (offered) i w1 where "eligible_index (now_ms w) (unexpired w) = Some i"
      "ready ro (w_radio w)" "has_frequency (params ro (w_radio w))" "\<not> tx_busy ro (w_radio w)"
      "fst (wait_ms (now_ms w) (airtime_ms (params ro (w_radio w))
         (length (packet_encode (q_packet (unexpired w ! i))))) (dp_duty (w_disp w))) = 0"
      "listen_then_transmit ro h i (packet_encode (q_packet (unexpired w ! i))) w1 = (again, w')"
      "w_radio w1 = w_radio w" "dp_queue (w_disp w1) = unexpired w"
      "dp_queue_limit (w_disp w1) = dp_queue_limit (w_disp w)"
      "dp_next_seq (w_disp w1) = dp_next_seq (w_disp w)" "lp_now (w_loop w1) = lp_now (w_loop w)"
proof (cases "dp_queue (w_disp w) = [] \<or> tx_busy ro (w_radio w)")
  case True
  then show ?thesis
    using assms idle by (simp add: pump_step_def split: if_splits)
next
  case False
  let ?w1 = "drop_expired h (now_ms w) (length (dp_queue (w_disp w))) w"
  note dropped = drop_expired_queue [of w "length (dp_queue (w_disp w))" "now_ms w", OF order_refl,
      folded unexpired_def]
  show ?thesis
  proof (cases "unexpired w = [] \<or> \<not> ready ro (w_radio w) \<or> \<not> has_frequency (params ro (w_radio w)) \<or>
      eligible_index (now_ms w) (unexpired w) = None")
    case True
    then show ?thesis
      using assms False held dropped
      by (auto simp: pump_step_def Let_def split: if_splits option.splits)
  next
    case sel: False
    then obtain i where i: "eligible_index (now_ms w) (unexpired w) = Some i"
      by auto
    let ?raw = "packet_encode (q_packet (unexpired w ! i))"
    obtain wait duty where wt: "wait_ms (now_ms w) (airtime_ms (params ro (w_radio w)) (length ?raw))
        (dp_duty (w_disp w)) = (wait, duty)"
      by fastforce
    let ?w2 = "upd_disp (\<lambda>d. d\<lparr>dp_duty := duty\<rparr>) ?w1"
    show ?thesis
    proof (cases "wait = 0")
      case True
      then have lt: "listen_then_transmit ro h i ?raw ?w2 = (again, w')"
        using assms False sel i wt dropped by (simp add: pump_step_def Let_def)
      show ?thesis
        by (rule offered [OF i _ _ _ _ lt]) (use sel False wt True dropped in simp_all)
    next
      case w0: False
      then have "wait > 0"
        by (simp add: word_gt_0)
      then have "again = False \<and> w' = schedule_pump (min wait 30000)
          (upd_disp (\<lambda>d. d\<lparr>dp_duty := snd (used_pct (now_ms w) (dp_duty d))\<rparr>) ?w2)"
        using assms False sel i wt dropped by (simp add: pump_step_def Let_def)
      then show ?thesis
        using held dropped by simp
    qed
  qed
qed

lemma eligible_in_range: "eligible_index now qs = Some i \<Longrightarrow> i < length qs"
  unfolding eligible_index_def by (drule index_where_Some) simp

lemma unexpired_set: "q \<in> set (unexpired w) \<Longrightarrow> q \<in> set (dp_queue (w_disp w))"
  by (auto simp: unexpired_def dest: set_dropWhileD)

lemma unexpired_length: "length (unexpired w) \<le> length (dp_queue (w_disp w))"
  by (simp add: unexpired_def length_dropWhile_le)

text \<open>How the queue can look after a pump step: a remainder, possibly less one packet.\<close>

lemma pump_step_queue:
  assumes "pump_step ro h w = (again, w')"
  obtains qs where "qs = dp_queue (w_disp w) \<or> qs = unexpired w"
    "dp_queue (w_disp w') = qs \<or>
     (\<exists>i < length qs. dp_queue (w_disp w') = remove_at i qs \<or> dp_queue (w_disp w') = qs ! i # remove_at i qs)"
  using assms
proof (cases rule: pump_step_cases)
  case (offered i w1)
  have i: "i < length (unexpired w)"
    using eligible_in_range [OF offered(1)] .
  show ?thesis
    using offered(6)
  proof (cases rule: listen_then_transmit_cases)
    case deferred
    then show ?thesis
      using that [of "unexpired w"] offered(8) by simp
  next
    case (sent w2)
    then show ?thesis
      using that [of "unexpired w"] transmit_effect(6) [OF sent(1)] offered(8) i by auto
  qed
qed (use that in auto)

lemma pump_step_keeps:
  assumes "pump_step ro h w = (again, w')"
  shows "dp_queue_limit (w_disp w') = dp_queue_limit (w_disp w)"
    and "dp_next_seq (w_disp w') = dp_next_seq (w_disp w)"
    and "lp_now (w_loop w') = lp_now (w_loop w)"
    and "set (dp_queue (w_disp w')) \<subseteq> set (dp_queue (w_disp w))"
    and "length (dp_queue (w_disp w')) \<le> length (dp_queue (w_disp w))"
proof -
  have "dp_queue_limit (w_disp w') = dp_queue_limit (w_disp w) \<and>
      dp_next_seq (w_disp w') = dp_next_seq (w_disp w) \<and> lp_now (w_loop w') = lp_now (w_loop w)"
    using assms
  proof (cases rule: pump_step_cases)
    case (offered i w1)
    show ?thesis
      using offered(6)
    proof (cases rule: listen_then_transmit_cases)
      case deferred
      then show ?thesis
        using offered by simp
    next
      case (sent w2)
      have "i < length (dp_queue (w_disp w2))"
        using eligible_in_range [OF offered(1)] sent(3) offered(8) by simp
      then show ?thesis
        using transmit_effect(2,3,5) [OF sent(1)] sent offered by simp
    qed
  qed auto
  then show "dp_queue_limit (w_disp w') = dp_queue_limit (w_disp w)"
    "dp_next_seq (w_disp w') = dp_next_seq (w_disp w)" "lp_now (w_loop w') = lp_now (w_loop w)"
    by simp_all
  obtain qs where qs: "qs = dp_queue (w_disp w) \<or> qs = unexpired w"
    "dp_queue (w_disp w') = qs \<or>
     (\<exists>i < length qs. dp_queue (w_disp w') = remove_at i qs \<or> dp_queue (w_disp w') = qs ! i # remove_at i qs)"
    using assms by (rule pump_step_queue)
  have "set (dp_queue (w_disp w')) \<subseteq> set qs \<and> length (dp_queue (w_disp w')) \<le> length qs"
    using qs(2) remove_at_set [of _ qs, THEN subsetD] length_remove_at [of _ qs] by auto
  then show "set (dp_queue (w_disp w')) \<subseteq> set (dp_queue (w_disp w))"
    "length (dp_queue (w_disp w')) \<le> length (dp_queue (w_disp w))"
    using qs(1) unexpired_set [of _ w] unexpired_length [of w] by auto
qed

text \<open>Valid packets are never oversized, so one round is the whole pump.\<close>

lemma pump_step_once:
  assumes "pump_step ro h w = (again, w')" "queue_valid w"
  shows "\<not> again"
  using assms(1)
proof (cases rule: pump_step_cases)
  case (offered i w1)
  have i: "i < length (unexpired w)"
    using eligible_in_range [OF offered(1)] .
  then have "packet_valid (q_packet (unexpired w ! i))"
    using unexpired_set [of "unexpired w ! i" w] assms(2) by (auto simp: queue_valid_def list_all_iff)
  then have fits: "\<not> length (packet_encode (q_packet (unexpired w ! i))) > kMaxPacketSize"
    using packet_valid_fits by (simp add: not_less)
  show ?thesis
    using offered(6)
  proof (cases rule: listen_then_transmit_cases)
    case (sent w2)
    then show ?thesis
      using transmit_effect(1) [OF sent(1)] fits i offered(8) by simp
  qed
qed auto

lemma pump_eq:
  assumes "queue_valid w"
  shows "pump ro h w = snd (pump_step ro h w)"
  using pump_step_once [OF _ assms, of ro] by (cases "pump_step ro h w") (auto simp: pump_def)

lemma pump_inv:
  assumes "disp_inv w"
  shows "disp_inv (pump ro h w)"
proof -
  obtain again w' where step: "pump_step ro h w = (again, w')"
    by fastforce
  have eq: "pump ro h w = w'"
    using pump_eq [of w ro] step assms by (simp add: disp_inv_def)
  obtain qs where qs: "qs = dp_queue (w_disp w) \<or> qs = unexpired w"
    "dp_queue (w_disp w') = qs \<or>
     (\<exists>i < length qs. dp_queue (w_disp w') = remove_at i qs \<or> dp_queue (w_disp w') = qs ! i # remove_at i qs)"
    using step by (rule pump_step_queue)
  have "distinct (map q_seq qs)"
    using qs(1) assms distinct_unexpired [of q_seq w] by (auto simp: disp_inv_def)
  then have "distinct (map q_seq (dp_queue (w_disp w')))"
    using qs(2) distinct_map_remove_at [of q_seq qs] distinct_move_front [of _ qs q_seq] by auto
  then show ?thesis
    using assms pump_step_keeps [OF step] unfolding eq
    by (auto simp: disp_inv_def queue_valid_def list_all_iff)
qed

lemma drop_overflow_inv:
  assumes "queue_valid w" "1 \<le> dp_queue_limit (w_disp w)"
    and "length (dp_queue (w_disp w)) \<le> Suc (dp_queue_limit (w_disp w))"
    and "distinct (map q_seq (dp_queue (w_disp w)))"
    and "list_all (\<lambda>q. q_seq q < dp_next_seq (w_disp w)) (dp_queue (w_disp w))"
  shows "disp_inv (drop_overflow h w)"
proof (cases "length (dp_queue (w_disp w)) > dp_queue_limit (w_disp w)")
  case True
  let ?qs = "dp_queue (w_disp w)" and ?v = "victim_index (dp_queue (w_disp w))"
  have "?v < length ?qs"
    using True by (intro victim_index_least_urgent(1)) auto
  then show ?thesis
    using True assms remove_at_set [of ?v ?qs, THEN subsetD] length_remove_at [of ?v ?qs]
    by (auto simp: drop_overflow_def disp_inv_def queue_valid_def Let_def list_all_iff
        distinct_map_remove_at)
next
  case False
  then show ?thesis
    using assms by (simp add: drop_overflow_def disp_inv_def)
qed

lemma queued_inv:
  assumes "disp_inv w" "packet_valid p"
  shows "disp_inv (drop_overflow h (enqueue p prio delay on_result (snd (check_and_mark_seen cr p w))))"
proof (rule drop_overflow_inv)
  let ?w2 = "enqueue p prio delay on_result (snd (check_and_mark_seen cr p w))"
  let ?q = "\<lparr>q_packet = p, q_priority = prio,
                 q_expiry_ms = now_ms w + kExpiryPerPriorityMs * ucast prio,
                 q_not_before_ms = now_ms w + delay, q_seq = dp_next_seq (w_disp w),
                 q_on_result = on_result\<rparr>"
  have q: "dp_queue (w_disp ?w2) = queue_insert ?q (dp_queue (w_disp w))"
    by (simp add: enqueue_def Let_def)
  show "queue_valid ?w2"
    using assms by (simp add: queue_valid_def q disp_inv_def list_all_iff)
  show "1 \<le> dp_queue_limit (w_disp ?w2)"
    "length (dp_queue (w_disp ?w2)) \<le> Suc (dp_queue_limit (w_disp ?w2))"
    using assms(1) by (simp_all add: disp_inv_def enqueue_def Let_def)
  have "mset (map q_seq (queue_insert ?q (dp_queue (w_disp w)))) =
      mset (map q_seq (?q # dp_queue (w_disp w)))"
    by (simp add: queue_insert_mset)
  moreover have "distinct (map q_seq (?q # dp_queue (w_disp w)))"
    using assms(1) by (fastforce simp: disp_inv_def list_all_iff)
  ultimately show "distinct (map q_seq (dp_queue (w_disp ?w2)))"
    unfolding q using mset_eq_imp_distinct_iff by blast
  show "list_all (\<lambda>q. q_seq q < dp_next_seq (w_disp ?w2)) (dp_queue (w_disp ?w2))"
    using assms(1) by (auto simp: disp_inv_def list_all_iff enqueue_def Let_def)
qed

lemma send_inv:
  assumes "disp_inv w"
  shows "disp_inv (snd (disp_send cr ro h p prio delay on_result w))"
proof (cases "packet_valid p")
  case True
  then show ?thesis
    using pump_inv [OF queued_inv [OF assms True]] by (simp add: disp_send_def Let_def)
next
  case False
  then show ?thesis
    using assms by (simp add: disp_send_def disp_inv_def queue_valid_def)
qed

text \<open>
  Packets leave by priority, first in first out within one, as long as the radio takes what
  it is offered.
\<close>

lemma enqueue_in_order:
  assumes "disp_inv w" "in_order w"
  shows "in_order (enqueue p prio delay on_result (snd (check_and_mark_seen cr p w)))"
proof -
  let ?q = "\<lparr>q_packet = p, q_priority = prio,
                 q_expiry_ms = now_ms w + kExpiryPerPriorityMs * ucast prio,
                 q_not_before_ms = now_ms w + delay, q_seq = dp_next_seq (w_disp w),
                 q_on_result = on_result\<rparr>"
  have "sorted_wrt before (queue_insert ?q (dp_queue (w_disp w)))"
    using assms by (intro queue_insert_sorted [where now = "now_ms w"])
      (auto simp: disp_inv_def in_order_def list_all_iff)
  then show ?thesis
    using assms(2) by (simp add: in_order_def enqueue_def Let_def list_all_iff aged_def)
qed

lemma drop_overflow_in_order: "in_order w \<Longrightarrow> in_order (drop_overflow h w)"
  using remove_at_set [of _ "dp_queue (w_disp w)", THEN subsetD]
  by (auto simp: in_order_def drop_overflow_def Let_def sorted_remove_at list_all_iff)

lemma pump_in_order:
  assumes "queue_valid w" "in_order w" "\<And>raw r. fst (radio_send ro raw r)"
  shows "in_order (pump ro h w)"
proof -
  obtain again w' where step: "pump_step ro h w = (again, w')"
    by fastforce
  have "sorted_wrt before (dp_queue (w_disp w'))"
    using step
  proof (cases rule: pump_step_cases)
    case (offered i w1)
    show ?thesis
      using offered(6)
    proof (cases rule: listen_then_transmit_cases)
      case deferred
      then show ?thesis
        using offered(8) sorted_unexpired [of before w] assms(2) by (simp add: in_order_def)
    next
      case (sent w2)
      have "i < length (dp_queue (w_disp w2))"
        using eligible_in_range [OF offered(1)] sent(3) offered(8) by simp
      then have "dp_queue (w_disp w') = remove_at i (unexpired w)"
        using transmit_effect(6) [OF sent(1)] sent(3) offered(8) assms(3) by auto
      then show ?thesis
        using sorted_unexpired [of before w] assms(2) by (simp add: in_order_def sorted_remove_at)
    qed
  qed (use assms(2) sorted_unexpired [of before w] in \<open>auto simp: in_order_def\<close>)
  then show ?thesis
    using pump_eq [OF assms(1), of ro] step pump_step_keeps [OF step] assms(2)
    by (auto simp: in_order_def list_all_iff)
qed

lemma send_in_order:
  assumes "disp_inv w" "in_order w" "\<And>raw r. fst (radio_send ro raw r)"
  shows "in_order (snd (disp_send cr ro h p prio delay on_result w))"
proof (cases "packet_valid p")
  case True
  have "queue_valid (drop_overflow h (enqueue p prio delay on_result (snd (check_and_mark_seen cr p w))))"
    using queued_inv [OF assms(1) True] by (simp add: disp_inv_def)
  then show ?thesis
    using True pump_in_order [OF _ drop_overflow_in_order [OF enqueue_in_order [OF assms(1,2)]] assms(3)]
    by (simp add: disp_send_def Let_def)
next
  case False
  then show ?thesis
    using assms(2) by (simp add: disp_send_def in_order_def)
qed

text \<open>What holds the radio silent.\<close>

lemma pump_silent:
  assumes "queue_valid w"
    and "tx_busy ro (w_radio w) \<or> \<not> ready ro (w_radio w) \<or> \<not> has_frequency (params ro (w_radio w))"
  shows "w_radio (pump ro h w) = w_radio w"
proof -
  obtain again w' where step: "pump_step ro h w = (again, w')"
    by fastforce
  have "w_radio w' = w_radio w"
    using step by (cases rule: pump_step_cases) (use assms(2) in auto)
  then show ?thesis
    using pump_eq [OF assms(1), of ro] step by simp
qed

lemma pump_over_budget:
  assumes "queue_valid w" "eligible_index (now_ms w) (unexpired w) = Some i"
    and "fst (wait_ms (now_ms w) (airtime_ms (params ro (w_radio w))
         (length (packet_encode (q_packet (unexpired w ! i))))) (dp_duty (w_disp w))) > 0"
  shows "w_radio (pump ro h w) = w_radio w"
proof -
  obtain again w' where step: "pump_step ro h w = (again, w')"
    by fastforce
  have "w_radio w' = w_radio w"
    using step by (cases rule: pump_step_cases) (use assms(2,3) in auto)
  then show ?thesis
    using pump_eq [OF assms(1), of ro] step by simp
qed

text \<open>What goes out otherwise: the first packet of the queue whose delay is over.\<close>

lemma pump_transmits:
  assumes "queue_valid w" "\<not> tx_busy ro (w_radio w)" "ready ro (w_radio w)"
    and "has_frequency (params ro (w_radio w))"
    and "eligible_index (now_ms w) (unexpired w) = Some i"
    and "fst (wait_ms (now_ms w) (airtime_ms (params ro (w_radio w))
         (length (packet_encode (q_packet (unexpired w ! i))))) (dp_duty (w_disp w))) = 0"
    and "channel_busy ro (w_radio w) = (False, r1)"
    and "radio_send ro (packet_encode (q_packet (unexpired w ! i))) r1 = (True, r2)"
  shows "w_radio (pump ro h w) = r2" "dp_queue (w_disp (pump ro h w)) = remove_at i (unexpired w)"
proof -
  have i: "i < length (unexpired w)"
    using eligible_in_range [OF assms(5)] .
  then have "packet_valid (q_packet (unexpired w ! i))"
    using unexpired_set [of "unexpired w ! i" w] assms(1) by (auto simp: queue_valid_def list_all_iff)
  then have fits: "\<not> length (packet_encode (q_packet (unexpired w ! i))) > kMaxPacketSize"
    using packet_valid_fits by (simp add: not_less)
  have ne: "unexpired w \<noteq> []" "dp_queue (w_disp w) \<noteq> []"
    using i unexpired_length [of w] by auto
  note dropped = drop_expired_queue [of w "length (dp_queue (w_disp w))" "now_ms w", OF order_refl,
      folded unexpired_def]
  obtain duty where "wait_ms (now_ms w) (airtime_ms (params ro (w_radio w))
         (length (packet_encode (q_packet (unexpired w ! i))))) (dp_duty (w_disp w)) = (0, duty)"
    using assms(6) by (metis prod.collapse)
  then have "w_radio (snd (pump_step ro h w)) = r2 \<and>
      dp_queue (w_disp (snd (pump_step ro h w))) = remove_at i (unexpired w)"
    using assms(2-5,7,8) fits ne dropped
    by (simp add: pump_step_def listen_then_transmit_def transmit_def Let_def)
  then show "w_radio (pump ro h w) = r2" "dp_queue (w_disp (pump ro h w)) = remove_at i (unexpired w)"
    using pump_eq [OF assms(1), of ro] by simp_all
qed

end

section \<open>What a client keeps\<close>

text \<open>
  A view of the world that neither the dispatcher's own state nor the callback changes comes
  through every operation of the dispatcher unchanged.
\<close>

locale tx_observed = tx_client h
  for h :: "nat \<Rightarrow> bool \<Rightarrow> ('r, 'm) dworld_scheme \<Rightarrow> ('r, 'm) dworld_scheme" +
  fixes obs :: "('r, 'm) dworld_scheme \<Rightarrow> 'o"
  assumes obs_h: "obs (h i b w) = obs w"
    and obs_disp: "obs (w\<lparr>w_disp := d\<rparr>) = obs w"
    and obs_loop: "obs (w\<lparr>w_loop := lp\<rparr>) = obs w"
    and obs_radio: "obs (w\<lparr>w_radio := r\<rparr>) = obs w"
    and obs_random: "obs (w\<lparr>w_random := rnd\<rparr>) = obs w"
begin

lemma obs_simps [simp]:
  "obs (upd_disp f w) = obs w" "obs (upd_stats g w) = obs w" "obs (schedule_pump d w) = obs w"
  "obs (snd (draw_byte w)) = obs w" "obs (snd (check_and_mark_seen cr p w)) = obs w"
  "obs (notify h q b w) = obs w" "obs (w\<lparr>w_radio := r\<rparr>) = obs w"
proof -
  have "w\<lparr>w_loop := lp, w_disp := d\<rparr> = (w\<lparr>w_loop := lp\<rparr>)\<lparr>w_disp := d\<rparr>" for w :: "('r, 'm) dworld_scheme" and lp d
    by simp
  then show "obs (schedule_pump d w) = obs w"
    by (auto simp: schedule_pump_def Let_def obs_disp obs_loop split: prod.splits)
qed (simp_all add: upd_disp_def upd_stats_def draw_byte_def check_and_mark_seen_def notify_def
    obs_h obs_disp obs_loop obs_radio obs_random split: prod.splits option.splits)

lemma obs_drop_expired [simp]: "obs (drop_expired h now n w) = obs w"
  by (induction n arbitrary: w) (auto split: list.splits)

lemma obs_transmit: "transmit ro h i raw w = (again, w') \<Longrightarrow> obs w' = obs w"
  by (auto simp: transmit_def Let_def split: if_splits prod.splits bool.splits)

lemma obs_listen: "listen_then_transmit ro h i raw w = (again, w') \<Longrightarrow> obs w' = obs w"
proof (cases "channel_busy ro (w_radio w)")
  case (Pair busy r)
  assume step: "listen_then_transmit ro h i raw w = (again, w')"
  have drawn: "obs v' = obs v" if "draw_byte v = (b, v')" for v b v'
    using that obs_simps(4) [of v] by simp
  show ?thesis
    using step Pair
    by (auto simp: listen_then_transmit_def Let_def split: if_splits prod.splits
        dest!: obs_transmit drawn)
qed

lemma obs_pump_step: "pump_step ro h w = (again, w') \<Longrightarrow> obs w' = obs w"
  by (auto simp: pump_step_def Let_def split: if_splits prod.splits option.splits dest!: obs_listen)

lemma obs_pump [simp]: "obs (pump ro h w) = obs w"
proof -
  have "obs (pump_rounds ro h n w) = obs w" for n w
    by (induction n arbitrary: w) (auto dest: obs_pump_step split: prod.splits)
  then show ?thesis
    by (simp add: pump_def del: pump_rounds.simps)
qed

lemma obs_send [simp]: "obs (snd (disp_send cr ro h p prio delay on_result w)) = obs w"
  by (simp add: disp_send_def enqueue_def drop_overflow_def Let_def)

end

section \<open>Every result is reported once\<close>

text \<open>
  A client that does nothing but note what it is told shows what the dispatcher tells.
\<close>

record 'r log_world = "'r dworld" +
  w_results :: "(nat \<times> bool) list"

definition log_result :: "nat \<Rightarrow> bool \<Rightarrow> 'r log_world \<Rightarrow> 'r log_world" where
  "log_result i b w = w\<lparr>w_results := w_results w @ [(i, b)]\<rparr>"

definition op_ids :: "Queued list \<Rightarrow> nat list" where
  "op_ids qs = List.map_filter q_on_result qs"

text \<open>Operations still queued together with the ones reported.\<close>

definition accounted :: "'r log_world \<Rightarrow> nat multiset" where
  "accounted w = mset (op_ids (dp_queue (w_disp w))) + mset (map fst (w_results w))"

lemma op_ids_simps [simp]:
  "op_ids [] = []"
  "op_ids (q # qs) = (case q_on_result q of None \<Rightarrow> op_ids qs | Some i \<Rightarrow> i # op_ids qs)"
  by (simp_all add: op_ids_def map_filter_simps split: option.splits)

lemma op_ids_append [simp]: "op_ids (xs @ ys) = op_ids xs @ op_ids ys"
  by (induction xs) (auto split: option.splits)

lemma op_ids_mset_cong: "mset xs = mset ys \<Longrightarrow> mset (op_ids xs) = mset (op_ids ys)"
  by (simp add: op_ids_def map_filter_def mset_filter flip: mset_map mset_filter)
    (metis mset_filter mset_map)

lemma op_ids_remove_at:
  assumes "i < length qs"
  shows "mset (op_ids (qs ! i # remove_at i qs)) = mset (op_ids qs)"
  by (rule op_ids_mset_cong) (simp add: remove_at_mset [OF assms])

lemma log_keeps [simp]:
  "w_results (upd_disp f w) = w_results w" "w_results (upd_stats g w) = w_results w"
  "w_results (schedule_pump d w) = w_results w" "w_results (snd (draw_byte w)) = w_results w"
  "w_results (snd (check_and_mark_seen cr p w)) = w_results w"
  by (simp_all add: upd_disp_def upd_stats_def schedule_pump_def draw_byte_def
      check_and_mark_seen_def Let_def split: prod.splits)

lemma accounted_notify:
  "accounted (notify log_result q b w) = accounted w + mset (op_ids [q])"
  by (auto simp: accounted_def notify_def log_result_def split: option.splits)

lemma accounted_simps [simp]:
  "accounted (upd_stats g w) = accounted w" "accounted (schedule_pump d w) = accounted w"
  "accounted (snd (draw_byte w)) = accounted w"
  "accounted (snd (check_and_mark_seen cr p w)) = accounted w"
  by (simp_all add: accounted_def)

lemma accounted_upd_disp:
  "accounted (upd_disp f w) = mset (op_ids (dp_queue (f (w_disp w)))) + mset (map fst (w_results w))"
  by (simp add: accounted_def)

lemma accounted_drop_expired:
  "accounted (drop_expired log_result now n w) = accounted w"
proof (induction n arbitrary: w)
  case (Suc n)
  show ?case
  proof (cases "dp_queue (w_disp w)")
    case (Cons q qs)
    then show ?thesis
      using Suc by (simp add: accounted_notify accounted_upd_disp split: option.splits)
        (simp add: accounted_def Cons)
  qed simp
qed simp

lemma accounted_transmit:
  assumes "transmit ro log_result i raw w = (again, w')" "i < length (dp_queue (w_disp w))"
  shows "accounted w' = accounted w"
proof -
  let ?qs = "dp_queue (w_disp w)"
  have ids: "mset (op_ids ?qs) = mset (op_ids [?qs ! i]) + mset (op_ids (remove_at i ?qs))"
    using op_ids_remove_at [OF assms(2)] by (simp split: option.splits)
  have radio: "accounted (v\<lparr>w_radio := r\<rparr>) = accounted v" for v r
    by (simp add: accounted_def)
  have "accounted w = mset (op_ids [?qs ! i]) + mset (op_ids (remove_at i ?qs)) +
      mset (map fst (w_results w))"
    by (simp add: accounted_def ids)
  then show ?thesis
    using assms(1)
    by (auto simp: transmit_def Let_def accounted_notify accounted_upd_disp radio
        split: if_splits prod.splits bool.splits option.splits)
qed

lemma accounted_radio [simp]: "accounted (w\<lparr>w_radio := r\<rparr>) = accounted w"
  by (simp add: accounted_def)

lemma accounted_disp_same [simp]:
  "(\<And>d. dp_queue (f d) = dp_queue d) \<Longrightarrow> accounted (upd_disp f w) = accounted w"
  by (simp add: accounted_def)

lemma accounted_listen:
  assumes "listen_then_transmit ro log_result i raw w = (again, w')" "i < length (dp_queue (w_disp w))"
  shows "accounted w' = accounted w"
proof (cases "channel_busy ro (w_radio w)")
  case (Pair busy r)
  let ?w1 = "w\<lparr>w_radio := r\<rparr>"
  let ?since = "if dp_busy_since_ms (w_disp ?w1) = 0 then now_ms w else dp_busy_since_ms (w_disp ?w1)"
  let ?w2 = "upd_disp (\<lambda>d. d\<lparr>dp_busy_since_ms := ?since\<rparr>) ?w1"
  let ?def = "upd_stats (\<lambda>s. s\<lparr>st_tx_deferred := st_tx_deferred s + 1\<rparr>) ?w2"
  consider (send) w2 where "transmit ro log_result i raw w2 = (again, w')"
      "accounted w2 = accounted w" "dp_queue (w_disp w2) = dp_queue (w_disp w)"
    | (wait) "w' = schedule_pump (kChannelBusyRetryMs + ucast (fst (draw_byte ?def)) mod
        kChannelBusyJitterMs) (snd (draw_byte ?def))"
    using assms(1) Pair by (auto simp: listen_then_transmit_def Let_def split: if_splits prod.splits)
  then show ?thesis
  proof cases
    case send
    then show ?thesis
      using accounted_transmit [OF send(1)] assms(2) by simp
  next
    case wait
    then show ?thesis
      by simp
  qed
qed

lemma accounted_pump_step:
  assumes "pump_step ro log_result w = (again, w')"
  shows "accounted w' = accounted w"
proof -
  let ?w1 = "drop_expired log_result (now_ms w) (length (dp_queue (w_disp w))) w"
  let ?qs = "dp_queue (w_disp ?w1)"
  consider (same) "w' = w" | (none) "accounted w' = accounted ?w1"
    | (offer) i raw w2 where "eligible_index (now_ms w) ?qs = Some i"
        "listen_then_transmit ro log_result i raw w2 = (again, w')"
        "accounted w2 = accounted ?w1" "dp_queue (w_disp w2) = ?qs"
    using assms by (auto simp: pump_step_def Let_def split: if_splits option.splits prod.splits)
  then show ?thesis
  proof cases
    case offer
    then have "i < length (dp_queue (w_disp w2))"
      using index_where_Some unfolding eligible_index_def by fastforce
    then show ?thesis
      using accounted_listen [OF offer(2)] offer(3) accounted_drop_expired by simp
  qed (simp_all add: accounted_drop_expired)
qed

lemma accounted_pump_rounds: "accounted (pump_rounds ro log_result n w) = accounted w"
  by (induction n arbitrary: w) (auto dest: accounted_pump_step split: prod.splits)

lemma accounted_drop_overflow: "accounted (drop_overflow log_result w) = accounted w"
proof (cases "length (dp_queue (w_disp w)) > dp_queue_limit (w_disp w)")
  case True
  let ?qs = "dp_queue (w_disp w)"
  have "victim_index ?qs < length ?qs"
    using True by (intro victim_index_least_urgent(1)) auto
  then have "mset (op_ids ?qs) = mset (op_ids [?qs ! victim_index ?qs]) +
      mset (op_ids (remove_at (victim_index ?qs) ?qs))"
    using op_ids_remove_at [of "victim_index ?qs" ?qs] by (simp split: option.splits)
  moreover have "accounted w = mset (op_ids ?qs) + mset (map fst (w_results w))"
    by (simp add: accounted_def)
  ultimately show ?thesis
    using True by (simp add: drop_overflow_def Let_def accounted_notify accounted_upd_disp)
qed (simp add: drop_overflow_def)

lemma accounted_send:
  "accounted (snd (disp_send cr ro log_result p prio delay on_result w)) =
     accounted w + (if packet_valid p then mset (case on_result of None \<Rightarrow> [] | Some i \<Rightarrow> [i]) else {#})"
proof (cases "packet_valid p")
  case True
  let ?q = "\<lparr>q_packet = p, q_priority = prio,
                 q_expiry_ms = now_ms w + kExpiryPerPriorityMs * ucast prio,
                 q_not_before_ms = now_ms w + delay, q_seq = dp_next_seq (w_disp w),
                 q_on_result = on_result\<rparr>"
  have "mset (op_ids (queue_insert ?q (dp_queue (w_disp w)))) =
      mset (op_ids (?q # dp_queue (w_disp w)))"
    by (rule op_ids_mset_cong) (simp add: queue_insert_mset)
  then have "accounted (enqueue p prio delay on_result (snd (check_and_mark_seen cr p w))) =
      accounted w + mset (case on_result of None \<Rightarrow> [] | Some i \<Rightarrow> [i])"
    by (simp add: enqueue_def Let_def accounted_upd_disp split: option.splits)
      (simp_all add: accounted_def)
  then show ?thesis
    using True
    by (simp add: disp_send_def Let_def pump_def accounted_pump_rounds accounted_drop_overflow
        del: pump_rounds.simps)
qed (simp add: disp_send_def)

section \<open>Properties\<close>

text \<open>
  C22. The binary search that places a packet in the transmit queue puts it behind everything
  of its priority or more urgent and before the rest, without disturbing either part, so that
  the queue stays ordered by priority and then by age.
\<close>

theorem queue_insert_by_priority:
  assumes "sorted_wrt before qs" "\<forall>e \<in> set qs. aged now e \<and> q_seq e < q_seq q"
    and "q_expiry_ms q = now + kExpiryPerPriorityMs * ucast (q_priority q)"
  shows "queue_insert q qs =
      filter (\<lambda>e. q_priority e \<le> q_priority q) qs @ q # filter (\<lambda>e. q_priority q < q_priority e) qs \<and>
    sorted_wrt before (queue_insert q qs)"
  using queue_insert_eq [OF assms] queue_insert_sorted [OF assms] by simp

definition queued_at :: "nat \<Rightarrow> byte \<Rightarrow> Queued" where
  "queued_at n prio = \<lparr>q_packet = new_packet, q_priority = prio,
     q_expiry_ms = kExpiryPerPriorityMs * ucast prio, q_not_before_ms = 0, q_seq = n, q_on_result = None\<rparr>"

theorem queue_insert_by_priority_witness:
  "queue_insert (queued_at 3 kPriorityDirect) [queued_at 0 kPriorityAck, queued_at 2 kPriorityDirect,
       queued_at 1 kPriorityAdvert] =
     [queued_at 0 kPriorityAck, queued_at 2 kPriorityDirect, queued_at 3 kPriorityDirect,
       queued_at 1 kPriorityAdvert]"
  using queue_insert_by_priority [of "[queued_at 0 kPriorityAck, queued_at 2 kPriorityDirect,
       queued_at 1 kPriorityAdvert]" 0 "queued_at 3 kPriorityDirect"]
  by (simp add: queued_at_def before_def aged_def kPriorityAck_def kPriorityDirect_def kPriorityAdvert_def)

text \<open>
  C9. Every queued operation is reported exactly once: a send adds its operation to those that
  are either still queued or already reported, each once, and pumping the queue moves operations
  from the one to the other without losing or repeating any. A packet that cannot be encoded is
  not accepted and not reported.
\<close>

theorem reported_exactly_once:
  "accounted (snd (disp_send cr ro log_result p prio delay on_result w)) =
     accounted w + (if packet_valid p then mset (case on_result of None \<Rightarrow> [] | Some i \<Rightarrow> [i]) else {#}) \<and>
   accounted (pump ro log_result w) = accounted w"
  by (simp only: accounted_send pump_def accounted_pump_rounds simp_thms)


definition fresh_world :: "u32 \<Rightarrow> bytes list dworld" where
  "fresh_world now = \<lparr>w_loop = new_loop now False, w_radio = [], w_random = (\<lambda>i. 0),
     w_disp = new_dispatcher (params log_radio []) 8\<rparr>"


end
