(* ===== verification/Sender.thy ===== *)
theory Sender
  imports Contacts Dispatcher
begin

text \<open>
  Direct messages retried until acknowledged, \<^verbatim>\<open>src/src/mesh/sender.h\<close> and \<^verbatim>\<open>sender.cpp\<close>, and
  the routing helper of \<^verbatim>\<open>src/src/mesh/routing.h\<close>. The world of the dispatcher gains the contact
  list and the sends still waiting; \<open>on_tx_result\<close> is the callback registered with every packet.
\<close>

section \<open>State\<close>

datatype SendError = NoSharedSecret | PendingFull | TooLong

record Pending =
  pd_id :: nat
  pd_ack_hash :: bytes
  pd_accepted_ack_hashes :: "bytes list"
  pd_dest_pubkey :: bytes
  pd_text :: bytes
  pd_txt_type :: byte
  pd_timestamp :: u32
  pd_attempt :: byte
  pd_timer :: "nat option"

record ReliableSender =
  rs_pending :: "Pending list"
  rs_pending_limit :: nat
  rs_next_id :: nat

record Completion =
  cp_ack_hash :: bytes
  cp_dest_pubkey :: bytes

record 'r sworld = "'r dworld" +
  w_contacts :: ContactStore
  w_sender :: ReliableSender

definition kRetryDelayMs :: "u32 list" where "kRetryDelayMs = [8000, 16000, 32000]"
definition kMaxAttempts :: byte where "kMaxAttempts = 4"
definition kDefaultPendingLimit :: nat where "kDefaultPendingLimit = 64"

definition new_sender :: "nat \<Rightarrow> ReliableSender" where
  "new_sender limit = \<lparr>rs_pending = [], rs_pending_limit = limit, rs_next_id = 1\<rparr>"

definition find_pending :: "nat \<Rightarrow> ('r, 'm) sworld_scheme \<Rightarrow> Pending option" where
  "find_pending i w = find (\<lambda>p. pd_id p = i) (rs_pending (w_sender w))"

definition upd_pending ::
  "nat \<Rightarrow> (Pending \<Rightarrow> Pending) \<Rightarrow> ('r, 'm) sworld_scheme \<Rightarrow> ('r, 'm) sworld_scheme" where
  "upd_pending i f w =
     w\<lparr>w_sender := (w_sender w)\<lparr>rs_pending :=
         map (\<lambda>p. if pd_id p = i then f p else p) (rs_pending (w_sender w))\<rparr>\<rparr>"

text \<open>Dropping an entry drops its timer with it.\<close>

definition erase_pending :: "nat \<Rightarrow> ('r, 'm) sworld_scheme \<Rightarrow> ('r, 'm) sworld_scheme" where
  "erase_pending i w =
     w\<lparr>w_loop := fold (\<lambda>p. reset_timer (pd_timer p))
                   (filter (\<lambda>p. pd_id p = i) (rs_pending (w_sender w))) (w_loop w),
       w_sender := (w_sender w)\<lparr>rs_pending :=
                   filter (\<lambda>p. pd_id p \<noteq> i) (rs_pending (w_sender w))\<rparr>\<rparr>"

section \<open>Retry timers and transmit results\<close>

definition arm_retry :: "nat \<Rightarrow> u32 \<Rightarrow> ('r, 'm) sworld_scheme \<Rightarrow> ('r, 'm) sworld_scheme" where
  "arm_retry i delay w =
     (case find_pending i w of
        None \<Rightarrow> w
      | Some p \<Rightarrow>
          (case add_timer delay (CbRetry i) (w_loop w) of
             (t, lp) \<Rightarrow> upd_pending i (\<lambda>p. p\<lparr>pd_timer := Some t\<rparr>)
                          (w\<lparr>w_loop := reset_timer (pd_timer p) lp\<rparr>)))"

definition retry_delay :: "byte \<Rightarrow> u32" where
  "retry_delay attempt = kRetryDelayMs ! min (unat attempt) (length kRetryDelayMs - 1)"

definition queue_retry :: "nat \<Rightarrow> ('r, 'm) sworld_scheme \<Rightarrow> ('r, 'm) sworld_scheme" where
  "queue_retry i w =
     (case find_pending i w of
        None \<Rightarrow> w
      | Some p \<Rightarrow> arm_retry i (retry_delay (pd_attempt p)) w)"

definition on_tx_result :: "nat \<Rightarrow> bool \<Rightarrow> ('r, 'm) sworld_scheme \<Rightarrow> ('r, 'm) sworld_scheme" where
  "on_tx_result i transmitted w =
     (case find_pending i w of
        None \<Rightarrow> w
      | Some p \<Rightarrow> if transmitted then queue_retry i w else arm_retry i 1 w)"

section \<open>Sending\<close>

definition route_to ::
  "crypto_ops \<Rightarrow> 'r radio_ops \<Rightarrow> Packet \<Rightarrow> Contact \<Rightarrow> byte \<Rightarrow> bool \<Rightarrow> nat option \<Rightarrow>
    ('r, 'm) sworld_scheme \<Rightarrow> bool \<times> ('r, 'm) sworld_scheme" where
  "route_to cr ro p to prio force_flood on_result w =
    (let p' = (if ct_path_known to \<and> \<not> force_flood
               then p\<lparr>route := Direct, path := ct_out_path to, path_hash_size := 1\<rparr>
               else p\<lparr>route := Flood, path := []\<rparr>)
     in disp_send cr ro on_tx_result p' prio 0 on_result w)"

text \<open>The plaintext of an attempt and the key its ack is computed with.\<close>

definition attempt_text :: "Pending \<Rightarrow> bytes" where
  "attempt_text p = text_encode \<lparr>tm_timestamp = pd_timestamp p, tm_txt_type = pd_txt_type p,
     tm_attempt = pd_attempt p, tm_extended_attempt = 0, tm_text = pd_text p\<rparr>"

definition attempt_ack :: "crypto_ops \<Rightarrow> LocalIdentity \<Rightarrow> Pending \<Rightarrow> Contact \<Rightarrow> bytes" where
  "attempt_ack cr self p to =
     message_ack_hash cr (attempt_text p)
       (if pd_txt_type p = kTxtSignedPlain then ct_pubkey to else id_pub self)"

definition note_attempt :: "bytes \<Rightarrow> Pending \<Rightarrow> Pending" where
  "note_attempt ack p =
    (let p1 = (if pd_attempt p = 0 then p\<lparr>pd_ack_hash := ack\<rparr> else p)
     in p1\<lparr>pd_accepted_ack_hashes := pd_accepted_ack_hashes p1 @ [ack]\<rparr>)"

definition attempt_packet :: "crypto_ops \<Rightarrow> LocalIdentity \<Rightarrow> Pending \<Rightarrow> Contact \<Rightarrow> Packet" where
  "attempt_packet cr self p to =
     new_packet\<lparr>ptype := TxtMsg, payload := direct_encode
       (direct_seal cr (contact_id to) (id_pub self ! 0) (contact_secret cr self to) (attempt_text p))\<rparr>"

text \<open>
  One attempt of the operation \<open>p\<close>, which is the entry of that id when it is registered and a
  local of the caller otherwise (id 0).
\<close>

definition send_attempt ::
  "crypto_ops \<Rightarrow> 'r radio_ops \<Rightarrow> LocalIdentity \<Rightarrow> Pending \<Rightarrow> Contact \<Rightarrow> bool \<Rightarrow>
    ('r, 'm) sworld_scheme \<Rightarrow> (SendError + bytes) \<times> ('r, 'm) sworld_scheme" where
  "send_attempt cr ro self p to force_flood w =
    (if contact_secret cr self to = [] then (Inl NoSharedSecret, w)
     else
       let ack = attempt_ack cr self p to;
           w1 = (if pd_id p \<noteq> 0 then upd_pending (pd_id p) (note_attempt ack) w else w);
           flood = (force_flood \<or> \<not> ct_path_known to)
       in case route_to cr ro (attempt_packet cr self p to) to kPriorityDirect flood
                 (if pd_id p \<noteq> 0 then Some (pd_id p) else None) w1 of
            (False, w2) \<Rightarrow> (Inl TooLong, w2)
          | (True, w2) \<Rightarrow> (Inr ack, w2))"

definition same_message :: "Contact \<Rightarrow> bytes \<Rightarrow> byte \<Rightarrow> u32 \<Rightarrow> Pending \<Rightarrow> bool" where
  "same_message to text txt_type timestamp p \<longleftrightarrow> pd_dest_pubkey p = ct_pubkey to \<and>
     pd_timestamp p = timestamp \<and> pd_txt_type p = txt_type \<and> pd_text p = text"

definition new_pending :: "nat \<Rightarrow> Contact \<Rightarrow> bytes \<Rightarrow> byte \<Rightarrow> u32 \<Rightarrow> Pending" where
  "new_pending i to text txt_type timestamp =
     \<lparr>pd_id = i, pd_ack_hash = [], pd_accepted_ack_hashes = [], pd_dest_pubkey = ct_pubkey to,
      pd_text = text, pd_txt_type = txt_type, pd_timestamp = timestamp, pd_attempt = 0,
      pd_timer = None\<rparr>"

definition rs_send ::
  "crypto_ops \<Rightarrow> 'r radio_ops \<Rightarrow> LocalIdentity \<Rightarrow> Contact \<Rightarrow> bytes \<Rightarrow> byte \<Rightarrow> u32 \<Rightarrow>
    ('r, 'm) sworld_scheme \<Rightarrow> (SendError + bytes) \<times> ('r, 'm) sworld_scheme" where
  "rs_send cr ro self to text txt_type timestamp w =
    (let acked = (txt_type \<noteq> kTxtCliData); s = w_sender w
     in if \<not> acked then
          send_attempt cr ro self (new_pending 0 to text txt_type timestamp) to False w
        else case find (same_message to text txt_type timestamp) (rs_pending s) of
               Some d \<Rightarrow> (Inr (pd_ack_hash d), w)
             | None \<Rightarrow>
                 if length (rs_pending s) \<ge> rs_pending_limit s then (Inl PendingFull, w)
                 else
                   let i = rs_next_id s;
                       p = new_pending i to text txt_type timestamp;
                       w1 = w\<lparr>w_sender := s\<lparr>rs_next_id := i + 1, rs_pending := rs_pending s @ [p]\<rparr>\<rparr>
                   in case send_attempt cr ro self p to False w1 of
                        (Inl e, w2) \<Rightarrow> (Inl e, erase_pending i w2)
                      | (Inr ack, w2) \<Rightarrow> (Inr ack, w2))"

definition on_retry ::
  "crypto_ops \<Rightarrow> 'r radio_ops \<Rightarrow> LocalIdentity \<Rightarrow> nat \<Rightarrow> ('r, 'm) sworld_scheme \<Rightarrow>
    ('r, 'm) sworld_scheme" where
  "on_retry cr ro self i w =
     (case find_pending i w of
        None \<Rightarrow> w
      | Some p0 \<Rightarrow>
          let p = p0\<lparr>pd_attempt := pd_attempt p0 + 1\<rparr>;
              w1 = upd_pending i (\<lambda>p. p\<lparr>pd_attempt := pd_attempt p + 1\<rparr>) w
          in if pd_attempt p \<ge> kMaxAttempts then erase_pending i w1
             else case contact_find (pd_dest_pubkey p) (w_contacts w1) of
                    None \<Rightarrow> erase_pending i w1
                  | Some k \<Rightarrow>
                      let last = (pd_attempt p = kMaxAttempts - 1)
                      in case send_attempt cr ro self p (cs_contacts (w_contacts w1) ! k) last w1 of
                           (Inl e, w2) \<Rightarrow> erase_pending i w2
                         | (Inr ack, w2) \<Rightarrow> w2)"

definition answers :: "bytes \<Rightarrow> Pending \<Rightarrow> bool" where
  "answers ack p \<longleftrightarrow> (\<exists>sent \<in> set (pd_accepted_ack_hashes p). equal sent ack)"

definition complete ::
  "bytes \<Rightarrow> ('r, 'm) sworld_scheme \<Rightarrow> Completion option \<times> ('r, 'm) sworld_scheme" where
  "complete ack w =
     (case index_where (answers ack) (rs_pending (w_sender w)) of
        None \<Rightarrow> (None, w)
      | Some k \<Rightarrow>
          let p = rs_pending (w_sender w) ! k
          in (Some \<lparr>cp_ack_hash = pd_ack_hash p, cp_dest_pubkey = pd_dest_pubkey p\<rparr>,
              w\<lparr>w_loop := reset_timer (pd_timer p) (w_loop w),
                w_sender := (w_sender w)\<lparr>rs_pending := remove_at k (rs_pending (w_sender w))\<rparr>\<rparr>))"

section \<open>The sender as a client of the dispatcher\<close>

text \<open>Everything a transmit result can change about a pending send is its timer.\<close>

definition timeless :: "Pending \<Rightarrow> Pending" where
  "timeless p = p\<lparr>pd_timer := None\<rparr>"

definition sender_view ::
  "('r, 'm) sworld_scheme \<Rightarrow> ContactStore \<times> Pending list \<times> nat \<times> nat \<times> 'm" where
  "sender_view w = (w_contacts w, map timeless (rs_pending (w_sender w)),
     rs_pending_limit (w_sender w), rs_next_id (w_sender w), sworld.more w)"

lemma upd_pending_view:
  "(\<And>p. timeless (f p) = timeless p) \<Longrightarrow> sender_view (upd_pending i f w) = sender_view w"
  by (simp add: sender_view_def upd_pending_def comp_def if_distrib cong: if_cong)

lemma arm_retry_simps [simp]:
  "w_disp (arm_retry i d w) = w_disp w" "w_radio (arm_retry i d w) = w_radio w"
  "lp_now (w_loop (arm_retry i d w)) = lp_now (w_loop w)" "sender_view (arm_retry i d w) = sender_view w"
proof -
  have "sender_view (upd_pending i (\<lambda>p. p\<lparr>pd_timer := t\<rparr>) v) = sender_view v" for t and v :: "('a, 'b) sworld_scheme"
    by (rule upd_pending_view) (simp add: timeless_def)
  then show "sender_view (arm_retry i d w) = sender_view w"
    by (simp add: arm_retry_def split: option.splits prod.splits) (simp add: sender_view_def)
qed (simp_all add: arm_retry_def upd_pending_def add_timer_def Let_def split: option.splits)

lemma on_tx_result_simps [simp]:
  "w_disp (on_tx_result i b w) = w_disp w" "w_radio (on_tx_result i b w) = w_radio w"
  "lp_now (w_loop (on_tx_result i b w)) = lp_now (w_loop w)"
  "sender_view (on_tx_result i b w) = sender_view w"
  by (simp_all add: on_tx_result_def queue_retry_def split: option.splits)

interpretation sender: tx_client on_tx_result
  by unfold_locales simp_all

interpretation sender: tx_observed on_tx_result sender_view
  by unfold_locales (rule on_tx_result_simps(4), simp_all add: sender_view_def)

lemma view_pending:
  "sender_view w = sender_view w' \<Longrightarrow> map timeless (rs_pending (w_sender w)) = map timeless (rs_pending (w_sender w'))"
  by (simp add: sender_view_def)

lemma route_to_view [simp]: "sender_view (snd (route_to cr ro p to prio f r w)) = sender_view w"
  by (simp add: route_to_def Let_def)

section \<open>Invariant\<close>

text \<open>
  A pending send has made between one and four attempts, accepts the ack of each of them and
  is known by the first; operation ids are unique and never zero.
\<close>

definition pending_ok :: "Pending \<Rightarrow> bool" where
  "pending_ok p \<longleftrightarrow> pd_id p \<noteq> 0 \<and> unat (pd_attempt p) < 4 \<and>
     length (pd_accepted_ack_hashes p) = Suc (unat (pd_attempt p)) \<and>
     hd (pd_accepted_ack_hashes p) = pd_ack_hash p"

definition pendings_ok :: "nat \<Rightarrow> nat \<Rightarrow> Pending list \<Rightarrow> bool" where
  "pendings_ok limit next_id ps \<longleftrightarrow> list_all pending_ok ps \<and> distinct (map pd_id ps) \<and>
     list_all (\<lambda>p. pd_id p < next_id) ps \<and> length ps \<le> limit"

definition sender_inv :: "('r, 'm) sworld_scheme \<Rightarrow> bool" where
  "sender_inv w \<longleftrightarrow> 0 < rs_next_id (w_sender w) \<and>
     pendings_ok (rs_pending_limit (w_sender w)) (rs_next_id (w_sender w)) (rs_pending (w_sender w))"

lemma timeless_simps [simp]:
  "pd_id (timeless p) = pd_id p" "pd_attempt (timeless p) = pd_attempt p"
  "pd_accepted_ack_hashes (timeless p) = pd_accepted_ack_hashes p"
  "pd_ack_hash (timeless p) = pd_ack_hash p" "pd_dest_pubkey (timeless p) = pd_dest_pubkey p"
  "pending_ok (timeless p) = pending_ok p" "answers a (timeless p) = answers a p"
  by (simp_all add: timeless_def pending_ok_def answers_def)

lemma pendings_ok_timeless: "pendings_ok l n (map timeless ps) = pendings_ok l n ps"
  by (simp add: pendings_ok_def list.pred_map comp_def)

lemma sender_inv_view: "sender_view w = sender_view w' \<Longrightarrow> sender_inv w = sender_inv w'"
  unfolding sender_inv_def
  by (subst (1 2) pendings_ok_timeless [symmetric]) (simp add: sender_view_def)

lemma pendings_ok_filter: "pendings_ok l n ps \<Longrightarrow> pendings_ok l n (filter P ps)"
  by (auto simp: pendings_ok_def list_all_iff distinct_map_filter intro: order_trans [OF length_filter_le])

lemma erase_pending_sender [simp]:
  "rs_pending (w_sender (erase_pending i w)) = filter (\<lambda>p. pd_id p \<noteq> i) (rs_pending (w_sender w))"
  "rs_pending_limit (w_sender (erase_pending i w)) = rs_pending_limit (w_sender w)"
  "rs_next_id (w_sender (erase_pending i w)) = rs_next_id (w_sender w)"
  "w_contacts (erase_pending i w) = w_contacts w"
  by (simp_all add: erase_pending_def)

lemma erase_pending_inv: "sender_inv w \<Longrightarrow> sender_inv (erase_pending i w)"
  by (simp add: sender_inv_def pendings_ok_filter)

lemma upd_pending_sender [simp]:
  "rs_pending (w_sender (upd_pending i f w)) =
     map (\<lambda>p. if pd_id p = i then f p else p) (rs_pending (w_sender w))"
  "rs_pending_limit (w_sender (upd_pending i f w)) = rs_pending_limit (w_sender w)"
  "rs_next_id (w_sender (upd_pending i f w)) = rs_next_id (w_sender w)"
  "w_contacts (upd_pending i f w) = w_contacts w"
  by (simp_all add: upd_pending_def)

lemma note_attempt_id [simp]: "pd_id (note_attempt a p) = pd_id p"
  by (simp add: note_attempt_def Let_def)

lemma send_attempt_view:
  "sender_view (snd (send_attempt cr ro self p to f w)) =
     sender_view (if contact_secret cr self to \<noteq> [] \<and> pd_id p \<noteq> 0
                  then upd_pending (pd_id p) (note_attempt (attempt_ack cr self p to)) w else w)"
proof -
  have routed: "sender_view w2 = sender_view v"
    if "route_to cr ro q to prio fl r v = (b, w2)" for q prio fl r v b w2
    using route_to_view [of cr ro q to prio fl r v] that by simp
  show ?thesis
    by (auto simp: send_attempt_def Let_def routed split: prod.splits bool.splits)
qed

text \<open>The sends left after an operation, up to their timers.\<close>

lemma erase_after_view:
  assumes "sender_view w' = sender_view w"
  shows "sender_inv w \<Longrightarrow> sender_inv (erase_pending i w')"
  using sender_inv_view [OF assms] erase_pending_inv by blast

lemma filter_timeless: "map timeless (filter (\<lambda>p. pd_id p \<noteq> i) ps) = filter (\<lambda>p. pd_id p \<noteq> i) (map timeless ps)"
  by (simp add: filter_map comp_def)

lemma erase_cong:
  assumes "sender_view w' = sender_view v"
    "map timeless (filter (\<lambda>p. pd_id p \<noteq> i) (rs_pending (w_sender v))) = map timeless ps"
    "pendings_ok (rs_pending_limit (w_sender v)) (rs_next_id (w_sender v)) ps"
    "0 < rs_next_id (w_sender v)"
  shows "sender_inv (erase_pending i w')"
proof -
  have "map timeless (rs_pending (w_sender (erase_pending i w'))) = map timeless ps"
    using assms(1,2) by (simp add: sender_view_def filter_timeless)
  then show ?thesis
    using assms unfolding sender_inv_def
    by (subst pendings_ok_timeless [symmetric]) (simp add: sender_view_def pendings_ok_timeless)
qed

lemma cli_send_view:
  "sender_view (snd (send_attempt cr ro self (new_pending 0 to text txt_type timestamp) to f w)) = sender_view w"
  by (simp add: send_attempt_view new_pending_def)

text \<open>A send that registers: the entry it adds, and what is left of it when it fails.\<close>

lemma register_pending:
  fixes w :: "('r, 'm) sworld_scheme"
  assumes "sender_inv w" "length (rs_pending (w_sender w)) < rs_pending_limit (w_sender w)"
    and "p = new_pending (rs_next_id (w_sender w)) to tx txt_type timestamp"
    and "w1 = w\<lparr>w_sender := (w_sender w)\<lparr>rs_next_id := rs_next_id (w_sender w) + 1,
            rs_pending := rs_pending (w_sender w) @ [p]\<rparr>\<rparr>"
  shows "sender_inv (upd_pending (pd_id p) (note_attempt a) w1)"
    and "rs_pending (w_sender (upd_pending (pd_id p) (note_attempt a) w1)) =
      rs_pending (w_sender w) @ [note_attempt a p]"
    and "sender_view w2 = sender_view (upd_pending (pd_id p) (note_attempt a) w1) \<or>
      sender_view w2 = sender_view w1 \<Longrightarrow> sender_inv (erase_pending (pd_id p) w2)"
    and "pd_id p \<noteq> 0"
proof -
  let ?ps = "rs_pending (w_sender w)"
  have pid: "pd_id p = rs_next_id (w_sender w)" "pd_attempt p = 0" "pd_accepted_ack_hashes p = []"
    by (simp_all add: assms(3) new_pending_def)
  have fresh: "\<forall>q \<in> set ?ps. pd_id q \<noteq> pd_id p"
    using assms(1) by (auto simp: sender_inv_def pendings_ok_def list_all_iff pid)
  show "pd_id p \<noteq> 0"
    using assms(1) by (simp add: sender_inv_def pid)
  show eq: "rs_pending (w_sender (upd_pending (pd_id p) (note_attempt a) w1)) = ?ps @ [note_attempt a p]"
    using fresh by (simp add: assms(4) map_idI)
  show "sender_inv (upd_pending (pd_id p) (note_attempt a) w1)"
    unfolding sender_inv_def eq
    using assms(1,2) fresh pid
    by (auto simp: assms(4) sender_inv_def pendings_ok_def list_all_iff pending_ok_def
        note_attempt_def Let_def less_Suc_eq)
  have ok: "pendings_ok (rs_pending_limit (w_sender w)) (Suc (rs_next_id (w_sender w))) ?ps"
    using assms(1) by (auto simp: sender_inv_def pendings_ok_def list_all_iff less_Suc_eq)
  have gone: "sender_inv (erase_pending (pd_id p) w2)"
    if "sender_view w2 = sender_view v" "rs_pending (w_sender v) = ?ps @ [r]" "pd_id r = pd_id p"
      "rs_pending_limit (w_sender v) = rs_pending_limit (w_sender w)"
      "rs_next_id (w_sender v) = Suc (rs_next_id (w_sender w))" for v :: "('r, 'm) sworld_scheme" and r
    by (rule erase_cong [OF that(1), where ps = ?ps])
      (use that(2-5) ok fresh in \<open>simp_all add: filter_True\<close>)
  show "sender_inv (erase_pending (pd_id p) w2)"
    if "sender_view w2 = sender_view (upd_pending (pd_id p) (note_attempt a) w1) \<or>
      sender_view w2 = sender_view w1"
    using that
  proof
    assume "sender_view w2 = sender_view (upd_pending (pd_id p) (note_attempt a) w1)"
    from gone [OF this eq] show ?thesis
      by (simp add: assms(4))
  next
    assume "sender_view w2 = sender_view w1"
    then show ?thesis
      by (rule gone [of _ p]) (simp_all add: assms(4))
  qed
qed

lemma rs_send_inv:
  assumes "sender_inv w"
  shows "sender_inv (snd (rs_send cr ro self to text txt_type timestamp w))"
proof -
  let ?s = "w_sender w"
  let ?p = "new_pending (rs_next_id ?s) to text txt_type timestamp"
  let ?w1 = "w\<lparr>w_sender := ?s\<lparr>rs_next_id := rs_next_id ?s + 1, rs_pending := rs_pending ?s @ [?p]\<rparr>\<rparr>"
  let ?ack = "attempt_ack cr self ?p to"
  have id: "pd_id ?p = rs_next_id ?s"
    by (simp add: new_pending_def)
  consider (cli) "txt_type = kTxtCliData"
    | (noop) "txt_type \<noteq> kTxtCliData"
        "find (same_message to text txt_type timestamp) (rs_pending ?s) \<noteq> None \<or>
         rs_pending_limit ?s \<le> length (rs_pending ?s)"
    | (reg) "txt_type \<noteq> kTxtCliData" "length (rs_pending ?s) < rs_pending_limit ?s"
        "find (same_message to text txt_type timestamp) (rs_pending ?s) = None"
    by (meson not_le)
  then show ?thesis
  proof cases
    case cli
    then show ?thesis
      using sender_inv_view [OF cli_send_view, of cr ro self to "text" txt_type timestamp False w] assms
      by (simp add: rs_send_def)
  next
    case noop
    then show ?thesis
      using assms by (auto simp: rs_send_def Let_def split: option.splits)
  next
    case reg
    note new = register_pending(1-3) [OF assms reg(2) refl refl, where to = to and tx = "text" and
        txt_type = txt_type and timestamp = timestamp and a = ?ack]
    note nz = register_pending(4) [OF assms reg(2) refl refl, where to = to and tx = "text" and
        txt_type = txt_type and timestamp = timestamp]
    obtain res w2 where sa: "send_attempt cr ro self ?p to False ?w1 = (res, w2)"
      by fastforce
    have view: "sender_view w2 = sender_view (if contact_secret cr self to \<noteq> []
        then upd_pending (pd_id ?p) (note_attempt ?ack) ?w1 else ?w1)"
      using send_attempt_view [of cr ro self ?p to False ?w1] sa nz by simp
    have "sender_inv (erase_pending (pd_id ?p) w2)"
      using view new(3) [of w2] by (simp split: if_splits)
    moreover have "sender_inv w2" if "res = Inr a" for a
      using that sa view sender_inv_view [of w2] new(1)
      by (auto simp: send_attempt_def split: if_splits)
    ultimately show ?thesis
      using reg sa id by (cases res) (auto simp: rs_send_def Let_def)
  qed
qed

lemma find_pending_Some:
  "find_pending i w = Some p \<Longrightarrow> p \<in> set (rs_pending (w_sender w)) \<and> pd_id p = i"
  unfolding find_pending_def by (drule find_Some_in_set) simp

lemma filter_upd:
  "(\<And>p. pd_id (f p) = pd_id p) \<Longrightarrow>
     filter (\<lambda>p. pd_id p \<noteq> i) (map (\<lambda>p. if pd_id p = i then f p else p) ps) =
     filter (\<lambda>p. pd_id p \<noteq> i) ps"
  by (induction ps) auto

lemma next_attempt_ok:
  assumes "pending_ok p" "\<not> pd_attempt p + 1 \<ge> kMaxAttempts"
  shows "pending_ok (note_attempt a (p\<lparr>pd_attempt := pd_attempt p + 1\<rparr>))"
proof -
  have less: "unat (pd_attempt p) < 4"
    using assms(1) by (simp add: pending_ok_def)
  then have "unat (pd_attempt p + 1) = Suc (unat (pd_attempt p))"
    by (simp add: unatSuc word_unat_eq_iff unat_plus_if')
  moreover from this have "pd_attempt p + 1 \<noteq> 0"
    by auto
  moreover have "unat (pd_attempt p + 1) < 4"
    using assms(2) by (simp add: kMaxAttempts_def not_le word_less_nat_alt)
  moreover have "pd_accepted_ack_hashes p \<noteq> []"
    using assms(1) by (auto simp: pending_ok_def)
  ultimately show ?thesis
    using assms(1) by (simp add: pending_ok_def note_attempt_def)
qed

lemma retried_inv:
  assumes "sender_inv w" "find_pending i w = Some p0" "\<not> pd_attempt p0 + 1 \<ge> kMaxAttempts"
  shows "sender_inv (upd_pending i (note_attempt a) (upd_pending i (\<lambda>p. p\<lparr>pd_attempt := pd_attempt p + 1\<rparr>) w))"
proof -
  let ?ps = "rs_pending (w_sender w)"
  let ?f = "\<lambda>p. if pd_id p = i then note_attempt a (p\<lparr>pd_attempt := pd_attempt p + 1\<rparr>) else p"
  have p0: "p0 \<in> set ?ps" "pd_id p0 = i"
    using find_pending_Some [OF assms(2)] by auto
  have all_ok: "pending_ok p" if "p \<in> set ?ps" for p
    using assms(1) that by (simp add: sender_inv_def pendings_ok_def list_all_iff)
  have "distinct (map pd_id ?ps)"
    using assms(1) by (simp add: sender_inv_def pendings_ok_def)
  then have only: "p = p0" if "p \<in> set ?ps" "pd_id p = i" for p
    using p0 that by (metis distinct_map inj_onD)
  have ok: "pending_ok (?f p)" if "p \<in> set ?ps" for p
    using only [OF that] all_ok [OF that] next_attempt_ok [OF all_ok [OF p0(1)] assms(3), of a]
    by (cases "pd_id p = i") simp_all
  have ids: "pd_id (?f p) = pd_id p" for p
    by simp
  have eq: "map (\<lambda>p. if pd_id p = i then note_attempt a p else p)
      (map (\<lambda>p. if pd_id p = i then p\<lparr>pd_attempt := pd_attempt p + 1\<rparr> else p) ?ps) = map ?f ?ps"
    by simp
  have "pendings_ok l n (map g ps)"
    if "pendings_ok l n ps" "\<And>p. p \<in> set ps \<Longrightarrow> pending_ok (g p)" "\<And>p. pd_id (g p) = pd_id p"
    for l n ps and g :: "Pending \<Rightarrow> Pending"
    using that by (simp add: pendings_ok_def list_all_iff comp_def)
  from this [OF _ ok ids]
  have "pendings_ok (rs_pending_limit (w_sender w)) (rs_next_id (w_sender w)) (map ?f ?ps)"
    using assms(1) by (simp only: sender_inv_def)
  then show ?thesis
    using assms(1) by (simp only: sender_inv_def upd_pending_sender eq)
qed

lemma on_retry_inv:
  assumes "sender_inv w"
  shows "sender_inv (on_retry cr ro self i w)"
proof (cases "find_pending i w")
  case None
  then show ?thesis
    using assms by (simp add: on_retry_def)
next
  case (Some p0)
  let ?p = "p0\<lparr>pd_attempt := pd_attempt p0 + 1\<rparr>"
  let ?w1 = "upd_pending i (\<lambda>p. p\<lparr>pd_attempt := pd_attempt p + 1\<rparr>) w"
  have id: "pd_id p0 = i" "i \<noteq> 0"
    using find_pending_Some [OF Some] assms
    by (auto simp: sender_inv_def pendings_ok_def list_all_iff pending_ok_def)
  have erased: "sender_inv (erase_pending i v)" if "sender_view v = sender_view ?w1 \<or>
      sender_view v = sender_view (upd_pending i (note_attempt a) ?w1)" for v a
    by (rule disjE [OF that];
        erule erase_cong [where ps = "filter (\<lambda>p. pd_id p \<noteq> i) (rs_pending (w_sender w))"])
      (use assms in \<open>auto simp: filter_upd sender_inv_def pendings_ok_filter simp del: map_map\<close>)
  show ?thesis
  proof (cases "pd_attempt ?p \<ge> kMaxAttempts \<or> contact_find (pd_dest_pubkey p0) (w_contacts w) = None")
    case True
    then show ?thesis
      using Some erased [of ?w1] by (auto simp: on_retry_def Let_def split: option.splits)
  next
    case False
    then obtain k where k: "contact_find (pd_dest_pubkey p0) (w_contacts w) = Some k"
      by auto
    let ?to = "cs_contacts (w_contacts w) ! k"
    obtain res w2 where sa: "send_attempt cr ro self ?p ?to (pd_attempt ?p = kMaxAttempts - 1) ?w1 = (res, w2)"
      by fastforce
    have view: "sender_view w2 = sender_view (if contact_secret cr self ?to \<noteq> []
        then upd_pending i (note_attempt (attempt_ack cr self ?p ?to)) ?w1 else ?w1)"
      using send_attempt_view [of cr ro self ?p ?to "pd_attempt ?p = kMaxAttempts - 1" ?w1] sa id by simp
    have "sender_inv (erase_pending i w2)"
      using view erased by (auto split: if_splits)
    moreover have "sender_inv w2" if "res = Inr a" for a
      using that sa view retried_inv [OF assms Some] False sender_inv_view [of w2]
      by (auto simp: send_attempt_def split: if_splits)
    ultimately show ?thesis
      using Some False k sa by (cases res) (auto simp: on_retry_def Let_def)
  qed
qed

lemma complete_inv:
  assumes "sender_inv w"
  shows "sender_inv (snd (complete ack w))"
  using assms remove_at_set [THEN subsetD] length_remove_at_le
  by (fastforce simp: complete_def Let_def sender_inv_def pendings_ok_def list_all_iff
      distinct_map_remove_at split: option.splits intro: order_trans)

section \<open>Retries end\<close>

lemma find_timeless:
  "find (\<lambda>p. pd_id p = i) (map timeless ps) = map_option timeless (find (\<lambda>p. pd_id p = i) ps)"
  by (induction ps) auto

lemma find_pending_view:
  "sender_view w = sender_view w' \<Longrightarrow>
     map_option timeless (find_pending i w) = map_option timeless (find_pending i w')"
  by (simp add: find_pending_def sender_view_def flip: find_timeless)

lemma find_upd:
  "(\<And>p. pd_id (f p) = pd_id p) \<Longrightarrow>
     find (\<lambda>p. pd_id p = i) (map (\<lambda>p. if pd_id p = i then f p else p) ps) =
     map_option f (find (\<lambda>p. pd_id p = i) ps)"
  by (induction ps) auto

lemma find_erased [simp]: "find_pending i (erase_pending i w) = None"
  by (simp add: find_pending_def find_None_all)

lemma note_attempt_attempt [simp]: "pd_attempt (note_attempt a p) = pd_attempt p"
  by (simp add: note_attempt_def Let_def)

text \<open>A retry either moves the operation to its next attempt or ends it.\<close>

lemma on_retry_progress:
  assumes "find_pending i w = Some p" "find_pending i (on_retry cr ro self i w) = Some p'" "i \<noteq> 0"
  shows "pd_attempt p' = pd_attempt p + 1" "pd_attempt p' < kMaxAttempts"
proof -
  let ?p = "p\<lparr>pd_attempt := pd_attempt p + 1\<rparr>"
  let ?w1 = "upd_pending i (\<lambda>p. p\<lparr>pd_attempt := pd_attempt p + 1\<rparr>) w"
  have id: "pd_id p = i"
    using find_pending_Some [OF assms(1)] by simp
  obtain k where k: "contact_find (pd_dest_pubkey p) (w_contacts w) = Some k"
      "\<not> pd_attempt ?p \<ge> kMaxAttempts"
    using assms(1,2) by (auto simp: on_retry_def Let_def split: if_splits option.splits)
  let ?to = "cs_contacts (w_contacts w) ! k"
  obtain res w2 where sa: "send_attempt cr ro self ?p ?to (pd_attempt ?p = kMaxAttempts - 1) ?w1 = (res, w2)"
    by fastforce
  then obtain ack where "res = Inr ack" and r: "on_retry cr ro self i w = w2"
    using assms(1,2) k by (cases res) (auto simp: on_retry_def Let_def)
  then have "sender_view w2 = sender_view (upd_pending i (note_attempt (attempt_ack cr self ?p ?to)) ?w1)"
    using send_attempt_view [of cr ro self ?p ?to "pd_attempt ?p = kMaxAttempts - 1" ?w1] sa id assms(3)
    by (auto simp: send_attempt_def split: if_splits)
  from find_pending_view [OF this, of i] have "pd_attempt p' = pd_attempt p + 1"
    using assms(1,2) r
    by (auto simp: find_pending_def find_upd simp del: map_map dest!: arg_cong [of _ _ pd_attempt])
  then show "pd_attempt p' = pd_attempt p + 1" "pd_attempt p' < kMaxAttempts"
    using k(2) by auto
qed

lemma on_retry_gone: "find_pending i w = None \<Longrightarrow> find_pending i (on_retry cr ro self i w) = None"
  by (simp add: on_retry_def)

lemma retries_end:
  assumes "i \<noteq> 0" "\<And>p. find_pending i w = Some p \<Longrightarrow> unat (pd_attempt p) < 4 \<and> 4 \<le> unat (pd_attempt p) + n"
  shows "find_pending i ((on_retry cr ro self i ^^ n) w) = None"
  using assms(2)
proof (induction n arbitrary: w)
  case 0
  then show ?case
    by (cases "find_pending i w") auto
next
  case (Suc n)
  have "unat (pd_attempt p') < 4 \<and> 4 \<le> unat (pd_attempt p') + n"
    if p': "find_pending i (on_retry cr ro self i w) = Some p'" for p'
  proof -
    obtain p where p: "find_pending i w = Some p"
      using p' on_retry_gone [of i w] by (cases "find_pending i w") auto
    note step = on_retry_progress [OF p p' assms(1)]
    have "unat (pd_attempt p) < 4" "4 \<le> unat (pd_attempt p) + Suc n"
      using Suc.prems [OF p] by auto
    moreover from this have "unat (pd_attempt p + 1) = Suc (unat (pd_attempt p))"
      by (simp add: unatSuc word_unat_eq_iff unat_plus_if')
    ultimately show ?thesis
      using step by (simp add: kMaxAttempts_def word_less_nat_alt)
  qed
  then show ?case
    using Suc.IH [of "on_retry cr ro self i w"] by (simp add: funpow_swap1)
qed

section \<open>Acks\<close>

lemma complete_reports_first:
  assumes "sender_inv w" "complete ack w = (Some done, w')"
  shows "\<exists>p \<in> set (rs_pending (w_sender w)). answers ack p \<and> cp_dest_pubkey done = pd_dest_pubkey p \<and>
      cp_ack_hash done = hd (pd_accepted_ack_hashes p) \<and>
      rs_pending (w_sender w') = filter (\<lambda>q. pd_id q \<noteq> pd_id p) (rs_pending (w_sender w))"
proof -
  let ?ps = "rs_pending (w_sender w)"
  obtain k where k: "index_where (answers ack) ?ps = Some k"
    and d: "done = \<lparr>cp_ack_hash = pd_ack_hash (?ps ! k), cp_dest_pubkey = pd_dest_pubkey (?ps ! k)\<rparr>"
    and w': "rs_pending (w_sender w') = remove_at k ?ps"
    using assms(2) by (auto simp: complete_def Let_def split: option.splits)
  have len: "k < length ?ps" and a: "answers ack (?ps ! k)"
    using index_where_Some [OF k] by auto
  have dist: "distinct (map pd_id ?ps)" and ok: "pending_ok (?ps ! k)"
    using assms(1) len by (auto simp: sender_inv_def pendings_ok_def list_all_length)
  have "remove_at k ?ps = filter (\<lambda>q. pd_id q \<noteq> pd_id (?ps ! k)) ?ps"
    using dist index_where_key [OF dist len refl] by (rule remove_at_key)
  then show ?thesis
    using len a d w' ok by (intro bexI [of _ "?ps ! k"]) (auto simp: pending_ok_def)
qed

lemma complete_none:
  "fst (complete ack w) = None \<longleftrightarrow> (\<forall>p \<in> set (rs_pending (w_sender w)). \<not> answers ack p)"
proof (cases "index_where (answers ack) (rs_pending (w_sender w))")
  case (Some k)
  then show ?thesis
    using index_where_Some [OF Some] nth_mem by (auto simp: complete_def Let_def)
next
  case None
  then have "fst (complete ack w) = None"
    by (simp add: complete_def)
  moreover have "\<forall>p \<in> set (rs_pending (w_sender w)). \<not> answers ack p"
    using None by (simp add: index_where_None)
  ultimately show ?thesis
    by (simp only: simp_thms)
qed

text \<open>The ack a send is told to wait for completes it.\<close>

lemma send_is_pending:
  assumes "sender_inv w" "rs_send cr ro self to tx txt_type timestamp w = (Inr ack, w')"
    and "txt_type \<noteq> kTxtCliData"
  shows "\<exists>p \<in> set (rs_pending (w_sender w')). answers ack p \<and> pd_ack_hash p = ack \<and>
     same_message to tx txt_type timestamp p"
proof -
  let ?s = "w_sender w"
  let ?p = "new_pending (rs_next_id ?s) to tx txt_type timestamp"
  let ?w1 = "w\<lparr>w_sender := ?s\<lparr>rs_next_id := rs_next_id ?s + 1, rs_pending := rs_pending ?s @ [?p]\<rparr>\<rparr>"
  let ?ack = "attempt_ack cr self ?p to"
  show ?thesis
  proof (cases "find (same_message to tx txt_type timestamp) (rs_pending ?s)")
    case (Some d)
    then have d: "d \<in> set (rs_pending ?s)" "same_message to tx txt_type timestamp d"
      using find_Some_in_set by metis+
    have "pending_ok d"
      using assms(1) d(1) by (simp add: sender_inv_def pendings_ok_def list_all_iff)
    then have "pd_accepted_ack_hashes d \<noteq> []" "hd (pd_accepted_ack_hashes d) = pd_ack_hash d"
      by (auto simp: pending_ok_def)
    then have "answers (pd_ack_hash d) d"
      unfolding answers_def equal_def by (metis hd_in_set)
    then show ?thesis
      using Some assms(2,3) d by (auto simp: rs_send_def Let_def)
  next
    case None
    have room: "length (rs_pending ?s) < rs_pending_limit ?s"
      using None assms(2,3) by (auto simp: rs_send_def Let_def not_le split: if_splits)
    note new = register_pending [OF assms(1) room refl refl]
    have sa: "send_attempt cr ro self ?p to False ?w1 = (Inr ack, w')"
      using None room assms(2,3) by (auto simp: rs_send_def Let_def split: prod.splits sum.splits)
    then have a: "ack = ?ack" and view: "sender_view w' = sender_view (upd_pending (pd_id ?p) (note_attempt ?ack) ?w1)"
      using send_attempt_view [of cr ro self ?p to False ?w1] new(4)
      by (auto simp: send_attempt_def Let_def split: if_splits prod.splits bool.splits)
    have eq: "map timeless (rs_pending (w_sender w')) =
        map timeless (rs_pending ?s @ [note_attempt ?ack ?p])"
      using view_pending [OF view] by (simp only: new(2))
    have "timeless (note_attempt ?ack ?p) \<in> set (map timeless (rs_pending (w_sender w')))"
      unfolding eq by simp
    then obtain q where q: "timeless q = timeless (note_attempt ?ack ?p)" "q \<in> set (rs_pending (w_sender w'))"
      unfolding set_map by (elim imageE) simp
    have t: "answers ?ack (timeless (note_attempt ?ack ?p))"
      "pd_ack_hash (timeless (note_attempt ?ack ?p)) = ?ack"
      "same_message to tx txt_type timestamp (timeless (note_attempt ?ack ?p))"
      by (simp_all add: answers_def equal_def note_attempt_def new_pending_def timeless_def same_message_def)
    have "same_message to tx txt_type timestamp q"
      using t(3) unfolding q(1) [symmetric] by (simp add: same_message_def timeless_def)
    then show ?thesis
      using q(2) t(1,2) a unfolding q(1) [symmetric] by auto
  qed
qed

text \<open>The retry ladder: the pause before the next attempt starts when this one is on the air.\<close>

lemma transmitted_arms_retry:
  assumes "find_pending i w = Some p" "\<And>t. pd_timer p = Some t \<Longrightarrow> t < lp_next_timer (w_loop w)"
  shows "\<exists>t q. (t, q) \<in> set (lp_timers (w_loop (on_tx_result i True w))) \<and> te_cb q = CbRetry i \<and>
     te_due q = now_ms w + retry_delay (pd_attempt p) \<and> te_interval q = 0 \<and> \<not> te_dead q"
proof -
  let ?q = "\<lparr>te_due = now_ms w + retry_delay (pd_attempt p), te_interval = 0, te_cb = CbRetry i,
      te_dead = False\<rparr>"
  let ?t = "lp_next_timer (w_loop w)"
  have kept: "(?t, e) \<in> set (lp_timers (reset_timer h lp))"
    if "(?t, e) \<in> set (lp_timers lp)" "h \<noteq> Some ?t" for e h lp
    using that by (force simp: reset_timer_def cancel_timer_def upd_entry_def split: option.splits)
  have "pd_timer p \<noteq> Some ?t"
    using assms(2) by force
  then have "(?t, ?q) \<in> set (lp_timers (w_loop (on_tx_result i True w)))"
    using assms(1) kept [of ?q "snd (add_timer (retry_delay (pd_attempt p)) (CbRetry i) (w_loop w))" "pd_timer p"]
    by (simp add: on_tx_result_def queue_retry_def arm_retry_def upd_pending_def add_timer_def Let_def)
  then show ?thesis
    by (intro exI conjI) auto
qed

section \<open>The sender keeps the transmit queue sound\<close>

lemma disp_inv_cong: "w_disp w = w_disp w' \<Longrightarrow> disp_inv w = disp_inv w'"
  by (simp add: disp_inv_def queue_valid_def)

lemma pending_disp [simp]:
  "w_disp (upd_pending i f w) = w_disp w" "w_disp (erase_pending i w) = w_disp w"
  by (simp_all add: upd_pending_def erase_pending_def)

lemma disp_inv_pending [simp]:
  "disp_inv (upd_pending i f w) = disp_inv w" "disp_inv (erase_pending i w) = disp_inv w"
  by (simp_all cong: disp_inv_cong add: disp_inv_def queue_valid_def)

lemma route_to_disp_inv: "disp_inv w \<Longrightarrow> disp_inv (snd (route_to cr ro p to prio f r w))"
  unfolding route_to_def Let_def by (rule sender.send_inv)

lemma send_attempt_world:
  "snd (send_attempt cr ro self p to f w) =
    (if contact_secret cr self to = [] then w
     else snd (route_to cr ro (attempt_packet cr self p to) to kPriorityDirect (f \<or> \<not> ct_path_known to)
       (if pd_id p \<noteq> 0 then Some (pd_id p) else None)
       (if pd_id p \<noteq> 0 then upd_pending (pd_id p) (note_attempt (attempt_ack cr self p to)) w else w)))"
  by (auto simp: send_attempt_def Let_def split: prod.splits bool.splits)

lemma send_attempt_disp_inv: "disp_inv w \<Longrightarrow> disp_inv (snd (send_attempt cr ro self p to f w))"
  unfolding send_attempt_world by (simp add: route_to_disp_inv)

lemma rs_send_disp_inv:
  assumes "disp_inv w"
  shows "disp_inv (snd (rs_send cr ro self to tx tt ts w))"
proof -
  have reg: "disp_inv (w\<lparr>w_sender := s\<rparr>)" for s
    using assms by (simp add: disp_inv_def queue_valid_def)
  show ?thesis
    using assms send_attempt_disp_inv [OF assms] send_attempt_disp_inv [OF reg]
    by (simp add: rs_send_def Let_def case_prod_unfold split: option.splits sum.splits)
qed

lemma on_retry_disp_inv:
  assumes "disp_inv w"
  shows "disp_inv (on_retry cr ro self i w)"
  using assms send_attempt_disp_inv [of "upd_pending i f w" for f]
  by (simp add: on_retry_def Let_def case_prod_unfold split: option.splits sum.splits)

lemma complete_disp [simp]: "w_disp (snd (complete ack w)) = w_disp w"
  by (simp add: complete_def Let_def split: option.splits)

section \<open>What sending leaves alone\<close>

lemma pending_frame [simp]:
  "sworld.more (upd_pending i f w) = sworld.more w" "sworld.more (erase_pending i w) = sworld.more w"
  by (simp_all add: upd_pending_def erase_pending_def)

lemma send_attempt_frame [simp]:
  "w_contacts (snd (send_attempt cr ro self p to f w)) = w_contacts w"
  "sworld.more (snd (send_attempt cr ro self p to f w)) = sworld.more w"
  using send_attempt_view [of cr ro self p to f w] by (auto simp: sender_view_def split: if_splits)

lemma rs_send_frame [simp]:
  "w_contacts (snd (rs_send cr ro self to tx tt ts w)) = w_contacts w"
  "sworld.more (snd (rs_send cr ro self to tx tt ts w)) = sworld.more w"
  by (simp_all add: rs_send_def Let_def case_prod_unfold split: option.split sum.split)

lemma on_retry_frame [simp]:
  "w_contacts (on_retry cr ro self i w) = w_contacts w"
  "sworld.more (on_retry cr ro self i w) = sworld.more w"
  by (simp_all add: on_retry_def Let_def case_prod_unfold split: option.split sum.split)

lemma complete_frame [simp]:
  "w_contacts (snd (complete ack w)) = w_contacts w"
  "sworld.more (snd (complete ack w)) = sworld.more w"
  by (simp_all add: complete_def Let_def split: option.splits)

lemma complete_disp_inv [simp]: "disp_inv (snd (complete ack w)) = disp_inv w"
  by (rule disp_inv_cong) simp

section \<open>Properties\<close>

text \<open>
  The sender's and the dispatcher's state stay sound through every operation: at most the
  configured number of messages are pending, with distinct identities, each with one
  acknowledgement hash per attempt made and at most four attempts; and the transmit queue is
  within its limit and holds only packets that fit the air.
\<close>

theorem sender_keeps_invariants:
  assumes "sender_inv w" "disp_inv w"
  shows "sender_inv (snd (rs_send cr ro self to tx tt ts w)) \<and> disp_inv (snd (rs_send cr ro self to tx tt ts w)) \<and>
    sender_inv (on_retry cr ro self i w) \<and> disp_inv (on_retry cr ro self i w) \<and>
    sender_inv (snd (complete ack w)) \<and> disp_inv (snd (complete ack w)) \<and>
    sender_inv (pump ro on_tx_result w) \<and> disp_inv (pump ro on_tx_result w)"
  using rs_send_inv [OF assms(1)] rs_send_disp_inv [OF assms(2)] on_retry_inv [OF assms(1)]
    on_retry_disp_inv [OF assms(2)] complete_inv [OF assms(1)] assms
    disp_inv_cong [OF complete_disp, of ack w] sender.pump_inv [OF assms(2)]
    sender_inv_view [OF sender.obs_pump, of ro w]
  by simp

definition fresh_sender :: "bytes list sworld" where
  "fresh_sender = \<lparr>w_loop = new_loop 0 False, w_radio = [], w_random = (\<lambda>i. 0),
     w_disp = new_dispatcher (params log_radio []) 8, w_contacts = one_contact,
     w_sender = new_sender 4\<rparr>"

lemma fresh_sender_inv: "sender_inv fresh_sender" "disp_inv fresh_sender"
  by (simp_all add: fresh_sender_def sender_inv_def pendings_ok_def new_sender_def disp_inv_def
      queue_valid_def new_dispatcher_def)

definition example_identity :: LocalIdentity where
  "example_identity = \<lparr>id_pub = replicate 32 1, id_priv = replicate 64 1\<rparr>"

theorem sender_keeps_invariants_witness:
  "sender_inv (snd (rs_send plain_crypto log_radio example_identity (new_contact (replicate 32 7)) [104, 105]
     kTxtPlain 9 fresh_sender))"
  using sender_keeps_invariants [OF fresh_sender_inv] by blast

text \<open>
  C23. Retrying ends: after four expiries of its retry timer a message is no longer pending, and
  a retry that keeps it pending has made the next attempt, of at most four.
\<close>

theorem retries_are_bounded:
  assumes "sender_inv w" "i \<noteq> 0"
  shows "find_pending i ((on_retry cr ro self i ^^ 4) w) = None \<and>
    (\<forall>p p'. find_pending i w = Some p \<longrightarrow> find_pending i (on_retry cr ro self i w) = Some p' \<longrightarrow>
       pd_attempt p' = pd_attempt p + 1 \<and> pd_attempt p' < kMaxAttempts)"
proof -
  have "unat (pd_attempt p) < 4 \<and> 4 \<le> unat (pd_attempt p) + 4" if "find_pending i w = Some p" for p
    using that assms(1) find_pending_Some [OF that]
    by (auto simp: sender_inv_def pendings_ok_def pending_ok_def list_all_iff)
  from retries_end [OF assms(2) this] show ?thesis
    using on_retry_progress [OF _ _ assms(2)] by blast
qed

theorem retries_are_bounded_witness:
  "find_pending 1 ((on_retry plain_crypto log_radio example_identity 1 ^^ 4)
     (snd (rs_send plain_crypto log_radio example_identity (new_contact (replicate 32 7)) [104, 105] kTxtPlain 9
        fresh_sender))) = None"
  using retries_are_bounded [OF rs_send_inv [OF fresh_sender_inv(1)], of 1] by simp

text \<open>
  C24. An acknowledgement completes the message it answers, whichever attempt it answers: the
  message found is one whose list of hashes holds it, what is reported is the hash of the first
  attempt, which is the one the application was given, and exactly that message stops being
  pending. An acknowledgement that answers nothing changes nothing.
\<close>

theorem ack_completes_message:
  assumes "sender_inv w"
  shows "(\<forall>cp w'. complete ack w = (Some cp, w') \<longrightarrow>
      (\<exists>p \<in> set (rs_pending (w_sender w)). answers ack p \<and> cp_dest_pubkey cp = pd_dest_pubkey p \<and>
        cp_ack_hash cp = hd (pd_accepted_ack_hashes p) \<and>
        rs_pending (w_sender w') = filter (\<lambda>q. pd_id q \<noteq> pd_id p) (rs_pending (w_sender w)))) \<and>
    (fst (complete ack w) = None \<longleftrightarrow> (\<forall>p \<in> set (rs_pending (w_sender w)). \<not> answers ack p)) \<and>
    (fst (complete ack w) = None \<longrightarrow> snd (complete ack w) = w)"
proof (intro conjI allI impI)
  show "\<exists>p \<in> set (rs_pending (w_sender w)). answers ack p \<and> cp_dest_pubkey cp = pd_dest_pubkey p \<and>
      cp_ack_hash cp = hd (pd_accepted_ack_hashes p) \<and>
      rs_pending (w_sender w') = filter (\<lambda>q. pd_id q \<noteq> pd_id p) (rs_pending (w_sender w))"
    if "complete ack w = (Some cp, w')" for cp w'
    using complete_reports_first [OF assms that] .
  show "fst (complete ack w) = None \<longleftrightarrow> (\<forall>p \<in> set (rs_pending (w_sender w)). \<not> answers ack p)"
    by (rule complete_none)
  show "snd (complete ack w) = w" if "fst (complete ack w) = None"
    using that by (auto simp: complete_def Let_def split: option.splits)
qed

theorem ack_completes_message_witness:
  "complete [1, 2, 3, 4] fresh_sender = (None, fresh_sender)"
  using conjunct2 [OF ack_completes_message [OF fresh_sender_inv(1), of "[1, 2, 3, 4]"]]
  by (auto simp: fresh_sender_def new_sender_def intro: prod_eqI)



end
