(* ===== verification/Node.thy ===== *)
theory Node
  imports Channels Inbox Sender
begin

text \<open>
  The node, \<^verbatim>\<open>src/src/mesh/node.h\<close> and \<^verbatim>\<open>node.cpp\<close>: its adverts and messages out, what each
  received packet means, and relaying; with the wall clock of \<^verbatim>\<open>src/src/util/clock.cpp\<close> and the
  writer of persisted state, \<^verbatim>\<open>src/src/mesh/state_writer.cpp\<close>. The delegate the node notifies
  (the companion session) and the choice of the entry an \<^verbatim>\<open>unordered_map\<close> has at its beginning
  are fields of the environment.
\<close>

section \<open>The wall clock\<close>

record wall_clock =
  ck_system :: int
  ck_offset :: int
  ck_valid :: bool

definition kPlausibleEpoch :: u32 where "kPlausibleEpoch = 1704067200"

definition unix_now :: "wall_clock \<Rightarrow> u32" where
  "unix_now c = (let t = ck_system c + ck_offset c in word_of_int (if t < 0 then 0 else t))"

definition set_clock_offset :: "int \<Rightarrow> wall_clock \<Rightarrow> wall_clock" where
  "set_clock_offset seconds c = c\<lparr>ck_offset := seconds, ck_valid := True\<rparr>"

definition clock_is_valid :: "wall_clock \<Rightarrow> bool" where
  "clock_is_valid c \<longleftrightarrow> ck_valid c \<or> unix_now c \<ge> kPlausibleEpoch"

section \<open>State\<close>

record NodeConfig =
  nc_name :: bytes
  nc_adv_type :: byte
  nc_lat_e6 :: u32
  nc_lon_e6 :: u32
  nc_advert_interval_s :: u32
  nc_repeat :: bool
  nc_max_hops :: byte

definition cfg_has_location :: "NodeConfig \<Rightarrow> bool" where
  "cfg_has_location c \<longleftrightarrow> nc_lat_e6 c \<noteq> 0 \<or> nc_lon_e6 c \<noteq> 0"

record StateWriter =
  sw_coalesce_ms :: u32
  sw_sweep :: "nat option"
  sw_pending :: "nat option"
  sw_healthy :: bool

record 'r nworld = "'r sworld" +
  w_channels :: ChannelStore
  w_inbox :: MessageInbox
  w_cfg :: NodeConfig
  w_delivered :: "(u64 \<times> u32) list"
  w_advert_timer :: "nat option"
  w_delivered_sweep :: "nat option"
  w_writer :: StateWriter
  w_clock :: wall_clock
  w_fs :: fs
  w_io :: "nat \<Rightarrow> io_plan"

datatype notification = ContactChanged Contact bool | MessageStored | AckConfirmed bytes
  | AdvertSeen Contact | RawRx Packet bytes | PathUpdated Contact

record ('r, 'm) node_env =
  ne_crypto :: crypto_ops
  ne_radio :: "'r radio_ops"
  ne_self :: LocalIdentity
  ne_delegate :: "notification \<Rightarrow> ('r, 'm) nworld_scheme \<Rightarrow> ('r, 'm) nworld_scheme"
  ne_begin :: "(u64 \<times> u32) list \<Rightarrow> nat"

definition kDeliveredTtlMs :: u32 where "kDeliveredTtlMs = 300000"
definition kMaxDelivered :: nat where "kMaxDelivered = 512"
definition kReturnPathRetryMs :: u32 where "kReturnPathRetryMs = 3000"

definition upd_contacts ::
  "(ContactStore \<Rightarrow> ContactStore) \<Rightarrow> ('r, 'm) nworld_scheme \<Rightarrow> ('r, 'm) nworld_scheme" where
  "upd_contacts f w = w\<lparr>w_contacts := f (w_contacts w)\<rparr>"

definition contact_at :: "nat \<Rightarrow> ('r, 'm) nworld_scheme \<Rightarrow> Contact" where
  "contact_at k w = cs_contacts (w_contacts w) ! k"

definition now_unix :: "('r, 'm) nworld_scheme \<Rightarrow> u32" where
  "now_unix w = unix_now (w_clock w)"

definition draw_bytes :: "nat \<Rightarrow> ('r, 'm) nworld_scheme \<Rightarrow> bytes \<times> ('r, 'm) nworld_scheme" where
  "draw_bytes n w = (map (w_random w) [0..<n], w\<lparr>w_random := (\<lambda>i. w_random w (i + n))\<rparr>)"

definition node_send ::
  "('r, 'm) node_env \<Rightarrow> Packet \<Rightarrow> byte \<Rightarrow> u32 \<Rightarrow> ('r, 'm) nworld_scheme \<Rightarrow>
    bool \<times> ('r, 'm) nworld_scheme" where
  "node_send env p prio delay w =
     disp_send (ne_crypto env) (ne_radio env) on_tx_result p prio delay None w"

section \<open>Persisting state\<close>

definition kCoalesceMs :: u32 where "kCoalesceMs = 1000"
definition kSweepMs :: u32 where "kSweepMs = 60000"

definition writer_start :: "('r, 'm) nworld_scheme \<Rightarrow> ('r, 'm) nworld_scheme" where
  "writer_start w =
     (if sw_sweep (w_writer w) \<noteq> None then w
      else case add_repeating kSweepMs CbFlush (w_loop w) of
             (t, lp) \<Rightarrow> w\<lparr>w_loop := lp, w_writer := (w_writer w)\<lparr>sw_sweep := Some t\<rparr>\<rparr>)"

definition request_save :: "('r, 'm) nworld_scheme \<Rightarrow> ('r, 'm) nworld_scheme" where
  "request_save w =
     (if sw_pending (w_writer w) \<noteq> None then w
      else case add_timer (sw_coalesce_ms (w_writer w)) CbSaveRequest (w_loop w) of
             (t, lp) \<Rightarrow> w\<lparr>w_loop := lp, w_writer := (w_writer w)\<lparr>sw_pending := Some t\<rparr>\<rparr>)"

definition next_io :: "('r, 'm) nworld_scheme \<Rightarrow> io_plan \<times> ('r, 'm) nworld_scheme" where
  "next_io w = (w_io w 0, w\<lparr>w_io := (\<lambda>i. w_io w (Suc i))\<rparr>)"

definition save_contacts :: "('r, 'm) nworld_scheme \<Rightarrow> bool \<times> ('r, 'm) nworld_scheme" where
  "save_contacts w =
     (if \<not> cs_dirty (w_contacts w) then (True, w)
      else case next_io w of (io, w1) \<Rightarrow>
             case contacts_save io (w_fs w1) (w_contacts w1) of
               (ok, fs1, c) \<Rightarrow> (ok, w1\<lparr>w_fs := fs1, w_contacts := c\<rparr>))"

definition save_channels :: "('r, 'm) nworld_scheme \<Rightarrow> bool \<times> ('r, 'm) nworld_scheme" where
  "save_channels w =
     (if \<not> chs_dirty (w_channels w) then (True, w)
      else case next_io w of (io, w1) \<Rightarrow>
             case channels_save io (w_fs w1) (w_channels w1) of
               (ok, fs1, c) \<Rightarrow> (ok, w1\<lparr>w_fs := fs1, w_channels := c\<rparr>))"

definition save_inbox :: "('r, 'm) nworld_scheme \<Rightarrow> bool \<times> ('r, 'm) nworld_scheme" where
  "save_inbox w =
     (if \<not> ib_dirty (w_inbox w) then (True, w)
      else case next_io w of (io, w1) \<Rightarrow>
             case inbox_save io (w_fs w1) (w_inbox w1) of
               (ok, fs1, c) \<Rightarrow> (ok, w1\<lparr>w_fs := fs1, w_inbox := c\<rparr>))"

definition flush :: "('r, 'm) nworld_scheme \<Rightarrow> bool \<times> ('r, 'm) nworld_scheme" where
  "flush w =
     (case save_contacts w of (ok1, w1) \<Rightarrow>
      case save_channels w1 of (ok2, w2) \<Rightarrow>
      case save_inbox w2 of (ok3, w3) \<Rightarrow>
        let ok = (ok1 \<and> ok2 \<and> ok3)
        in (ok, w3\<lparr>w_writer := (w_writer w3)\<lparr>sw_healthy := ok\<rparr>\<rparr>))"

definition on_save_request :: "('r, 'm) nworld_scheme \<Rightarrow> ('r, 'm) nworld_scheme" where
  "on_save_request w =
     snd (flush (w\<lparr>w_loop := reset_timer (sw_pending (w_writer w)) (w_loop w),
                   w_writer := (w_writer w)\<lparr>sw_pending := None\<rparr>\<rparr>))"

section \<open>Adverts and messages out\<close>

definition build_appdata :: "NodeConfig \<Rightarrow> AdvertAppData" where
  "build_appdata c =
    (let a0 = new_appdata\<lparr>ad_flags := nc_adv_type c AND kAdvTypeMask\<rparr>;
         a1 = (if cfg_has_location c
               then a0\<lparr>ad_flags := ad_flags a0 OR kAdvHasLocation, ad_lat_e6 := nc_lat_e6 c,
                       ad_lon_e6 := nc_lon_e6 c\<rparr> else a0)
     in if nc_name c \<noteq> [] then a1\<lparr>ad_flags := ad_flags a1 OR kAdvHasName, ad_name := nc_name c\<rparr>
        else a1)"

definition build_advert_packet ::
  "('r, 'm) node_env \<Rightarrow> bool \<Rightarrow> ('r, 'm) nworld_scheme \<Rightarrow> Packet option" where
  "build_advert_packet env flood w =
     (if \<not> clock_is_valid (w_clock w) then None
      else
        let adv = advert_create (ne_crypto env) (ne_self env) (now_unix w) (build_appdata (w_cfg w))
        in Some (new_packet\<lparr>ptype := Advert, route := (if flood then Flood else Direct),
                            payload := advert_encode adv\<rparr>))"

definition send_advert ::
  "('r, 'm) node_env \<Rightarrow> bool \<Rightarrow> ('r, 'm) nworld_scheme \<Rightarrow> ('r, 'm) nworld_scheme" where
  "send_advert env flood w =
     (case build_advert_packet env flood w of
        None \<Rightarrow> w
      | Some p \<Rightarrow> snd (node_send env p kPriorityAdvert 0 w))"

definition node_start :: "('r, 'm) nworld_scheme \<Rightarrow> ('r, 'm) nworld_scheme" where
  "node_start w =
    (let w1 = (if nc_advert_interval_s (w_cfg w) > 0 then
                 (case add_repeating (nc_advert_interval_s (w_cfg w) * 1000) CbAdvert (w_loop w) of
                    (t, lp) \<Rightarrow> w\<lparr>w_loop := reset_timer (w_advert_timer w) lp, w_advert_timer := Some t\<rparr>)
               else w)
     in case add_repeating kDeliveredTtlMs CbDeliveredSweep (w_loop w1) of
          (t, lp) \<Rightarrow> w1\<lparr>w_loop := reset_timer (w_delivered_sweep w1) lp, w_delivered_sweep := Some t\<rparr>)"

definition send_channel_text ::
  "('r, 'm) node_env \<Rightarrow> nat \<Rightarrow> bytes \<Rightarrow> u32 \<Rightarrow> ('r, 'm) nworld_scheme \<Rightarrow>
    bool \<times> ('r, 'm) nworld_scheme" where
  "send_channel_text env channel_index tx timestamp w =
     (case channel_at channel_index (w_channels w) of
        None \<Rightarrow> (False, w)
      | Some ch \<Rightarrow>
          if \<not> channel_valid ch then (False, w)
          else
            let msg = \<lparr>tm_timestamp = timestamp, tm_txt_type = kTxtPlain, tm_attempt = 0,
                       tm_extended_attempt = 0, tm_text = nc_name (w_cfg w) @ str '': '' @ tx\<rparr>;
                sealed = group_seal (ne_crypto env) (channel_hash (ne_crypto env) ch) (ch_secret ch)
                           (text_encode msg)
            in node_send env
                 (new_packet\<lparr>ptype := GrpTxt, route := Flood, payload := group_encode sealed\<rparr>)
                 kPriorityFlood 0 w)"

definition node_send_text ::
  "('r, 'm) node_env \<Rightarrow> Contact \<Rightarrow> bytes \<Rightarrow> byte \<Rightarrow> u32 \<Rightarrow> ('r, 'm) nworld_scheme \<Rightarrow>
    (SendError + bytes) \<times> ('r, 'm) nworld_scheme" where
  "node_send_text env to tx txt_type timestamp w =
     rs_send (ne_crypto env) (ne_radio env) (ne_self env) to tx txt_type timestamp w"

definition send_path_discovery ::
  "('r, 'm) node_env \<Rightarrow> ('r, 'm) nworld_scheme \<Rightarrow> bool \<times> ('r, 'm) nworld_scheme" where
  "send_path_discovery env w = (True, send_advert env True w)"

definition pop_message :: "('r, 'm) nworld_scheme \<Rightarrow> StoredMessage option \<times> ('r, 'm) nworld_scheme" where
  "pop_message w = (case inbox_pop (w_inbox w) of (m, ib) \<Rightarrow> (m, w\<lparr>w_inbox := ib\<rparr>))"

definition send_ack ::
  "('r, 'm) node_env \<Rightarrow> Contact \<Rightarrow> bytes \<Rightarrow> ('r, 'm) nworld_scheme \<Rightarrow> ('r, 'm) nworld_scheme" where
  "send_ack env to ack w =
     snd (route_to (ne_crypto env) (ne_radio env) (new_packet\<lparr>ptype := Ack, payload := ack\<rparr>) to
       kPriorityAck False None w)"

text \<open>A route for a path return to travel; \<open>None\<close> floods it.\<close>

record Via =
  via_path :: bytes
  via_hash_size :: byte

definition path_return_extra ::
  "byte \<Rightarrow> bytes \<Rightarrow> ('r, 'm) nworld_scheme \<Rightarrow> (byte \<times> bytes) \<times> ('r, 'm) nworld_scheme" where
  "path_return_extra extra_type extra w =
     (if extra \<noteq> [] then ((extra_type, extra), w)
      else case draw_bytes 4 w of (rnd, w1) \<Rightarrow> ((0x0F, rnd), w1))"

definition send_path_return ::
  "('r, 'm) node_env \<Rightarrow> Contact \<Rightarrow> Packet \<Rightarrow> byte \<Rightarrow> bytes \<Rightarrow> Via option \<Rightarrow> u32 \<Rightarrow>
    ('r, 'm) nworld_scheme \<Rightarrow> ('r, 'm) nworld_scheme" where
  "send_path_return env to inbound extra_type extra via delay_ms w =
    (let shared = contact_secret (ne_crypto env) (ne_self env) to
     in if shared = [] then w
        else case path_return_extra extra_type extra w of ((et, ex), w1) \<Rightarrow>
          let ret = \<lparr>pr_path = path inbound, pr_path_hash_size = path_hash_size inbound,
                     pr_extra_type = et, pr_extra = ex, pr_has_extra = True\<rparr>;
              pl = direct_encode (direct_seal (ne_crypto env) (ct_pubkey to ! 0)
                     (id_pub (ne_self env) ! 0) shared (path_return_encode ret));
              p = new_packet\<lparr>ptype := Path, payload := pl\<rparr>;
              p' = (case via of
                      Some v \<Rightarrow> p\<lparr>route := Direct, path := via_path v, path_hash_size := via_hash_size v\<rparr>
                    | None \<Rightarrow> p\<lparr>route := Flood\<rparr>)
          in snd (node_send env p' kPriorityAck delay_ms w1))"

section \<open>Received messages\<close>

definition companion_path_len :: "Packet \<Rightarrow> byte" where
  "companion_path_len p = (if is_flood p then packed_path_len p else 0xFF)"

text \<open>\<^verbatim>\<open>static_cast<int8_t>(std::clamp(p.snr * 4.0f, -128.0f, 127.0f))\<close>, truncating to zero.\<close>

definition snr_quarters :: "rat \<Rightarrow> byte" where
  "snr_quarters s =
    (let q = max (- 128) (min 127 (s * 4))
     in word_of_int (if q < 0 then \<lceil>q\<rceil> else \<lfloor>q\<rfloor>))"

definition delivery_id :: "Contact \<Rightarrow> TextMessage \<Rightarrow> bytes" where
  "delivery_id from msg =
     put_bytes (put_u32 (put_bytes [] (ct_pubkey from)) (tm_timestamp msg) @ [tm_txt_type msg])
       (tm_text msg)"

definition delivery_key :: "crypto_ops \<Rightarrow> Contact \<Rightarrow> TextMessage \<Rightarrow> u64" where
  "delivery_key cr from msg =
     fold (\<lambda>d key. push_bit 8 key OR ucast d) (take 8 (sha256 cr (delivery_id from msg))) 0"

definition sweep_delivered :: "u32 \<Rightarrow> (u64 \<times> u32) list \<Rightarrow> (u64 \<times> u32) list" where
  "sweep_delivered now tbl = filter (\<lambda>(k, e). \<not> sdiff e now \<le> 0) tbl"

definition mark_delivered ::
  "((u64 \<times> u32) list \<Rightarrow> nat) \<Rightarrow> u32 \<Rightarrow> u64 \<Rightarrow> (u64 \<times> u32) list \<Rightarrow> bool \<times> (u64 \<times> u32) list" where
  "mark_delivered begin_of now key tbl =
    (let put = (\<lambda>t. (key, now + kDeliveredTtlMs) # filter (\<lambda>(k, e). k \<noteq> key) t)
     in if (case map_of tbl key of Some e \<Rightarrow> sdiff e now > 0 | None \<Rightarrow> False) then (True, put tbl)
        else if length tbl \<ge> kMaxDelivered then
          let t1 = sweep_delivered now tbl;
              t2 = (if length t1 \<ge> kMaxDelivered then remove_at (begin_of t1 mod length t1) t1 else t1)
          in (False, put t2)
        else (False, put tbl))"

definition first_delivery ::
  "('r, 'm) node_env \<Rightarrow> Contact \<Rightarrow> TextMessage \<Rightarrow> ('r, 'm) nworld_scheme \<Rightarrow>
    bool \<times> ('r, 'm) nworld_scheme" where
  "first_delivery env from msg w =
     (case mark_delivered (ne_begin env) (now_ms w) (delivery_key (ne_crypto env) from msg)
             (w_delivered w) of
        (repeated, tbl) \<Rightarrow> (\<not> repeated, w\<lparr>w_delivered := tbl\<rparr>))"

definition expire_delivered :: "('r, 'm) nworld_scheme \<Rightarrow> ('r, 'm) nworld_scheme" where
  "expire_delivered w = w\<lparr>w_delivered := sweep_delivered (now_ms w) (w_delivered w)\<rparr>"

definition store_message ::
  "('r, 'm) node_env \<Rightarrow> StoredMessage \<Rightarrow> ('r, 'm) nworld_scheme \<Rightarrow> ('r, 'm) nworld_scheme" where
  "store_message env m w =
     (case next_io w of (io, w1) \<Rightarrow>
      case inbox_store io m (w_fs w1) (w_inbox w1) of
        (ok, fs1, ib) \<Rightarrow> ne_delegate env MessageStored (w1\<lparr>w_fs := fs1, w_inbox := ib\<rparr>))"

section \<open>What a packet means\<close>

definition decrypt_from ::
  "('r, 'm) node_env \<Rightarrow> byte \<Rightarrow> bytes \<Rightarrow> bytes \<Rightarrow> ('r, 'm) nworld_scheme \<Rightarrow> (nat \<times> bytes) option" where
  "decrypt_from env src_hash mac ciphertext w =
     fold (\<lambda>k found. case found of
             Some r \<Rightarrow> Some r
           | None \<Rightarrow>
               let shared = contact_secret (ne_crypto env) (ne_self env) (contact_at k w)
               in if shared = [] then None
                  else map_option (Pair k) (mac_and_decrypt (ne_crypto env) shared mac ciphertext))
       (contact_by_id src_hash (w_contacts w)) None"

definition handle_advert ::
  "('r, 'm) node_env \<Rightarrow> Packet \<Rightarrow> ('r, 'm) nworld_scheme \<Rightarrow> bool \<times> ('r, 'm) nworld_scheme" where
  "handle_advert env p w =
     (case advert_decode (payload p) of
        None \<Rightarrow> (False, w)
      | Some adv \<Rightarrow>
          if \<not> advert_verify (ne_crypto env) adv then (False, w)
          else if equal (av_pubkey adv) (id_pub (ne_self env)) then (False, w)
          else case appdata_decode (av_appdata adv) of
                 None \<Rightarrow> (True, w)
               | Some app \<Rightarrow>
                   if \<not> app_has_name app \<or> ad_name app = [] \<or> ad_name app ! 0 = 0 then (True, w)
                   else (case apply_advert (now_unix w) adv app (w_contacts w) of
                           ((None, created), cs) \<Rightarrow> (True, w\<lparr>w_contacts := cs\<rparr>)
                         | ((Some k, created), cs) \<Rightarrow>
                             let w1 = upd_contacts (contact_touch_signal (now_unix w) k (rssi p) (snr p))
                                        (w\<lparr>w_contacts := cs\<rparr>);
                                 w2 = ne_delegate env (AdvertSeen (contact_at k w1)) w1
                             in (True, ne_delegate env (ContactChanged (contact_at k w2) created) w2)))"

definition handle_request ::
  "('r, 'm) node_env \<Rightarrow> Packet \<Rightarrow> ('r, 'm) nworld_scheme \<Rightarrow> bool" where
  "handle_request env p w =
    (let ours = id_pub (ne_self env) ! 0
     in if ptype p = AnonReq then
          (case anon_decode (payload p) of
             None \<Rightarrow> False
           | Some e \<Rightarrow>
               if ae_dest_hash e \<noteq> ours then True
               else \<not> (case id_shared_secret (ne_crypto env) (ne_self env) (ae_pubkey e) of
                         None \<Rightarrow> False
                       | Some shared \<Rightarrow>
                           mac_and_decrypt (ne_crypto env) shared (ae_mac e) (ae_ciphertext e) \<noteq> None))
        else
          (case direct_decode (payload p) of
             None \<Rightarrow> False
           | Some e \<Rightarrow>
               if de_dest_hash e \<noteq> ours then True
               else decrypt_from env (de_src_hash e) (de_mac e) (de_ciphertext e) w = None))"

text \<open>The reply to a text: the ack, inside a path return when the text came by flood.\<close>

definition text_ack ::
  "('r, 'm) node_env \<Rightarrow> Contact \<Rightarrow> TextMessage \<Rightarrow> bytes \<Rightarrow> ('r, 'm) nworld_scheme \<Rightarrow>
    bytes \<times> ('r, 'm) nworld_scheme" where
  "text_ack env from msg plaintext w =
     (if tm_txt_type msg = kTxtCliData then ([], w)
      else
        let ack_key = (if tm_txt_type msg = kTxtSignedPlain then id_pub (ne_self env) else ct_pubkey from)
        in case draw_byte w of
             (rnd, w1) \<Rightarrow>
               (ack_payload (message_ack_hash (ne_crypto env) plaintext ack_key)
                  (ack_extended_attempt plaintext) rnd, w1))"

definition direct_message :: "Packet \<Rightarrow> Contact \<Rightarrow> TextMessage \<Rightarrow> StoredMessage" where
  "direct_message p from msg =
     new_message\<lparr>sm_is_channel := False, sm_sender_pubkey := ct_pubkey from,
       sm_timestamp := tm_timestamp msg, sm_txt_type := tm_txt_type msg, sm_text := body msg,
       sm_snr_q4 := snr_quarters (snr p), sm_path_len := companion_path_len p\<rparr>"

text \<open>A text from contact \<open>k\<close> that opened and is of a known kind: delivered once, always acked.\<close>

definition receive_text ::
  "('r, 'm) node_env \<Rightarrow> Packet \<Rightarrow> nat \<Rightarrow> bytes \<Rightarrow> TextMessage \<Rightarrow> ('r, 'm) nworld_scheme \<Rightarrow>
    ('r, 'm) nworld_scheme" where
  "receive_text env p k plaintext msg w =
    (let w1 = upd_contacts (contact_touch_signal (now_unix w) k (rssi p) (snr p)) w
     in case first_delivery env (contact_at k w1) msg w1 of (fresh, w2) \<Rightarrow>
          let w3 = (if fresh then store_message env (direct_message p (contact_at k w2) msg) w2 else w2)
          in case text_ack env (contact_at k w3) msg plaintext w3 of (ack, w4) \<Rightarrow>
               if is_flood p
               then send_path_return env (contact_at k w4) p
                      (if ack = [] then 0 else payload_code Ack) ack None 0 w4
               else if ack \<noteq> [] then send_ack env (contact_at k w4) ack w4
               else w4)"

definition handle_text ::
  "('r, 'm) node_env \<Rightarrow> Packet \<Rightarrow> ('r, 'm) nworld_scheme \<Rightarrow> bool \<times> ('r, 'm) nworld_scheme" where
  "handle_text env p w =
     (case direct_decode (payload p) of
        None \<Rightarrow> (False, w)
      | Some e \<Rightarrow>
          if de_dest_hash e \<noteq> id_pub (ne_self env) ! 0 then (True, w)
          else case decrypt_from env (de_src_hash e) (de_mac e) (de_ciphertext e) w of
            None \<Rightarrow> (True, w)
          | Some (k, plaintext) \<Rightarrow>
              (case text_decode plaintext of
                 None \<Rightarrow> (False, w)
               | Some msg \<Rightarrow>
                   if tm_txt_type msg \<notin> {kTxtPlain, kTxtCliData, kTxtSignedPlain} then (False, w)
                   else (False, receive_text env p k plaintext msg w)))"

definition complete_ack ::
  "('r, 'm) node_env \<Rightarrow> bytes \<Rightarrow> bool \<Rightarrow> ('r, 'm) nworld_scheme \<Rightarrow>
    (nat option \<times> bool) \<times> ('r, 'm) nworld_scheme" where
  "complete_ack env ack direct w =
     (case complete ack w of
        (None, w1) \<Rightarrow> ((None, False), w1)
      | (Some cp, w1) \<Rightarrow>
          let c = contact_find (cp_dest_pubkey cp) (w_contacts w1);
              w2 = (case c of
                      Some k \<Rightarrow> if direct then upd_contacts (contact_touch (now_unix w1) k) w1 else w1
                    | None \<Rightarrow> w1)
          in ((c, True), ne_delegate env (AckConfirmed (cp_ack_hash cp)) w2))"

definition handle_ack ::
  "('r, 'm) node_env \<Rightarrow> Packet \<Rightarrow> ('r, 'm) nworld_scheme \<Rightarrow> bool \<times> ('r, 'm) nworld_scheme" where
  "handle_ack env p w =
     (if length (payload p) < kAckHashSize then (False, w)
      else case complete_ack env (subview (payload p) 0 kAckHashSize) (is_direct p) w of
             ((c, matched), w1) \<Rightarrow>
               if \<not> matched then (True, w1)
               else (False,
                 case c of
                   Some k \<Rightarrow>
                     if is_flood p \<and> ct_path_known (contact_at k w1)
                     then send_path_return env (contact_at k w1) p 0 []
                            (Some \<lparr>via_path = ct_out_path (contact_at k w1), via_hash_size = 1\<rparr>)
                            kReturnPathRetryMs w1
                     else w1
                 | None \<Rightarrow> w1))"

definition handle_path ::
  "('r, 'm) node_env \<Rightarrow> Packet \<Rightarrow> ('r, 'm) nworld_scheme \<Rightarrow> bool \<times> ('r, 'm) nworld_scheme" where
  "handle_path env p w =
     (case direct_decode (payload p) of
        None \<Rightarrow> (False, w)
      | Some e \<Rightarrow>
          if de_dest_hash e \<noteq> id_pub (ne_self env) ! 0 then (True, w)
          else case decrypt_from env (de_src_hash e) (de_mac e) (de_ciphertext e) w of
            None \<Rightarrow> (True, w)
          | Some (k, plaintext) \<Rightarrow>
              (case path_return_decode plaintext of
                 None \<Rightarrow> (True, w)
               | Some ret \<Rightarrow>
                   let w1 = (if pr_path_hash_size ret = 1 then
                               let wa = upd_contacts (\<lambda>cs. contact_touch (now_unix w) k
                                          (snd (contact_set_path k (pr_path ret) cs))) w
                               in ne_delegate env (PathUpdated (contact_at k wa)) wa
                             else w);
                       w2 = (if pr_has_extra ret \<and> pr_extra_type ret = payload_code Ack \<and>
                                length (pr_extra ret) \<ge> kAckHashSize
                             then snd (complete_ack env (subview (pr_extra ret) 0 kAckHashSize)
                                    (is_direct p) w1)
                             else w1)
                   in (False,
                       if is_flood p
                       then send_path_return env (contact_at k w2) p 0 []
                              (Some \<lparr>via_path = pr_path ret, via_hash_size = pr_path_hash_size ret\<rparr>) 0 w2
                       else w2)))"

text \<open>The loop over the channels whose hash matches: the first that opens decides.\<close>

fun try_channels ::
  "('r, 'm) node_env \<Rightarrow> Packet \<Rightarrow> GroupEnvelope \<Rightarrow> (nat \<times> Channel) list \<Rightarrow> ('r, 'm) nworld_scheme \<Rightarrow>
    ('r, 'm) nworld_scheme" where
  "try_channels env p e [] w = w"
| "try_channels env p e ((index, ch) # rest) w =
     (case mac_and_decrypt (ne_crypto env) (ch_secret ch) (ge_mac e) (ge_ciphertext e) of
        None \<Rightarrow> try_channels env p e rest w
      | Some plain \<Rightarrow>
          (case text_decode plain of
             None \<Rightarrow> try_channels env p e rest w
           | Some msg \<Rightarrow>
               if tm_txt_type msg \<noteq> kTxtPlain then w
               else store_message env
                      (new_message\<lparr>sm_is_channel := True, sm_channel_index := word_of_nat index,
                         sm_timestamp := tm_timestamp msg, sm_txt_type := tm_txt_type msg,
                         sm_text := body msg, sm_snr_q4 := snr_quarters (snr p),
                         sm_path_len := companion_path_len p\<rparr>) w))"

definition handle_group_text ::
  "('r, 'm) node_env \<Rightarrow> Packet \<Rightarrow> ('r, 'm) nworld_scheme \<Rightarrow> ('r, 'm) nworld_scheme" where
  "handle_group_text env p w =
     (case group_decode (payload p) of
        None \<Rightarrow> w
      | Some e \<Rightarrow>
          try_channels env p e (channels_by_hash (ne_crypto env) (ge_channel_hash e) (w_channels w)) w)"

section \<open>Relaying\<close>

definition maybe_repeat ::
  "('r, 'm) node_env \<Rightarrow> Packet \<Rightarrow> ('r, 'm) nworld_scheme \<Rightarrow> ('r, 'm) nworld_scheme" where
  "maybe_repeat env p w =
     (if \<not> nc_repeat (w_cfg w) then w
      else if \<not> is_flood p then w
      else if hop_count p \<ge> unat (nc_max_hops (w_cfg w)) then w
      else case push_hop (id_pub (ne_self env)) p of
             (False, _) \<Rightarrow> w
           | (True, out) \<Rightarrow>
               (case draw_byte w of
                  (r, w1) \<Rightarrow> snd (node_send env out kPriorityRepeat (100 + ucast r * 4) w1)))"

definition direct_retransmit_delay ::
  "('r, 'm) node_env \<Rightarrow> Packet \<Rightarrow> ('r, 'm) nworld_scheme \<Rightarrow> u32 \<times> ('r, 'm) nworld_scheme" where
  "direct_retransmit_delay env out w =
    (let airtime = airtime_ms (params (ne_radio env) (w_radio w)) (length (packet_encode out))
     in case draw_byte w of (r, w1) \<Rightarrow> (ucast r * airtime div 255, w1))"

definition forward_direct ::
  "('r, 'm) node_env \<Rightarrow> Packet \<Rightarrow> ('r, 'm) nworld_scheme \<Rightarrow> ('r, 'm) nworld_scheme" where
  "forward_direct env p w =
     (if \<not> nc_repeat (w_cfg w) then w
      else
        let next = first_hop p;
            ours = subview (id_pub (ne_self env)) 0 (length next)
        in if next = [] \<or> next \<noteq> ours then w
           else if ptype p = Multipart then w
           else
             let out = pop_hop p
             in case (if ptype p = Ack then (0, w) else direct_retransmit_delay env out w) of
                  (delay_ms, w1) \<Rightarrow> snd (node_send env out kPriorityAck delay_ms w1))"

definition forward_trace ::
  "('r, 'm) node_env \<Rightarrow> Packet \<Rightarrow> ('r, 'm) nworld_scheme \<Rightarrow> ('r, 'm) nworld_scheme" where
  "forward_trace env p w =
     (if \<not> nc_repeat (w_cfg w) then w
      else if length (payload p) \<le> 9 then w
      else if path_hash_size p \<noteq> 1 \<or> length (path p) \<ge> kMaxPathSize then w
      else
        let width = 2 ^ unat (payload p ! 8 AND 0x03);
            pos = 9 + length (path p) * width
        in if pos + width > length (payload p) then w
           else if subview (payload p) pos width \<noteq> subview (id_pub (ne_self env)) 0 width then w
           else
             let out = p\<lparr>path := path p @ [snr_quarters (snr p)]\<rparr>
             in case direct_retransmit_delay env out w of
                  (delay_ms, w1) \<Rightarrow> snd (node_send env out kPriorityAdvert delay_ms w1))"

section \<open>Dispatch on the payload type\<close>

definition on_packet ::
  "('r, 'm) node_env \<Rightarrow> Packet \<Rightarrow> ('r, 'm) nworld_scheme \<Rightarrow> ('r, 'm) nworld_scheme" where
  "on_packet env p w =
     (if is_direct p \<and> ptype p = Trace then forward_trace env p w
      else if is_direct p \<and> ptype p = Control \<and> payload p \<noteq> [] \<and> payload p ! 0 AND 0x80 \<noteq> 0 then w
      else if is_direct p \<and> hop_count p > 0 then
        (case (if ptype p = Ack then handle_ack env p w else (True, w)) of
           (forward, w1) \<Rightarrow> if forward then forward_direct env p w1 else w1)
      else
        (case (case ptype p of
                 Advert \<Rightarrow> handle_advert env p w
               | TxtMsg \<Rightarrow> handle_text env p w
               | Ack \<Rightarrow> handle_ack env p w
               | Path \<Rightarrow> handle_path env p w
               | GrpTxt \<Rightarrow> (True, handle_group_text env p w)
               | Req \<Rightarrow> (handle_request env p w, w)
               | Response \<Rightarrow> (handle_request env p w, w)
               | AnonReq \<Rightarrow> (handle_request env p w, w)
               | GrpData \<Rightarrow> (True, w)
               | _ \<Rightarrow> (False, w)) of
           (forward, w1) \<Rightarrow> if forward then maybe_repeat env p w1 else w1))"

text \<open>The radio's receive handler with the node's callbacks in place.\<close>

definition node_radio_rx ::
  "('r, 'm) node_env \<Rightarrow> RxPacket \<Rightarrow> ('r, 'm) nworld_scheme \<Rightarrow> ('r, 'm) nworld_scheme" where
  "node_radio_rx env r w =
     on_radio_rx (ne_crypto env) (\<lambda>p raw. ne_delegate env (RawRx p raw)) (on_packet env) r w"

text \<open>What each timer runs.\<close>

definition node_timer ::
  "('r, 'm) node_env \<Rightarrow> timer_cb \<Rightarrow> ('r, 'm) nworld_scheme \<Rightarrow> ('r, 'm) nworld_scheme" where
  "node_timer env cb w =
     (case cb of
        CbPump \<Rightarrow> on_pump_timer (ne_radio env) on_tx_result w
      | CbSeenSweep \<Rightarrow> expire_seen w
      | CbRfSummary \<Rightarrow> w
      | CbRetry i \<Rightarrow> on_retry (ne_crypto env) (ne_radio env) (ne_self env) i w
      | CbAdvert \<Rightarrow> send_advert env True w
      | CbDeliveredSweep \<Rightarrow> expire_delivered w
      | CbFlush \<Rightarrow> snd (flush w)
      | CbSaveRequest \<Rightarrow> on_save_request w
      | CbOther n \<Rightarrow> w)"

section \<open>Messages are delivered once\<close>

definition delivered_wf :: "(u64 \<times> u32) list \<Rightarrow> bool" where
  "delivered_wf tbl \<longleftrightarrow> distinct (map fst tbl) \<and> length tbl \<le> kMaxDelivered"

lemma map_of_filter_value:
  "distinct (map fst tbl) \<Longrightarrow> map_of (filter (\<lambda>(k, e). P e) tbl) k =
     (case map_of tbl k of None \<Rightarrow> None | Some e \<Rightarrow> if P e then Some e else None)"
  by (induction tbl) (force split: option.splits simp: map_of_eq_None_iff image_iff)+

lemma put_delivered_wf:
  assumes "distinct (map fst t)" "length (filter (\<lambda>(k, e). k \<noteq> key) t) < kMaxDelivered"
  shows "delivered_wf ((key, e) # filter (\<lambda>(k, e). k \<noteq> key) t)"
  using assms by (auto simp: delivered_wf_def distinct_map_filter)

lemma distinct_keys_sub:
  "distinct (map fst t) \<Longrightarrow> distinct (map fst (sweep_delivered now t))"
  "distinct (map fst t) \<Longrightarrow> distinct (map fst (remove_at i t))"
  by (simp_all add: sweep_delivered_def distinct_map_filter distinct_map_remove_at)

lemma present_key_filter:
  assumes "map_of t key = Some e"
  shows "length (filter (\<lambda>(k, e). k \<noteq> key) t) < length t"
  using map_of_SomeD [OF assms] by (induction t) (auto intro: le_imp_less_Suc)

lemma mark_delivered_wf:
  assumes wf: "delivered_wf tbl"
  shows "delivered_wf (snd (mark_delivered bg now key tbl))"
proof -
  let ?full = "length tbl \<ge> kMaxDelivered"
  let ?t1 = "sweep_delivered now tbl"
  let ?t2 = "if length ?t1 \<ge> kMaxDelivered then remove_at (bg ?t1 mod length ?t1) ?t1 else ?t1"
  let ?rest = "\<lambda>t. filter (\<lambda>(k, e). k \<noteq> key) t"
  have le: "length (?rest t) \<le> length t" for t :: "(u64 \<times> u32) list" by simp
  have d: "distinct (map fst tbl)" and l: "length tbl \<le> kMaxDelivered"
    using wf by (simp_all add: delivered_wf_def)
  have l1: "length ?t1 \<le> kMaxDelivered"
    using l le_trans [OF length_filter_le] by (simp add: sweep_delivered_def)
  have l2: "length ?t2 < kMaxDelivered"
    using l1 by (auto simp: length_remove_at kMaxDelivered_def)
  have d2: "distinct (map fst ?t2)" using d distinct_keys_sub by simp
  show ?thesis
  proof (cases "case map_of tbl key of Some e \<Rightarrow> sdiff e now > 0 | None \<Rightarrow> False")
    case True
    then obtain e where "map_of tbl key = Some e" by (auto split: option.splits)
    from present_key_filter [OF this] l
    have "delivered_wf ((key, now + kDeliveredTtlMs) # ?rest tbl)"
      by (intro put_delivered_wf [OF d]) simp
    with True show ?thesis by (simp add: mark_delivered_def Let_def)
  next
    case False
    have "delivered_wf ((key, now + kDeliveredTtlMs) # ?rest ?t2)"
      by (rule put_delivered_wf [OF d2 le_less_trans [OF le l2]])
    moreover have "delivered_wf ((key, now + kDeliveredTtlMs) # ?rest tbl)" if "\<not> ?full"
      using put_delivered_wf [OF d le_less_trans [OF le]] that by simp
    ultimately show ?thesis using False by (simp add: mark_delivered_def Let_def)
  qed
qed

interpretation delivered: ttl_table delivered_wf map_of "mark_delivered bg" sweep_delivered kDeliveredTtlMs
proof
  fix s :: "(u64 \<times> u32) list" and now key
  assume wf: "delivered_wf s"
  show "delivered_wf (snd (mark_delivered bg now key s))" by (rule mark_delivered_wf [OF wf])
  show "delivered_wf (sweep_delivered now s)"
    using wf distinct_keys_sub(1) [of s now] le_trans [OF length_filter_le]
    by (auto simp: delivered_wf_def sweep_delivered_def)
  show "fst (mark_delivered bg now key s) = (\<exists>e. map_of s key = Some e \<and> sdiff e now > 0)"
    by (simp add: mark_delivered_def Let_def split: option.splits)
  show "map_of (snd (mark_delivered bg now key s)) key = Some (now + kDeliveredTtlMs)"
    by (simp add: mark_delivered_def Let_def)
  show "map_of (sweep_delivered now s) key =
      (case map_of s key of None \<Rightarrow> None | Some e \<Rightarrow> if sdiff e now \<le> 0 then None else Some e)"
    using wf map_of_filter_value [of s "\<lambda>e. \<not> sdiff e now \<le> 0" key]
    by (auto simp: delivered_wf_def sweep_delivered_def split: option.splits)
next
  show "unat kDeliveredTtlMs < 2 ^ 31" by (simp add: kDeliveredTtlMs_def)
qed

section \<open>Invariant\<close>

definition node_inv :: "('r, 'm) nworld_scheme \<Rightarrow> bool" where
  "node_inv w \<longleftrightarrow> contacts_inv (w_contacts w) \<and> channels_inv (w_channels w) \<and>
     inbox_inv (w_inbox w) \<and> delivered_wf (w_delivered w) \<and> sender_inv w \<and> disp_inv w"

definition delegate_ok :: "('r, 'm) node_env \<Rightarrow> bool" where
  "delegate_ok env \<longleftrightarrow> (\<forall>n w. node_inv w \<longrightarrow> node_inv (ne_delegate env n w))"

lemma node_fields_more:
  assumes "sworld.more w = sworld.more (w' :: ('r, 'm) nworld_scheme)"
  shows "w_channels w = w_channels w'" "w_inbox w = w_inbox w'" "w_delivered w = w_delivered w'"
    "w_cfg w = w_cfg w'" "w_fs w = w_fs w'" "w_io w = w_io w'" "w_clock w = w_clock w'"
  using assms by (cases w; cases w'; simp)+

lemma node_inv_view:
  assumes "sender_view w = sender_view w'" "disp_inv w'" "node_inv w"
  shows "node_inv (w' :: ('r, 'm) nworld_scheme)"
  using assms node_fields_more [of w w'] sender_inv_view [OF assms(1)]
  by (auto simp: node_inv_def sender_view_def)

lemma node_send_inv: "node_inv w \<Longrightarrow> node_inv (snd (node_send env p prio delay w))"
  unfolding node_send_def
  by (rule node_inv_view [of w]) (simp_all add: sender.send_inv node_inv_def)

section \<open>Decoded values are well formed\<close>

lemma advert_decode_pubkey: "advert_decode pl = Some adv \<Longrightarrow> length (av_pubkey adv) = kPubKeySize"
  by (auto simp: advert_decode_def rd_take_def rd_u32_def rd_has_def rd_remaining_def Reader_def Let_def
      split: prod.splits if_splits)

lemma path_return_decode_path:
  "path_return_decode pl = Some ret \<Longrightarrow> length (pr_path ret) \<le> kMaxPathSize"
  by (auto simp: path_return_decode_def Let_def split: prod.splits if_splits)

lemma fold_first:
  assumes "fold (\<lambda>k found. case found of Some r \<Rightarrow> Some r | None \<Rightarrow> g k) ks None = Some r"
  shows "\<exists>k \<in> set ks. g k = Some r"
proof -
  have some: "fold (\<lambda>k found. case found of Some r \<Rightarrow> Some r | None \<Rightarrow> g k) ks (Some r') = Some r'" for r' ks
    by (induction ks) simp_all
  show ?thesis using assms
  proof (induction ks)
    case (Cons a ks)
    then show ?case by (cases "g a") (auto simp: some)
  qed simp
qed

lemma decrypt_from_Some:
  assumes "decrypt_from env h mac ct w = Some (k, plain)"
  shows "k < length (cs_contacts (w_contacts w))" "contact_id (contact_at k w) = h"
    "mac_and_decrypt (ne_crypto env) (contact_secret (ne_crypto env) (ne_self env) (contact_at k w)) mac ct =
       Some plain"
proof -
  from fold_first [OF assms [unfolded decrypt_from_def]]
  show "k < length (cs_contacts (w_contacts w))" "contact_id (contact_at k w) = h"
    "mac_and_decrypt (ne_crypto env) (contact_secret (ne_crypto env) (ne_self env) (contact_at k w)) mac ct =
       Some plain"
    by (auto simp: contact_by_id_def contact_at_def Let_def split: if_splits)
qed

section \<open>Every handler keeps the invariant\<close>

named_theorems node_intros

lemma node_inv_contact:
  "node_inv w \<Longrightarrow> k < length (cs_contacts (w_contacts w)) \<Longrightarrow> contact_wf (contact_at k w)"
  by (simp add: node_inv_def contacts_inv_def contact_at_def list_all_length)

lemma node_inv_contacts [node_intros]:
  "node_inv w \<Longrightarrow> contacts_inv cs \<Longrightarrow> node_inv (w\<lparr>w_contacts := cs\<rparr>)"
  by (simp add: node_inv_def sender_inv_def disp_inv_def queue_valid_def)

lemma upd_contacts_inv [node_intros]:
  "node_inv w \<Longrightarrow> (\<And>cs. contacts_inv cs \<Longrightarrow> contacts_inv (f cs)) \<Longrightarrow> node_inv (upd_contacts f w)"
  unfolding upd_contacts_def by (rule node_inv_contacts) (simp_all add: node_inv_def)

lemma node_inv_random [simp]:
  "node_inv (w\<lparr>w_random := r\<rparr>) = node_inv w" "node_inv (w\<lparr>w_io := io\<rparr>) = node_inv w"
  "node_inv (w\<lparr>w_fs := fs\<rparr>) = node_inv w" "node_inv (w\<lparr>w_loop := lp\<rparr>) = node_inv w"
  "node_inv (w\<lparr>w_writer := sw\<rparr>) = node_inv w" "node_inv (w\<lparr>w_advert_timer := t\<rparr>) = node_inv w"
  "node_inv (w\<lparr>w_delivered_sweep := t\<rparr>) = node_inv w" "node_inv (w\<lparr>w_radio := rd\<rparr>) = node_inv w"
  by (simp_all add: node_inv_def sender_inv_def disp_inv_def queue_valid_def)

lemma node_inv_inbox [node_intros]:
  "node_inv w \<Longrightarrow> inbox_inv ib \<Longrightarrow> node_inv (w\<lparr>w_inbox := ib\<rparr>)"
  by (simp add: node_inv_def sender_inv_def disp_inv_def queue_valid_def)

lemma node_inv_channels [node_intros]:
  "node_inv w \<Longrightarrow> channels_inv cs \<Longrightarrow> node_inv (w\<lparr>w_channels := cs\<rparr>)"
  by (simp add: node_inv_def sender_inv_def disp_inv_def queue_valid_def)

lemma node_inv_delivered [node_intros]:
  "node_inv w \<Longrightarrow> delivered_wf t \<Longrightarrow> node_inv (w\<lparr>w_delivered := t\<rparr>)"
  by (simp add: node_inv_def sender_inv_def disp_inv_def queue_valid_def)

lemma delegate_inv: "delegate_ok env \<Longrightarrow> node_inv w \<Longrightarrow> node_inv (ne_delegate env n w)"
  by (simp add: delegate_ok_def)

lemma draw_inv [simp]:
  "node_inv (snd (draw_byte w)) = node_inv w" "node_inv (snd (draw_bytes n w)) = node_inv w"
  "node_inv (snd (next_io w)) = node_inv w"
  by (simp_all add: draw_byte_def draw_bytes_def next_io_def)

lemma send_advert_inv: "node_inv w \<Longrightarrow> node_inv (send_advert env f w)"
  by (simp add: send_advert_def node_send_inv split: option.splits)

lemma send_ack_inv: "node_inv w \<Longrightarrow> node_inv (send_ack env to ack w)"
  unfolding send_ack_def
  by (rule node_inv_view [of w]) (simp_all add: route_to_disp_inv node_inv_def)

lemma send_path_return_inv:
  assumes "node_inv w"
  shows "node_inv (send_path_return env to p et ex via d w)"
proof -
  have "node_inv (snd (path_return_extra et ex w))"
    using assms by (simp add: path_return_extra_def case_prod_unfold)
  then show ?thesis
    using assms by (simp add: send_path_return_def Let_def case_prod_unfold node_send_inv)
qed

lemma store_message_inv:
  assumes "delegate_ok env" "node_inv w" "message_wf m"
  shows "node_inv (store_message env m w)"
proof -
  obtain ok fs1 ib where s: "inbox_store (w_io w 0) m (w_fs w) (w_inbox w) = (ok, fs1, ib)"
    by (rule prod_cases3)
  have "inbox_inv ib" using inbox_store_inv [OF _ assms(3) s] assms(2) by (simp add: node_inv_def)
  then have "node_inv (w\<lparr>w_io := io, w_fs := fs1, w_inbox := ib\<rparr>)" for io
    using assms(2) by (auto intro!: node_intros)
  then show ?thesis
    using s delegate_inv [OF assms(1)] by (simp add: store_message_def next_io_def)
qed

lemma handle_advert_inv:
  assumes "delegate_ok env" "node_inv w"
  shows "node_inv (snd (handle_advert env p w))"
proof -
  have ci: "contacts_inv (w_contacts w)" using assms(2) by (simp add: node_inv_def)
  show ?thesis
    using assms apply_advert_inv [OF ci advert_decode_pubkey]
    by (auto simp: handle_advert_def Let_def split: option.splits prod.splits
        intro!: delegate_inv upd_contacts_inv node_inv_contacts contact_touch_signal_inv)
      (metis snd_conv)+
qed

lemma first_delivery_inv: "node_inv w \<Longrightarrow> node_inv (snd (first_delivery env c m w))"
  using mark_delivered_wf
  by (auto simp: first_delivery_def case_prod_unfold node_inv_def [of w] intro!: node_inv_delivered)

lemma node_inv_sender_step:
  assumes "node_inv (w :: ('r, 'm) nworld_scheme)" "sworld.more w' = sworld.more w"
    and "w_contacts w' = w_contacts w" "sender_inv w'" "disp_inv w'"
  shows "node_inv w'"
  using assms node_fields_more [OF assms(2)] by (simp add: node_inv_def)

lemma complete_node_inv: "node_inv w \<Longrightarrow> node_inv (snd (complete ack w))"
  by (rule node_inv_sender_step [of w]) (simp_all add: complete_inv node_inv_def)

lemma on_retry_node_inv: "node_inv w \<Longrightarrow> node_inv (on_retry cr ro self i w)"
  by (rule node_inv_sender_step [of w]) (simp_all add: on_retry_inv on_retry_disp_inv node_inv_def)

lemma node_send_text_inv: "node_inv w \<Longrightarrow> node_inv (snd (node_send_text env to tx tt ts w))"
  unfolding node_send_text_def
  by (rule node_inv_sender_step [of w]) (simp_all add: rs_send_inv rs_send_disp_inv node_inv_def)

lemma complete_ack_inv:
  assumes "delegate_ok env" "node_inv w"
  shows "node_inv (snd (complete_ack env ack d w))"
  using delegate_inv [OF assms(1)] complete_node_inv [OF assms(2), of ack]
  by (auto simp: complete_ack_def Let_def case_prod_unfold split: option.splits
      intro!: delegate_inv [OF assms(1)] upd_contacts_inv contact_touch_inv)

lemma handle_ack_inv:
  assumes "delegate_ok env" "node_inv w"
  shows "node_inv (snd (handle_ack env p w))"
  using assms complete_ack_inv [OF assms]
  by (auto simp: handle_ack_def case_prod_unfold send_path_return_inv split: option.splits)

lemma handle_path_inv:
  assumes "delegate_ok env" "node_inv w"
  shows "node_inv (snd (handle_path env p w))"
proof -
  have learn: "node_inv (ne_delegate env n (upd_contacts (\<lambda>cs. contact_touch t k (snd (contact_set_path k pth cs))) w))"
    if "length pth \<le> kMaxPathSize" for n t k pth
    using that assms
    by (auto intro!: delegate_inv upd_contacts_inv contact_touch_inv contact_set_path_inv)
  show ?thesis
    using assms path_return_decode_path
    by (auto simp: handle_path_def Let_def split: option.splits
        intro!: send_path_return_inv complete_ack_inv learn)
qed

lemma text_ack_inv: "node_inv w \<Longrightarrow> node_inv (snd (text_ack env c m plain w))"
  by (simp add: text_ack_def Let_def case_prod_unfold)

lemma direct_message_wf: "contact_wf c \<Longrightarrow> message_wf (direct_message p c m)"
  by (simp add: direct_message_def message_wf_def contact_wf_def new_message_def)

lemma reply_inv:
  assumes "node_inv w"
  shows "node_inv (if is_flood p then send_path_return env c p et ack None 0 w
                   else if ack \<noteq> [] then send_ack env c ack w else w)"
  using assms by (simp add: send_path_return_inv send_ack_inv)

lemma first_delivery_contacts [simp]: "w_contacts (snd (first_delivery env c m w)) = w_contacts w"
  by (simp add: first_delivery_def case_prod_unfold)

lemma touch_signal_length [simp]:
  "length (cs_contacts (contact_touch_signal t k rs sn s)) = length (cs_contacts s)"
  by (simp add: contact_touch_signal_def contact_touch_def)

lemma receive_text_inv:
  assumes "delegate_ok env" "node_inv w" "k < length (cs_contacts (w_contacts w))"
  shows "node_inv (receive_text env p k plain msg w)"
proof -
  define w1 where "w1 = upd_contacts (contact_touch_signal (now_unix w) k (rssi p) (snr p)) w"
  define w2 where "w2 = snd (first_delivery env (contact_at k w1) msg w1)"
  define w3 where "w3 = (if fst (first_delivery env (contact_at k w1) msg w1)
     then store_message env (direct_message p (contact_at k w2) msg) w2 else w2)"
  define w4 where "w4 = snd (text_ack env (contact_at k w3) msg plain w3)"
  have "node_inv w1"
    unfolding w1_def using assms(2) by (intro upd_contacts_inv contact_touch_signal_inv)
  then have w2: "node_inv w2" unfolding w2_def by (rule first_delivery_inv)
  have "k < length (cs_contacts (w_contacts w2))"
    using assms(3) by (simp add: w2_def w1_def upd_contacts_def)
  from direct_message_wf [OF node_inv_contact [OF w2 this]]
  have "node_inv w3" using w2 store_message_inv [OF assms(1) w2] by (simp add: w3_def)
  then have "node_inv w4" unfolding w4_def by (rule text_ack_inv)
  from reply_inv [OF this] show ?thesis
    unfolding receive_text_def Let_def case_prod_unfold
    by (simp only: w1_def [symmetric] w2_def [symmetric] w3_def [symmetric] w4_def [symmetric])
qed

lemma handle_text_inv:
  assumes "delegate_ok env" "node_inv w"
  shows "node_inv (snd (handle_text env p w))"
  using assms(2) receive_text_inv [OF assms decrypt_from_Some(1)]
  by (auto simp: handle_text_def split: option.splits)

lemma try_channels_inv:
  assumes "delegate_ok env" "node_inv w"
  shows "node_inv (try_channels env p e chs w)"
  using assms
  by (induction env p e chs w rule: try_channels.induct)
    (auto split: option.splits intro!: store_message_inv simp: message_wf_def new_message_def)

lemma handle_group_text_inv:
  assumes "delegate_ok env" "node_inv w"
  shows "node_inv (handle_group_text env p w)"
  using assms by (simp add: handle_group_text_def try_channels_inv split: option.splits)

lemma maybe_repeat_inv: "node_inv w \<Longrightarrow> node_inv (maybe_repeat env p w)"
  by (simp add: maybe_repeat_def case_prod_unfold node_send_inv split: bool.splits)

lemma delay_inv [simp]: "node_inv (snd (direct_retransmit_delay env p w)) = node_inv w"
  by (simp add: direct_retransmit_delay_def Let_def case_prod_unfold)

lemma forward_inv:
  assumes "node_inv w"
  shows "node_inv (forward_direct env p w)" "node_inv (forward_trace env p w)"
  using assms by (auto simp: forward_direct_def forward_trace_def Let_def case_prod_unfold
      intro!: node_send_inv)

lemma on_packet_inv:
  assumes "delegate_ok env" "node_inv w"
  shows "node_inv (on_packet env p w)"
proof -
  note handlers = handle_advert_inv [OF assms] handle_text_inv [OF assms] handle_ack_inv [OF assms]
    handle_path_inv [OF assms] handle_group_text_inv [OF assms]
  have "node_inv (snd (if ptype p = Ack then handle_ack env p w else (True, w)))"
    using assms(2) handlers(3) by simp
  moreover have "node_inv (snd (case ptype p of
                 Advert \<Rightarrow> handle_advert env p w
               | TxtMsg \<Rightarrow> handle_text env p w
               | Ack \<Rightarrow> handle_ack env p w
               | Path \<Rightarrow> handle_path env p w
               | GrpTxt \<Rightarrow> (True, handle_group_text env p w)
               | Req \<Rightarrow> (handle_request env p w, w)
               | Response \<Rightarrow> (handle_request env p w, w)
               | AnonReq \<Rightarrow> (handle_request env p w, w)
               | GrpData \<Rightarrow> (True, w)
               | _ \<Rightarrow> (False, w)))"
    using assms(2) handlers by (simp split: PayloadType.split)
  ultimately show ?thesis
    using assms(2) by (simp add: on_packet_def case_prod_unfold forward_inv maybe_repeat_inv)
qed

lemma node_inv_disp:
  assumes "node_inv w" "dp_queue (f (w_disp w)) = dp_queue (w_disp w)"
    and "dp_queue_limit (f (w_disp w)) = dp_queue_limit (w_disp w)"
    and "dp_next_seq (f (w_disp w)) = dp_next_seq (w_disp w)"
  shows "node_inv (upd_disp f w)"
  using assms by (simp add: node_inv_def upd_disp_def sender_inv_def disp_inv_def queue_valid_def)

lemma node_inv_stats: "node_inv w \<Longrightarrow> node_inv (upd_stats f w)"
  unfolding upd_stats_def by (rule node_inv_disp) simp_all

lemma node_inv_seen: "node_inv w \<Longrightarrow> node_inv (snd (check_and_mark_seen cr p w))"
  using node_inv_disp [of w "\<lambda>d. snd (mark_seen (now_ms w) (pack_hash (dedup_hash cr p)) d)"]
  by (simp add: check_and_mark_seen_def case_prod_unfold upd_disp_def mark_seen_def Let_def
      split: option.splits)

lemma node_radio_rx_inv:
  assumes "delegate_ok env" "node_inv w"
  shows "node_inv (node_radio_rx env r w)"
  using assms
  by (auto simp: node_radio_rx_def on_radio_rx_def Let_def case_prod_unfold split: option.splits bool.splits
      intro!: node_inv_stats node_inv_seen on_packet_inv delegate_inv)

lemma pump_node_inv: "node_inv w \<Longrightarrow> node_inv (pump ro on_tx_result w)"
  by (rule node_inv_view [of w]) (simp_all add: sender.pump_inv node_inv_def)

lemma on_pump_timer_inv:
  assumes "node_inv w"
  shows "node_inv (on_pump_timer ro on_tx_result w)"
proof -
  have "node_inv (upd_disp (\<lambda>d. d\<lparr>dp_pump_timer := None, dp_pump_due_ms := 0\<rparr>) (w\<lparr>w_loop := lp\<rparr>))" for lp
    using assms by (intro node_inv_disp) simp_all
  from pump_node_inv [OF this] show ?thesis by (simp add: on_pump_timer_def Let_def upd_disp_def)
qed

lemma save_contacts_inv: "node_inv w \<Longrightarrow> node_inv (snd (save_contacts w))"
  by (auto simp: save_contacts_def contacts_save_def next_io_def case_prod_unfold contacts_inv_def
      node_inv_def [of w] intro!: node_inv_contacts)

lemma save_channels_inv: "node_inv w \<Longrightarrow> node_inv (snd (save_channels w))"
  by (auto simp: save_channels_def channels_save_def next_io_def case_prod_unfold channels_inv_def
      node_inv_def [of w] intro!: node_inv_channels)

lemma save_inbox_inv: "node_inv w \<Longrightarrow> node_inv (snd (save_inbox w))"
  by (auto simp: save_inbox_def inbox_save_def next_io_def case_prod_unfold inbox_inv_def
      node_inv_def [of w] intro!: node_inv_inbox)

lemma flush_inv: "node_inv w \<Longrightarrow> node_inv (snd (flush w))"
  by (simp add: flush_def case_prod_unfold Let_def save_contacts_inv save_channels_inv save_inbox_inv)

lemma node_timer_inv:
  assumes "node_inv w"
  shows "node_inv (node_timer env cb w)"
proof (cases cb)
  case CbSeenSweep
  then show ?thesis
    using assms node_inv_disp [of w "sweep_seen (now_ms w)"]
    by (simp add: node_timer_def expire_seen_def sweep_seen_def)
next
  case CbDeliveredSweep
  then show ?thesis
    using assms delivered.sweep_wf [of "w_delivered w" "now_ms w"]
    by (simp add: node_timer_def expire_delivered_def node_inv_delivered node_inv_def [of w])
qed (use assms in \<open>simp_all add: node_timer_def on_pump_timer_inv on_retry_node_inv send_advert_inv
      flush_inv on_save_request_def\<close>)

section \<open>Properties\<close>

text \<open>
  C2. The node's state stays sound through every packet received and every timer that runs,
  provided what it notifies keeps it so: contact keys are distinct and of 32 bytes and the table is
  within its limit, eight channel slots, the inbox within its limit and every message readable from
  its file, at most 512 remembered deliveries, and the sender and the transmit queue sound.
\<close>

theorem node_keeps_invariant:
  assumes "node_inv w" "\<forall>n v. node_inv v \<longrightarrow> node_inv (ne_delegate env n v)"
  shows "node_inv (node_radio_rx env r w) \<and> node_inv (on_packet env p w) \<and> node_inv (node_timer env cb w)"
proof -
  have "delegate_ok env" using assms(2) by (simp add: delegate_ok_def)
  then show ?thesis using assms(1) by (simp add: node_radio_rx_inv on_packet_inv node_timer_inv)
qed

definition fresh_node :: "bytes list nworld" where
  "fresh_node = sworld.extend (sworld.truncate fresh_sender) \<lparr>w_channels = new_channels [98], w_inbox = new_inbox 4 [99],
     w_cfg = \<lparr>nc_name = [110], nc_adv_type = kAdvTypeChat, nc_lat_e6 = 0, nc_lon_e6 = 0,
       nc_advert_interval_s = 0, nc_repeat = True, nc_max_hops = 32\<rparr>,
     w_delivered = [], w_advert_timer = None, w_delivered_sweep = None,
     w_writer = \<lparr>sw_coalesce_ms = kCoalesceMs, sw_sweep = None, sw_pending = None, sw_healthy = True\<rparr>,
     w_clock = \<lparr>ck_system = 1800000000, ck_offset = 0, ck_valid = False\<rparr>,
     w_fs = Map.empty, w_io = (\<lambda>i. io_fine)\<rparr>"


lemma fresh_node_inv: "node_inv fresh_node"
proof -
  have "sender_inv fresh_node" "disp_inv fresh_node"
    by (simp_all add: fresh_node_def fresh_sender_def sworld.defs sender_inv_def pendings_ok_def
        new_sender_def disp_inv_def queue_valid_def new_dispatcher_def)
  then show ?thesis
    using one_contact_inv channels_inv_new [of "[98]"] inbox_inv_new [of 4 "[99]"]
    by (simp add: node_inv_def delivered_wf_def) (simp add: fresh_node_def fresh_sender_def sworld.defs)
qed

definition quiet_env :: "(bytes list, unit) node_env" where
  "quiet_env = \<lparr>ne_crypto = plain_crypto, ne_radio = log_radio, ne_self = example_identity,
     ne_delegate = (\<lambda>n w. w), ne_begin = (\<lambda>t. 0)\<rparr>"

theorem node_keeps_invariant_witness: "node_inv (on_packet quiet_env new_packet fresh_node)"
  using node_keeps_invariant [OF fresh_node_inv, of quiet_env] by (simp add: quiet_env_def)







end
