(* ===== verification/Server.thy ===== *)
theory Server
  imports Frames Node
begin

text \<open>
  The transport of the companion protocol, \<^verbatim>\<open>src/src/companion/server.h\<close> and
  \<^verbatim>\<open>server.cpp\<close>: one connected client at a time, an inbound frame reader, an outbound buffer with
  a limit, and the Unix socket with its lock. The results of the socket calls are inputs: the
  outcomes of \<^verbatim>\<open>write\<close> are a list in the world that is used up call by call, those of \<^verbatim>\<open>read\<close> a
  list given to the handler, and those of the set-up calls a record. An exhausted list means the
  call would block. The handlers the session installs are function arguments. Nothing in the
  daemon sets a disconnect handler.
\<close>

section \<open>State\<close>

record ServerOptions =
  so_tcp :: bool
  so_socket_path :: bytes
  so_bind_addr :: bytes
  so_port :: u16
  so_max_outbound_bytes :: nat

record Server =
  sv_opts :: ServerOptions
  sv_listen_fd :: "nat option"
  sv_client_fd :: "nat option"
  sv_lock_fd :: "nat option"
  sv_owns_path :: bool
  sv_path_dev :: nat
  sv_path_ino :: nat
  sv_listen_watch :: "nat option"
  sv_client_watch :: "nat option"
  sv_reader :: bytes
  sv_out_buf :: bytes

definition new_server :: "ServerOptions \<Rightarrow> Server" where
  "new_server opts = \<lparr>sv_opts = opts, sv_listen_fd = None, sv_client_fd = None, sv_lock_fd = None,
     sv_owns_path = False, sv_path_dev = 0, sv_path_ino = 0, sv_listen_watch = None,
     sv_client_watch = None, sv_reader = [], sv_out_buf = []\<rparr>"

text \<open>What stands at the socket's path, and the results of socket calls.\<close>

record path_node =
  pn_is_socket :: bool
  pn_dev :: nat
  pn_ino :: nat
  pn_mode :: nat

datatype write_outcome = Wrote nat | WriteAgain | WriteIntr | WriteFail
datatype read_outcome = ReadData bytes | ReadAgain | ReadIntr | ReadFail

text \<open>\<open>w_sent\<close> is what the current client's socket has accepted so far.\<close>

record 'r cworld = "'r nworld" +
  w_server :: Server
  w_sock_path :: "path_node option"
  w_writes :: "write_outcome list"
  w_sent :: bytes

definition POLLIN :: u16 where "POLLIN = 0x01"
definition POLLOUT :: u16 where "POLLOUT = 0x04"
definition POLLERR :: u16 where "POLLERR = 0x08"
definition POLLHUP :: u16 where "POLLHUP = 0x10"
definition POLLNVAL :: u16 where "POLLNVAL = 0x20"

definition kUnixSocketMode :: nat where "kUnixSocketMode = 0x1B0"
definition sun_path_size :: nat where "sun_path_size = 108"

definition upd_server :: "(Server \<Rightarrow> Server) \<Rightarrow> ('r, 'm) cworld_scheme \<Rightarrow> ('r, 'm) cworld_scheme" where
  "upd_server f w = w\<lparr>w_server := f (w_server w)\<rparr>"

definition connected :: "('r, 'm) cworld_scheme \<Rightarrow> bool" where
  "connected w \<longleftrightarrow> sv_client_fd (w_server w) \<noteq> None"

definition watch_client :: "u16 \<Rightarrow> ('r, 'm) cworld_scheme \<Rightarrow> ('r, 'm) cworld_scheme" where
  "watch_client events w =
     (case sv_client_watch (w_server w) of
        None \<Rightarrow> w
      | Some i \<Rightarrow> w\<lparr>w_loop := update_fd i events (w_loop w)\<rparr>)"

section \<open>Clients\<close>

definition drop_client :: "('r, 'm) cworld_scheme \<Rightarrow> ('r, 'm) cworld_scheme" where
  "drop_client w =
     (if \<not> connected w then w
      else upd_server (\<lambda>s. s\<lparr>sv_client_watch := None, sv_client_fd := None, sv_reader := [], sv_out_buf := []\<rparr>)
             (w\<lparr>w_loop := reset_watch (sv_client_watch (w_server w)) (w_loop w)\<rparr>))"

text \<open>\<^verbatim>\<open>accept\<close> gave \<open>fd\<close>, or nothing; \<open>nonblock\<close> is whether it could be set non-blocking.\<close>

definition accept_client ::
  "(('r, 'm) cworld_scheme \<Rightarrow> ('r, 'm) cworld_scheme) \<Rightarrow> nat option \<Rightarrow> bool \<Rightarrow>
    ('r, 'm) cworld_scheme \<Rightarrow> ('r, 'm) cworld_scheme" where
  "accept_client on_connect fd nonblock w =
     (case fd of
        None \<Rightarrow> w
      | Some f \<Rightarrow>
          let w1 = drop_client w
          in if \<not> nonblock then w1
             else case add_fd (int f) POLLIN WbClient (w_loop w1) of
                    (i, lp) \<Rightarrow>
                      on_connect
                        (upd_server (\<lambda>s. s\<lparr>sv_client_fd := Some f, sv_reader := [], sv_out_buf := [],
                                           sv_client_watch := Some i\<rparr>)
                          (w1\<lparr>w_loop := reset_watch (sv_client_watch (w_server w1)) lp, w_sent := []\<rparr>)))"

definition on_listen_ready ::
  "(('r, 'm) cworld_scheme \<Rightarrow> ('r, 'm) cworld_scheme) \<Rightarrow> nat option \<Rightarrow> bool \<Rightarrow> u16 \<Rightarrow>
    ('r, 'm) cworld_scheme \<Rightarrow> ('r, 'm) cworld_scheme" where
  "on_listen_ready on_connect fd nonblock revents w =
     (if revents AND POLLIN \<noteq> 0 then accept_client on_connect fd nonblock w else w)"

section \<open>Output\<close>

definition outbound_buffer_has_capacity :: "nat \<Rightarrow> nat \<Rightarrow> nat \<Rightarrow> bool" where
  "outbound_buffer_has_capacity buffered next_len limit \<longleftrightarrow> buffered \<le> limit \<and> next_len \<le> limit - buffered"

text \<open>The write loop; a write of \<open>n\<close> bytes moves at least one and at most what is buffered.\<close>

fun flush_writes :: "write_outcome list \<Rightarrow> ('r, 'm) cworld_scheme \<Rightarrow> ('r, 'm) cworld_scheme" where
  "flush_writes os w =
    (let s = w_server w
     in if sv_client_fd s = None then w\<lparr>w_writes := os\<rparr>
        else if sv_out_buf s = [] then watch_client POLLIN (w\<lparr>w_writes := os\<rparr>)
        else case os of
               [] \<Rightarrow> watch_client (POLLIN OR POLLOUT) (w\<lparr>w_writes := []\<rparr>)
             | Wrote n # rest \<Rightarrow>
                 flush_writes rest
                   (w\<lparr>w_server := s\<lparr>sv_out_buf := drop (Suc n) (sv_out_buf s)\<rparr>,
                      w_sent := w_sent w @ take (Suc n) (sv_out_buf s)\<rparr>)
             | WriteAgain # rest \<Rightarrow> watch_client (POLLIN OR POLLOUT) (w\<lparr>w_writes := rest\<rparr>)
             | WriteIntr # rest \<Rightarrow> flush_writes rest w
             | WriteFail # rest \<Rightarrow> drop_client (w\<lparr>w_writes := rest\<rparr>))"

definition server_flush :: "('r, 'm) cworld_scheme \<Rightarrow> ('r, 'm) cworld_scheme" where
  "server_flush w = flush_writes (w_writes w) w"

definition server_send :: "bytes \<Rightarrow> ('r, 'm) cworld_scheme \<Rightarrow> ('r, 'm) cworld_scheme" where
  "server_send pl w =
     (if \<not> connected w then w
      else
        let framed = frame_response pl; s = w_server w
        in if \<not> outbound_buffer_has_capacity (length (sv_out_buf s)) (length framed)
                  (so_max_outbound_bytes (sv_opts s))
           then drop_client w
           else server_flush (w\<lparr>w_server := s\<lparr>sv_out_buf := sv_out_buf s @ framed\<rparr>\<rparr>))"

section \<open>Input\<close>

text \<open>
  The loop over complete frames, re-checking the client each time round. Every frame takes at
  least its three header bytes from the reader, so the reader's length is fuel enough for a
  handler that does not feed it.
\<close>

fun dispatch_frames ::
  "(bytes \<Rightarrow> ('r, 'm) cworld_scheme \<Rightarrow> ('r, 'm) cworld_scheme) \<Rightarrow> nat \<Rightarrow> ('r, 'm) cworld_scheme \<Rightarrow>
    ('r, 'm) cworld_scheme" where
  "dispatch_frames on_frame 0 w = w"
| "dispatch_frames on_frame (Suc n) w =
     (if \<not> connected w then w
      else case frame_next (sv_reader (w_server w)) of
             (None, b) \<Rightarrow> upd_server (\<lambda>s. s\<lparr>sv_reader := b\<rparr>) w
           | (Some f, b) \<Rightarrow>
               let w1 = upd_server (\<lambda>s. s\<lparr>sv_reader := b\<rparr>) w
               in dispatch_frames on_frame n (if f = [] then w1 else on_frame f w1))"

definition feed_client ::
  "(bytes \<Rightarrow> ('r, 'm) cworld_scheme \<Rightarrow> ('r, 'm) cworld_scheme) \<Rightarrow> bytes \<Rightarrow> ('r, 'm) cworld_scheme \<Rightarrow>
    ('r, 'm) cworld_scheme" where
  "feed_client on_frame d w =
    (let b = frame_feed (sv_reader (w_server w)) d
     in dispatch_frames on_frame (Suc (length b)) (upd_server (\<lambda>s. s\<lparr>sv_reader := b\<rparr>) w))"

definition kReadSize :: nat where "kReadSize = 4096"

text \<open>The read loop; no data is the end of the stream, a short read means the socket is drained.\<close>

fun read_client ::
  "(bytes \<Rightarrow> ('r, 'm) cworld_scheme \<Rightarrow> ('r, 'm) cworld_scheme) \<Rightarrow> read_outcome list \<Rightarrow>
    ('r, 'm) cworld_scheme \<Rightarrow> ('r, 'm) cworld_scheme" where
  "read_client on_frame [] w = w"
| "read_client on_frame (ReadData d # rest) w =
    (if d = [] then drop_client w
     else
       let w1 = feed_client on_frame d w
       in if \<not> connected w1 then w1
          else if length d < kReadSize then w1
          else read_client on_frame rest w1)"
| "read_client on_frame (ReadAgain # rest) w = w"
| "read_client on_frame (ReadIntr # rest) w = read_client on_frame rest w"
| "read_client on_frame (ReadFail # rest) w = drop_client w"

definition on_client_ready ::
  "(bytes \<Rightarrow> ('r, 'm) cworld_scheme \<Rightarrow> ('r, 'm) cworld_scheme) \<Rightarrow> read_outcome list \<Rightarrow> u16 \<Rightarrow>
    ('r, 'm) cworld_scheme \<Rightarrow> ('r, 'm) cworld_scheme" where
  "on_client_ready on_frame reads revents w =
     (if revents AND (POLLERR OR POLLNVAL) \<noteq> 0 then drop_client w
      else
        let w1 = (if revents AND POLLOUT \<noteq> 0 then server_flush w else w)
        in if \<not> connected w1 then w1
           else
             let w2 = (if revents AND POLLIN \<noteq> 0 then read_client on_frame reads w1 else w1)
             in if revents AND POLLHUP \<noteq> 0 \<and> connected w2 then drop_client w2 else w2)"

section \<open>Listening\<close>

text \<open>
  Which of the set-up calls succeed. \<open>up_lstat_error\<close> is an error other than \<^verbatim>\<open>ENOENT\<close>; otherwise
  \<^verbatim>\<open>lstat\<close> says what stands at the path.
\<close>

record unix_plan =
  up_open_lock :: "nat option"
  up_lock_regular :: bool
  up_lock_chown :: bool
  up_lock_chmod :: bool
  up_flock :: bool
  up_lstat_error :: bool
  up_unlink :: bool
  up_socket :: "nat option"
  up_bind :: bool
  up_bound_dev :: nat
  up_bound_ino :: nat
  up_lstat_bound :: bool
  up_chown :: bool
  up_chmod :: bool
  up_listen :: bool
  up_nonblock :: bool
  up_lstat_cleanup :: bool
  up_unlink_cleanup :: bool

definition cleanup_unix_path :: "unix_plan \<Rightarrow> ('r, 'm) cworld_scheme \<Rightarrow> ('r, 'm) cworld_scheme" where
  "cleanup_unix_path io w =
    (let s = w_server w
     in if \<not> sv_owns_path s then w
        else
          let ours = (case w_sock_path w of
                        Some n \<Rightarrow> up_lstat_cleanup io \<and> pn_is_socket n \<and> pn_dev n = sv_path_dev s \<and>
                                  pn_ino n = sv_path_ino s
                      | None \<Rightarrow> False)
          in w\<lparr>w_sock_path := (if ours \<and> up_unlink_cleanup io then None else w_sock_path w),
               w_server := s\<lparr>sv_owns_path := False, sv_path_dev := 0, sv_path_ino := 0\<rparr>\<rparr>)"

definition close_listen :: "('r, 'm) cworld_scheme \<Rightarrow> ('r, 'm) cworld_scheme" where
  "close_listen w = upd_server (\<lambda>s. s\<lparr>sv_listen_fd := None\<rparr>) w"

definition close_lock :: "('r, 'm) cworld_scheme \<Rightarrow> ('r, 'm) cworld_scheme" where
  "close_lock w = upd_server (\<lambda>s. s\<lparr>sv_lock_fd := None\<rparr>) w"

text \<open>The way out of every failure after \<^verbatim>\<open>bind\<close>.\<close>

definition abandon_socket :: "unix_plan \<Rightarrow> ('r, 'm) cworld_scheme \<Rightarrow> ('r, 'm) cworld_scheme" where
  "abandon_socket io w = close_lock (cleanup_unix_path io (close_listen w))"

definition chmod_socket :: "('r, 'm) cworld_scheme \<Rightarrow> ('r, 'm) cworld_scheme" where
  "chmod_socket w = w\<lparr>w_sock_path := map_option (\<lambda>n. n\<lparr>pn_mode := kUnixSocketMode\<rparr>) (w_sock_path w)\<rparr>"

definition start_listening :: "nat \<Rightarrow> ('r, 'm) cworld_scheme \<Rightarrow> ('r, 'm) cworld_scheme" where
  "start_listening fd w =
     (case add_fd (int fd) POLLIN WbListen (w_loop w) of
        (i, lp) \<Rightarrow> upd_server (\<lambda>s. s\<lparr>sv_listen_watch := Some i\<rparr>)
                     (w\<lparr>w_loop := reset_watch (sv_listen_watch (w_server w)) lp\<rparr>))"

text \<open>From \<^verbatim>\<open>bind\<close> on, with the lock held and the path free.\<close>

definition bind_unix :: "unix_plan \<Rightarrow> nat \<Rightarrow> ('r, 'm) cworld_scheme \<Rightarrow> bool \<times> ('r, 'm) cworld_scheme" where
  "bind_unix io fd w =
    (let w1 = upd_server (\<lambda>s. s\<lparr>sv_listen_fd := Some fd\<rparr>) w
     in if \<not> up_bind io then (False, close_lock (close_listen w1))
     else
       let w2 = upd_server (\<lambda>s. s\<lparr>sv_owns_path := True\<rparr>)
                  (w1\<lparr>w_sock_path := Some \<lparr>pn_is_socket = True, pn_dev = up_bound_dev io,
                       pn_ino = up_bound_ino io, pn_mode = kUnixSocketMode\<rparr>\<rparr>)
       in if \<not> up_lstat_bound io then (False, abandon_socket io w2)
       else
         let w3 = upd_server (\<lambda>s. s\<lparr>sv_path_dev := up_bound_dev io, sv_path_ino := up_bound_ino io\<rparr>) w2
         in if \<not> up_chown io \<or> \<not> up_chmod io then (False, abandon_socket io w3)
         else
           let w4 = chmod_socket w3
           in if \<not> up_listen io \<or> \<not> up_nonblock io then (False, abandon_socket io w4)
              else (True, start_listening fd w4))"

definition open_unix :: "unix_plan \<Rightarrow> ('r, 'm) cworld_scheme \<Rightarrow> bool \<times> ('r, 'm) cworld_scheme" where
  "open_unix io w =
     (case up_socket io of
        None \<Rightarrow> (False, close_lock (close_listen w))
      | Some fd \<Rightarrow> bind_unix io fd w)"

definition start_unix :: "unix_plan \<Rightarrow> ('r, 'm) cworld_scheme \<Rightarrow> bool \<times> ('r, 'm) cworld_scheme" where
  "start_unix io w =
    (let p = so_socket_path (sv_opts (w_server w))
     in if p = [] \<or> length p \<ge> sun_path_size then (False, w)
        else case up_open_lock io of
          None \<Rightarrow> (False, close_lock w)
        | Some lock_fd \<Rightarrow>
            let w1 = upd_server (\<lambda>s. s\<lparr>sv_lock_fd := Some lock_fd\<rparr>) w
            in if \<not> up_lock_regular io \<or> \<not> up_lock_chown io \<or> \<not> up_lock_chmod io \<or> \<not> up_flock io
               then (False, close_lock w1)
               else if up_lstat_error io then (False, close_lock w1)
               else case w_sock_path w of
                      Some n \<Rightarrow>
                        if \<not> pn_is_socket n \<or> \<not> up_unlink io then (False, close_lock w1)
                        else open_unix io (w1\<lparr>w_sock_path := None\<rparr>)
                    | None \<Rightarrow> open_unix io w1)"

text \<open>For TCP; \<open>tp_addr_ok\<close> is whether the bind address parses.\<close>

record tcp_plan =
  tp_addr_ok :: bool
  tp_socket :: "nat option"
  tp_bind :: bool
  tp_getsockname :: "u16 option"
  tp_listen :: bool
  tp_nonblock :: bool

definition any_address :: "bytes \<Rightarrow> bool" where
  "any_address a \<longleftrightarrow> a = [] \<or> a = str ''0.0.0.0''"

definition start_tcp :: "tcp_plan \<Rightarrow> ('r, 'm) cworld_scheme \<Rightarrow> bool \<times> ('r, 'm) cworld_scheme" where
  "start_tcp io w =
    (let opts = sv_opts (w_server w)
     in if \<not> any_address (so_bind_addr opts) \<and> \<not> tp_addr_ok io then (False, w)
        else case tp_socket io of
          None \<Rightarrow> (False, close_listen w)
        | Some fd \<Rightarrow>
            let w1 = upd_server (\<lambda>s. s\<lparr>sv_listen_fd := Some fd\<rparr>) w
            in if \<not> tp_bind io then (False, close_listen w1)
               else if so_port opts = 0 \<and> tp_getsockname io = None then (False, close_listen w1)
               else
                 let w2 = (case tp_getsockname io of
                             Some port \<Rightarrow>
                               if so_port opts = 0
                               then upd_server (\<lambda>s. s\<lparr>sv_opts := (sv_opts s)\<lparr>so_port := port\<rparr>\<rparr>) w1 else w1
                           | None \<Rightarrow> w1)
                 in if \<not> tp_listen io \<or> \<not> tp_nonblock io then (False, close_listen w2)
                    else (True, start_listening fd w2))"

definition server_start ::
  "unix_plan \<Rightarrow> tcp_plan \<Rightarrow> ('r, 'm) cworld_scheme \<Rightarrow> bool \<times> ('r, 'm) cworld_scheme" where
  "server_start uio tio w =
     (if sv_listen_fd (w_server w) \<noteq> None then (False, w)
      else if so_tcp (sv_opts (w_server w)) then start_tcp tio w else start_unix uio w)"

definition server_shutdown :: "unix_plan \<Rightarrow> ('r, 'm) cworld_scheme \<Rightarrow> ('r, 'm) cworld_scheme" where
  "server_shutdown io w =
    (let w1 = drop_client w;
         w2 = (if sv_listen_fd (w_server w1) \<noteq> None
               then upd_server (\<lambda>s. s\<lparr>sv_listen_fd := None, sv_listen_watch := None\<rparr>)
                      (w1\<lparr>w_loop := reset_watch (sv_listen_watch (w_server w1)) (w_loop w1)\<rparr>)
               else w1)
     in close_lock (cleanup_unix_path io w2))"

section \<open>Basic facts\<close>

lemma watch_client_simps [simp]:
  "w_server (watch_client e w) = w_server w" "w_sent (watch_client e w) = w_sent w"
  "w_sock_path (watch_client e w) = w_sock_path w" "w_writes (watch_client e w) = w_writes w"
  "connected (watch_client e w) = connected w"
  by (simp_all add: watch_client_def connected_def split: option.splits)

lemma upd_server_simps [simp]:
  "w_server (upd_server f w) = f (w_server w)" "w_sent (upd_server f w) = w_sent w"
  "w_sock_path (upd_server f w) = w_sock_path w" "w_loop (upd_server f w) = w_loop w"
  "w_writes (upd_server f w) = w_writes w"
  by (simp_all add: upd_server_def)

lemma connected_reader [simp]:
  "connected (upd_server (\<lambda>s. s\<lparr>sv_reader := b\<rparr>) w) = connected w"
  by (simp add: connected_def)

lemma drop_client_disconnects [simp]: "\<not> connected (drop_client w)"
  by (simp add: drop_client_def connected_def)

lemma drop_client_fd [simp]: "sv_client_fd (w_server (drop_client w)) = None"
  using drop_client_disconnects [of w] by (simp add: connected_def)

section \<open>Invariant\<close>

text \<open>Nothing is kept of a client that is gone, and the outbound buffer is within its limit.\<close>

definition server_inv :: "('r, 'm) cworld_scheme \<Rightarrow> bool" where
  "server_inv w \<longleftrightarrow>
    (let s = w_server w
     in (sv_client_fd s = None \<longrightarrow> sv_reader s = [] \<and> sv_out_buf s = [] \<and> sv_client_watch s = None) \<and>
        length (sv_out_buf s) \<le> so_max_outbound_bytes (sv_opts s))"

lemma drop_client_inv: "server_inv w \<Longrightarrow> server_inv (drop_client w)"
  by (simp add: server_inv_def drop_client_def connected_def Let_def)

lemma watch_client_inv [simp]: "server_inv (watch_client e w) = server_inv w"
  by (simp add: server_inv_def)

lemma server_inv_io [simp]:
  "server_inv (w\<lparr>w_writes := os\<rparr>) = server_inv w" "server_inv (w\<lparr>w_sent := b\<rparr>) = server_inv w"
  by (simp_all add: server_inv_def)

declare flush_writes.simps [simp del]

lemma flush_writes_inv: "server_inv w \<Longrightarrow> server_inv (flush_writes os w)"
proof (induction os w rule: flush_writes.induct)
  case (1 os w)
  have "server_inv (w\<lparr>w_server := (w_server w)\<lparr>sv_out_buf := drop n (sv_out_buf (w_server w))\<rparr>, w_sent := b\<rparr>)"
    for n b
    using "1.prems" by (auto simp: server_inv_def Let_def)
  with 1 show ?case
    by (subst flush_writes.simps)
      (auto simp: Let_def drop_client_inv split: list.splits write_outcome.splits)
qed

lemma server_flush_inv: "server_inv w \<Longrightarrow> server_inv (server_flush w)"
  by (simp add: server_flush_def flush_writes_inv)

lemma capacity_iff: "outbound_buffer_has_capacity b n m \<longleftrightarrow> b + n \<le> m"
  by (auto simp: outbound_buffer_has_capacity_def)

lemma server_send_inv:
  assumes "server_inv w"
  shows "server_inv (server_send pl w)"
proof -
  have "server_inv (w\<lparr>w_server := (w_server w)\<lparr>sv_out_buf := sv_out_buf (w_server w) @ frame_response pl\<rparr>\<rparr>)"
    if "connected w" "length (sv_out_buf (w_server w)) + length (frame_response pl) \<le>
          so_max_outbound_bytes (sv_opts (w_server w))"
    using that by (auto simp: server_inv_def Let_def connected_def)
  with assms show ?thesis
    by (simp add: server_send_def Let_def capacity_iff drop_client_inv server_flush_inv)
qed

section \<open>The output stream\<close>

definition out_stream :: "('r, 'm) cworld_scheme \<Rightarrow> bytes" where
  "out_stream w = w_sent w @ sv_out_buf (w_server w)"

lemma flush_writes_stream:
  "connected (flush_writes os w) \<Longrightarrow> connected w \<and> out_stream (flush_writes os w) = out_stream w"
proof (induction os w rule: flush_writes.induct)
  case (1 os w)
  let ?s = "w_server w"
  let ?w = "\<lambda>n. w\<lparr>w_server := ?s\<lparr>sv_out_buf := drop (Suc n) (sv_out_buf ?s)\<rparr>,
                  w_sent := w_sent w @ take (Suc n) (sv_out_buf ?s)\<rparr>"
  have "out_stream (?w n) = out_stream w" "connected (?w n) = connected w" for n
    by (simp_all add: out_stream_def connected_def)
  with 1 show ?case
    unfolding flush_writes.simps [of os w] Let_def
    by (auto simp: connected_def out_stream_def simp del: take_Suc drop_Suc
        split: list.splits write_outcome.splits if_splits)
qed

lemma server_send_stream:
  assumes "connected (server_send pl w)"
  shows "connected w \<and> out_stream (server_send pl w) = out_stream w @ frame_response pl"
proof -
  let ?w = "w\<lparr>w_server := (w_server w)\<lparr>sv_out_buf := sv_out_buf (w_server w) @ frame_response pl\<rparr>\<rparr>"
  have w: "connected w" and send: "server_send pl w = flush_writes (w_writes w) ?w"
    using assms by (auto simp: server_send_def server_flush_def Let_def split: if_splits)
  have "out_stream ?w = out_stream w @ frame_response pl" by (simp add: out_stream_def)
  with w flush_writes_stream [of "w_writes w" ?w] assms show ?thesis by (simp add: send)
qed

lemma sends_stream:
  "connected (fold server_send pls w) \<Longrightarrow>
     connected w \<and> out_stream (fold server_send pls w) = out_stream w @ concat (map frame_response pls)"
proof (induction pls arbitrary: w)
  case (Cons pl pls)
  then have "connected (server_send pl w)"
    "out_stream (fold server_send pls (server_send pl w)) =
       out_stream (server_send pl w) @ concat (map frame_response pls)"
    by simp_all
  with server_send_stream [of pl w] show ?case by simp
qed simp

section \<open>Frame handlers\<close>

text \<open>
  What the server relies on of the handler a session installs: it does not touch the reader of a
  client that stays, and cannot bring back a client that is gone.
\<close>

definition set_reader :: "bytes \<Rightarrow> ('r, 'm) cworld_scheme \<Rightarrow> ('r, 'm) cworld_scheme" where
  "set_reader b w = upd_server (\<lambda>s. s\<lparr>sv_reader := b\<rparr>) w"

lemma set_reader_simps [simp]:
  "connected (set_reader b w) = connected w" "sv_reader (w_server (set_reader b w)) = b"
  by (simp_all add: set_reader_def)

text \<open>\<open>handles h fs w w'\<close>: from \<open>w\<close> the handler ran on the frames \<open>fs\<close>, in this order, and on
  nothing else, reaching \<open>w'\<close>; in between only the reader's buffer changed.\<close>

inductive handles ::
  "(bytes \<Rightarrow> ('r, 'm) cworld_scheme \<Rightarrow> ('r, 'm) cworld_scheme) \<Rightarrow> bytes list \<Rightarrow>
    ('r, 'm) cworld_scheme \<Rightarrow> ('r, 'm) cworld_scheme \<Rightarrow> bool" for h where
  none: "handles h [] w (set_reader b w)"
| frame: "handles h fs (h f (set_reader b w)) w' \<Longrightarrow> handles h (f # fs) w w'"

inductive_cases handles_ConsE: "handles h (f # fs) w w'"
inductive_cases handles_NilE: "handles h [] w w'"

lemma set_reader_set_reader [simp]: "set_reader b (set_reader c w) = set_reader b w"
  by (simp add: set_reader_def upd_server_def)

lemma handles_set_reader: "handles h fs (set_reader b w) w' \<longleftrightarrow> handles h fs w w'"
proof (cases fs)
  case Nil
  have "handles h [] w w' \<longleftrightarrow> (\<exists>c. w' = set_reader c w)" for w
    by (auto elim: handles_NilE intro: handles.none)
  with Nil show ?thesis by simp
next
  case (Cons f fs)
  have "handles h (f # fs) w w' \<longleftrightarrow> (\<exists>c. handles h fs (h f (set_reader c w)) w')" for w
    by (auto elim: handles_ConsE intro: handles.frame)
  with Cons show ?thesis by simp
qed

lemma handles_append: "handles h fs w v \<Longrightarrow> handles h gs v w' \<Longrightarrow> handles h (fs @ gs) w w'"
  by (induction rule: handles.induct) (auto simp: handles_set_reader intro: handles.frame)

lemma handles_unchanged: "handles h [] w w"
  using handles.none [of h w "sv_reader (w_server w)"] by (simp add: set_reader_def upd_server_def)

text \<open>What one round of the read loop takes from the socket.\<close>

fun received :: "read_outcome list \<Rightarrow> bytes" where
  "received [] = []"
| "received (ReadData d # rest) = (if length d < kReadSize then d else d @ received rest)"
| "received (ReadIntr # rest) = received rest"
| "received (ReadAgain # rest) = []"
| "received (ReadFail # rest) = []"

locale frame_handler =
  fixes h :: "bytes \<Rightarrow> ('r, 'm) cworld_scheme \<Rightarrow> ('r, 'm) cworld_scheme"
  assumes stays: "connected (h f w) \<Longrightarrow> connected w"
    and keeps_reader: "connected (h f w) \<Longrightarrow> sv_reader (w_server (h f w)) = sv_reader (w_server w)"
begin

lemma dispatch_connected: "connected (dispatch_frames h n w) \<Longrightarrow> connected w"
  by (induction h n w rule: dispatch_frames.induct)
    (auto split: option.splits prod.splits if_splits simp: Let_def dest: stays)

lemma dispatch_handles:
  assumes "connected (dispatch_frames h n w)" "length (sv_reader (w_server w)) < n"
    and "frame_drain (sv_reader (w_server w)) = (fs, b)"
  shows "handles h (filter (\<lambda>f. f \<noteq> []) fs) w (dispatch_frames h n w) \<and>
    sv_reader (w_server (dispatch_frames h n w)) = b"
  using assms
proof (induction n arbitrary: w fs b)
  case (Suc n)
  let ?r = "sv_reader (w_server w)"
  have w: "connected w" by (rule dispatch_connected [OF Suc.prems(1)])
  obtain nx c where nx: "frame_next ?r = (nx, c)" by fastforce
  show ?case
  proof (cases nx)
    case None
    with Suc.prems(3) nx have "fs = []" "b = c" by (simp_all add: frame_drain.simps [of ?r])
    moreover have "dispatch_frames h (Suc n) w = set_reader c w"
      using w nx None by (simp add: set_reader_def)
    ultimately show ?thesis by (simp add: handles.none)
  next
    case (Some f)
    let ?w1 = "set_reader c w"
    let ?w2 = "if f = [] then ?w1 else h f ?w1"
    have step: "dispatch_frames h (Suc n) w = dispatch_frames h n ?w2"
      using w nx Some by (simp add: set_reader_def Let_def)
    obtain gs where fs: "fs = f # gs" and gs: "frame_drain c = (gs, b)"
      using Suc.prems(3) nx Some by (auto simp: frame_drain.simps [of ?r] split: prod.splits)
    have c2: "connected (dispatch_frames h n ?w2)" using Suc.prems(1) by (simp only: step)
    from dispatch_connected [OF this] have r2: "sv_reader (w_server ?w2) = c"
      using keeps_reader by (auto split: if_splits)
    have "length c < n" using frame_next_shrinks [OF nx [unfolded Some]] Suc.prems(2) by simp
    then have IH: "handles h (filter (\<lambda>f. f \<noteq> []) gs) ?w2 (dispatch_frames h n ?w2)"
      "sv_reader (w_server (dispatch_frames h n ?w2)) = b"
      using Suc.IH [OF c2, of gs b] r2 gs by simp_all
    then show ?thesis
      unfolding step fs by (auto simp: handles_set_reader intro: handles.frame split: if_splits)
  qed
qed simp

lemma feed_handles:
  assumes "connected (feed_client h d w)" "frame_drain (sv_reader (w_server w) @ d) = (fs, b)"
  shows "handles h (filter (\<lambda>f. f \<noteq> []) fs) w (feed_client h d w) \<and>
    sv_reader (w_server (feed_client h d w)) = b \<and> connected w"
proof -
  let ?b = "sv_reader (w_server w) @ d"
  have eq: "feed_client h d w = dispatch_frames h (Suc (length ?b)) (set_reader ?b w)"
    by (simp only: feed_client_def frame_feed_def set_reader_def Let_def)
  show ?thesis
    using dispatch_handles [of "Suc (length ?b)" "set_reader ?b w" fs b] assms
      dispatch_connected [of "Suc (length ?b)" "set_reader ?b w"]
    by (simp add: eq handles_set_reader del: dispatch_frames.simps)
qed

lemma read_handles:
  assumes "connected (read_client h reads w)"
    and "frame_drain (sv_reader (w_server w)) = ([], sv_reader (w_server w))"
    and "frame_drain (sv_reader (w_server w) @ received reads) = (fs, b)"
  shows "handles h (filter (\<lambda>f. f \<noteq> []) fs) w (read_client h reads w) \<and>
    sv_reader (w_server (read_client h reads w)) = b \<and> connected w"
  using assms
proof (induction reads arbitrary: w fs b)
  case Nil
  then show ?case by (simp add: handles_unchanged)
next
  case (Cons r reads)
  show ?case
  proof (cases r)
    case (ReadData d)
    let ?w1 = "feed_client h d w"
    obtain fs1 b1 where d1: "frame_drain (sv_reader (w_server w) @ d) = (fs1, b1)" by fastforce
    have "d \<noteq> []" and c1: "connected ?w1"
      and read: "read_client h (r # reads) w = (if length d < kReadSize then ?w1 else read_client h reads ?w1)"
      using Cons.prems(1) by (simp_all add: ReadData Let_def split: if_splits)
    note w1 = feed_handles [OF c1 d1]
    show ?thesis
    proof (cases "length d < kReadSize")
      case True
      then have "fs = fs1" "b = b1" using Cons.prems(3) d1 by (simp_all add: ReadData)
      with True w1 show ?thesis by (simp add: read)
    next
      case False
      obtain gs where gs: "frame_drain (b1 @ received reads) = (gs, b)" "fs = fs1 @ gs"
        using Cons.prems(3) frame_drain_extend [of "sv_reader (w_server w) @ d" "received reads"] d1 False
        by (simp add: ReadData Let_def split: prod.splits)
      have "connected (read_client h reads ?w1)" using Cons.prems(1) False by (simp add: read)
      from Cons.IH [OF this, of gs b] w1 frame_drain_rest [OF d1] gs
      have "handles h (filter (\<lambda>f. f \<noteq> []) gs) ?w1 (read_client h reads ?w1)"
        "sv_reader (w_server (read_client h reads ?w1)) = b"
        by simp_all
      with w1 False show ?thesis by (auto simp: read gs(2) intro: handles_append)
    qed
  qed (use Cons handles_unchanged in auto)
qed

end

section \<open>Events keep the invariant\<close>

lemma server_inv_reader: "connected w \<Longrightarrow> server_inv (set_reader b w) = server_inv w"
  by (auto simp: server_inv_def set_reader_def connected_def Let_def)

lemma server_inv_cong:
  "w_server w' = w_server w \<Longrightarrow> server_inv w' = server_inv w"
  by (simp add: server_inv_def)

lemma dispatch_frames_inv:
  assumes "\<And>f w. server_inv w \<Longrightarrow> server_inv (h f w)"
  shows "server_inv w \<Longrightarrow> server_inv (dispatch_frames h n w)"
proof (induction n arbitrary: w)
  case (Suc n)
  have "server_inv (set_reader b w)" if "connected w" for b
    using that Suc.prems by (simp add: server_inv_reader)
  with Suc assms show ?case
    by (auto simp: Let_def set_reader_def split: prod.splits option.splits)
qed simp

lemma read_client_inv:
  assumes "\<And>f w. server_inv w \<Longrightarrow> server_inv (h f w)"
  shows "server_inv w \<Longrightarrow> connected w \<Longrightarrow> server_inv (read_client h reads w)"
proof (induction reads arbitrary: w)
  case (Cons r reads)
  have "server_inv (feed_client h d w)" for d
    using dispatch_frames_inv [of h, OF assms] Cons.prems
    by (simp add: feed_client_def Let_def server_inv_reader del: dispatch_frames.simps flip: set_reader_def)
  with Cons show ?case by (cases r) (simp_all add: Let_def drop_client_inv)
qed simp

lemma on_client_ready_inv:
  assumes "\<And>f w. server_inv w \<Longrightarrow> server_inv (h f w)" "server_inv w"
  shows "server_inv (on_client_ready h reads ev w)"
  using assms read_client_inv [of h] server_flush_inv [of w]
  by (simp add: on_client_ready_def Let_def drop_client_inv)

lemma on_listen_ready_inv:
  assumes "\<And>w. server_inv w \<Longrightarrow> server_inv (on_connect w)" "server_inv w"
  shows "server_inv (on_listen_ready on_connect fd nb ev w)"
proof -
  have "server_inv (upd_server (\<lambda>s. s\<lparr>sv_client_fd := Some f, sv_reader := [], sv_out_buf := [],
      sv_client_watch := Some i\<rparr>) v)" for f i and v :: "('a, 'b) cworld_scheme"
    by (simp add: server_inv_def)
  with assms show ?thesis
    by (auto simp: on_listen_ready_def accept_client_def Let_def drop_client_inv
        split: option.splits prod.splits)
qed

lemma server_shutdown_inv: "server_inv w \<Longrightarrow> server_inv (server_shutdown io w)"
  using drop_client_inv [of w]
  by (auto simp: server_shutdown_def cleanup_unix_path_def close_lock_def server_inv_def Let_def
      split: option.splits)

section \<open>Setting up the socket\<close>

lemmas unix_setup_defs = close_lock_def close_listen_def abandon_socket_def cleanup_unix_path_def
  chmod_socket_def start_listening_def upd_server_def

definition idle_server :: "('r, 'm) cworld_scheme \<Rightarrow> bool" where
  "idle_server w \<longleftrightarrow> sv_listen_fd (w_server w) = None \<and> sv_lock_fd (w_server w) = None \<and>
     \<not> sv_owns_path (w_server w)"

definition serving :: "('r, 'm) cworld_scheme \<Rightarrow> bool" where
  "serving w \<longleftrightarrow> sv_listen_fd (w_server w) \<noteq> None \<and> sv_lock_fd (w_server w) \<noteq> None \<and>
     sv_owns_path (w_server w) \<and> sv_listen_watch (w_server w) \<noteq> None \<and>
     (case w_sock_path w of
        None \<Rightarrow> False
      | Some n \<Rightarrow> pn_is_socket n \<and> pn_mode n = kUnixSocketMode \<and>
                  pn_dev n = sv_path_dev (w_server w) \<and> pn_ino n = sv_path_ino (w_server w))"

lemma bind_unix_outcome:
  assumes "bind_unix io fd w = (ok, w')" "sv_lock_fd (w_server w) \<noteq> None" "\<not> sv_owns_path (w_server w)"
  shows "if ok then serving w' else idle_server w'"
  using assms
  by (auto simp: bind_unix_def unix_setup_defs serving_def idle_server_def Let_def
      split: if_splits option.splits prod.splits)

lemma start_unix_outcome:
  assumes "start_unix io w = (ok, w')" "idle_server w"
  shows "if ok then serving w' else idle_server w'"
proof -
  have opened: "if ok then serving w' else idle_server w'"
    if "open_unix io v = (ok, w')" "sv_lock_fd (w_server v) \<noteq> None" "\<not> sv_owns_path (w_server v)" for v
  proof (cases "up_socket io")
    case None
    with that show ?thesis by (auto simp: open_unix_def idle_server_def unix_setup_defs)
  next
    case (Some fd)
    with that bind_unix_outcome [of io fd v ok w'] show ?thesis by (simp add: open_unix_def)
  qed
  show ?thesis
    using assms
    by (auto simp: start_unix_def idle_server_def close_lock_def Let_def dest!: opened
        split: if_splits option.splits)
qed

lemma bind_unix_path:
  "bind_unix io fd w = (ok, w') \<Longrightarrow> up_bind io \<or> w_sock_path w' = w_sock_path w"
  by (auto simp: bind_unix_def unix_setup_defs Let_def split: if_splits)

section \<open>Properties\<close>

text \<open>
  C33. What the app reads is what was sent to it: as long as the client is not dropped, the bytes
  its socket has accepted, however the kernel cut the writes, are read back as the first of the
  frames sent, whole and in order, and they are all of them once the outbound buffer is empty.
\<close>

theorem app_reads_what_was_sent:
  assumes "connected (fold server_send pls w)" "w_sent w = []" "sv_out_buf (w_server w) = []"
    and "\<forall>pl \<in> set pls. length pl \<le> kMaxFrameSize"
  shows "\<exists>n. fst (frame_drain (w_sent (fold server_send pls w))) = take n pls \<and>
    (sv_out_buf (w_server (fold server_send pls w)) = [] \<longrightarrow> take n pls = pls)"
proof -
  let ?w = "fold server_send pls w"
  have s: "w_sent ?w @ sv_out_buf (w_server ?w) = concat (map frame_response pls)"
    using sends_stream [OF assms(1)] assms(2,3) by (simp add: out_stream_def)
  obtain fs b where d: "frame_drain (w_sent ?w) = (fs, b)" by fastforce
  obtain gs c where g: "frame_drain (b @ sv_out_buf (w_server ?w)) = (gs, c)" by fastforce
  have "pls = fs @ gs"
    using frame_drain_frames [OF assms(4)] frame_drain_extend [of "w_sent ?w" "sv_out_buf (w_server ?w)"]
    by (simp add: s d g)
  moreover have "gs = []" if "sv_out_buf (w_server ?w) = []"
    using g frame_drain_rest [OF d] that by simp
  ultimately show ?thesis using d by (intro exI [of _ "length fs"]) auto
qed

definition fresh_companion :: "bytes list cworld" where
  "fresh_companion = nworld.extend (nworld.truncate fresh_node)
     \<lparr>w_server = new_server \<lparr>so_tcp = False, so_socket_path = [47, 115], so_bind_addr = [], so_port = 0,
        so_max_outbound_bytes = 64\<rparr>, w_sock_path = None, w_writes = [], w_sent = []\<rparr>"

lemma fresh_companion_simps [simp]:
  "w_server fresh_companion = new_server \<lparr>so_tcp = False, so_socket_path = [47, 115], so_bind_addr = [],
     so_port = 0, so_max_outbound_bytes = 64\<rparr>"
  "w_sent fresh_companion = []" "w_sock_path fresh_companion = None"
  by (simp_all add: fresh_companion_def nworld.defs)

definition serving_world :: "write_outcome list \<Rightarrow> bytes list cworld" where
  "serving_world os = upd_server (\<lambda>s. s\<lparr>sv_client_fd := Some 5\<rparr>) (fresh_companion\<lparr>w_writes := os\<rparr>)"

theorem app_reads_what_was_sent_witness:
  "w_sent (fold server_send [[1], [2]] (serving_world [Wrote 1, WriteAgain, Wrote 3])) =
     [kFrameToApp, 1, 0, 1, kFrameToApp, 1] \<and>
   (\<exists>n. fst (frame_drain (w_sent (fold server_send [[1], [2]]
           (serving_world [Wrote 1, WriteAgain, Wrote 3])))) = take n [[1], [2]])"
proof -
  let ?w = "serving_world [Wrote 1, WriteAgain, Wrote 3]"
  have e: "w_sent (fold server_send [[1], [2]] ?w) = [kFrameToApp, 1, 0, 1, kFrameToApp, 1] \<and>
      connected (fold server_send [[1], [2]] ?w)"
    by (simp add: serving_world_def server_send_def server_flush_def flush_writes.simps connected_def
        frame_response_def put_bytes_def put_u16_def new_server_def capacity_iff Let_def watch_client_def)
  from app_reads_what_was_sent [of "[[1], [2]]" ?w] e show ?thesis
    by (auto simp: serving_world_def new_server_def kMaxFrameSize_def)
qed

text \<open>
  C34. The Unix socket is set up completely or not at all. When it is, the server listens on a
  socket of mode 0660 that it will recognise as its own, and holds the lock; when anything fails,
  nothing is left open or claimed; and a path that is not a socket is never replaced.
\<close>

theorem unix_start_all_or_nothing:
  assumes "start_unix io w = (ok, w')" "idle_server w"
  shows "(ok \<longrightarrow> serving w' \<and> up_flock io) \<and> (\<not> ok \<longrightarrow> idle_server w') \<and>
    (\<forall>n. w_sock_path w = Some n \<longrightarrow> \<not> pn_is_socket n \<longrightarrow> \<not> ok \<and> w_sock_path w' = Some n)"
  using start_unix_outcome [OF assms] assms(1)
  by (auto simp: start_unix_def close_lock_def Let_def split: if_splits option.splits)

definition unix_fine :: unix_plan where
  "unix_fine = \<lparr>up_open_lock = Some 3, up_lock_regular = True, up_lock_chown = True, up_lock_chmod = True,
     up_flock = True, up_lstat_error = False, up_unlink = True, up_socket = Some 4, up_bind = True,
     up_bound_dev = 1, up_bound_ino = 2, up_lstat_bound = True, up_chown = True, up_chmod = True,
     up_listen = True, up_nonblock = True, up_lstat_cleanup = True, up_unlink_cleanup = True\<rparr>"

theorem unix_start_all_or_nothing_witness:
  "serving (snd (start_unix unix_fine fresh_companion)) \<and>
   idle_server (snd (start_unix (unix_fine\<lparr>up_listen := False\<rparr>) fresh_companion))"
proof -
  have i: "idle_server fresh_companion" by (simp add: idle_server_def new_server_def)
  have "fst (start_unix unix_fine fresh_companion)"
    "\<not> fst (start_unix (unix_fine\<lparr>up_listen := False\<rparr>) fresh_companion)"
    by (simp_all add: start_unix_def new_server_def unix_fine_def sun_path_size_def Let_def open_unix_def
        bind_unix_def)
  with unix_start_all_or_nothing [OF prod.collapse [symmetric] i] show ?thesis by blast
qed

end
