(* ===== verification/Session.thy ===== *)
theory Session
  imports Server Numbers
begin

text \<open>
  The companion session, \<^verbatim>\<open>src/src/companion/session.h\<close> and \<^verbatim>\<open>session.cpp\<close>, with the interfaces
  \<^verbatim>\<open>settings.h\<close> and \<^verbatim>\<open>device_metrics.h\<close> it is given: the commands an app sends, their replies, and
  the mesh events pushed to the app. The settings store and the host's metrics are fields of the
  environment, as they are references to abstract classes in the code; the node's delegate is the
  session itself. A handler takes the arguments of its command and the world, and returns the
  reply and the world; logging is left out.
\<close>

section \<open>State and interfaces\<close>

datatype SettingsResult = SetOk | SetInvalid | SetIoError

type_synonym change = "bytes \<times> bytes"

record DeviceInfo =
  di_model :: bytes
  di_firmware_build :: bytes
  di_version :: bytes
  di_max_contacts_div2 :: byte
  di_max_channels :: byte

record Storage =
  st_used_bytes :: nat
  st_total_bytes :: nat

record 'r aworld = "'r cworld" +
  w_app_started :: bool
  w_app_name :: bytes
  w_last_send_ms :: "u32 option"

record ('r, 'm) session_env =
  se_crypto :: crypto_ops
  se_radio :: "'r radio_ops"
  se_self :: LocalIdentity
  se_begin :: "(u64 \<times> u32) list \<Rightarrow> nat"
  se_settings :: "change list \<Rightarrow> ('r, 'm) aworld_scheme \<Rightarrow> SettingsResult \<times> ('r, 'm) aworld_scheme"
  se_info :: DeviceInfo
  se_battery_mv :: u16
  se_storage :: Storage

section \<open>Values on the wire\<close>

definition to_kb :: "nat \<Rightarrow> u32" where
  "to_kb b = word_of_nat (min (b div 1024) 0xFFFFFFFF)"

fun send_error_code :: "SendError \<Rightarrow> Err" where
  "send_error_code NoSharedSecret = ErrBadState"
| "send_error_code PendingFull = ErrTableFull"
| "send_error_code TooLong = ErrIllegalArg"

definition put_padded :: "bytes \<Rightarrow> bytes \<Rightarrow> nat \<Rightarrow> bytes" where
  "put_padded out d width = (let n = min (length d) width in out @ take n d @ replicate (width - n) 0)"

definition kRepeatFreqsKhz :: "u32 list" where
  "kRepeatFreqsKhz = [433000, 869495, 918000]"

definition kMaxAirtimeFactorMilli :: u32 where "kMaxAirtimeFactorMilli = 9000"

definition mhz_from_khz :: "u32 \<Rightarrow> bytes" where
  "mhz_from_khz khz = dec_nat (unat khz div 1000) @ str ''.'' @ dec_padded 3 (unat khz mod 1000)"

definition degrees_from_e6 :: "u32 \<Rightarrow> bytes" where
  "degrees_from_e6 e6 =
    (let v = sint e6; magnitude = nat (if v < 0 then - v else v)
     in (if v < 0 then str ''-'' else []) @ dec_nat (magnitude div 1000000) @ str ''.'' @
        dec_padded 6 (magnitude mod 1000000))"

definition exact :: "rat \<Rightarrow> bytes" where
  "exact v = printf_g17 v"

section \<open>Replies and pushes\<close>

definition reply :: "bytes \<Rightarrow> ('r, 'm) aworld_scheme \<Rightarrow> ('r, 'm) aworld_scheme" where
  "reply pl w = server_send pl w"

definition push :: "bytes \<Rightarrow> ('r, 'm) aworld_scheme \<Rightarrow> ('r, 'm) aworld_scheme" where
  "push pl w = (if \<not> w_app_started w then w else server_send pl w)"

definition on_connect :: "('r, 'm) aworld_scheme \<Rightarrow> ('r, 'm) aworld_scheme" where
  "on_connect w = w\<lparr>w_app_started := False\<rparr>"

definition saved_reply :: "('r, 'm) aworld_scheme \<Rightarrow> bytes \<times> ('r, 'm) aworld_scheme" where
  "saved_reply w =
    (let w1 = request_save w
     in (if sw_healthy (w_writer w1) then resp_ok else resp_err ErrFileIoError, w1))"

definition settings_reply ::
  "('r, 'm) session_env \<Rightarrow> change list \<Rightarrow> ('r, 'm) aworld_scheme \<Rightarrow> bytes \<times> ('r, 'm) aworld_scheme" where
  "settings_reply se changes w =
     (case se_settings se changes w of
        (SetOk, w1) \<Rightarrow> (resp_ok, w1)
      | (SetInvalid, w1) \<Rightarrow> (resp_err ErrIllegalArg, w1)
      | (SetIoError, w1) \<Rightarrow> (resp_err ErrFileIoError, w1))"

text \<open>What the node tells its delegate.\<close>

definition on_advert_seen :: "Contact \<Rightarrow> ('r, 'm) aworld_scheme \<Rightarrow> ('r, 'm) aworld_scheme" where
  "on_advert_seen c w = push (put_bytes [push_code PushAdvert] (ct_pubkey c)) w"

definition on_contact_changed :: "Contact \<Rightarrow> bool \<Rightarrow> ('r, 'm) aworld_scheme \<Rightarrow> ('r, 'm) aworld_scheme" where
  "on_contact_changed c is_new w =
     request_save (if is_new then push (put_bytes [push_code PushNewAdvert] (ct_pubkey c)) w else w)"

definition on_path_updated :: "Contact \<Rightarrow> ('r, 'm) aworld_scheme \<Rightarrow> ('r, 'm) aworld_scheme" where
  "on_path_updated c w = push (put_bytes [push_code PushPathUpdated] (ct_pubkey c)) w"

definition on_message_stored :: "('r, 'm) aworld_scheme \<Rightarrow> ('r, 'm) aworld_scheme" where
  "on_message_stored w = push [push_code PushMsgWaiting] w"

definition on_ack :: "bytes \<Rightarrow> ('r, 'm) aworld_scheme \<Rightarrow> ('r, 'm) aworld_scheme" where
  "on_ack h w =
     push (put_u32 (put_bytes [push_code PushSendConfirmed] h)
       (case w_last_send_ms w of Some t \<Rightarrow> now_ms w - t | None \<Rightarrow> 0)) w"

definition on_raw_rx :: "Packet \<Rightarrow> bytes \<Rightarrow> ('r, 'm) aworld_scheme \<Rightarrow> ('r, 'm) aworld_scheme" where
  "on_raw_rx p raw w =
     push (put_bytes [push_code PushLogRxData, snr_quarters (snr p),
       word_of_int (max (- 128) (min 127 (rssi p)))] raw) w"

definition session_notify :: "notification \<Rightarrow> ('r, 'm) aworld_scheme \<Rightarrow> ('r, 'm) aworld_scheme" where
  "session_notify n w =
     (case n of
        ContactChanged c is_new \<Rightarrow> on_contact_changed c is_new w
      | MessageStored \<Rightarrow> on_message_stored w
      | AckConfirmed ack \<Rightarrow> on_ack ack w
      | AdvertSeen c \<Rightarrow> on_advert_seen c w
      | RawRx p raw \<Rightarrow> on_raw_rx p raw w
      | PathUpdated c \<Rightarrow> on_path_updated c w)"

definition session_node_env where
  "session_node_env se =
     \<lparr>ne_crypto = se_crypto se, ne_radio = se_radio se, ne_self = se_self se,
      ne_delegate = (session_notify :: notification \<Rightarrow> ('r, 'm) aworld_scheme \<Rightarrow> ('r, 'm) aworld_scheme),
      ne_begin = se_begin se\<rparr>"

section \<open>Information\<close>

definition self_info_frame :: "('r, 'm) session_env \<Rightarrow> ('r, 'm) aworld_scheme \<Rightarrow> bytes" where
  "self_info_frame se w =
    (let cfg = w_cfg w; rp = params (se_radio se) (w_radio w);
         o1 = [resp_code RespSelfInfo, nc_adv_type cfg, word_of_int (rp_tx_power_dbm rp),
               word_of_int kMaxTxPowerDbm];
         o2 = put_i32 (put_i32 (put_bytes o1 (id_pub (se_self se))) (nc_lat_e6 cfg)) (nc_lon_e6 cfg);
         o3 = o2 @ [0, 0, 0, 0];
         o4 = put_u32 o3 (word_of_int (lround (double_of (rp_freq_mhz rp * 1000))));
         o5 = put_u32 o4 (word_of_int (lround (double_of (rp_bw_khz rp * 1000))))
     in put_str (o5 @ [rp_sf rp, rp_cr rp]) (nc_name cfg))"

definition cmd_app_start ::
  "('r, 'm) session_env \<Rightarrow> bytes \<Rightarrow> ('r, 'm) aworld_scheme \<Rightarrow> bytes \<times> ('r, 'm) aworld_scheme" where
  "cmd_app_start se args w =
    (let w1 = w\<lparr>w_app_name := (if length args > 7 then subview_from args 7 else w_app_name w),
                w_app_started := True\<rparr>
     in (self_info_frame se w1, w1))"

definition cmd_device_query :: "('r, 'm) session_env \<Rightarrow> ('r, 'm) aworld_scheme \<Rightarrow> bytes" where
  "cmd_device_query se w =
    (let info = se_info se;
         o1 = put_u32 [resp_code RespDeviceInfo, kFirmwareVersion, di_max_contacts_div2 info,
                       di_max_channels info] 0;
         o2 = put_padded (put_padded (put_padded o1 (di_firmware_build info) 12) (di_model info) 40)
                (di_version info) 20
     in o2 @ [if nc_repeat (w_cfg w) then 1 else 0, 0])"

definition cmd_get_battery :: "('r, 'm) session_env \<Rightarrow> bytes" where
  "cmd_get_battery se =
     put_u32 (put_u32 (put_u16 [resp_code RespBatteryVoltage] (se_battery_mv se))
       (to_kb (st_used_bytes (se_storage se)))) (to_kb (st_total_bytes (se_storage se)))"

section \<open>The clock\<close>

definition cmd_get_device_time :: "('r, 'm) aworld_scheme \<Rightarrow> bytes" where
  "cmd_get_device_time w = put_u32 [resp_code RespCurrTime] (now_unix w)"

definition cmd_set_device_time ::
  "bytes \<Rightarrow> ('r, 'm) aworld_scheme \<Rightarrow> bytes \<times> ('r, 'm) aworld_scheme" where
  "cmd_set_device_time args w =
     (case rd_u32 (Reader args) of
        (app_time, r) \<Rightarrow>
          if \<not> rd_ok r then (resp_err ErrIllegalArg, w)
          else
            let now = uint (now_unix w) - ck_offset (w_clock w)
            in (resp_ok, w\<lparr>w_clock := set_clock_offset (uint app_time - now) (w_clock w)\<rparr>))"

section \<open>Contacts\<close>

definition contact_frame :: "byte \<Rightarrow> Contact \<Rightarrow> bytes" where
  "contact_frame code c =
    (let o1 = put_bytes [code] (ct_pubkey c) @
           [ct_type c, ct_flags c,
            if ct_path_known c then word_of_nat (length (ct_out_path c)) else kNoPath];
         o2 = put_padded (put_padded o1 (ct_out_path c) kContactPathField) (ct_name c) kContactNameField;
         o3 = put_i32 (put_i32 (put_u32 o2 (ct_adv_timestamp c)) (ct_lat_e6 c)) (ct_lon_e6 c)
     in put_u32 o3 (if ct_last_seen c \<noteq> 0 then ct_last_seen c else ct_adv_timestamp c))"

definition cmd_get_contacts :: "bytes \<Rightarrow> ('r, 'm) aworld_scheme \<Rightarrow> ('r, 'm) aworld_scheme" where
  "cmd_get_contacts args w =
    (let r = Reader args;
         since = (if rd_has r 4 then fst (rd_u32 r) else 0);
         matching = filter (\<lambda>c. \<not> ct_adv_timestamp c < since) (cs_contacts (w_contacts w));
         most_recent = fold (\<lambda>c m. max m (ct_adv_timestamp c)) matching 0;
         w1 = reply (put_u32 [resp_code RespContactsStart] (word_of_nat (length matching))) w;
         w2 = fold (\<lambda>c. reply (contact_frame (resp_code RespContact) c)) matching w1
     in reply (put_u32 [resp_code RespEndOfContacts] most_recent) w2)"

definition cmd_get_contact_by_key :: "bytes \<Rightarrow> ('r, 'm) aworld_scheme \<Rightarrow> bytes" where
  "cmd_get_contact_by_key args w =
     (case rd_take kPubKeySize (Reader args) of
        (pubkey, r) \<Rightarrow>
          if \<not> rd_ok r then resp_err ErrIllegalArg
          else case contact_find pubkey (w_contacts w) of
                 None \<Rightarrow> resp_err ErrNotFound
               | Some k \<Rightarrow> contact_frame (resp_code RespContact) (contact_at k w))"

text \<open>The optional tail of the command, read field by field into contact \<open>k\<close>.\<close>

definition contact_tail :: "nat \<Rightarrow> reader \<Rightarrow> ContactStore \<Rightarrow> ContactStore" where
  "contact_tail k r cs =
    (let (cs1, r1) = (if rd_has r kContactNameField
                      then case rd_fixed_str kContactNameField r of
                             (nm, r') \<Rightarrow> (upd_contact k (\<lambda>c. c\<lparr>ct_name := nm\<rparr>) cs, r')
                      else (cs, r));
         (cs2, r2) = (if rd_has r1 4
                      then case rd_u32 r1 of
                             (ts, r') \<Rightarrow> (upd_contact k (\<lambda>c. c\<lparr>ct_adv_timestamp := ts\<rparr>) cs1, r')
                      else (cs1, r1))
     in if rd_has r2 8
        then case rd_i32 r2 of (lat, r3) \<Rightarrow> case rd_i32 r3 of (lon, r4) \<Rightarrow>
               upd_contact k (\<lambda>c. c\<lparr>ct_lat_e6 := lat, ct_lon_e6 := lon\<rparr>) cs2
        else cs2)"

text \<open>The fields the command carries, written into contact \<open>k\<close>.\<close>

definition store_contact ::
  "byte \<Rightarrow> byte \<Rightarrow> byte \<Rightarrow> bytes \<Rightarrow> reader \<Rightarrow> nat \<Rightarrow> ContactStore \<Rightarrow> ContactStore" where
  "store_contact typ flags path_len pfield r k cs =
    (let cs1 = upd_contact k (\<lambda>c. c\<lparr>ct_type := typ, ct_flags := flags\<rparr>) cs;
         cs2 = snd (if path_len = kNoPath then contact_clear_path k cs1
                    else contact_set_path k (take (unat path_len) pfield) cs1)
     in (contact_tail k r cs2)\<lparr>cs_dirty := True\<rparr>)"

definition cmd_add_update_contact ::
  "bytes \<Rightarrow> ('r, 'm) aworld_scheme \<Rightarrow> bytes \<times> ('r, 'm) aworld_scheme" where
  "cmd_add_update_contact args w =
     (case rd_take kPubKeySize (Reader args) of (pubkey, r) \<Rightarrow>
      case rd_u8 r of (typ, r) \<Rightarrow>
      case rd_u8 r of (flags, r) \<Rightarrow>
      case rd_u8 r of (path_len, r) \<Rightarrow>
      case rd_take kContactPathField r of (pfield, r) \<Rightarrow>
        if \<not> rd_ok r then (resp_err ErrIllegalArg, w)
        else if path_len \<noteq> kNoPath \<and> unat path_len > kContactPathField then (resp_err ErrIllegalArg, w)
        else case contact_upsert pubkey (w_contacts w) of
               (None, cs) \<Rightarrow> (resp_err ErrTableFull, w\<lparr>w_contacts := cs\<rparr>)
             | (Some k, cs) \<Rightarrow>
                 saved_reply (w\<lparr>w_contacts := store_contact typ flags path_len pfield r k cs\<rparr>))"

definition cmd_remove_contact ::
  "bytes \<Rightarrow> ('r, 'm) aworld_scheme \<Rightarrow> bytes \<times> ('r, 'm) aworld_scheme" where
  "cmd_remove_contact args w =
     (case rd_take kPubKeySize (Reader args) of
        (pubkey, r) \<Rightarrow>
          if \<not> rd_ok r then (resp_err ErrIllegalArg, w)
          else case contact_remove pubkey (w_contacts w) of
                 (False, cs) \<Rightarrow> (resp_err ErrNotFound, w\<lparr>w_contacts := cs\<rparr>)
               | (True, cs) \<Rightarrow> saved_reply (w\<lparr>w_contacts := cs\<rparr>))"

definition cmd_reset_path ::
  "bytes \<Rightarrow> ('r, 'm) aworld_scheme \<Rightarrow> bytes \<times> ('r, 'm) aworld_scheme" where
  "cmd_reset_path args w =
     (case rd_take kPubKeySize (Reader args) of
        (pubkey, r) \<Rightarrow>
          if \<not> rd_ok r then (resp_err ErrIllegalArg, w)
          else case contact_find pubkey (w_contacts w) of
                 None \<Rightarrow> (resp_err ErrNotFound, w)
               | Some k \<Rightarrow> saved_reply (upd_contacts (\<lambda>cs. snd (contact_clear_path k cs)) w))"

definition cmd_export_contact ::
  "('r, 'm) session_env \<Rightarrow> bytes \<Rightarrow> ('r, 'm) aworld_scheme \<Rightarrow> bytes" where
  "cmd_export_contact se args w =
     (if rd_has (Reader args) kPubKeySize then resp_err ErrNotFound
      else case build_advert_packet (session_node_env se) True w of
             None \<Rightarrow> resp_err ErrBadState
           | Some advert \<Rightarrow> put_bytes [resp_code RespExportContact] (packet_encode advert))"

section \<open>Messages\<close>

definition find_prefix :: "bytes \<Rightarrow> ContactStore \<Rightarrow> nat option" where
  "find_prefix prefix cs =
     index_where (\<lambda>c. length (ct_pubkey c) \<ge> 6 \<and> prefix = take (length prefix) (ct_pubkey c)) (cs_contacts cs)"

definition cmd_send_txt_msg ::
  "('r, 'm) session_env \<Rightarrow> bytes \<Rightarrow> ('r, 'm) aworld_scheme \<Rightarrow> bytes \<times> ('r, 'm) aworld_scheme" where
  "cmd_send_txt_msg se args w =
     (case rd_u8 (Reader args) of (txt_type, r) \<Rightarrow>
      case rd_u32 (rd_skip 1 r) of (timestamp, r) \<Rightarrow>
      case rd_take 6 r of (prefix, r) \<Rightarrow>
        if \<not> rd_ok r then (resp_err ErrIllegalArg, w)
        else case find_prefix prefix (w_contacts w) of
               None \<Rightarrow> (resp_err ErrNotFound, w)
             | Some k \<Rightarrow>
                 (case node_send_text (session_node_env se) (contact_at k w) (fst (rd_rest r)) txt_type timestamp w of
                    (Inl e, w1) \<Rightarrow> (resp_err (send_error_code e), w1)
                  | (Inr ack, w1) \<Rightarrow>
                      let known = ct_path_known (contact_at k w1)
                      in (put_u32 (put_bytes [resp_code RespSent, if known then 0 else 1] ack)
                            (if known then 8000 else 30000),
                          w1\<lparr>w_last_send_ms := Some (now_ms w1)\<rparr>)))"

definition cmd_send_channel_txt_msg ::
  "('r, 'm) session_env \<Rightarrow> bytes \<Rightarrow> ('r, 'm) aworld_scheme \<Rightarrow> bytes \<times> ('r, 'm) aworld_scheme" where
  "cmd_send_channel_txt_msg se args w =
     (case rd_u8 (rd_skip 1 (Reader args)) of (channel_index, r) \<Rightarrow>
      case rd_u32 r of (timestamp, r) \<Rightarrow>
        if \<not> rd_ok r then (resp_err ErrIllegalArg, w)
        else case send_channel_text (session_node_env se) (unat channel_index) (fst (rd_rest r)) timestamp w of
               (False, w1) \<Rightarrow> (resp_err ErrNotFound, w1)
             | (True, w1) \<Rightarrow> (resp_ok, w1))"

definition message_frame :: "StoredMessage \<Rightarrow> bytes" where
  "message_frame m =
    (let o1 = (if sm_is_channel m
               then [resp_code RespChannelMsgRecvV3, sm_snr_q4 m, 0, 0, sm_channel_index m]
               else put_padded [resp_code RespContactMsgRecvV3, sm_snr_q4 m, 0, 0]
                      (subview (sm_sender_pubkey m) 0 6) 6)
     in put_str (put_u32 (o1 @ [sm_path_len m, sm_txt_type m]) (sm_timestamp m)) (sm_text m))"

definition cmd_sync_next_message :: "('r, 'm) aworld_scheme \<Rightarrow> bytes \<times> ('r, 'm) aworld_scheme" where
  "cmd_sync_next_message w =
     (case pop_message w of
        (None, w1) \<Rightarrow> ([resp_code RespNoMoreMessages], w1)
      | (Some m, w1) \<Rightarrow> (message_frame m, request_save w1))"

section \<open>Channels\<close>

definition cmd_get_channel :: "bytes \<Rightarrow> ('r, 'm) aworld_scheme \<Rightarrow> bytes" where
  "cmd_get_channel args w =
     (case rd_u8 (Reader args) of
        (index, r) \<Rightarrow>
          if \<not> rd_ok r then resp_err ErrIllegalArg
          else case channel_at (unat index) (w_channels w) of
                 None \<Rightarrow> resp_err ErrNotFound
               | Some ch \<Rightarrow>
                   put_padded (put_padded [resp_code RespChannelInfo, index] (ch_name ch) kChannelNameField)
                     (ch_secret ch) kChannelSecretSize)"

definition cmd_set_channel ::
  "bytes \<Rightarrow> ('r, 'm) aworld_scheme \<Rightarrow> bytes \<times> ('r, 'm) aworld_scheme" where
  "cmd_set_channel args w =
     (case rd_u8 (Reader args) of (index, r) \<Rightarrow>
      case rd_fixed_str kChannelNameField r of (nm, r) \<Rightarrow>
      case rd_take kChannelSecretSize r of (secret, r) \<Rightarrow>
        if \<not> rd_ok r then (resp_err ErrIllegalArg, w)
        else if unat index \<ge> kMaxChannels then (resp_err ErrIllegalArg, w)
        else
          let ch = \<lparr>ch_name = nm, ch_secret = (if \<forall>b \<in> set secret. b = 0 then [] else secret)\<rparr>
          in saved_reply (w\<lparr>w_channels := channel_set (unat index) ch (w_channels w)\<rparr>))"

section \<open>Settings\<close>

definition cmd_set_advert_name ::
  "('r, 'm) session_env \<Rightarrow> bytes \<Rightarrow> ('r, 'm) aworld_scheme \<Rightarrow> bytes \<times> ('r, 'm) aworld_scheme" where
  "cmd_set_advert_name se args w =
    (let nm = takeWhile (\<lambda>b. b \<noteq> 0) args
     in if nm = [] then (resp_err ErrIllegalArg, w)
        else settings_reply se [(str ''node.advert_name'', nm)] w)"

definition cmd_set_advert_latlon ::
  "('r, 'm) session_env \<Rightarrow> bytes \<Rightarrow> ('r, 'm) aworld_scheme \<Rightarrow> bytes \<times> ('r, 'm) aworld_scheme" where
  "cmd_set_advert_latlon se args w =
     (case rd_i32 (Reader args) of (lat, r) \<Rightarrow>
      case rd_i32 r of (lon, r) \<Rightarrow>
        if \<not> rd_ok r then (resp_err ErrIllegalArg, w)
        else settings_reply se [(str ''node.lat'', degrees_from_e6 lat), (str ''node.lon'', degrees_from_e6 lon)] w)"

definition cmd_set_radio_params ::
  "('r, 'm) session_env \<Rightarrow> bytes \<Rightarrow> ('r, 'm) aworld_scheme \<Rightarrow> bytes \<times> ('r, 'm) aworld_scheme" where
  "cmd_set_radio_params se args w =
     (case rd_u32 (Reader args) of (freq_khz, r) \<Rightarrow>
      case rd_u32 r of (bw_hz, r) \<Rightarrow>
      case rd_u8 r of (sf, r) \<Rightarrow>
      case rd_u8 r of (cr, r) \<Rightarrow>
        if \<not> rd_ok r then (resp_err ErrIllegalArg, w)
        else
          let repeat = (rd_has r 1 \<and> fst (rd_u8 r) \<noteq> 0)
          in if repeat \<and> freq_khz \<notin> set kRepeatFreqsKhz then (resp_err ErrIllegalArg, w)
             else if freq_khz = 0 then (resp_err ErrIllegalArg, w)
             else case nearest_bandwidth (double_of (of_nat (unat bw_hz) / 1000)) of
                    None \<Rightarrow> (resp_err ErrIllegalArg, w)
                  | Some bw \<Rightarrow>
                      settings_reply se
                        [(str ''radio.lora_freq'', mhz_from_khz freq_khz),
                         (str ''radio.lora_bw'', exact (double_of bw)),
                         (str ''radio.lora_sf'', dec_nat (unat sf)),
                         (str ''radio.lora_cr'', dec_nat (unat cr)),
                         (str ''node.repeat'', if repeat then str ''1'' else str ''0'')] w)"

definition cmd_set_tx_power ::
  "('r, 'm) session_env \<Rightarrow> bytes \<Rightarrow> ('r, 'm) aworld_scheme \<Rightarrow> bytes \<times> ('r, 'm) aworld_scheme" where
  "cmd_set_tx_power se args w =
     (case rd_u8 (Reader args) of
        (dbm, r) \<Rightarrow>
          if \<not> rd_ok r then (resp_err ErrIllegalArg, w)
          else settings_reply se [(str ''radio.lora_tx_power'', dec_int (sint dbm))] w)"

definition airtime_factor_duty :: "u32 \<Rightarrow> rat" where
  "airtime_factor_duty af =
     double_of (100 / double_of (1 + double_of (of_nat (unat af) / 1000)))"

definition duty_airtime_factor :: "rat \<Rightarrow> u32" where
  "duty_airtime_factor duty =
     word_of_int (lround (double_of (double_of (double_of (100 / duty) - 1) * 1000)))"

definition cmd_set_tuning_params ::
  "('r, 'm) session_env \<Rightarrow> bytes \<Rightarrow> ('r, 'm) aworld_scheme \<Rightarrow> bytes \<times> ('r, 'm) aworld_scheme" where
  "cmd_set_tuning_params se args w =
     (case rd_u32 (Reader args) of (rx_delay, r) \<Rightarrow>
      case rd_u32 r of (af, r) \<Rightarrow>
        if \<not> rd_ok r then (resp_err ErrIllegalArg, w)
        else if rx_delay \<noteq> 0 then (resp_err ErrIllegalArg, w)
        else if af > kMaxAirtimeFactorMilli then (resp_err ErrIllegalArg, w)
        else settings_reply se [(str ''radio.duty_cycle'', exact (airtime_factor_duty af))] w)"

definition cmd_get_tuning_params :: "('r, 'm) session_env \<Rightarrow> ('r, 'm) aworld_scheme \<Rightarrow> bytes" where
  "cmd_get_tuning_params se w =
     put_u32 (put_u32 [resp_code RespTuningParams] 0)
       (duty_airtime_factor (rp_duty_cycle_pct (params (se_radio se) (w_radio w))))"

section \<open>Dispatch\<close>

text \<open>The reply of a command that has one; \<^verbatim>\<open>CMD_APP_START\<close> and \<^verbatim>\<open>CMD_GET_CONTACTS\<close> send their own.\<close>

definition command_reply ::
  "('r, 'm) session_env \<Rightarrow> Cmd option \<Rightarrow> bytes \<Rightarrow> ('r, 'm) aworld_scheme \<Rightarrow> bytes \<times> ('r, 'm) aworld_scheme" where
  "command_reply se cmd args w =
     (case cmd of
        Some CmdDeviceQuery \<Rightarrow> (cmd_device_query se w, w)
      | Some CmdGetDeviceTime \<Rightarrow> (cmd_get_device_time w, w)
      | Some CmdSetDeviceTime \<Rightarrow> cmd_set_device_time args w
      | Some CmdSendSelfAdvert \<Rightarrow>
          (resp_ok, send_advert (session_node_env se) (args = [] \<or> args ! 0 \<noteq> 0) w)
      | Some CmdSetAdvertName \<Rightarrow> cmd_set_advert_name se args w
      | Some CmdSetAdvertLatLon \<Rightarrow> cmd_set_advert_latlon se args w
      | Some CmdGetContactByKey \<Rightarrow> (cmd_get_contact_by_key args w, w)
      | Some CmdAddUpdateContact \<Rightarrow> cmd_add_update_contact args w
      | Some CmdRemoveContact \<Rightarrow> cmd_remove_contact args w
      | Some CmdResetPath \<Rightarrow> cmd_reset_path args w
      | Some CmdShareContact \<Rightarrow> (cmd_export_contact se args w, w)
      | Some CmdExportContact \<Rightarrow> (cmd_export_contact se args w, w)
      | Some CmdSendTxtMsg \<Rightarrow> cmd_send_txt_msg se args w
      | Some CmdSendChannelTxtMsg \<Rightarrow> cmd_send_channel_txt_msg se args w
      | Some CmdSyncNextMessage \<Rightarrow> cmd_sync_next_message w
      | Some CmdGetChannel \<Rightarrow> (cmd_get_channel args w, w)
      | Some CmdSetChannel \<Rightarrow> cmd_set_channel args w
      | Some CmdGetBatteryVoltage \<Rightarrow> (cmd_get_battery se, w)
      | Some CmdSetRadioParams \<Rightarrow> cmd_set_radio_params se args w
      | Some CmdSetRadioTxPower \<Rightarrow> cmd_set_tx_power se args w
      | Some CmdSetTuningParams \<Rightarrow> cmd_set_tuning_params se args w
      | Some CmdGetTuningParams \<Rightarrow> (cmd_get_tuning_params se w, w)
      | Some CmdHasConnection \<Rightarrow> (resp_ok_value (if connected w then 1 else 0), w)
      | Some CmdLogout \<Rightarrow> (resp_ok, w)
      | Some CmdReboot \<Rightarrow> (resp_err ErrUnsupportedCmd, w)
      | _ \<Rightarrow> (resp_err ErrUnsupportedCmd, w))"

definition handle_frame ::
  "('r, 'm) session_env \<Rightarrow> bytes \<Rightarrow> ('r, 'm) aworld_scheme \<Rightarrow> ('r, 'm) aworld_scheme" where
  "handle_frame se frame w =
     (if frame = [] then w
      else
        let cmd = cmd_of (frame ! 0); args = subview_from frame 1
        in if cmd = Some CmdAppStart then
             (case cmd_app_start se args w of
                (out, w1) \<Rightarrow>
                  let w2 = reply out w1
                  in if ib_messages (w_inbox w2) \<noteq> [] then push [push_code PushMsgWaiting] w2 else w2)
           else if cmd = Some CmdGetContacts then cmd_get_contacts args w
           else case command_reply se cmd args w of
                  (out, w1) \<Rightarrow> if out \<noteq> [] then reply out w1 else w1)"

text \<open>The events of the event loop that reach the session.\<close>

definition session_client_ready ::
  "('r, 'm) session_env \<Rightarrow> read_outcome list \<Rightarrow> u16 \<Rightarrow> ('r, 'm) aworld_scheme \<Rightarrow> ('r, 'm) aworld_scheme" where
  "session_client_ready se reads revents w = on_client_ready (handle_frame se) reads revents w"

definition session_listen_ready ::
  "nat option \<Rightarrow> bool \<Rightarrow> u16 \<Rightarrow> ('r, 'm) aworld_scheme \<Rightarrow> ('r, 'm) aworld_scheme" where
  "session_listen_ready fd nonblock revents w = on_listen_ready on_connect fd nonblock revents w"

definition session_radio_rx ::
  "('r, 'm) session_env \<Rightarrow> RxPacket \<Rightarrow> ('r, 'm) aworld_scheme \<Rightarrow> ('r, 'm) aworld_scheme" where
  "session_radio_rx se r w = node_radio_rx (session_node_env se) r w"

definition session_timer ::
  "('r, 'm) session_env \<Rightarrow> timer_cb \<Rightarrow> ('r, 'm) aworld_scheme \<Rightarrow> ('r, 'm) aworld_scheme" where
  "session_timer se cb w = node_timer (session_node_env se) cb w"

section \<open>What the node's operations leave alone\<close>

text \<open>The node's own operations do not reach the part of the world that is the companion's.\<close>

lemma node_more_of_sworld:
  "sworld.more w = sworld.more (w' :: ('r, 'm) nworld_scheme) \<Longrightarrow> nworld.more w = nworld.more w'"
  by (cases w; cases w'; simp)

lemma companion_fields:
  assumes "nworld.more w = nworld.more (w' :: ('r, 'm) aworld_scheme)"
  shows "w_server w = w_server w'" "w_sent w = w_sent w'" "w_app_started w = w_app_started w'"
    "w_last_send_ms w = w_last_send_ms w'"
  using assms by (cases w; cases w'; simp)+

lemma node_ops_more [simp]:
  "nworld.more (snd (node_send env p prio d w)) = nworld.more w"
  "nworld.more (snd (node_send_text env to tx tt ts w)) = nworld.more w"
  "nworld.more (request_save w) = nworld.more w"
  "nworld.more (snd (pop_message w)) = nworld.more w"
proof -
  show "nworld.more (snd (node_send env p prio d w)) = nworld.more w"
    by (rule node_more_of_sworld)
      (use sender.obs_send [of "ne_crypto env" "ne_radio env" p prio d None w] in
        \<open>simp add: node_send_def sender_view_def\<close>)
  show "nworld.more (snd (node_send_text env to tx tt ts w)) = nworld.more w"
    by (rule node_more_of_sworld) (simp add: node_send_text_def)
qed (simp_all add: request_save_def pop_message_def split: prod.splits)

lemma node_sends_more [simp]:
  "nworld.more (send_advert env f w) = nworld.more w"
  "nworld.more (snd (send_channel_text env i tx ts w)) = nworld.more w"
  by (simp_all add: send_advert_def send_channel_text_def Let_def split: option.splits)

lemma node_inv_clock [simp]: "node_inv (w\<lparr>w_clock := c\<rparr>) = node_inv w"
  by (simp add: node_inv_def sender_inv_def disp_inv_def queue_valid_def)

lemma node_inv_companion [simp]:
  "node_inv (w\<lparr>w_server := s\<rparr>) = node_inv w" "node_inv (w\<lparr>w_sent := b\<rparr>) = node_inv w"
  "node_inv (w\<lparr>w_writes := os\<rparr>) = node_inv w" "node_inv (w\<lparr>w_sock_path := pn\<rparr>) = node_inv w"
  by (simp_all add: node_inv_def sender_inv_def disp_inv_def queue_valid_def)

lemma node_inv_session [simp]:
  "node_inv (w\<lparr>w_app_started := a\<rparr>) = node_inv w"
  "node_inv (w\<lparr>w_app_name := nm\<rparr>) = node_inv w" "node_inv (w\<lparr>w_last_send_ms := t\<rparr>) = node_inv w"
  by (simp_all add: node_inv_def sender_inv_def disp_inv_def queue_valid_def)

section \<open>What sending leaves alone\<close>

lemma node_inv_drop [simp]: "node_inv (drop_client w) = node_inv w"
  by (simp add: drop_client_def upd_server_def)

lemma node_inv_watch [simp]: "node_inv (watch_client e w) = node_inv w"
  by (simp add: watch_client_def split: option.splits)

lemma node_inv_flush_writes [simp]: "node_inv (flush_writes os w) = node_inv w"
proof (induction os w rule: flush_writes.induct)
  case (1 os w)
  then show ?case
    by (subst flush_writes.simps) (auto simp: Let_def split: list.splits write_outcome.splits)
qed

lemma node_inv_server_send [simp]: "node_inv (server_send pl w) = node_inv w"
  by (simp add: server_send_def server_flush_def Let_def)

lemma flush_writes_reader:
  "connected (flush_writes os w) \<Longrightarrow> sv_reader (w_server (flush_writes os w)) = sv_reader (w_server w)"
proof (induction os w rule: flush_writes.induct)
  case (1 os w)
  then show ?case
    unfolding flush_writes.simps [of os w] Let_def
    by (auto simp: connected_def split: list.splits write_outcome.splits if_splits)
qed

lemma server_send_reader:
  "connected (server_send pl w) \<Longrightarrow> sv_reader (w_server (server_send pl w)) = sv_reader (w_server w)"
  using flush_writes_reader
  by (fastforce simp: server_send_def server_flush_def Let_def split: if_splits)

lemma flush_writes_fields:
  "w_inbox (flush_writes os w) = w_inbox w" "w_contacts (flush_writes os w) = w_contacts w"
  "w_app_started (flush_writes os w) = w_app_started w"
  by (induction os w rule: flush_writes.induct; subst flush_writes.simps;
      auto simp: Let_def drop_client_def watch_client_def upd_server_def
        split: list.splits write_outcome.splits option.splits)+

lemma server_send_fields [simp]:
  "w_inbox (server_send pl w) = w_inbox w" "w_contacts (server_send pl w) = w_contacts w"
  "w_app_started (server_send pl w) = w_app_started w"
  by (simp_all add: server_send_def server_flush_def Let_def flush_writes_fields drop_client_def upd_server_def)


section \<open>The settings interface\<close>

text \<open>
  What every command handler promises: a reply that is not empty, the connection left alone, the
  node kept sound.
\<close>

definition answered :: "('r, 'm) aworld_scheme \<Rightarrow> bytes \<times> ('r, 'm) aworld_scheme \<Rightarrow> bool" where
  "answered w r \<longleftrightarrow> fst r \<noteq> [] \<and> w_server (snd r) = w_server w \<and> w_sent (snd r) = w_sent w \<and>
     (node_inv w \<longrightarrow> node_inv (snd r))"

named_theorems answered_intros

lemma answered_same: "out \<noteq> [] \<Longrightarrow> answered w (out, w)"
  by (simp add: answered_def)

lemma answered_resp [simp]:
  "resp_err e \<noteq> []" "resp_ok \<noteq> []" "resp_ok_value v \<noteq> []" "put_u32 out v \<noteq> []"
  "put_bytes (b # out) d \<noteq> []" "put_str (put_u32 o1 v) d \<noteq> []" "put_padded (b # out) d n \<noteq> []"
  "put_padded (put_padded (b # out) d n) d' n' \<noteq> []"
  by (simp_all add: resp_err_def resp_ok_def resp_ok_value_def put_u32_def put_bytes_def put_str_def
      put_padded_def Let_def)

lemma request_save_fields [simp]:
  "node_inv (request_save w) = node_inv w" "w_server (request_save v) = w_server v"
  "w_sent (request_save v) = w_sent v"
  by (auto simp: request_save_def split: prod.splits)

lemma saved_reply_world: "snd (saved_reply w) = request_save w" "fst (saved_reply w) \<noteq> []"
  by (simp_all add: saved_reply_def Let_def)

text \<open>
  What the session relies on of a settings store: a change keeps the node sound and does not reach
  the connection it came from.
\<close>

locale companion_settings =
  fixes se :: "('r, 'm) session_env"
  assumes settings_inv: "node_inv w \<Longrightarrow> node_inv (snd (se_settings se ch w))"
    and settings_server: "w_server (snd (se_settings se ch w)) = w_server w"
    and settings_sent: "w_sent (snd (se_settings se ch w)) = w_sent w"
begin

lemma settings_answered [answered_intros]: "answered w (settings_reply se ch w)"
  using settings_inv [of w ch] settings_server [of ch w] settings_sent [of ch w]
  by (auto simp: answered_def settings_reply_def split: prod.splits SettingsResult.splits)

end

lemma reads_ok:
  "rd_ok (snd (rd_take n r)) \<Longrightarrow> rd_ok r" "rd_ok (snd (rd_u8 r)) \<Longrightarrow> rd_ok r"
  "rd_ok (snd (rd_u32 r)) \<Longrightarrow> rd_ok r"
  by (simp_all add: rd_u8_def rd_u32_def rd_take_def rd_has_def case_prod_unfold split: if_splits)

lemma rd_take_length: "rd_ok (snd (rd_take n r)) \<Longrightarrow> length (fst (rd_take n r)) = n"
  by (auto simp: rd_take_def rd_has_def rd_remaining_def split: if_splits)

lemma contact_tail_inv: "contacts_inv cs \<Longrightarrow> contacts_inv (contact_tail k r cs)"
  by (auto simp: contact_tail_def Let_def contact_wf_def split: prod.splits if_splits
      intro!: upd_contact_inv)

lemma store_contact_inv:
  assumes "contacts_inv cs" "pl = kNoPath \<or> unat pl \<le> kContactPathField"
  shows "contacts_inv (store_contact ty fl pl pf r k cs)"
proof -
  have dirty: "contacts_inv (s\<lparr>cs_dirty := True\<rparr>) = contacts_inv s" for s by (simp add: contacts_inv_def)
  have "contacts_inv (upd_contact k (\<lambda>c. c\<lparr>ct_type := ty, ct_flags := fl\<rparr>) cs)"
    using assms(1) by (rule upd_contact_inv) (auto simp: contact_wf_def)
  moreover have "length (take (unat pl) pf) \<le> kMaxPathSize" if "pl \<noteq> kNoPath"
    using that assms(2) by (simp add: kContactPathField_def kMaxPathSize_def)
  ultimately show ?thesis
    unfolding store_contact_def Let_def dirty
    by (intro contact_tail_inv) (simp add: contact_clear_path_inv contact_set_path_inv)
qed

lemma answered_contacts:
  assumes "node_inv w \<Longrightarrow> contacts_inv cs"
  shows "answered w (saved_reply (w\<lparr>w_contacts := cs\<rparr>))"
    "out \<noteq> [] \<Longrightarrow> answered w (out, w\<lparr>w_contacts := cs\<rparr>)"
  using assms by (auto simp: answered_def saved_reply_world intro: node_inv_contacts)

lemma add_update_answered [answered_intros]: "answered w (cmd_add_update_contact args w)"
proof -
  obtain key r0 where key: "rd_take kPubKeySize (Reader args) = (key, r0)" by fastforce
  obtain ty r1 where ty: "rd_u8 r0 = (ty, r1)" by fastforce
  obtain fl r2 where fl: "rd_u8 r1 = (fl, r2)" by fastforce
  obtain pl r3 where pl: "rd_u8 r2 = (pl, r3)" by fastforce
  obtain pf r4 where pf: "rd_take kContactPathField r3 = (pf, r4)" by fastforce
  obtain ko cs where up: "contact_upsert key (w_contacts w) = (ko, cs)" by fastforce
  have klen: "length key = kPubKeySize" if "rd_ok r4"
    using that reads_ok(1) [of kContactPathField r3] reads_ok(2) [of r2] reads_ok(2) [of r1] reads_ok(2) [of r0]
      rd_take_length [of kPubKeySize "Reader args"] key ty fl pl pf
    by simp
  have cs: "contacts_inv cs" if "rd_ok r4" "node_inv w"
    using contact_upsert_inv [OF _ klen [OF that(1)], of "w_contacts w"] up that(2) by (simp add: node_inv_def)
  show ?thesis
    unfolding cmd_add_update_contact_def key ty fl pl pf up prod.case
    by (auto simp: not_less answered_same split: option.splits
        intro!: answered_contacts cs store_contact_inv)
qed

lemma remove_answered [answered_intros]: "answered w (cmd_remove_contact args w)"
proof -
  have "contacts_inv (snd (contact_remove key (w_contacts w)))" if "node_inv w" for key
    using that contact_remove_inv by (simp add: node_inv_def)
  then show ?thesis
    by (auto simp: cmd_remove_contact_def answered_same case_prod_unfold intro!: answered_contacts
        split: bool.splits)
qed

lemma reset_path_answered [answered_intros]: "answered w (cmd_reset_path args w)"
  unfolding cmd_reset_path_def case_prod_unfold upd_contacts_def
  by (auto simp: answered_same node_inv_def split: option.splits
      intro!: answered_contacts contact_clear_path_inv)

lemma set_channel_answered [answered_intros]: "answered w (cmd_set_channel args w)"
proof -
  have "node_inv w \<Longrightarrow> node_inv (w\<lparr>w_channels := channel_set i ch (w_channels w)\<rparr>)" for i ch
    by (intro node_inv_channels channel_set_inv) (simp_all add: node_inv_def)
  then have "answered w (saved_reply (w\<lparr>w_channels := channel_set i ch (w_channels w)\<rparr>))" for i ch
    by (simp add: answered_def saved_reply_world)
  then show ?thesis
    unfolding cmd_set_channel_def case_prod_unfold Let_def by (simp add: answered_same del: request_save_fields)
qed

lemma message_frame_nonempty [simp]: "message_frame m \<noteq> []"
  by (simp add: message_frame_def Let_def)

lemma sync_answered [answered_intros]: "answered w (cmd_sync_next_message w)"
proof -
  have "node_inv (snd (pop_message w))" if "node_inv w"
    using that by (auto simp: pop_message_def case_prod_unfold node_inv_def [of w] intro!: node_inv_inbox inbox_pop_inv)
  moreover have "w_server (snd (pop_message w)) = w_server w" "w_sent (snd (pop_message w)) = w_sent w"
    by (simp_all add: pop_message_def split: prod.splits)
  ultimately show ?thesis
    by (auto simp: cmd_sync_next_message_def answered_def case_prod_unfold split: option.splits)
qed

lemma answered_node_step:
  assumes "nworld.more w' = nworld.more w" "node_inv w \<Longrightarrow> node_inv w'" "out \<noteq> []"
  shows "answered w (out, w')" "answered w (out, w'\<lparr>w_last_send_ms := t\<rparr>)"
  using assms companion_fields [OF assms(1)] by (simp_all add: answered_def)

lemma send_txt_answered [answered_intros]: "answered w (cmd_send_txt_msg se args w)"
  unfolding cmd_send_txt_msg_def case_prod_unfold Let_def
  by (auto simp: answered_same node_send_text_inv split: option.splits sum.splits intro!: answered_node_step)

lemma send_channel_text_inv: "node_inv w \<Longrightarrow> node_inv (snd (send_channel_text env i tx ts w))"
  by (simp add: send_channel_text_def Let_def node_send_inv split: option.splits)

lemma send_channel_txt_answered [answered_intros]: "answered w (cmd_send_channel_txt_msg se args w)"
  unfolding cmd_send_channel_txt_msg_def case_prod_unfold
  by (auto simp: answered_same send_channel_text_inv split: bool.splits intro!: answered_node_step)

lemma self_advert_answered [answered_intros]:
  "answered w (resp_ok, send_advert env f w)"
  by (intro answered_node_step) (simp_all add: send_advert_inv)

lemma set_time_answered [answered_intros]: "answered w (cmd_set_device_time args w)"
  unfolding cmd_set_device_time_def case_prod_unfold Let_def by (simp add: answered_def)

context companion_settings
begin

lemma settings_cmds_answered [answered_intros]:
  "answered w (cmd_set_advert_name se args w)" "answered w (cmd_set_advert_latlon se args w)"
  "answered w (cmd_set_radio_params se args w)" "answered w (cmd_set_tx_power se args w)"
  "answered w (cmd_set_tuning_params se args w)"
  unfolding cmd_set_advert_name_def cmd_set_advert_latlon_def cmd_set_radio_params_def
    cmd_set_tx_power_def cmd_set_tuning_params_def case_prod_unfold Let_def
  by (simp_all add: answered_same settings_answered split: option.splits)

end

lemma infos_nonempty [simp]:
  "cmd_device_query se w \<noteq> []" "cmd_get_device_time w \<noteq> []" "cmd_get_contact_by_key args w \<noteq> []"
  "cmd_export_contact se args w \<noteq> []" "cmd_get_channel args w \<noteq> []" "cmd_get_battery se \<noteq> []"
  "cmd_get_tuning_params se w \<noteq> []" "contact_frame code c \<noteq> []"
  by (simp_all add: cmd_device_query_def cmd_get_device_time_def cmd_get_contact_by_key_def
      cmd_export_contact_def cmd_get_channel_def cmd_get_battery_def cmd_get_tuning_params_def
      contact_frame_def case_prod_unfold Let_def split: option.splits)

context companion_settings
begin

lemma command_answered: "answered w (command_reply se cmd args w)"
  unfolding command_reply_def
  by (simp add: answered_same answered_intros split: option.split Cmd.split)

end

section \<open>Predicates of the companion's part of the world\<close>

lemma node_more_upd [simp]:
  "nworld.more (upd_contacts f w) = nworld.more w" "nworld.more (snd (draw_byte w)) = nworld.more w"
  "nworld.more (snd (draw_bytes n w)) = nworld.more w" "nworld.more (snd (next_io w)) = nworld.more w"
  "nworld.more (snd (first_delivery env c m w)) = nworld.more w"
  "nworld.more (expire_delivered w) = nworld.more w"
  by (simp_all add: upd_contacts_def draw_byte_def draw_bytes_def next_io_def first_delivery_def
      expire_delivered_def split: prod.splits)

lemma node_more_disp [simp]:
  "nworld.more (upd_disp f w) = nworld.more w" "nworld.more (upd_stats g w) = nworld.more w"
  "nworld.more (expire_seen w) = nworld.more w" "nworld.more (snd (check_and_mark_seen cr p w)) = nworld.more w"
  by (simp_all add: upd_disp_def upd_stats_def expire_seen_def check_and_mark_seen_def split: prod.splits)

lemma node_more_view: "sender_view w' = sender_view w \<Longrightarrow> nworld.more w' = nworld.more w"
  by (rule node_more_of_sworld) (simp add: sender_view_def)

lemma node_more_sender [simp]:
  "nworld.more (snd (complete ack w)) = nworld.more w"
  "nworld.more (on_retry cr ro self i w) = nworld.more w"
  "nworld.more (snd (route_to cr ro p to prio fl r w)) = nworld.more w"
  "nworld.more (on_pump_timer ro on_tx_result w) = nworld.more w"
proof -
  show "nworld.more (on_pump_timer ro on_tx_result w) = nworld.more w"
    unfolding on_pump_timer_def Let_def
    by (rule node_more_view [THEN trans, OF sender.obs_pump]) (simp add: upd_disp_def)
qed (auto intro: node_more_of_sworld node_more_view)

lemma node_more_save [simp]:
  fixes w :: "('r, 'm) nworld_scheme"
  shows "nworld.more (snd (flush w)) = nworld.more w" "nworld.more (on_save_request w) = nworld.more w"
proof -
  have save: "nworld.more (snd (save_contacts w)) = nworld.more w"
    "nworld.more (snd (save_channels w)) = nworld.more w" "nworld.more (snd (save_inbox w)) = nworld.more w"
    for w :: "('r, 'm) nworld_scheme"
    by (simp_all add: save_contacts_def save_channels_def save_inbox_def next_io_def split: prod.splits)
  have fl: "nworld.more (snd (flush w)) = nworld.more w" for w :: "('r, 'm) nworld_scheme"
    by (simp add: flush_def case_prod_unfold Let_def save)
  show "nworld.more (snd (flush w)) = nworld.more w" by (rule fl)
  show "nworld.more (on_save_request w) = nworld.more w" by (simp add: on_save_request_def fl)
qed

lemma node_more_replies [simp]:
  "nworld.more (send_ack env to ack w) = nworld.more w"
  "nworld.more (send_path_return env to p et ex via d w) = nworld.more w"
  "nworld.more (snd (text_ack env c m pl w)) = nworld.more w"
  "nworld.more (maybe_repeat env p w) = nworld.more w"
  "nworld.more (forward_direct env p w) = nworld.more w"
  "nworld.more (forward_trace env p w) = nworld.more w"
  by (simp_all add: send_ack_def send_path_return_def path_return_extra_def text_ack_def maybe_repeat_def
      forward_direct_def forward_trace_def direct_retransmit_delay_def case_prod_unfold Let_def
      split: bool.splits)

text \<open>
  A predicate that only depends on what the node does not own, and that the delegate keeps, is
  kept by everything the node does.
\<close>

locale companion_predicate =
  fixes env :: "('r, 'm) node_env" and P :: "('r, 'm) nworld_scheme \<Rightarrow> bool"
  assumes more_only: "nworld.more w = nworld.more w' \<Longrightarrow> P w \<Longrightarrow> P w'"
    and delegate_keeps: "P w \<Longrightarrow> P (ne_delegate env n w)"
begin

lemma same: "nworld.more w' = nworld.more w \<Longrightarrow> P w' = P w"
  using more_only by metis

lemma same_updates [simp]:
  "P (w\<lparr>w_contacts := cs\<rparr>) = P w" "P (w\<lparr>w_io := io\<rparr>) = P w" "P (w\<lparr>w_fs := fs1\<rparr>) = P w"
  "P (w\<lparr>w_inbox := ib\<rparr>) = P w" "P (upd_contacts f w) = P w" "P (snd (draw_byte w)) = P w"
  "P (snd (first_delivery env' c m w)) = P w" "P (upd_stats g w) = P w"
  "P (snd (check_and_mark_seen cr p w)) = P w"
  by (rule same; simp)+

lemma same_operations [simp]:
  "P (snd (complete ack w)) = P w" "P (send_ack env to ack w) = P w"
  "P (send_path_return env to p et ex via d w) = P w" "P (snd (text_ack env c m pl w)) = P w"
  "P (maybe_repeat env p w) = P w" "P (forward_direct env p w) = P w" "P (forward_trace env p w) = P w"
  by (rule same; simp)+

lemma store_message_keeps: "P w \<Longrightarrow> P (store_message env m w)"
  by (auto simp: store_message_def next_io_def split: prod.splits intro!: delegate_keeps)

lemma complete_ack_keeps: "P w \<Longrightarrow> P (snd (complete_ack env ack d w))"
  by (auto simp: complete_ack_def case_prod_unfold Let_def split: option.splits intro!: delegate_keeps)

lemma handle_advert_keeps: "P w \<Longrightarrow> P (snd (handle_advert env p w))"
  by (auto simp: handle_advert_def Let_def split: option.splits prod.splits intro!: delegate_keeps)

lemma handle_ack_keeps: "P w \<Longrightarrow> P (snd (handle_ack env p w))"
  using complete_ack_keeps by (auto simp: handle_ack_def case_prod_unfold split: option.splits)

lemma handle_path_keeps: "P w \<Longrightarrow> P (snd (handle_path env p w))"
  by (auto simp: handle_path_def Let_def split: option.splits prod.splits
      intro!: delegate_keeps complete_ack_keeps)

lemma receive_text_keeps: "P w \<Longrightarrow> P (receive_text env p k plain msg w)"
  by (simp add: receive_text_def Let_def case_prod_unfold store_message_keeps)

lemma handle_text_keeps: "P w \<Longrightarrow> P (snd (handle_text env p w))"
  by (auto simp: handle_text_def receive_text_keeps split: option.splits)

lemma handle_group_text_keeps: "P w \<Longrightarrow> P (handle_group_text env p w)"
proof -
  have "P w \<Longrightarrow> P (try_channels env p e chs w)" for e chs
    by (induction chs) (auto split: option.splits intro: store_message_keeps)
  then show "P w \<Longrightarrow> P (handle_group_text env p w)"
    by (auto simp: handle_group_text_def split: option.splits)
qed

lemma on_packet_keeps: "P w \<Longrightarrow> P (on_packet env p w)"
  by (simp add: on_packet_def case_prod_unfold handle_advert_keeps handle_text_keeps handle_ack_keeps
      handle_path_keeps handle_group_text_keeps split: PayloadType.split)

lemma radio_rx_keeps: "P w \<Longrightarrow> P (node_radio_rx env r w)"
  by (auto simp: node_radio_rx_def on_radio_rx_def Let_def case_prod_unfold split: option.splits bool.splits
      intro!: on_packet_keeps delegate_keeps)

lemma timer_keeps: "P w \<Longrightarrow> P (node_timer env cb w)"
  by (cases cb; simp add: node_timer_def; rule more_only [rotated]; simp)

end

section \<open>The session as the node's delegate and the server's handler\<close>

lemma push_inv:
  "server_inv w \<Longrightarrow> server_inv (push pl w)" "node_inv (push pl w) = node_inv w"
  "w_app_started (push pl w) = w_app_started w" "\<not> w_app_started w \<Longrightarrow> push pl w = w"
  by (simp_all add: push_def server_send_inv)

lemma server_inv_request_save [simp]: "server_inv (request_save w) = server_inv w"
  by (rule server_inv_cong) simp

lemmas notify_defs = session_notify_def on_contact_changed_def on_message_stored_def on_ack_def
  on_advert_seen_def on_raw_rx_def on_path_updated_def

lemma session_notify_keeps:
  "server_inv w \<Longrightarrow> server_inv (session_notify n w)" "node_inv w \<Longrightarrow> node_inv (session_notify n w)"
  by (cases n; simp add: notify_defs push_inv)+

lemma request_save_started [simp]: "w_app_started (request_save w) = w_app_started w"
  by (auto simp: request_save_def split: prod.splits)

lemma session_notify_gated:
  "\<not> w_app_started w \<Longrightarrow> w_server (session_notify n w) = w_server w \<and> w_sent (session_notify n w) = w_sent w \<and>
     w_app_started (session_notify n w) = w_app_started w"
  by (cases n) (simp_all add: notify_defs push_inv)

lemma session_delegate_ok: "delegate_ok (session_node_env se)"
  by (simp add: delegate_ok_def session_node_env_def session_notify_keeps)

lemma server_inv_more:
  fixes w w' :: "('r, 'm) aworld_scheme"
  shows "nworld.more w = nworld.more w' \<Longrightarrow> server_inv w \<Longrightarrow> server_inv w'"
  using companion_fields(1) [of w w'] server_inv_cong [of w w'] by simp

interpretation served: companion_predicate "session_node_env se" server_inv
  by unfold_locales (erule (1) server_inv_more, simp add: session_node_env_def session_notify_keeps)

definition silent :: "Server \<Rightarrow> bytes \<Rightarrow> ('r, 'm) aworld_scheme \<Rightarrow> bool" where
  "silent s b w \<longleftrightarrow> \<not> w_app_started w \<and> w_server w = s \<and> w_sent w = b"

lemma silent_more: "nworld.more w = nworld.more w' \<Longrightarrow> silent s b w \<Longrightarrow> silent s b w'"
  using companion_fields [of w w'] by (simp add: silent_def)

lemma silent_notify: "silent s b w \<Longrightarrow> silent s b (session_notify n w)"
  using session_notify_gated [of w n] by (simp add: silent_def)

interpretation gated: companion_predicate "session_node_env se" "silent s b"
  by unfold_locales (erule (1) silent_more, simp add: session_node_env_def silent_notify)

lemma self_info_nonempty [simp]: "self_info_frame se w \<noteq> []"
  by (simp add: self_info_frame_def Let_def put_str_def)

text \<open>What a frame is answered with, and the world its handler leaves behind.\<close>

definition frame_replies ::
  "('r, 'm) session_env \<Rightarrow> bytes \<Rightarrow> ('r, 'm) aworld_scheme \<Rightarrow> bytes list \<times> ('r, 'm) aworld_scheme" where
  "frame_replies se f w =
    (let cmd = cmd_of (f ! 0); args = subview_from f 1
     in if cmd = Some CmdAppStart then
          (case cmd_app_start se args w of (out, w1) \<Rightarrow>
             (out # (if ib_messages (w_inbox w) \<noteq> [] then [[push_code PushMsgWaiting]] else []), w1))
        else if cmd = Some CmdGetContacts then
          (let since = (if rd_has (Reader args) 4 then fst (rd_u32 (Reader args)) else 0);
               matching = filter (\<lambda>c. \<not> ct_adv_timestamp c < since) (cs_contacts (w_contacts w))
           in (put_u32 [resp_code RespContactsStart] (word_of_nat (length matching)) #
               map (contact_frame (resp_code RespContact)) matching @
               [put_u32 [resp_code RespEndOfContacts] (fold (\<lambda>c m. max m (ct_adv_timestamp c)) matching 0)], w))
        else (case command_reply se cmd args w of (out, w1) \<Rightarrow> ([out], w1)))"

lemma fold_reply: "fold (\<lambda>c. reply (g c)) cs w = fold server_send (map g cs) w"
  by (induction cs arbitrary: w) (simp_all add: reply_def)

context companion_settings
begin

lemma frame_replies_world:
  "fst (frame_replies se f w) \<noteq> []" "w_server (snd (frame_replies se f w)) = w_server w"
  "w_sent (snd (frame_replies se f w)) = w_sent w" "node_inv w \<Longrightarrow> node_inv (snd (frame_replies se f w))"
  using command_answered [of w "cmd_of (f ! 0)" "subview_from f 1"]
  by (simp_all add: frame_replies_def cmd_app_start_def answered_def Let_def case_prod_unfold)

lemma handle_frame_eq:
  assumes "f \<noteq> []"
  shows "handle_frame se f w = fold server_send (fst (frame_replies se f w)) (snd (frame_replies se f w))"
proof -
  let ?cmd = "cmd_of (f ! 0)" and ?args = "subview_from f (Suc 0)"
  consider (start) "?cmd = Some CmdAppStart" | (contacts) "?cmd = Some CmdGetContacts"
    | (other) "?cmd \<noteq> Some CmdAppStart" "?cmd \<noteq> Some CmdGetContacts"
    by blast
  then show ?thesis
  proof cases
    case start
    obtain out w1 where r: "cmd_app_start se ?args w = (out, w1)" by fastforce
    then have "w_app_started w1" "w_inbox w1 = w_inbox w" by (auto simp: cmd_app_start_def Let_def)
    with assms start show ?thesis
      by (simp add: handle_frame_def frame_replies_def reply_def push_def Let_def r)
  next
    case contacts
    have h: "handle_frame se f w = cmd_get_contacts ?args w" using assms contacts by (simp add: handle_frame_def)
    show ?thesis
      unfolding h cmd_get_contacts_def frame_replies_def Let_def fold_reply reply_def
      by (simp only: contacts option.inject Cmd.distinct if_True if_False refl One_nat_def fst_conv snd_conv
          fold_simps fold_append o_apply id_apply)
  next
    case other
    obtain out w1 where r: "command_reply se ?cmd ?args w = (out, w1)" by fastforce
    have "out \<noteq> []" using command_answered [of w ?cmd ?args] by (simp add: answered_def r)
    with assms other show ?thesis
      by (simp add: handle_frame_def frame_replies_def reply_def Let_def r)
  qed
qed

lemma frame_connected:
  "connected (handle_frame se f w) \<Longrightarrow> connected w \<and>
     sv_reader (w_server (handle_frame se f w)) = sv_reader (w_server w)"
proof (cases "f = []")
  case False
  have sends: "sv_reader (w_server (fold server_send pls v)) = sv_reader (w_server v)"
    if "connected (fold server_send pls v)" for pls and v :: "('r, 'm) aworld_scheme"
    using that
  proof (induction pls arbitrary: v)
    case (Cons pl pls)
    then have "connected (server_send pl v)" using sends_stream [of pls "server_send pl v"] by simp
    with Cons server_send_reader [of pl v] show ?case by simp
  qed simp
  assume c: "connected (handle_frame se f w)"
  let ?outs = "fst (frame_replies se f w)" and ?w = "snd (frame_replies se f w)"
  have "connected ?w" using c sends_stream [of ?outs ?w] by (simp add: handle_frame_eq [OF False])
  with sends [of ?outs ?w] c show ?thesis
    by (simp add: handle_frame_eq [OF False] connected_def frame_replies_world)
qed (simp add: handle_frame_def)

sublocale frame_handler "handle_frame se"
  by unfold_locales (simp_all add: frame_connected)

lemma sends_inv: "server_inv w \<Longrightarrow> server_inv (fold server_send pls w)" "node_inv (fold server_send pls w) = node_inv w"
  by (induction pls arbitrary: w) (simp_all add: server_send_inv)

lemma handle_frame_inv:
  "server_inv w \<Longrightarrow> server_inv (handle_frame se f w)" "node_inv w \<Longrightarrow> node_inv (handle_frame se f w)"
proof -
  have "server_inv (snd (frame_replies se f w)) = server_inv w"
    by (rule server_inv_cong) (rule frame_replies_world)
  then show "server_inv w \<Longrightarrow> server_inv (handle_frame se f w)"
    by (cases "f = []") (simp_all add: handle_frame_eq sends_inv, simp add: handle_frame_def)
  show "node_inv w \<Longrightarrow> node_inv (handle_frame se f w)"
    by (cases "f = []") (simp_all add: handle_frame_eq sends_inv frame_replies_world, simp add: handle_frame_def)
qed

lemma dispatch_node_inv: "node_inv w \<Longrightarrow> node_inv (dispatch_frames (handle_frame se) n w)"
  by (induction n arbitrary: w)
    (auto simp: Let_def upd_server_def handle_frame_inv split: prod.splits option.splits)

lemma client_ready_inv:
  assumes "node_inv w" "server_inv w"
  shows "node_inv (session_client_ready se reads ev w)" "server_inv (session_client_ready se reads ev w)"
proof -
  show "server_inv (session_client_ready se reads ev w)"
    unfolding session_client_ready_def
    by (rule on_client_ready_inv [of "handle_frame se"]) (use handle_frame_inv assms in auto)
  have feed: "node_inv v \<Longrightarrow> node_inv (feed_client (handle_frame se) d v)" for d v
    unfolding feed_client_def Let_def by (intro dispatch_node_inv) (simp add: upd_server_def)
  have "node_inv v \<Longrightarrow> node_inv (read_client (handle_frame se) reads v)" for v
  proof (induction reads arbitrary: v)
    case (Cons r reads)
    then show ?case by (cases r) (simp_all add: Let_def feed)
  qed simp
  with assms show "node_inv (session_client_ready se reads ev w)"
    by (simp add: session_client_ready_def on_client_ready_def server_flush_def Let_def)
qed

end

end
