(* ===== verification/Config.thy ===== *)
theory Config
  imports Ini Session
begin

text \<open>
  The daemon's configuration, \<^verbatim>\<open>src/src/daemon/config.h\<close> and \<^verbatim>\<open>config.cpp\<close>: the table of settings,
  each bound to its field, the parsing and range checks of a value, its canonical spelling, and the
  checks across keys. A field of the table is a pair of a reader and a writer on the configuration
  and the two raw enum names. Errors keep the key they are about, not the whole message.
\<close>

section \<open>Data\<close>

datatype LogLevel = LogError | LogWarn | LogInfo | LogDebug | LogTrace

definition log_parse_level :: "bytes \<Rightarrow> LogLevel option" where
  "log_parse_level name =
     (if name = str ''error'' then Some LogError
      else if name = str ''warn'' \<or> name = str ''warning'' then Some LogWarn
      else if name = str ''info'' then Some LogInfo
      else if name = str ''debug'' then Some LogDebug
      else if name = str ''trace'' then Some LogTrace
      else None)"

record SpiConfig =
  sp_spidev :: bytes
  sp_gpiochip :: bytes
  sp_irq_pin :: int
  sp_busy_pin :: int
  sp_reset_pin :: int
  sp_nss_pin :: int
  sp_rxen_pin :: int
  sp_txen_pin :: int
  sp_spi_speed_hz :: u32
  sp_retry_interval_s :: u32

record Config =
  cf_log_level :: LogLevel
  cf_log_syslog_style :: bool
  cf_state_dir :: bytes
  cf_radio :: RadioParams
  cf_spi :: SpiConfig
  cf_node :: NodeConfig
  cf_messages_path :: bytes
  cf_companion :: ServerOptions

record Raw =
  raw_log_level :: bytes
  raw_companion_interface :: bytes

definition default_config :: Config where
  "default_config =
     \<lparr>cf_log_level = LogInfo, cf_log_syslog_style = False, cf_state_dir = [], cf_radio = default_params,
      cf_spi = \<lparr>sp_spidev = str ''/dev/spidev1.0'', sp_gpiochip = str ''gpiochip0'', sp_irq_pin = 26,
        sp_busy_pin = 24, sp_reset_pin = 25, sp_nss_pin = - 1, sp_rxen_pin = - 1, sp_txen_pin = - 1,
        sp_spi_speed_hz = 2000000, sp_retry_interval_s = 10\<rparr>,
      cf_node = \<lparr>nc_name = [], nc_adv_type = kAdvTypeChat, nc_lat_e6 = 0, nc_lon_e6 = 0,
        nc_advert_interval_s = 0, nc_repeat = False, nc_max_hops = 32\<rparr>,
      cf_messages_path = [],
      cf_companion = \<lparr>so_tcp = False, so_socket_path = str ''/run/coreletd/companion.sock'',
        so_bind_addr = str ''127.0.0.1'', so_port = 5000, so_max_outbound_bytes = 256 * 1024\<rparr>\<rparr>"

definition default_raw :: Raw where
  "default_raw = \<lparr>raw_log_level = str ''info'', raw_companion_interface = str ''unix''\<rparr>"

definition identity_path :: "Config \<Rightarrow> bytes" where "identity_path c = cf_state_dir c @ str ''/identity''"
definition contacts_path :: "Config \<Rightarrow> bytes" where "contacts_path c = cf_state_dir c @ str ''/contacts''"
definition channels_path :: "Config \<Rightarrow> bytes" where "channels_path c = cf_state_dir c @ str ''/channels''"
definition messages_path :: "Config \<Rightarrow> bytes" where "messages_path c = cf_state_dir c @ str ''/messages''"
definition settings_path :: "Config \<Rightarrow> bytes" where "settings_path c = cf_state_dir c @ str ''/settings''"

section \<open>Constraints\<close>

definition valid_freq :: "rat \<Rightarrow> bool" where
  "valid_freq mhz \<longleftrightarrow> mhz = 0 \<or> 150 \<le> mhz \<and> mhz \<le> 960"

definition supported_bandwidth :: "rat \<Rightarrow> bool" where
  "supported_bandwidth khz \<longleftrightarrow>
     list_ex (\<lambda>supported. \<bar>double_of (khz - double_of supported)\<bar> < double_of (5 / 1000)) kBandwidthsKhz"

definition valid_tcxo :: "rat \<Rightarrow> bool" where
  "valid_tcxo volts \<longleftrightarrow> volts = 0 \<or> double_of (16 / 10) \<le> volts \<and> volts \<le> double_of (33 / 10)"

definition valid_duty_cycle :: "rat \<Rightarrow> bool" where
  "valid_duty_cycle pct \<longleftrightarrow> 0 < pct \<and> pct \<le> 100"

definition valid_lat :: "rat \<Rightarrow> bool" where
  "valid_lat deg \<longleftrightarrow> - 90 \<le> deg \<and> deg \<le> 90"

definition valid_lon :: "rat \<Rightarrow> bool" where
  "valid_lon deg \<longleftrightarrow> - 180 \<le> deg \<and> deg \<le> 180"

section \<open>The settings table\<close>

type_synonym cfg = "Config \<times> Raw"

datatype target =
    StrTarget "cfg \<Rightarrow> bytes" "bytes \<Rightarrow> cfg \<Rightarrow> cfg"
  | BoolTarget "cfg \<Rightarrow> bool" "bool \<Rightarrow> cfg \<Rightarrow> cfg"
  | IntTarget "cfg \<Rightarrow> int" "int \<Rightarrow> cfg \<Rightarrow> cfg" int int
  | RealTarget "cfg \<Rightarrow> rat" "rat \<Rightarrow> cfg \<Rightarrow> cfg" "rat \<Rightarrow> bool"
  | DegreesTarget "cfg \<Rightarrow> u32" "u32 \<Rightarrow> cfg \<Rightarrow> cfg" "rat \<Rightarrow> bool"

type_synonym setting = "bytes \<times> target"

definition kAppKeys :: "bytes list" where
  "kAppKeys = [str ''radio.lora_freq'', str ''radio.lora_bw'', str ''radio.lora_sf'', str ''radio.lora_cr'',
     str ''radio.lora_tx_power'', str ''radio.duty_cycle'', str ''node.advert_name'', str ''node.lat'',
     str ''node.lon'', str ''node.repeat'']"

definition kMaxInt :: int where "kMaxInt = 2 ^ 31 - 1"
definition kMaxU16 :: int where "kMaxU16 = 2 ^ 16 - 1"
definition kMaxTimerDelaySeconds :: int where "kMaxTimerDelaySeconds = (2 ^ 32 - 1) div 1000"

definition on_radio :: "(RadioParams \<Rightarrow> RadioParams) \<Rightarrow> cfg \<Rightarrow> cfg" where
  "on_radio f c = (case c of (a, r) \<Rightarrow> (a\<lparr>cf_radio := f (cf_radio a)\<rparr>, r))"

definition on_spi :: "(SpiConfig \<Rightarrow> SpiConfig) \<Rightarrow> cfg \<Rightarrow> cfg" where
  "on_spi f c = (case c of (a, r) \<Rightarrow> (a\<lparr>cf_spi := f (cf_spi a)\<rparr>, r))"

definition on_node :: "(NodeConfig \<Rightarrow> NodeConfig) \<Rightarrow> cfg \<Rightarrow> cfg" where
  "on_node f c = (case c of (a, r) \<Rightarrow> (a\<lparr>cf_node := f (cf_node a)\<rparr>, r))"

definition on_companion :: "(ServerOptions \<Rightarrow> ServerOptions) \<Rightarrow> cfg \<Rightarrow> cfg" where
  "on_companion f c = (case c of (a, r) \<Rightarrow> (a\<lparr>cf_companion := f (cf_companion a)\<rparr>, r))"

definition radio_settings :: "setting list" where
  "radio_settings =
    [(str ''radio.lora_freq'', RealTarget (\<lambda>c. rp_freq_mhz (cf_radio (fst c)))
        (\<lambda>v. on_radio (\<lambda>r. r\<lparr>rp_freq_mhz := v\<rparr>)) valid_freq),
     (str ''radio.lora_bw'', RealTarget (\<lambda>c. rp_bw_khz (cf_radio (fst c)))
        (\<lambda>v. on_radio (\<lambda>r. r\<lparr>rp_bw_khz := v\<rparr>)) supported_bandwidth),
     (str ''radio.lora_sf'', IntTarget (\<lambda>c. uint (rp_sf (cf_radio (fst c))))
        (\<lambda>v. on_radio (\<lambda>r. r\<lparr>rp_sf := word_of_int v\<rparr>)) 5 12),
     (str ''radio.lora_cr'', IntTarget (\<lambda>c. uint (rp_cr (cf_radio (fst c))))
        (\<lambda>v. on_radio (\<lambda>r. r\<lparr>rp_cr := word_of_int v\<rparr>)) 5 8),
     (str ''radio.lora_tx_power'', IntTarget (\<lambda>c. rp_tx_power_dbm (cf_radio (fst c)))
        (\<lambda>v. on_radio (\<lambda>r. r\<lparr>rp_tx_power_dbm := v\<rparr>)) kMinTxPowerDbm kMaxTxPowerDbm),
     (str ''radio.duty_cycle'', RealTarget (\<lambda>c. rp_duty_cycle_pct (cf_radio (fst c)))
        (\<lambda>v. on_radio (\<lambda>r. r\<lparr>rp_duty_cycle_pct := v\<rparr>)) valid_duty_cycle)]"

definition hardware_settings :: "setting list" where
  "hardware_settings =
    [(str ''hardware.spidev'', StrTarget (\<lambda>c. sp_spidev (cf_spi (fst c))) (\<lambda>v. on_spi (\<lambda>s. s\<lparr>sp_spidev := v\<rparr>))),
     (str ''hardware.lora_gpiochip'',
        StrTarget (\<lambda>c. sp_gpiochip (cf_spi (fst c))) (\<lambda>v. on_spi (\<lambda>s. s\<lparr>sp_gpiochip := v\<rparr>))),
     (str ''hardware.lora_irq_pin'',
        IntTarget (\<lambda>c. sp_irq_pin (cf_spi (fst c))) (\<lambda>v. on_spi (\<lambda>s. s\<lparr>sp_irq_pin := v\<rparr>)) 0 kMaxInt),
     (str ''hardware.lora_busy_pin'',
        IntTarget (\<lambda>c. sp_busy_pin (cf_spi (fst c))) (\<lambda>v. on_spi (\<lambda>s. s\<lparr>sp_busy_pin := v\<rparr>)) 0 kMaxInt),
     (str ''hardware.lora_reset_pin'',
        IntTarget (\<lambda>c. sp_reset_pin (cf_spi (fst c))) (\<lambda>v. on_spi (\<lambda>s. s\<lparr>sp_reset_pin := v\<rparr>)) 0 kMaxInt),
     (str ''hardware.lora_nss_pin'',
        IntTarget (\<lambda>c. sp_nss_pin (cf_spi (fst c))) (\<lambda>v. on_spi (\<lambda>s. s\<lparr>sp_nss_pin := v\<rparr>)) (- 1) kMaxInt),
     (str ''hardware.lora_rxen_pin'',
        IntTarget (\<lambda>c. sp_rxen_pin (cf_spi (fst c))) (\<lambda>v. on_spi (\<lambda>s. s\<lparr>sp_rxen_pin := v\<rparr>)) (- 1) kMaxInt),
     (str ''hardware.lora_txen_pin'',
        IntTarget (\<lambda>c. sp_txen_pin (cf_spi (fst c))) (\<lambda>v. on_spi (\<lambda>s. s\<lparr>sp_txen_pin := v\<rparr>)) (- 1) kMaxInt),
     (str ''hardware.lora_retry_interval'', IntTarget (\<lambda>c. uint (sp_retry_interval_s (cf_spi (fst c))))
        (\<lambda>v. on_spi (\<lambda>s. s\<lparr>sp_retry_interval_s := word_of_int v\<rparr>)) 0 86400),
     (str ''hardware.dio2_as_rf_switch'', BoolTarget (\<lambda>c. rp_dio2_as_rf_switch (cf_radio (fst c)))
        (\<lambda>v. on_radio (\<lambda>r. r\<lparr>rp_dio2_as_rf_switch := v\<rparr>))),
     (str ''hardware.lora_tcxo'', RealTarget (\<lambda>c. rp_tcxo_voltage (cf_radio (fst c)))
        (\<lambda>v. on_radio (\<lambda>r. r\<lparr>rp_tcxo_voltage := v\<rparr>)) valid_tcxo),
     (str ''hardware.rx_boosted_gain'', BoolTarget (\<lambda>c. rp_rx_boosted_gain (cf_radio (fst c)))
        (\<lambda>v. on_radio (\<lambda>r. r\<lparr>rp_rx_boosted_gain := v\<rparr>))),
     (str ''hardware.current_limit'', IntTarget (\<lambda>c. rp_current_limit_ma (cf_radio (fst c)))
        (\<lambda>v. on_radio (\<lambda>r. r\<lparr>rp_current_limit_ma := v\<rparr>)) 1 157),
     (str ''hardware.spi_speed'', IntTarget (\<lambda>c. uint (sp_spi_speed_hz (cf_spi (fst c))))
        (\<lambda>v. on_spi (\<lambda>s. s\<lparr>sp_spi_speed_hz := word_of_int v\<rparr>)) 1 16000000)]"

definition node_settings :: "setting list" where
  "node_settings =
    [(str ''node.advert_name'', StrTarget (\<lambda>c. nc_name (cf_node (fst c))) (\<lambda>v. on_node (\<lambda>n. n\<lparr>nc_name := v\<rparr>))),
     (str ''node.advert_interval'', IntTarget (\<lambda>c. uint (nc_advert_interval_s (cf_node (fst c))))
        (\<lambda>v. on_node (\<lambda>n. n\<lparr>nc_advert_interval_s := word_of_int v\<rparr>)) 0 kMaxTimerDelaySeconds),
     (str ''node.lat'', DegreesTarget (\<lambda>c. nc_lat_e6 (cf_node (fst c)))
        (\<lambda>v. on_node (\<lambda>n. n\<lparr>nc_lat_e6 := v\<rparr>)) valid_lat),
     (str ''node.lon'', DegreesTarget (\<lambda>c. nc_lon_e6 (cf_node (fst c)))
        (\<lambda>v. on_node (\<lambda>n. n\<lparr>nc_lon_e6 := v\<rparr>)) valid_lon),
     (str ''node.repeat'', BoolTarget (\<lambda>c. nc_repeat (cf_node (fst c))) (\<lambda>v. on_node (\<lambda>n. n\<lparr>nc_repeat := v\<rparr>))),
     (str ''node.max_hops'', IntTarget (\<lambda>c. uint (nc_max_hops (cf_node (fst c))))
        (\<lambda>v. on_node (\<lambda>n. n\<lparr>nc_max_hops := word_of_int v\<rparr>)) 0 (int kMaxPathSize))]"

definition other_settings :: "setting list" where
  "other_settings =
    [(str ''companion.companion_interface'', StrTarget (\<lambda>c. raw_companion_interface (snd c))
        (\<lambda>v c. (fst c, (snd c)\<lparr>raw_companion_interface := v\<rparr>))),
     (str ''companion.companion_socket'', StrTarget (\<lambda>c. so_socket_path (cf_companion (fst c)))
        (\<lambda>v. on_companion (\<lambda>s. s\<lparr>so_socket_path := v\<rparr>))),
     (str ''companion.companion_bind'', StrTarget (\<lambda>c. so_bind_addr (cf_companion (fst c)))
        (\<lambda>v. on_companion (\<lambda>s. s\<lparr>so_bind_addr := v\<rparr>))),
     (str ''companion.companion_port'', IntTarget (\<lambda>c. uint (so_port (cf_companion (fst c))))
        (\<lambda>v. on_companion (\<lambda>s. s\<lparr>so_port := word_of_int v\<rparr>)) 1 kMaxU16),
     (str ''storage.state_dir'', StrTarget (\<lambda>c. cf_state_dir (fst c))
        (\<lambda>v c. ((fst c)\<lparr>cf_state_dir := v\<rparr>, snd c))),
     (str ''logging.log_level'', StrTarget (\<lambda>c. raw_log_level (snd c))
        (\<lambda>v c. (fst c, (snd c)\<lparr>raw_log_level := v\<rparr>)))]"

definition settings :: "setting list" where
  "settings = radio_settings @ hardware_settings @ node_settings @ other_settings"

section \<open>Reading and writing one setting\<close>

datatype ConfigError =
    FileError IniError
  | NotBoolean bytes
  | NotInteger bytes
  | OutOfRange bytes int int
  | NotFinite bytes
  | Requirement bytes
  | UnknownLevel bytes
  | BadInterface
  | NoStateDir
  | RelativeStateDir bytes
  | EmptyName
  | ControlInName
  | NameTooLong nat nat
  | NotAnAppKey bytes
  | NoSuchKey bytes

fun apply_setting :: "entries \<Rightarrow> setting \<Rightarrow> cfg \<Rightarrow> ConfigError + cfg" where
  "apply_setting m (key, StrTarget g s) c = Inr (s (get_str key (g c) m) c)"
| "apply_setting m (key, BoolTarget g s) c =
     (case get_bool key (g c) m of None \<Rightarrow> Inl (NotBoolean key) | Some v \<Rightarrow> Inr (s v c))"
| "apply_setting m (key, IntTarget g s mn mx) c =
     (case get_int64 key (g c) m of
        None \<Rightarrow> Inl (NotInteger key)
      | Some v \<Rightarrow> if v < mn \<or> v > mx then Inl (OutOfRange key mn mx) else Inr (s v c))"
| "apply_setting m (key, RealTarget g s valid) c =
     (case get_double key (g c) m of
        None \<Rightarrow> Inl (NotFinite key)
      | Some v \<Rightarrow> if \<not> valid v then Inl (Requirement key) else Inr (s v c))"
| "apply_setting m (key, DegreesTarget g s valid) c =
     (case get_double key (double_of (of_int (sint (g c)) / 10 ^ 6)) m of
        None \<Rightarrow> Inl (NotFinite key)
      | Some v \<Rightarrow> if \<not> valid v then Inl (Requirement key)
                  else Inr (s (word_of_int (lround (double_of (v * 10 ^ 6)))) c))"

text \<open>The fewest decimals that read back as the value.\<close>

definition format_real :: "rat \<Rightarrow> bytes" where
  "format_real v =
     (case find (\<lambda>d. strtod (printf_f d v) = Some v) [0..<18] of
        Some d \<Rightarrow> printf_f d v
      | None \<Rightarrow> printf_g17 v)"

fun format_setting :: "target \<Rightarrow> cfg \<Rightarrow> bytes" where
  "format_setting (StrTarget g s) c = g c"
| "format_setting (BoolTarget g s) c = (if g c then str ''1'' else str ''0'')"
| "format_setting (IntTarget g s mn mx) c = dec_int (g c)"
| "format_setting (RealTarget g s valid) c = format_real (g c)"
| "format_setting (DegreesTarget g s valid) c = format_real (double_of (of_int (sint (g c)) / 10 ^ 6))"

section \<open>The configuration's operations\<close>

definition app_key :: "bytes \<Rightarrow> bool" where
  "app_key key \<longleftrightarrow> key \<in> set kAppKeys"

definition config_keys :: "bytes list" where
  "config_keys = filter (\<lambda>k. \<not> app_key k) (map fst settings)"

definition config_get :: "bytes \<Rightarrow> Config \<Rightarrow> bytes" where
  "config_get key c =
     (if \<not> app_key key then []
      else case map_of settings key of
             None \<Rightarrow> []
           | Some t \<Rightarrow> format_setting t (c, default_raw))"

definition config_set :: "bytes \<Rightarrow> bytes \<Rightarrow> Config \<Rightarrow> ConfigError + Config" where
  "config_set key val c =
     (if \<not> app_key key then Inl (NotAnAppKey key)
      else case map_of settings key of
             None \<Rightarrow> Inl (NoSuchKey key)
           | Some t \<Rightarrow> map_sum id fst (apply_setting (ini_set key val []) (key, t) (c, default_raw)))"

fun apply_settings :: "entries \<Rightarrow> setting list \<Rightarrow> cfg \<Rightarrow> ConfigError + cfg" where
  "apply_settings m [] c = Inr c"
| "apply_settings m (s # ss) c =
     (if app_key (fst s) then apply_settings m ss c
      else case apply_setting m s c of
             Inl e \<Rightarrow> Inl e
           | Inr c1 \<Rightarrow> apply_settings m ss c1)"

definition slash :: byte where "slash = of_char CHR ''/''"

fun drop_slashes :: "bytes \<Rightarrow> bytes" where
  "drop_slashes rs = (case rs of b # c # cs \<Rightarrow> if b = slash then drop_slashes (c # cs) else rs | _ \<Rightarrow> rs)"

declare drop_slashes.simps [simp del]

definition trim_slashes :: "bytes \<Rightarrow> bytes" where
  "trim_slashes d = rev (drop_slashes (rev d))"

definition config_load :: "nat option \<Rightarrow> fs \<Rightarrow> bytes \<Rightarrow> Config \<Rightarrow> ConfigError + Config" where
  "config_load fault fs0 file_path c0 =
     (case ini_load fault fs0 file_path of
        Inl e \<Rightarrow> Inl (FileError e)
      | Inr m \<Rightarrow>
          (case apply_settings m settings (c0, default_raw) of
             Inl e \<Rightarrow> Inl e
           | Inr (c, raw) \<Rightarrow>
               (case log_parse_level (raw_log_level raw) of
                  None \<Rightarrow> Inl (UnknownLevel (raw_log_level raw))
                | Some lvl \<Rightarrow>
                    let c1 = c\<lparr>cf_log_level := lvl\<rparr>
                    in if raw_companion_interface raw \<noteq> str ''unix'' \<and> raw_companion_interface raw \<noteq> str ''tcp''
                       then Inl BadInterface
                       else
                         let c2 = c1\<lparr>cf_companion := (cf_companion c1)
                                      \<lparr>so_tcp := (raw_companion_interface raw = str ''tcp'')\<rparr>\<rparr>;
                             d = cf_state_dir c2
                         in if d = [] then Inl NoStateDir
                            else if hd d \<noteq> slash then Inl (RelativeStateDir d)
                            else Inr (c2\<lparr>cf_state_dir := trim_slashes d\<rparr>))))"

definition config_validate :: "Config \<Rightarrow> ConfigError option" where
  "config_validate c =
    (let n = cf_node c
     in if nc_name n = [] then Some EmptyName
        else if list_ex (\<lambda>b. b < 0x20 \<or> b = 0x7F) (nc_name n) then Some ControlInName
        else
          let overhead = 1 + (if cfg_has_location n then 8 else 0);
              room = kMaxAdvertAppDataSize - overhead
          in if length (nc_name n) > room then Some (NameTooLong (length (nc_name n)) room)
             else None)"

definition config_finalise :: "Config \<Rightarrow> Config" where
  "config_finalise c = c\<lparr>cf_messages_path := messages_path c\<rparr>"

end
