(* ===== verification/AppFields.thy ===== *)
theory AppFields
  imports Config
begin
section \<open>Spelling and reading values\<close>

definition printable :: "bytes \<Rightarrow> bool" where
  "printable v \<longleftrightarrow> (\<forall>b \<in> set v. 32 \<le> b \<and> b \<noteq> 127)"

lemma digits_printable: "\<forall>b \<in> set ds. is_digit b \<Longrightarrow> printable ds"
  by (auto simp: printable_def is_digit_def word_le_nat_alt)

lemma printable_append [simp]: "printable (xs @ ys) \<longleftrightarrow> printable xs \<and> printable ys"
  by (auto simp: printable_def)

lemma printable_printf_f: "printable (printf_f d v)"
proof -
  obtain ws fs where "\<forall>b \<in> set ws. is_digit b" "\<forall>b \<in> set fs. is_digit b"
    "fixed_point d (nat (round_even (\<bar>v\<bar> * 10 ^ d))) = (if d = 0 then ws else ws @ 46 # fs)"
    using fixed_point_shape by metis
  then have "printable (fixed_point d (nat (round_even (\<bar>v\<bar> * 10 ^ d))))"
    using digits_printable [of ws] digits_printable [of fs] by (auto simp: printable_def)
  then show ?thesis by (simp add: printf_f_def sign_text_def str_def) (simp add: printable_def)
qed

definition reads_as :: "bytes \<Rightarrow> rat \<Rightarrow> bool" where
  "reads_as s v \<longleftrightarrow> strtod s = Some v \<and> printable s \<and> s \<noteq> []"

lemma reads_asI: "strtod s = Some v \<Longrightarrow> printable s \<Longrightarrow> reads_as s v"
  by (auto simp: reads_as_def strtod_def c_str_def read_sign_def read_mantissa_def Let_def split: prod.splits)

lemma format_real_reads:
  assumes "strtod (printf_f d v) = Some v" "d < 18"
  shows "reads_as (format_real v) v"
proof -
  have "find (\<lambda>d. strtod (printf_f d v) = Some v) [0..<18] \<noteq> None"
    using assms by (auto simp: find_None_iff)
  then obtain d' where "find (\<lambda>d. strtod (printf_f d v) = Some v) [0..<18] = Some d'" by blast
  moreover from this have "strtod (printf_f d' v) = Some v" by (auto simp: find_Some_iff)
  ultimately show ?thesis using printable_printf_f by (simp add: format_real_def reads_asI)
qed

lemma printf_f_17:
  assumes "is_double v" "1 / 10 \<le> \<bar>v\<bar>" "\<bar>v\<bar> \<le> 1000"
  shows "strtod (printf_f 17 v) = Some v"
proof -
  define k where "k = nat (round_even (\<bar>v\<bar> * 10 ^ 17))"
  let ?x = "(if v < 0 then - 1 else 1) * (of_nat k / 10 ^ 17 :: rat)"
  have "\<bar>of_nat k - \<bar>v\<bar> * 10 ^ 17\<bar> \<le> 1 / 2"
    using round_even_error [of "\<bar>v\<bar> * 10 ^ 17"] round_even_nonneg [of "\<bar>v\<bar> * 10 ^ 17"]
    by (simp add: k_def)
  then have "\<bar>of_nat k / 10 ^ 17 - \<bar>v\<bar>\<bar> \<le> 1 / (2 * 10 ^ 17)" unfolding abs_le_iff by simp
  then have "\<bar>?x - v\<bar> \<le> 1 / (2 * 10 ^ 17)" unfolding abs_le_iff by (cases "v < 0") simp_all
  also have "\<dots> \<le> \<bar>v\<bar> * (1 / (2 * 10 ^ 16))" using assms(2) by simp
  finally have "double_of ?x = v" by (rule double_near [OF assms(1)])
  with strtod_printf_f [of v 17] assms(3) show ?thesis by (simp add: k_def)
qed

lemma format_real_usual:
  assumes "is_double v" "v = 0 \<or> 1 / 10 \<le> \<bar>v\<bar>" "\<bar>v\<bar> \<le> 1000"
  shows "reads_as (format_real v) v"
proof (cases "v = 0")
  case True
  have "strtod (printf_f 0 v) = Some v"
    using strtod_printf_f [of v 0] by (simp add: True round_even_def double_of_def)
  then show ?thesis by (rule format_real_reads) simp
next
  case False
  with assms show ?thesis by (intro format_real_reads [OF printf_f_17]) auto
qed

lemma of_int_abs_le: "\<bar>k\<bar> \<le> n \<Longrightarrow> \<bar>of_int k :: rat\<bar> \<le> of_int n"
  by (simp only: of_int_abs [symmetric] of_int_le_iff)

lemma degrees_error:
  assumes "\<bar>k\<bar> \<le> 2 * 10 ^ 8"
  shows "\<bar>double_of (of_int k / 10 ^ 6) - of_int k / 10 ^ 6\<bar> \<le> 1 / 10 ^ 7"
proof -
  have "(\<bar>of_int k\<bar> :: rat) \<le> 2 * 10 ^ 8"
    using of_int_abs_le [OF assms] by simp
  then have "\<bar>of_int k / (10 :: rat) ^ 6\<bar> / 2 ^ 53 \<le> 1 / 10 ^ 7" by (simp add: abs_divide)
  with double_of_error [of "of_int k / 10 ^ 6"] show ?thesis by linarith
qed

lemma format_degrees:
  assumes "\<bar>k\<bar> \<le> 2 * 10 ^ 8"
  shows "reads_as (format_real (double_of (of_int k / 10 ^ 6))) (double_of (of_int k / 10 ^ 6))"
proof (rule format_real_reads)
  define v where "v = double_of (of_int k / 10 ^ 6)"
  have e: "\<bar>v - of_int k / 10 ^ 6\<bar> \<le> 1 / 10 ^ 7" using degrees_error [OF assms] by (simp add: v_def)
  have K: "(\<bar>of_int k\<bar> :: rat) \<le> 2 * 10 ^ 8"
    using of_int_abs_le [OF assms] by simp
  have sign: "v < 0 \<longleftrightarrow> k < 0"
  proof -
    have "(1 :: rat) \<le> of_int k" if "0 < k" using that by simp
    moreover have "(of_int k :: rat) \<le> - 1" if "k < 0" using that of_int_le_iff [of k "- 1", where ?'a = rat] by simp
    moreover have "v = 0" if "k = 0" using that by (simp add: v_def double_of_def)
    ultimately show ?thesis using e unfolding abs_le_iff by (cases k "0 :: int" rule: linorder_cases) auto
  qed
  have "\<bar>\<bar>v\<bar> * 10 ^ 6 - of_int \<bar>k\<bar>\<bar> < 1 / 2"
    using e sign unfolding abs_le_iff abs_less_iff by (cases "k < 0") auto
  then have r: "round_even (\<bar>v\<bar> * 10 ^ 6) = \<bar>k\<bar>" by (rule round_even_unique)
  have x: "(if v < 0 then - 1 else 1) * (of_nat (nat \<bar>k\<bar>) / 10 ^ 6) = (of_int k / 10 ^ 6 :: rat)"
    using sign by auto
  have "\<bar>v\<bar> \<le> 1000" using e K unfolding abs_le_iff by auto
  from strtod_printf_f [OF this, of 6] show "strtod (printf_f 6 (double_of (of_int k / 10 ^ 6))) = Some (double_of (of_int k / 10 ^ 6))"
    by (simp only: r x v_def [symmetric])
qed simp

section \<open>The ten settings of an app\<close>

text \<open>
  The same settings again as a datatype, with the value a text stands for, so that statements about
  all of them are case distinctions rather than walks through the table.
\<close>

datatype app_field = FFreq | FBw | FSf | FCr | FTxPower | FDuty | FName | FLat | FLon | FRepeat

datatype sval = SReal rat | SInt int | SStr bytes | SBool bool | SDeg u32

fun field_key :: "app_field \<Rightarrow> bytes" where
  "field_key FFreq = str ''radio.lora_freq''"
| "field_key FBw = str ''radio.lora_bw''"
| "field_key FSf = str ''radio.lora_sf''"
| "field_key FCr = str ''radio.lora_cr''"
| "field_key FTxPower = str ''radio.lora_tx_power''"
| "field_key FDuty = str ''radio.duty_cycle''"
| "field_key FName = str ''node.advert_name''"
| "field_key FLat = str ''node.lat''"
| "field_key FLon = str ''node.lon''"
| "field_key FRepeat = str ''node.repeat''"

definition check :: "('a \<Rightarrow> bool) \<Rightarrow> 'a option \<Rightarrow> 'a option" where
  "check ok x = (case x of Some v \<Rightarrow> if ok v then Some v else None | None \<Rightarrow> None)"

definition degrees_e6 :: "rat \<Rightarrow> u32" where
  "degrees_e6 x = word_of_int (lround (double_of (x * 10 ^ 6)))"

fun parse_field :: "app_field \<Rightarrow> bytes \<Rightarrow> sval option" where
  "parse_field FFreq v = map_option SReal (check valid_freq (strtod v))"
| "parse_field FBw v = map_option SReal (check supported_bandwidth (strtod v))"
| "parse_field FSf v = map_option SInt (check (\<lambda>n. 5 \<le> n \<and> n \<le> 12) (strtoll v))"
| "parse_field FCr v = map_option SInt (check (\<lambda>n. 5 \<le> n \<and> n \<le> 8) (strtoll v))"
| "parse_field FTxPower v = map_option SInt (check (\<lambda>n. kMinTxPowerDbm \<le> n \<and> n \<le> kMaxTxPowerDbm) (strtoll v))"
| "parse_field FDuty v = map_option SReal (check valid_duty_cycle (strtod v))"
| "parse_field FName v = Some (SStr v)"
| "parse_field FLat v = map_option (SDeg \<circ> degrees_e6) (check valid_lat (strtod v))"
| "parse_field FLon v = map_option (SDeg \<circ> degrees_e6) (check valid_lon (strtod v))"
| "parse_field FRepeat v = map_option SBool (parse_bool v)"

fun put_radio :: "app_field \<Rightarrow> sval \<Rightarrow> RadioParams \<Rightarrow> RadioParams" where
  "put_radio FFreq (SReal x) r = r\<lparr>rp_freq_mhz := x\<rparr>"
| "put_radio FBw (SReal x) r = r\<lparr>rp_bw_khz := x\<rparr>"
| "put_radio FSf (SInt n) r = r\<lparr>rp_sf := word_of_int n\<rparr>"
| "put_radio FCr (SInt n) r = r\<lparr>rp_cr := word_of_int n\<rparr>"
| "put_radio FTxPower (SInt n) r = r\<lparr>rp_tx_power_dbm := n\<rparr>"
| "put_radio FDuty (SReal x) r = r\<lparr>rp_duty_cycle_pct := x\<rparr>"
| "put_radio _ _ r = r"

fun put_node :: "app_field \<Rightarrow> sval \<Rightarrow> NodeConfig \<Rightarrow> NodeConfig" where
  "put_node FName (SStr s) n = n\<lparr>nc_name := s\<rparr>"
| "put_node FLat (SDeg d) n = n\<lparr>nc_lat_e6 := d\<rparr>"
| "put_node FLon (SDeg d) n = n\<lparr>nc_lon_e6 := d\<rparr>"
| "put_node FRepeat (SBool b) n = n\<lparr>nc_repeat := b\<rparr>"
| "put_node _ _ n = n"

definition put_field :: "app_field \<Rightarrow> sval \<Rightarrow> Config \<Rightarrow> Config" where
  "put_field k x c = c\<lparr>cf_radio := put_radio k x (cf_radio c), cf_node := put_node k x (cf_node c)\<rparr>"

fun get_field :: "app_field \<Rightarrow> Config \<Rightarrow> sval" where
  "get_field FFreq c = SReal (rp_freq_mhz (cf_radio c))"
| "get_field FBw c = SReal (rp_bw_khz (cf_radio c))"
| "get_field FSf c = SInt (uint (rp_sf (cf_radio c)))"
| "get_field FCr c = SInt (uint (rp_cr (cf_radio c)))"
| "get_field FTxPower c = SInt (rp_tx_power_dbm (cf_radio c))"
| "get_field FDuty c = SReal (rp_duty_cycle_pct (cf_radio c))"
| "get_field FName c = SStr (nc_name (cf_node c))"
| "get_field FLat c = SDeg (nc_lat_e6 (cf_node c))"
| "get_field FLon c = SDeg (nc_lon_e6 (cf_node c))"
| "get_field FRepeat c = SBool (nc_repeat (cf_node c))"

fun show_val :: "sval \<Rightarrow> bytes" where
  "show_val (SReal x) = format_real x"
| "show_val (SInt n) = dec_int n"
| "show_val (SStr s) = s"
| "show_val (SBool b) = (if b then str ''1'' else str ''0'')"
| "show_val (SDeg d) = format_real (double_of (of_int (sint d) / 10 ^ 6))"

definition all_fields :: "app_field list" where
  "all_fields = [FFreq, FBw, FSf, FCr, FTxPower, FDuty, FName, FLat, FLon, FRepeat]"

lemma all_fields: "k \<in> set all_fields"
  by (cases k) (simp_all add: all_fields_def)

lemma kAppKeys_fields: "kAppKeys = map field_key all_fields"
  by (simp add: kAppKeys_def all_fields_def)

lemma app_key_iff: "app_key key \<longleftrightarrow> (\<exists>k. key = field_key k)"
  using all_fields by (auto simp: app_key_def kAppKeys_fields)

lemma str_eq_iff: "str s = str t \<longleftrightarrow> map (of_char :: char \<Rightarrow> byte) s = map of_char t"
  by (simp add: str_def)

lemma field_key_inj [simp]: "field_key k = field_key k' \<longleftrightarrow> k = k'"
  by (cases k; cases k') (simp_all add: str_def)

lemmas settings_table = settings_def radio_settings_def hardware_settings_def node_settings_def other_settings_def

lemma field_targets [simp]:
  "map_of settings (field_key FFreq) = Some (RealTarget (\<lambda>c. rp_freq_mhz (cf_radio (fst c)))
     (\<lambda>v. on_radio (\<lambda>r. r\<lparr>rp_freq_mhz := v\<rparr>)) valid_freq)"
  "map_of settings (field_key FBw) = Some (RealTarget (\<lambda>c. rp_bw_khz (cf_radio (fst c)))
     (\<lambda>v. on_radio (\<lambda>r. r\<lparr>rp_bw_khz := v\<rparr>)) supported_bandwidth)"
  "map_of settings (field_key FSf) = Some (IntTarget (\<lambda>c. uint (rp_sf (cf_radio (fst c))))
     (\<lambda>v. on_radio (\<lambda>r. r\<lparr>rp_sf := word_of_int v\<rparr>)) 5 12)"
  "map_of settings (field_key FCr) = Some (IntTarget (\<lambda>c. uint (rp_cr (cf_radio (fst c))))
     (\<lambda>v. on_radio (\<lambda>r. r\<lparr>rp_cr := word_of_int v\<rparr>)) 5 8)"
  "map_of settings (field_key FTxPower) = Some (IntTarget (\<lambda>c. rp_tx_power_dbm (cf_radio (fst c)))
     (\<lambda>v. on_radio (\<lambda>r. r\<lparr>rp_tx_power_dbm := v\<rparr>)) kMinTxPowerDbm kMaxTxPowerDbm)"
  "map_of settings (field_key FDuty) = Some (RealTarget (\<lambda>c. rp_duty_cycle_pct (cf_radio (fst c)))
     (\<lambda>v. on_radio (\<lambda>r. r\<lparr>rp_duty_cycle_pct := v\<rparr>)) valid_duty_cycle)"
  "map_of settings (field_key FName) = Some (StrTarget (\<lambda>c. nc_name (cf_node (fst c)))
     (\<lambda>v. on_node (\<lambda>n. n\<lparr>nc_name := v\<rparr>)))"
  "map_of settings (field_key FLat) = Some (DegreesTarget (\<lambda>c. nc_lat_e6 (cf_node (fst c)))
     (\<lambda>v. on_node (\<lambda>n. n\<lparr>nc_lat_e6 := v\<rparr>)) valid_lat)"
  "map_of settings (field_key FLon) = Some (DegreesTarget (\<lambda>c. nc_lon_e6 (cf_node (fst c)))
     (\<lambda>v. on_node (\<lambda>n. n\<lparr>nc_lon_e6 := v\<rparr>)) valid_lon)"
  "map_of settings (field_key FRepeat) = Some (BoolTarget (\<lambda>c. nc_repeat (cf_node (fst c)))
     (\<lambda>v. on_node (\<lambda>n. n\<lparr>nc_repeat := v\<rparr>)))"
  by (simp_all add: settings_table str_def)

lemma field_key_lower: "map tolower (field_key k) = field_key k"
  by (cases k) (simp_all add: str_def tolower_def)

lemma ini_set_value [simp]: "v \<noteq> [] \<Longrightarrow> ini_value (field_key k) (ini_set (field_key k) v []) = Some v"
  by (simp add: ini_value_def ini_find_def ini_set_def field_key_lower)

lemma config_set_field:
  assumes "v \<noteq> []"
  shows "(case parse_field k v of
      Some x \<Rightarrow> config_set (field_key k) v c = Inr (put_field k x c)
    | None \<Rightarrow> \<exists>e. config_set (field_key k) v c = Inl e)"
  using assms
  by (cases k) (auto simp del: field_key.simps
      simp: config_set_def check_def get_double_def get_int64_def get_bool_def get_str_def put_field_def
        on_radio_def on_node_def degrees_e6_def not_less not_le app_key_iff
      split: option.splits)

lemma config_get_field: "config_get (field_key k) c = show_val (get_field k c)"
  by (cases k) (auto simp del: field_key.simps simp: config_get_def app_key_iff)

section \<open>Fields are independent, and their spelling is read back\<close>

definition fits :: "app_field \<Rightarrow> sval \<Rightarrow> bool" where
  "fits k x \<longleftrightarrow> (\<exists>v. v \<noteq> [] \<and> parse_field k v = Some x)"

lemma check_Some: "check ok x = Some v \<longleftrightarrow> x = Some v \<and> ok v"
  by (auto simp: check_def split: option.splits)

lemma put_put: "fits k y \<Longrightarrow> put_field k y (put_field k x c) = put_field k y c"
  by (cases k; cases x) (auto simp: fits_def put_field_def)

lemma put_commute: "k \<noteq> k' \<Longrightarrow> put_field k x (put_field k' y c) = put_field k' y (put_field k x c)"
  by (cases k; cases k'; cases x; cases y) (simp_all add: put_field_def)

lemma get_put_other: "k \<noteq> k' \<Longrightarrow> get_field k (put_field k' x c) = get_field k c"
  by (cases k; cases k'; cases x) (simp_all add: put_field_def)

lemma small_byte: "5 \<le> n \<Longrightarrow> n \<le> 12 \<Longrightarrow> uint (word_of_int n :: byte) = n"
  by (simp add: uint_word_of_int_eq take_bit_eq_mod)

lemma get_put: "fits k x \<Longrightarrow> get_field k (put_field k x c) = x"
  by (cases k) (auto simp: fits_def put_field_def check_Some intro!: small_byte)

lemma is_double_uminus [simp]: "is_double (- x) = is_double x"
  by (simp add: is_double_def)

lemma strtod_double: "strtod s = Some x \<Longrightarrow> is_double x"
  by (auto simp: strtod_def Let_def split: prod.splits option.splits if_splits)

lemma bandwidth_range:
  assumes "supported_bandwidth x"
  shows "1 / 10 \<le> x" "x \<le> 1000"
proof -
  obtain b where b: "b \<in> set kBandwidthsKhz" "\<bar>double_of (x - double_of b)\<bar> < double_of (5 / 1000)"
    using assms by (auto simp: supported_bandwidth_def list_ex_iff)
  have "781 / 100 \<le> b" "b \<le> 500" using b(1) by (auto simp: kBandwidthsKhz_def)
  then have "7 \<le> double_of b" "double_of b \<le> 501" using double_of_error [of b] unfolding abs_le_iff by auto
  note B = this
  have "double_of (5 / 1000) \<le> 1" using double_of_error [of "5 / 1000"] unfolding abs_le_iff by auto
  moreover have tw: "\<bar>y\<bar> \<le> 2 * \<bar>double_of y\<bar>" for y
  proof -
    have "\<bar>y\<bar> / 2 ^ 53 \<le> \<bar>y\<bar> / 2" by simp
    with double_of_error [of y] show ?thesis by linarith
  qed
  ultimately have "\<bar>x - double_of b\<bar> \<le> 2" using b(2) tw [of "x - double_of b"] by linarith
  with B show "1 / 10 \<le> x" "x \<le> 1000" unfolding abs_le_iff by linarith+
qed

lemma hd_dec_nat_zero: "hd (dec_nat n) = 48 \<longleftrightarrow> n = 0"
proof (induction n rule: dec_nat.induct)
  case (1 n)
  show ?case
  proof (cases "n < 10")
    case True
    have "word_of_nat (48 + n) = (48 :: byte) \<longleftrightarrow> n = 0"
      using True word_of_nat_eq_iff [of "48 + n" 48, where ?'a = 8] by (simp add: take_bit_eq_mod)
    with True show ?thesis by (simp add: dec_nat.simps [of n])
  next
    case False
    then show ?thesis using "1.IH" by (simp add: dec_nat.simps [of n])
  qed
qed

lemma strtoll_dec_int:
  assumes "\<bar>n\<bar> \<le> 10 ^ 6"
  shows "strtoll (dec_int n) = Some n"
proof -
  define m where "m = nat \<bar>n\<bar>"
  define ds where "ds = dec_nat m"
  let ?s = "(if n < 0 then [45] else []) @ ds"
  have s: "dec_int n = ?s" by (simp add: dec_int_def ds_def m_def)
  have dig: "\<forall>b \<in> set ds. is_digit b" unfolding ds_def by (rule dec_nat_digits)
  obtain c t where c: "ds = c # t" "is_digit c" "\<forall>b \<in> set t. is_digit b"
    using dig by (cases ds) (auto simp: ds_def)
  have "\<forall>b \<in> set ?s. b \<noteq> 0" using dig digit_plain(1) by force
  then have 1: "c_str ?s = ?s" by (simp add: c_str_def)
  have 2: "dropWhile is_c_space ?s = ?s"
    using c digit_plain(2) [OF c(2)] by simp (simp add: is_c_space_def)
  have 3: "read_sign ?s = (n < 0, ds)"
    using c digit_plain(3,4) [OF c(2)] by (simp add: read_sign_def)
  have 4: "(case ds of z # x # d # _ \<Rightarrow> z = of_char CHR ''0'' \<and> is_x x \<and> is_digit_in 16 d | _ \<Rightarrow> False) = False"
    using c digit_plain(5) by (auto split: list.splits)
  define base where "base = (if ds \<noteq> [] \<and> hd ds = of_char CHR ''0'' then 8 else 10 :: nat)"
  have 5: "takeWhile (is_digit_in base) ds = ds \<and> digits_value base ds = m"
  proof (cases "m = 0")
    case True
    then show ?thesis
      by (simp add: base_def ds_def dec_nat.simps is_digit_in_def digit_value_def is_digit_def digits_value_def)
  next
    case False
    then have "base = 10" by (simp add: base_def ds_def hd_dec_nat_zero)
    moreover have "takeWhile (is_digit_in 10) ds = ds" using dig by (simp add: is_digit_in_10)
    ultimately show ?thesis using digits_value_10 [OF dig] by (simp add: ds_def)
  qed
  have 6: "(if n < 0 then - int m else int m) = n" by (simp add: m_def)
  show ?thesis
    unfolding s strtoll_def 1 2 3 4 Let_def prod.case if_False base_def [symmetric]
      5 [THEN conjunct1] 5 [THEN conjunct2] 6
    using assms by (simp add: ds_def) linarith
qed

lemma degrees_e6_small:
  assumes "\<bar>x\<bar> \<le> of_int m" "0 \<le> m" "m \<le> 180"
  shows "\<bar>lround (double_of (x * 10 ^ 6))\<bar> \<le> m * 10 ^ 6"
proof -
  define y where "y = double_of (x * 10 ^ 6)"
  have m: "(of_int m :: rat) \<le> 180" using assms(3) by simp
  have "\<bar>y\<bar> \<le> \<bar>x * 10 ^ 6\<bar> + \<bar>x * 10 ^ 6\<bar> / 2 ^ 53" using double_of_error [of "x * 10 ^ 6"] unfolding y_def by linarith
  also have "\<dots> < of_int m * 10 ^ 6 + 1 / 2" using assms(1) m by (simp add: abs_mult)
  finally have y: "\<bar>y\<bar> < of_int (m * 10 ^ 6) + 1 / 2" by simp
  have "\<lfloor>\<bar>y\<bar> + 1 / 2\<rfloor> \<le> m * 10 ^ 6" using y by (simp add: floor_le_iff)
  moreover have "0 \<le> \<lfloor>\<bar>y\<bar> + 1 / 2\<rfloor>" by simp
  moreover have "\<bar>lround y\<bar> = \<lfloor>\<bar>y\<bar> + 1 / 2\<rfloor>" by (simp add: lround_def)
  ultimately show ?thesis by (simp add: y_def)
qed

text \<open>
  The spelling of a value is read back as that value. A duty cycle below a tenth of a percent, which
  no app can ask for, may need more digits than the loop of \<^verbatim>\<open>format_real\<close> tries.
\<close>

definition usual :: "sval \<Rightarrow> bool" where
  "usual x \<longleftrightarrow> (case x of SReal v \<Rightarrow> v = 0 \<or> 1 / 10 \<le> v | _ \<Rightarrow> True)"

lemma is_double_of_nat:
  assumes "n < 2 ^ 53"
  shows "is_double (of_nat n)"
proof (cases "n = 0")
  case False
  define e where "e = binade (of_nat n)"
  have "2 powi e \<le> (of_nat n :: rat)" using binade_bounds(1) [of "of_nat n"] False by (simp add: e_def)
  also have "(of_nat n :: rat) < of_nat (2 ^ 53)" using assms by (simp only: of_nat_less_iff)
  finally have "(2 :: rat) powi e < 2 powi 53" by simp
  then have "e \<le> 52" by (metis not_less power_int_increasing one_le_numeral zless_add1_eq add.commute
        numeral_plus_one one_plus_numeral zle_add1_eq_le semiring_norm(2,5,8))
  then obtain d where d: "52 - e = int d" by (metis nonneg_int_cases diff_ge_0_iff_ge)
  have u: "ulp (of_nat n) = inverse (2 ^ d)"
    by (simp add: ulp_def e_def [symmetric] d [symmetric] power_int_minus [symmetric] power_int_of_nat [symmetric]
        del: power_int_of_nat)
  have "of_nat n / ulp (of_nat n) = (of_int (int n * 2 ^ d) :: rat)" by (simp add: u divide_inverse)
  then show ?thesis using False unfolding is_double_def double_of_def Let_def
    by (simp only: abs_of_nat round_even_of_int) (simp add: u)
qed simp

lemma degrees_spelling:
  assumes "\<bar>x\<bar> \<le> of_int m" "0 \<le> m" "m \<le> 180"
  shows "reads_as (show_val (SDeg (degrees_e6 x))) (double_of (of_int (sint (degrees_e6 x)) / 10 ^ 6))"
    "\<bar>double_of (of_int (sint (degrees_e6 x)) / 10 ^ 6)\<bar> \<le> of_int m"
    "degrees_e6 (double_of (of_int (sint (degrees_e6 x)) / 10 ^ 6)) = degrees_e6 x"
proof -
  define k where "k = lround (double_of (x * 10 ^ 6))"
  have k: "\<bar>k\<bar> \<le> m * 10 ^ 6" unfolding k_def by (rule degrees_e6_small [OF assms])
  then have k8: "\<bar>k\<bar> \<le> 2 * 10 ^ 8" using assms(3) by simp
  have s: "sint (degrees_e6 x) = k"
    unfolding degrees_e6_def k_def [symmetric] using k8
    by (simp add: sint_sbintrunc' signed_take_bit_int_eq_self)
  show "reads_as (show_val (SDeg (degrees_e6 x))) (double_of (of_int (sint (degrees_e6 x)) / 10 ^ 6))"
    using format_degrees [OF k8] by (simp add: s)
  show "degrees_e6 (double_of (of_int (sint (degrees_e6 x)) / 10 ^ 6)) = degrees_e6 x"
    using scaled_lround [of k "10 ^ 6"] k8 by (simp add: s degrees_e6_def [of "double_of y" for y])
      (simp add: degrees_e6_def k_def)
  show "\<bar>double_of (of_int (sint (degrees_e6 x)) / 10 ^ 6)\<bar> \<le> of_int m"
  proof (cases "\<bar>k\<bar> = m * 10 ^ 6")
    case True
    have "is_double (of_int m)" using is_double_of_nat [of "nat m"] assms(2,3) by simp
    then have "double_of (of_int m) = of_int m" by (simp add: is_double_def)
    moreover have "(of_int k :: rat) / 10 ^ 6 = of_int m \<or> (of_int k :: rat) / 10 ^ 6 = - of_int m"
      using True assms(2) by (auto simp: abs_if split: if_splits)
    ultimately show ?thesis using assms(2) by (auto simp: s)
  next
    case False
    then have "\<bar>k\<bar> \<le> m * 10 ^ 6 - 1" using k by simp
    from of_int_abs_le [OF this] have "\<bar>of_int k / (10 :: rat) ^ 6\<bar> \<le> of_int m - 1 / 10 ^ 6"
      by (simp add: abs_divide)
    moreover have "(1 :: rat) / 10 ^ 7 \<le> 1 / 10 ^ 6" by simp
    ultimately show ?thesis using degrees_error [OF k8] unfolding s abs_le_iff by (elim conjE) (intro conjI; linarith)
  qed
qed

lemma dec_int_plain: "dec_int n \<noteq> []" "printable (dec_int n)"
  using digits_printable [OF dec_nat_digits] by (simp_all add: dec_int_def) (simp add: printable_def)

lemma parse_show:
  assumes "fits k x" "usual x"
  shows "parse_field k (show_val x) = Some x" "show_val x \<noteq> []" "k \<noteq> FName \<Longrightarrow> printable (show_val x)"
proof -
  obtain v where v: "v \<noteq> []" "parse_field k v = Some x" using assms(1) by (auto simp: fits_def)
  have "parse_field k (show_val x) = Some x \<and> show_val x \<noteq> [] \<and> (k \<noteq> FName \<longrightarrow> printable (show_val x))"
  proof (cases k)
    case FFreq
    with v obtain y where y: "x = SReal y" "strtod v = Some y" "valid_freq y" by (auto simp: check_Some)
    then have "reads_as (format_real y) y"
      by (intro format_real_usual strtod_double) (auto simp: valid_freq_def)
    with y FFreq show ?thesis by (auto simp: check_def reads_as_def)
  next
    case FBw
    with v obtain y where y: "x = SReal y" "strtod v = Some y" "supported_bandwidth y" by (auto simp: check_Some)
    then have "reads_as (format_real y) y"
      using bandwidth_range [OF y(3)] by (intro format_real_usual strtod_double) auto
    with y FBw show ?thesis by (auto simp: check_def reads_as_def)
  next
    case FDuty
    with v obtain y where y: "x = SReal y" "strtod v = Some y" "valid_duty_cycle y" by (auto simp: check_Some)
    then have "reads_as (format_real y) y"
      using assms(2) by (intro format_real_usual strtod_double) (auto simp: valid_duty_cycle_def usual_def)
    with y FDuty show ?thesis by (auto simp: check_def reads_as_def)
  next
    case FLat
    with v obtain y where y: "x = SDeg (degrees_e6 y)" "\<bar>y\<bar> \<le> of_int 90" by (auto simp: check_Some valid_lat_def)
    with FLat degrees_spelling [OF y(2)] show ?thesis
      by (auto simp: reads_as_def check_def valid_lat_def abs_le_iff)
  next
    case FLon
    with v obtain y where y: "x = SDeg (degrees_e6 y)" "\<bar>y\<bar> \<le> of_int 180" by (auto simp: check_Some valid_lon_def)
    with FLon degrees_spelling [OF y(2)] show ?thesis
      by (auto simp: reads_as_def check_def valid_lon_def abs_le_iff)
  next
    case FRepeat
    with v obtain b where "x = SBool b" by auto
    with FRepeat show ?thesis by (simp add: parse_bool_def str_def tolower_def printable_def)
  next
    case FName
    with v show ?thesis by auto
  qed (use v dec_int_plain in \<open>auto simp: check_Some strtoll_dec_int kMinTxPowerDbm_def kMaxTxPowerDbm_def\<close>)
  then show "parse_field k (show_val x) = Some x" "show_val x \<noteq> []" "k \<noteq> FName \<Longrightarrow> printable (show_val x)"
    by blast+
qed

end
