(* ===== verification/Settings.thy ===== *)
theory Settings
  imports AppFields
begin

text \<open>
  The store of the settings an app may change, \<^verbatim>\<open>src/src/daemon/settings.h\<close> and \<^verbatim>\<open>settings.cpp\<close>: read
  over the defaults at start-up, checked as a whole on every change, written before it is answered,
  and applied to the running node and radio. It is the settings interface the session is given.
\<close>

section \<open>State\<close>

record 'r dworld_full = "'r aworld" +
  w_config :: Config
  w_settings_path :: bytes
  w_stored :: entries
  w_attached :: bool

section \<open>The file\<close>

definition quoted :: "bytes \<Rightarrow> bytes" where
  "quoted v =
    (let plain = (v \<noteq> [] \<and> \<not> list_ex (\<lambda>b. comment_mark b \<or> quote_mark b) v \<and>
                  hd v \<noteq> 32 \<and> hd v \<noteq> tab \<and> last v \<noteq> 32 \<and> last v \<noteq> tab)
     in if plain then v else [34] @ v @ [34])"

definition dot :: byte where "dot = of_char CHR ''.''"

definition key_section :: "bytes \<Rightarrow> bytes" where
  "key_section key = takeWhile (\<lambda>b. b \<noteq> dot) key"

definition key_name :: "bytes \<Rightarrow> bytes" where
  "key_name key = tl (dropWhile (\<lambda>b. b \<noteq> dot) key)"

definition settings_header :: "bytes list" where
  "settings_header =
     [str ''# coreletd settings v1'', str ''#'',
      str ''# What a companion app set: only the keys it changed, the rest left at'',
      str ''# their defaults. Written by the daemon; edit it only while it is stopped.'']"

text \<open>The lines for the stored keys; \<open>sec\<close> is the section the last one was in.\<close>

fun settings_lines :: "bytes \<Rightarrow> entries \<Rightarrow> bytes list" where
  "settings_lines sec [] = []"
| "settings_lines sec ((key, v) # rest) =
     (if key_section key \<noteq> sec then [[], str ''['' @ key_section key @ str '']''] else []) @
     (key_name key @ str '' = '' @ quoted v) # settings_lines (key_section key) rest"

definition settings_render :: "entries \<Rightarrow> bytes" where
  "settings_render stored =
     concat (map (\<lambda>l. l @ [newline]) (settings_header @ settings_lines [] stored))"

definition settings_save ::
  "entries \<Rightarrow> ('r, 'm) dworld_full_scheme \<Rightarrow> bool \<times> ('r, 'm) dworld_full_scheme" where
  "settings_save stored w =
     (case next_io w of (io, w1) \<Rightarrow>
      case save_file io (w_settings_path w1) (settings_render stored) False (w_fs w1) of
        (ok, fs1) \<Rightarrow> (ok, w1\<lparr>w_fs := fs1\<rparr>))"

text \<open>The loop of \<^verbatim>\<open>load\<close> over the file's entries: unknown keys are skipped, a bad value ends it.\<close>

fun load_entries :: "entries \<Rightarrow> Config \<Rightarrow> entries \<Rightarrow> ConfigError + (Config \<times> entries)" where
  "load_entries [] c stored = Inr (c, stored)"
| "load_entries ((key, v) # rest) c stored =
     (if \<not> app_key key then load_entries rest c stored
      else case config_set key v c of
             Inl e \<Rightarrow> Inl e
           | Inr c1 \<Rightarrow> load_entries rest c1 (map_put key (config_get key c1) stored))"

definition settings_load ::
  "nat option \<Rightarrow> fs \<Rightarrow> bytes \<Rightarrow> Config \<Rightarrow> ConfigError + (Config \<times> entries)" where
  "settings_load fault fs0 file_path c =
     (if fs0 file_path = None then Inr (c, [])
      else case ini_load fault fs0 file_path of
             Inl e \<Rightarrow> Inl (FileError e)
           | Inr m \<Rightarrow>
               (case load_entries m c [] of
                  Inl e \<Rightarrow> Inl e
                | Inr (c1, stored) \<Rightarrow>
                    (case config_validate c1 of Some e \<Rightarrow> Inl e | None \<Rightarrow> Inr (c1, stored))))"

section \<open>Changes\<close>

fun set_changes :: "change list \<Rightarrow> Config \<Rightarrow> ConfigError + Config" where
  "set_changes [] c = Inr c"
| "set_changes ((key, v) # rest) c =
     (case config_set key v c of Inl e \<Rightarrow> Inl e | Inr c1 \<Rightarrow> set_changes rest c1)"

definition stored_changes :: "change list \<Rightarrow> Config \<Rightarrow> entries \<Rightarrow> entries" where
  "stored_changes changes next stored = fold (\<lambda>(key, v). map_put key (config_get key next)) changes stored"

text \<open>To the node and the dispatcher, when they exist.\<close>

definition settings_apply ::
  "'r radio_ops \<Rightarrow> ('r, 'm) dworld_full_scheme \<Rightarrow> ('r, 'm) dworld_full_scheme" where
  "settings_apply ro w =
     (if \<not> w_attached w then w
      else
        let n = cf_node (w_config w)
        in disp_reconfigure ro on_tx_result (cf_radio (w_config w))
             (w\<lparr>w_cfg := (w_cfg w)\<lparr>nc_name := nc_name n, nc_lat_e6 := nc_lat_e6 n, nc_lon_e6 := nc_lon_e6 n,
                                    nc_repeat := nc_repeat n\<rparr>\<rparr>))"

definition settings_attach :: "('r, 'm) dworld_full_scheme \<Rightarrow> ('r, 'm) dworld_full_scheme" where
  "settings_attach w = w\<lparr>w_attached := True\<rparr>"

definition settings_set ::
  "'r radio_ops \<Rightarrow> change list \<Rightarrow> ('r, 'm) dworld_full_scheme \<Rightarrow>
    SettingsResult \<times> ('r, 'm) dworld_full_scheme" where
  "settings_set ro changes w =
     (case set_changes changes (w_config w) of
        Inl e \<Rightarrow> (SetInvalid, w)
      | Inr next \<Rightarrow>
          if config_validate next \<noteq> None then (SetInvalid, w)
          else
            let stored = stored_changes changes next (w_stored w)
            in (case settings_save stored w of
                  (False, w1) \<Rightarrow> (SetIoError, w1)
                | (True, w1) \<Rightarrow> (SetOk, settings_apply ro (w1\<lparr>w_stored := stored, w_config := next\<rparr>))))"

section \<open>A configuration is its ten fields and the rest\<close>

fun blank :: "app_field \<Rightarrow> sval" where
  "blank FFreq = SReal 0"
| "blank FBw = SReal 0"
| "blank FSf = SInt 0"
| "blank FCr = SInt 0"
| "blank FTxPower = SInt 0"
| "blank FDuty = SReal 0"
| "blank FName = SStr []"
| "blank FLat = SDeg 0"
| "blank FLon = SDeg 0"
| "blank FRepeat = SBool False"

definition rest_of :: "Config \<Rightarrow> Config" where
  "rest_of c = fold (\<lambda>k. put_field k (blank k)) all_fields c"

lemma rest_of_put [simp]: "rest_of (put_field k x c) = rest_of c"
  by (cases k; cases x) (simp_all add: rest_of_def all_fields_def put_field_def)

lemma radio_eqI:
  fixes r r' :: RadioParams
  assumes "r\<lparr>rp_freq_mhz := 0, rp_bw_khz := 0, rp_sf := 0, rp_cr := 0, rp_tx_power_dbm := 0, rp_duty_cycle_pct := 0\<rparr> =
      r'\<lparr>rp_freq_mhz := 0, rp_bw_khz := 0, rp_sf := 0, rp_cr := 0, rp_tx_power_dbm := 0, rp_duty_cycle_pct := 0\<rparr>"
    "rp_freq_mhz r = rp_freq_mhz r'" "rp_bw_khz r = rp_bw_khz r'" "rp_sf r = rp_sf r'" "rp_cr r = rp_cr r'"
    "rp_tx_power_dbm r = rp_tx_power_dbm r'" "rp_duty_cycle_pct r = rp_duty_cycle_pct r'"
  shows "r = r'"
  using assms by (cases r; cases r') simp

lemma node_eqI:
  fixes n n' :: NodeConfig
  assumes "n\<lparr>nc_name := [], nc_lat_e6 := 0, nc_lon_e6 := 0, nc_repeat := False\<rparr> =
      n'\<lparr>nc_name := [], nc_lat_e6 := 0, nc_lon_e6 := 0, nc_repeat := False\<rparr>"
    "nc_name n = nc_name n'" "nc_lat_e6 n = nc_lat_e6 n'" "nc_lon_e6 n = nc_lon_e6 n'" "nc_repeat n = nc_repeat n'"
  shows "n = n'"
  using assms by (cases n; cases n') simp

lemma rest_of_eq:
  "rest_of c = c\<lparr>
     cf_radio := (cf_radio c)\<lparr>rp_freq_mhz := 0, rp_bw_khz := 0, rp_sf := 0, rp_cr := 0, rp_tx_power_dbm := 0,
       rp_duty_cycle_pct := 0\<rparr>,
     cf_node := (cf_node c)\<lparr>nc_name := [], nc_lat_e6 := 0, nc_lon_e6 := 0, nc_repeat := False\<rparr>\<rparr>"
  by (simp add: rest_of_def all_fields_def put_field_def)

lemma config_eqI:
  assumes "\<And>k. get_field k c = get_field k c'" "rest_of c = rest_of c'"
  shows "c = c'"
proof -
  note r = arg_cong [OF assms(2) [unfolded rest_of_eq], of cf_radio, simplified]
  note n = arg_cong [OF assms(2) [unfolded rest_of_eq], of cf_node, simplified]
  have "cf_radio c = cf_radio c'"
    using r by (rule radio_eqI)
      (use assms(1) [of FFreq] assms(1) [of FBw] assms(1) [of FSf] assms(1) [of FCr] assms(1) [of FTxPower]
         assms(1) [of FDuty] in \<open>simp_all add: word_uint_eq_iff\<close>)
  moreover have "cf_node c = cf_node c'"
    using n by (rule node_eqI)
      (use assms(1) [of FName] assms(1) [of FLat] assms(1) [of FLon] assms(1) [of FRepeat] in simp_all)
  ultimately show ?thesis using assms(2) by (cases c; cases c') (simp add: rest_of_eq)
qed

definition sound :: "Config \<Rightarrow> bool" where
  "sound c \<longleftrightarrow> (\<forall>k \<in> set all_fields. fits k (get_field k c) \<and> usual (get_field k c))"

lemma soundD: "sound c \<Longrightarrow> fits k (get_field k c)" "sound c \<Longrightarrow> usual (get_field k c)"
  using all_fields by (auto simp: sound_def)

lemma sound_put:
  assumes "sound c" "fits k x" "usual x"
  shows "sound (put_field k x c)"
proof -
  have "get_field k' (put_field k x c) = (if k' = k then x else get_field k' c)" for k'
    using assms(2) by (simp add: get_put get_put_other)
  with assms show ?thesis by (simp add: sound_def)
qed

section \<open>Ordered entries\<close>

lemma bytes_less_irrefl [simp]: "\<not> bytes_less a a"
  by (induction a) auto

lemma bytes_less_trans: "bytes_less a b \<Longrightarrow> bytes_less b c \<Longrightarrow> bytes_less a c"
  by (induction a b arbitrary: c rule: bytes_less.induct) (case_tac c; auto)+

lemma bytes_less_total: "a \<noteq> b \<Longrightarrow> bytes_less a b \<or> bytes_less b a"
  by (induction a b rule: bytes_less.induct) auto

definition ordered :: "entries \<Rightarrow> bool" where
  "ordered m \<longleftrightarrow> sorted_wrt bytes_less (map fst m)"

lemma set_map_put: "set (map fst (map_put k v m)) = insert k (set (map fst m))"
  by (induction k v m rule: map_put.induct) (simp_all add: insert_commute)

lemma ordered_put: "ordered m \<Longrightarrow> ordered (map_put k v m)"
proof (induction m)
  case (Cons e m)
  obtain k' v' where e: "e = (k', v')" by fastforce
  have "ordered m" and lt: "\<forall>j \<in> set (map fst m). bytes_less k' j"
    using Cons.prems e by (auto simp: ordered_def)
  then have o: "ordered (map_put k v m)" using Cons.IH by simp
  show ?case
  proof (cases "k = k' \<or> bytes_less k k'")
    case True
    then show ?thesis using Cons.prems lt e bytes_less_trans by (auto simp: ordered_def)
  next
    case False
    then have "bytes_less k' k" using bytes_less_total by blast
    with False o lt e set_map_put [of k v m] show ?thesis by (auto simp: ordered_def)
  qed
qed (simp add: ordered_def)

lemma map_of_put [simp]: "map_of (map_put k v m) = (map_of m)(k \<mapsto> v)"
  by (induction m) (auto simp: fun_eq_iff)

lemma map_put_last: "\<forall>j \<in> set (map fst m). bytes_less j k \<Longrightarrow> map_put k v m = m @ [(k, v)]"
proof (induction m)
  case (Cons e m)
  obtain k' v' where e: "e = (k', v')" by fastforce
  have "k \<noteq> k'" "\<not> bytes_less k k'" using Cons.prems e bytes_less_trans [of k k' k] by auto
  with Cons e show ?case by simp
qed simp

lemma fold_map_put: "ordered (acc @ m) \<Longrightarrow> fold (\<lambda>(k, v). map_put k v) m acc = acc @ m"
proof (induction m arbitrary: acc)
  case (Cons e m)
  obtain k v where e: "e = (k, v)" by fastforce
  have "map_put k v acc = acc @ [(k, v)]"
    using Cons.prems e by (intro map_put_last) (auto simp: ordered_def sorted_wrt_append)
  with Cons.IH [of "acc @ [(k, v)]"] Cons.prems e show ?case by simp
qed simp

section \<open>Loading what was stored\<close>

text \<open>The stored entries are the spelling of fields of \<open>c\<close>; what is not stored is as in \<open>c0\<close>.\<close>

definition synced :: "Config \<Rightarrow> entries \<Rightarrow> Config \<Rightarrow> bool" where
  "synced c0 stored c \<longleftrightarrow>
     rest_of c = rest_of c0 \<and> ordered stored \<and>
     (\<forall>(key, v) \<in> set stored. \<exists>k \<in> set all_fields. key = field_key k \<and> v = show_val (get_field k c)) \<and>
     (\<forall>k \<in> set all_fields. field_key k \<notin> set (map fst stored) \<longrightarrow> get_field k c = get_field k c0)"

lemma spelled_list:
  assumes "\<forall>(key, v) \<in> set m. \<exists>k \<in> set all_fields. key = field_key k \<and> v = show_val (get_field k c)"
  obtains ks where "m = map (\<lambda>k. (field_key k, show_val (get_field k c))) ks"
proof -
  have "\<exists>ks. m = map (\<lambda>k. (field_key k, show_val (get_field k c))) ks"
    using assms
  proof (induction m)
    case (Cons e m)
    then obtain ks where "m = map (\<lambda>k. (field_key k, show_val (get_field k c))) ks" by auto
    moreover obtain k where "e = (field_key k, show_val (get_field k c))" using Cons.prems by fastforce
    ultimately have "e # m = map (\<lambda>k. (field_key k, show_val (get_field k c))) (k # ks)" by simp
    then show ?case by (rule exI)
  qed simp
  with that show ?thesis by blast
qed

lemma config_set_spelled:
  assumes "fits k x" "usual x"
  shows "config_set (field_key k) (show_val x) c = Inr (put_field k x c)"
  using config_set_field [OF parse_show(2) [OF assms], of k c] parse_show(1) [OF assms] by simp

lemma load_spelled:
  assumes "sound c"
  shows "load_entries (map (\<lambda>k. (field_key k, show_val (get_field k c))) ks) c1 acc =
    Inr (fold (\<lambda>k. put_field k (get_field k c)) ks c1,
         fold (\<lambda>(k, v). map_put k v) (map (\<lambda>k. (field_key k, show_val (get_field k c))) ks) acc)"
proof (induction ks arbitrary: c1 acc)
  case (Cons k ks)
  have s: "config_set (field_key k) (show_val (get_field k c)) c1 = Inr (put_field k (get_field k c) c1)"
    by (rule config_set_spelled [OF soundD [OF assms]])
  have g: "config_get (field_key k) (put_field k (get_field k c) c1) = show_val (get_field k c)"
    using soundD(1) [OF assms] by (simp add: config_get_field get_put)
  show ?case using app_key_iff by (simp add: s g Cons.IH del: field_key.simps)
qed simp

lemma fold_put:
  assumes "sound c"
  shows "get_field j (fold (\<lambda>k. put_field k (get_field k c)) ks c1) =
      (if j \<in> set ks then get_field j c else get_field j c1)"
    "rest_of (fold (\<lambda>k. put_field k (get_field k c)) ks c1) = rest_of c1"
proof -
  have "(let c2 = fold (\<lambda>k. put_field k (get_field k c)) ks c1
         in get_field j c2 = (if j \<in> set ks then get_field j c else get_field j c1) \<and> rest_of c2 = rest_of c1)"
  proof (induction ks arbitrary: c1)
    case (Cons k ks)
    then show ?case
      using soundD(1) [OF assms] by (auto simp: Let_def get_put get_put_other)
  qed simp
  then show "get_field j (fold (\<lambda>k. put_field k (get_field k c)) ks c1) =
      (if j \<in> set ks then get_field j c else get_field j c1)"
    "rest_of (fold (\<lambda>k. put_field k (get_field k c)) ks c1) = rest_of c1"
    by (simp_all add: Let_def)
qed

lemma load_synced:
  assumes "synced c0 stored c" "sound c"
  shows "load_entries stored c0 [] = Inr (c, stored)"
proof -
  from assms(1) obtain ks where ks: "stored = map (\<lambda>k. (field_key k, show_val (get_field k c))) ks"
    unfolding synced_def by (auto elim: spelled_list)
  have "fold (\<lambda>k. put_field k (get_field k c)) ks c0 = c"
  proof (rule config_eqI)
    show "get_field k (fold (\<lambda>k. put_field k (get_field k c)) ks c0) = get_field k c" for k
      using assms(1) all_fields [of k] by (auto simp: fold_put [OF assms(2)] synced_def ks image_iff)
  qed (use assms(1) in \<open>simp add: fold_put [OF assms(2)] synced_def\<close>)
  moreover have "fold (\<lambda>(k, v). map_put k v) stored [] = stored"
    using fold_map_put [of "[]" stored] assms(1) by (simp add: synced_def)
  ultimately show ?thesis using load_spelled [OF assms(2), of ks c0 "[]"] by (simp add: ks)
qed

section \<open>The file is read back\<close>

lemma printable_space: "printable v \<Longrightarrow> b \<in> set v \<Longrightarrow> ini_space b \<longleftrightarrow> b = 32"
  by (auto simp: printable_def ini_space_def tab_def newline_def carriage_return_def)

lemma trim_id: "s = [] \<or> \<not> ini_space (hd s) \<and> \<not> ini_space (last s) \<Longrightarrow> trim s = s"
proof -
  assume s: "s = [] \<or> \<not> ini_space (hd s) \<and> \<not> ini_space (last s)"
  then have "dropWhile ini_space s = s" "dropWhile ini_space (rev s) = rev s"
    by (auto simp: dropWhile_eq_self_iff hd_rev)
  then show ?thesis by (simp add: trim_def)
qed

lemma trim_space_end: "trim (s @ [32]) = trim s"
proof (cases "\<forall>b \<in> set s. ini_space b")
  case True
  then have "dropWhile ini_space s = []" by (simp add: dropWhile_eq_Nil_conv)
  moreover have "ini_space 32" by (simp add: ini_space_def)
  ultimately show ?thesis using True by (auto simp: trim_def dropWhile_append dest: set_dropWhileD)
qed (auto simp: trim_def dropWhile_append ini_space_def)

lemma trim_space: "trim (32 # s) = trim s"
  by (simp add: trim_def ini_space_def)

lemma quoted_nonempty: "quoted v \<noteq> []"
  by (simp add: quoted_def Let_def)

lemma quoted_ends:
  assumes "printable v"
  shows "\<not> ini_space (hd (quoted v))" "\<not> ini_space (last (quoted v))"
proof -
  have "ini_space 34 = False" by (simp add: ini_space_def tab_def newline_def carriage_return_def)
  with printable_space [OF assms, of "hd v"] printable_space [OF assms, of "last v"]
  show "\<not> ini_space (hd (quoted v))" "\<not> ini_space (last (quoted v))" by (auto simp: quoted_def Let_def)
qed

lemma clean_quoted:
  assumes "printable v"
  shows "clean_value (32 # quoted v) = v"
proof -
  have t: "trim (32 # quoted v) = quoted v"
    using quoted_ends [OF assms] by (simp add: trim_space trim_id)
  show ?thesis
  proof (cases "quoted v = v")
    case True
    then have "v \<noteq> []" "\<not> list_ex (\<lambda>b. comment_mark b \<or> quote_mark b) v"
      by (auto simp: quoted_def Let_def split: if_splits)
    then have "\<not> quote_mark (hd v)" "\<not> list_ex comment_mark v" by (auto simp: list_ex_iff)
    with t show ?thesis unfolding clean_value_def t True by (simp add: Let_def)
  next
    case False
    then have "quoted v = [34] @ v @ [34]" by (auto simp: quoted_def Let_def split: if_splits)
    then show ?thesis unfolding clean_value_def t by (simp add: Let_def quote_mark_def)
  qed
qed

lemma ini_entry_line:
  assumes "name \<noteq> []" "\<forall>b \<in> set name. \<not> ini_space b \<and> b \<noteq> equals_sign"
    "\<not> comment_mark (hd name)" "hd name \<noteq> open_bracket" "printable v"
  shows "ini_lines ((name @ str '' = '' @ quoted v) # rest) sec n m =
    ini_lines rest sec (Suc n) (map_put (full_key sec name) v m)"
proof -
  let ?l = "name @ [32, 61, 32] @ quoted v"
  have l: "name @ str '' = '' @ quoted v = ?l" by (simp add: str_def)
  have t: "trim ?l = ?l"
    using assms(1,2) quoted_ends(2) [OF assms(5)] quoted_nonempty by (intro trim_id) (simp add: last_append)
  have n32: "takeWhile (\<lambda>b. b \<noteq> 61) name = name" "dropWhile (\<lambda>b. b \<noteq> 61) name = []"
    using assms(2) by (auto simp: equals_sign_def takeWhile_eq_all_conv)
  have "trim (name @ [32]) = name" using assms(1,2) by (simp add: trim_space_end trim_id)
  moreover have "takeWhile (\<lambda>b. b \<noteq> 61) ?l = name @ [32]" "dropWhile (\<lambda>b. b \<noteq> 61) ?l = 61 # 32 # quoted v"
    using n32 by (auto simp: takeWhile_append dropWhile_append)
  ultimately show ?thesis unfolding l
    using assms clean_quoted [OF assms(5)]
    by (simp add: t Let_def equals_sign_def del: append.simps(2))
qed

lemma field_key_split:
  "full_key (key_section (field_key k)) (key_name (field_key k)) = field_key k"
  "\<forall>b \<in> set (key_name (field_key k)). \<not> ini_space b \<and> b \<noteq> equals_sign \<and> b \<noteq> newline"
  "key_name (field_key k) \<noteq> []"
  "\<not> comment_mark (hd (key_name (field_key k)))" "hd (key_name (field_key k)) \<noteq> open_bracket"
  "key_section (field_key k) = str ''radio'' \<or> key_section (field_key k) = str ''node''"
  by (cases k; simp add: full_key_def key_section_def key_name_def dot_def str_def tolower_def ini_space_def
      equals_sign_def comment_mark_def open_bracket_def tab_def newline_def carriage_return_def hash_char_def)+

lemma ini_section_line:
  assumes "s = str ''radio'' \<or> s = str ''node''"
  shows "ini_lines ([] # (str ''['' @ s @ str '']'') # rest) sec n m = ini_lines rest s (Suc (Suc n)) m"
  using assms
  by (auto simp: str_def trim_def ini_space_def comment_mark_def open_bracket_def close_bracket_def
      tab_def newline_def carriage_return_def hash_char_def)

lemma ini_settings_lines:
  assumes "\<forall>(key, v) \<in> set m. (\<exists>k. key = field_key k) \<and> printable v"
  shows "ini_lines (settings_lines sec m) sec n acc = Inr (fold (\<lambda>(k, v). map_put k v) m acc)"
  using assms
proof (induction m arbitrary: sec n acc)
  case (Cons e m)
  then obtain k v where e: "e = (field_key k, v)" "printable v" by force
  let ?s = "key_section (field_key k)"
  have entry: "ini_lines ((key_name (field_key k) @ str '' = '' @ quoted v) # settings_lines ?s m) ?s n' acc =
      Inr (fold (\<lambda>(k, v). map_put k v) (e # m) acc)" for n'
    using Cons field_key_split [of k] e by (subst ini_entry_line) auto
  show ?case
  proof (cases "?s = sec")
    case True
    with entry e show ?thesis by simp
  next
    case False
    then have "settings_lines sec (e # m) = [] # (str ''['' @ ?s @ str '']'') #
        (key_name (field_key k) @ str '' = '' @ quoted v) # settings_lines ?s m"
      by (simp add: e del: field_key.simps)
    with ini_section_line [OF field_key_split(6)] entry show ?thesis by simp
  qed
qed simp

lemma printable_newline: "printable v \<Longrightarrow> newline \<notin> set v"
  by (auto simp: printable_def newline_def)

lemma newline_settings_lines:
  assumes "\<forall>(key, v) \<in> set m. (\<exists>k. key = field_key k) \<and> printable v"
  shows "\<forall>l \<in> set (settings_lines sec m). newline \<notin> set l"
  using assms
proof (induction m arbitrary: sec)
  case (Cons e m)
  then obtain k v where e: "e = (field_key k, v)" "printable v" by force
  have "newline \<notin> set (quoted v)" using printable_newline [OF e(2)] by (auto simp: quoted_def Let_def newline_def)
  moreover have "newline \<notin> set (key_name (field_key k))" using field_key_split(2) by blast
  moreover have "newline \<notin> set (key_section (field_key k))"
    using field_key_split(6) [of k] by (auto simp: str_def newline_def)
  ultimately show ?case using Cons by (auto simp: e str_def newline_def)
qed simp

lemma ini_settings_header: "ini_lines (settings_header @ ls) sec 0 m = ini_lines ls sec (Suc (Suc (Suc (Suc 0)))) m"
  by (simp add: settings_header_def str_def trim_def ini_space_def comment_mark_def hash_char_def
      tab_def newline_def carriage_return_def)

lemma ini_settings_render:
  assumes "\<forall>(key, v) \<in> set m. (\<exists>k. key = field_key k) \<and> printable v" "ordered m"
  shows "ini_lines (getlines (settings_render m)) [] 0 [] = Inr m"
proof -
  have "\<forall>l \<in> set (settings_header @ settings_lines [] m). newline \<notin> set l"
    using newline_settings_lines [OF assms(1)] by (auto simp: settings_header_def str_def newline_def)
  then have "getlines (settings_render m) = settings_header @ settings_lines [] m"
    unfolding settings_render_def by (rule getlines_lines)
  then show ?thesis
    using ini_settings_lines [OF assms(1)] fold_map_put [of "[]" m] assms(2) by (simp add: ini_settings_header)
qed

section \<open>Changes keep what is stored and what is in force together\<close>

definition proper_change :: "change \<Rightarrow> bool" where
  "proper_change ch \<longleftrightarrow> (case ch of (key, v) \<Rightarrow>
     v \<noteq> [] \<and> list_all (\<lambda>k. key = field_key k \<longrightarrow> (case parse_field k v of Some x \<Rightarrow> usual x | None \<Rightarrow> True)) all_fields)"

lemma config_set_cases:
  assumes "config_set key v c = Inr c1" "proper_change (key, v)"
  obtains k x where "key = field_key k" "c1 = put_field k x c" "fits k x" "usual x"
proof -
  obtain k where k: "key = field_key k"
    using assms(1) app_key_iff by (auto simp: config_set_def split: if_splits)
  have v: "v \<noteq> []" using assms(2) by (simp add: proper_change_def)
  from assms(1) config_set_field [OF v, of k c] obtain x where x: "parse_field k v = Some x" "c1 = put_field k x c"
    by (auto simp: k split: option.splits)
  moreover have "usual x"
    using assms(2) x(1) all_fields [of k] by (auto simp: proper_change_def k list_all_iff)
  ultimately show ?thesis using that k v by (auto simp: fits_def)
qed

lemma set_changes_sound:
  assumes "set_changes changes c = Inr c1" "\<forall>ch \<in> set changes. proper_change ch" "sound c"
  shows "sound c1 \<and> rest_of c1 = rest_of c \<and> fst ` set changes \<subseteq> range field_key \<and>
    (\<forall>k. field_key k \<notin> fst ` set changes \<longrightarrow> get_field k c1 = get_field k c)"
  using assms
proof (induction changes arbitrary: c)
  case (Cons ch changes)
  obtain key v where ch: "ch = (key, v)" by fastforce
  from Cons.prems(1) ch obtain c2 where c2: "config_set key v c = Inr c2" "set_changes changes c2 = Inr c1"
    by (auto split: sum.splits)
  from Cons.prems(2) ch have "proper_change (key, v)" by simp
  with c2(1) obtain k x where k: "key = field_key k" "c2 = put_field k x c" "fits k x" "usual x"
    by (rule config_set_cases)
  with Cons.IH [OF c2(2)] Cons.prems(2,3) sound_put show ?case
    by (auto simp: ch get_put_other)
qed simp

lemma stored_changes_props:
  assumes "ordered stored"
  shows "ordered (stored_changes changes c stored)"
    "map_of (stored_changes changes c stored) key =
      (if key \<in> fst ` set changes then Some (config_get key c) else map_of stored key)"
proof -
  have "ordered (stored_changes changes c stored) \<and>
    map_of (stored_changes changes c stored) key =
      (if key \<in> fst ` set changes then Some (config_get key c) else map_of stored key)"
    using assms
    by (induction changes arbitrary: stored) (fastforce simp: stored_changes_def ordered_put)+
  then show "ordered (stored_changes changes c stored)"
    "map_of (stored_changes changes c stored) key =
      (if key \<in> fst ` set changes then Some (config_get key c) else map_of stored key)" by blast+
qed

lemma ordered_distinct: "ordered m \<Longrightarrow> distinct (map fst m)"
  unfolding ordered_def by (induction m) auto

lemma synced_iff:
  "synced c0 stored c \<longleftrightarrow> rest_of c = rest_of c0 \<and> ordered stored \<and>
     (\<forall>key v. map_of stored key = Some v \<longrightarrow> (\<exists>k. key = field_key k \<and> v = show_val (get_field k c))) \<and>
     (\<forall>k. map_of stored (field_key k) = None \<longrightarrow> get_field k c = get_field k c0)"
  using all_fields ordered_distinct [of stored] map_of_eq_Some_iff [of stored]
  by (fastforce simp: synced_def map_of_eq_None_iff simp del: field_key.simps)

lemma synced_changes:
  assumes "synced c0 stored c" "sound c" "set_changes changes c = Inr c1" "\<forall>ch \<in> set changes. proper_change ch"
  shows "synced c0 (stored_changes changes c1 stored) c1"
proof -
  note s = assms(1) [unfolded synced_iff]
  note p = stored_changes_props [of stored changes c1]
  note c = set_changes_sound [OF assms(3,4,2)]
  have "\<exists>k. key = field_key k \<and> v = show_val (get_field k c1)"
    if m: "map_of (stored_changes changes c1 stored) key = Some v" for key v
  proof (cases "key \<in> fst ` set changes")
    case True
    then obtain k where "key = field_key k" using c by blast
    with m p s True show ?thesis by (auto simp: config_get_field)
  next
    case False
    with m p(2) s have "map_of stored key = Some v" by simp
    with s obtain k where k: "key = field_key k" "v = show_val (get_field k c)" by blast
    with c False show ?thesis by metis
  qed
  moreover have "get_field k c1 = get_field k c0" if "map_of (stored_changes changes c1 stored) (field_key k) = None" for k
    using that p s c by (auto split: if_splits)
  ultimately show ?thesis using s p c unfolding synced_iff by auto
qed

section \<open>What a change does\<close>

lemma reconfigure_view: "sworld.more (disp_reconfigure ro on_tx_result p w) = sworld.more w"
proof -
  have "sender_view (disp_reconfigure ro on_tx_result p w) =
      sender_view (upd_disp (\<lambda>d. d\<lparr>dp_duty := duty_set_percent (rp_duty_cycle_pct p) (dp_duty d)\<rparr>) w)"
    unfolding disp_reconfigure_def Let_def by (rule sender.obs_pump [THEN trans]) (simp add: sender_view_def)
  then show ?thesis by (simp add: sender_view_def upd_disp_def)
qed

lemma reconfigure_fields [simp]:
  "nworld.more (disp_reconfigure ro on_tx_result p w) = nworld.more w"
  "w_fs (disp_reconfigure ro on_tx_result p w) = w_fs w" "w_cfg (disp_reconfigure ro on_tx_result p w) = w_cfg w"
  "w_io (disp_reconfigure ro on_tx_result p w) = w_io w"
  by (rule node_more_of_sworld node_fields_more, rule reconfigure_view)+

lemma apply_more [simp]:
  "nworld.more (settings_apply ro w) = nworld.more w" "w_fs (settings_apply ro w) = w_fs w"
  by (simp_all add: settings_apply_def Let_def)

lemma apply_cfg [simp]:
  "w_cfg (settings_apply ro w) =
     (if w_attached w
      then (w_cfg w)\<lparr>nc_name := nc_name (cf_node (w_config w)), nc_lat_e6 := nc_lat_e6 (cf_node (w_config w)),
             nc_lon_e6 := nc_lon_e6 (cf_node (w_config w)), nc_repeat := nc_repeat (cf_node (w_config w))\<rparr>
      else w_cfg w)"
  "\<not> w_attached w \<Longrightarrow> w_radio (settings_apply ro w) = w_radio w"
  by (simp_all add: settings_apply_def Let_def)

lemma settings_fields:
  assumes "nworld.more w = nworld.more (w' :: ('r, 'm) dworld_full_scheme)"
  shows "w_config w = w_config w'" "w_settings_path w = w_settings_path w'" "w_stored w = w_stored w'"
    "w_attached w = w_attached w'"
  using assms by (cases w; cases w'; simp)+

lemma apply_fields [simp]:
  "w_config (settings_apply ro w) = w_config w" "w_settings_path (settings_apply ro w) = w_settings_path w"
  "w_stored (settings_apply ro w) = w_stored w" "w_attached (settings_apply ro w) = w_attached w"
  "w_server (settings_apply ro w) = w_server w" "w_sent (settings_apply ro w) = w_sent w"
  by (rule settings_fields companion_fields, simp)+


lemma node_inv_radio: "node_inv w \<Longrightarrow> node_inv (w\<lparr>w_radio := r\<rparr>)"
  by (simp add: node_inv_def sender_inv_def disp_inv_def queue_valid_def)

lemma reconfigure_inv: "node_inv w \<Longrightarrow> node_inv (disp_reconfigure ro on_tx_result p w)"
  unfolding disp_reconfigure_def Let_def
  by (intro pump_node_inv) (auto intro!: node_inv_radio node_inv_disp)

lemma node_inv_cfg [simp]: "node_inv (w\<lparr>w_cfg := c\<rparr>) = node_inv w"
  by (simp add: node_inv_def sender_inv_def disp_inv_def queue_valid_def)

lemma node_inv_settings [simp]:
  "node_inv (w\<lparr>w_config := c\<rparr>) = node_inv w" "node_inv (w\<lparr>w_stored := m\<rparr>) = node_inv w"
  by (simp_all add: node_inv_def sender_inv_def disp_inv_def queue_valid_def)

lemma node_inv_files [simp]: "node_inv (w\<lparr>w_fs := f\<rparr>) = node_inv w" "node_inv (w\<lparr>w_io := i\<rparr>) = node_inv w"
  by (simp_all add: node_inv_def sender_inv_def disp_inv_def queue_valid_def)

lemma apply_inv: "node_inv w \<Longrightarrow> node_inv (settings_apply ro w)"
  by (simp add: settings_apply_def Let_def reconfigure_inv)

lemma settings_save_world:
  "settings_save stored w = (ok, w1) \<Longrightarrow> \<exists>fs1 ios. w1 = w\<lparr>w_io := ios, w_fs := fs1\<rparr> \<and>
    (ok \<longrightarrow> fs1 (w_settings_path w) = Some \<lparr>f_content = settings_render stored, f_mode = owner_rw\<rparr>)"
  by (auto simp: settings_save_def next_io_def save_file_ok split: prod.splits)

lemma settings_set_cases:
  obtains (refused) "settings_set ro changes w = (SetInvalid, w)"
  | (failed) fs1 ios where "settings_set ro changes w = (SetIoError, w\<lparr>w_io := ios, w_fs := fs1\<rparr>)"
  | (accepted) c1 fs1 ios where "set_changes changes (w_config w) = Inr c1" "config_validate c1 = None"
      "settings_set ro changes w = (SetOk, settings_apply ro (w\<lparr>w_io := ios, w_fs := fs1,
         w_stored := stored_changes changes c1 (w_stored w), w_config := c1\<rparr>))"
      "fs1 (w_settings_path w) =
         Some \<lparr>f_content = settings_render (stored_changes changes c1 (w_stored w)), f_mode = owner_rw\<rparr>"
proof (cases "set_changes changes (w_config w)")
  case (Inl e)
  then show ?thesis using refused by (simp add: settings_set_def)
next
  case (Inr c1)
  obtain ok w1 where s: "settings_save (stored_changes changes c1 (w_stored w)) w = (ok, w1)" by fastforce
  show ?thesis
  proof (cases "config_validate c1 = None")
    case True
    with Inr s settings_save_world [OF s] show ?thesis
      using failed accepted by (cases ok) (auto simp: settings_set_def)
  qed (use refused Inr in \<open>simp add: settings_set_def\<close>)
qed

section \<open>The settings the session is given\<close>

definition daemon_env :: "('r, 'm dworld_full_ext) session_env \<Rightarrow> ('r, 'm dworld_full_ext) session_env" where
  "daemon_env se = se\<lparr>se_settings := settings_set (se_radio se)\<rparr>"

interpretation daemon: companion_settings "daemon_env se"
  for se :: "('r, 'm dworld_full_ext) session_env"
proof unfold_locales
  fix w :: "('r, 'm) dworld_full_scheme" and ch
  show "node_inv w \<Longrightarrow> node_inv (snd (se_settings (daemon_env se) ch w))"
    by (cases rule: settings_set_cases [of "se_radio se" ch w]) (simp_all add: daemon_env_def apply_inv)
  show "w_server (snd (se_settings (daemon_env se) ch w)) = w_server w"
    "w_sent (snd (se_settings (daemon_env se) ch w)) = w_sent w"
    by (cases rule: settings_set_cases [of "se_radio se" ch w]; simp add: daemon_env_def)+
qed

section \<open>Restarting\<close>

lemma validated_name: "config_validate c = None \<Longrightarrow> printable (nc_name (cf_node c))"
  by (auto simp: config_validate_def Let_def printable_def list_ex_iff not_less split: if_splits)

lemma stored_plain:
  assumes "synced c0 stored c" "sound c" "config_validate c = None"
  shows "\<forall>(key, v) \<in> set stored. (\<exists>k. key = field_key k) \<and> printable v"
proof clarify
  fix key v assume "(key, v) \<in> set stored"
  with assms(1) obtain k where k: "key = field_key k" "v = show_val (get_field k c)" by (auto simp: synced_def)
  have "printable v"
    using parse_show(3) [OF soundD [OF assms(2)]] validated_name [OF assms(3)] k(2) by (cases "k = FName") auto
  with k(1) show "(\<exists>k. key = field_key k) \<and> printable v" by blast
qed

lemma load_stored:
  assumes "synced c0 stored c" "sound c" "config_validate c = None"
    and "fs1 p = Some \<lparr>f_content = settings_render stored, f_mode = owner_rw\<rparr>"
  shows "settings_load None fs1 p c0 = Inr (c, stored)"
proof -
  have "ordered stored" using assms(1) by (simp add: synced_def)
  then have "ini_load None fs1 p = Inr stored"
    using ini_settings_render [OF stored_plain [OF assms(1-3)]] assms(4)
    by (simp add: ini_load_def read_file_def read_lines_def)
  with assms(3,4) load_synced [OF assms(1,2)] show ?thesis by (simp add: settings_load_def)
qed

definition settings_runs :: "'r radio_ops \<Rightarrow> change list list \<Rightarrow> ('r, 'm) dworld_full_scheme \<Rightarrow>
    ('r, 'm) dworld_full_scheme" where
  "settings_runs ro batches w = fold (\<lambda>changes w. snd (settings_set ro changes w)) batches w"

lemma settings_set_synced:
  assumes "synced c0 (w_stored w) (w_config w)" "sound (w_config w)" "list_all proper_change changes"
    and "settings_set ro changes w = (r, w')"
  shows "synced c0 (w_stored w') (w_config w') \<and> sound (w_config w')"
proof (cases rule: settings_set_cases [of ro changes w])
  case (accepted c1 fs1 ios)
  then show ?thesis
    using synced_changes [OF assms(1,2) accepted(1)] set_changes_sound [OF accepted(1) _ assms(2)] assms(3,4)
    by (auto simp: list_all_iff)
qed (use assms in auto)

lemma settings_runs_synced:
  assumes "synced c0 (w_stored w) (w_config w)" "sound (w_config w)" "list_all (list_all proper_change) batches"
  shows "synced c0 (w_stored (settings_runs ro batches w)) (w_config (settings_runs ro batches w)) \<and>
    sound (w_config (settings_runs ro batches w))"
  using assms
proof (induction batches arbitrary: w)
  case (Cons b batches)
  have "synced c0 (w_stored (snd (settings_set ro b w))) (w_config (snd (settings_set ro b w))) \<and>
      sound (w_config (snd (settings_set ro b w)))"
    using settings_set_synced [OF Cons.prems(1,2), of b ro] Cons.prems(3) by (cases "settings_set ro b w") auto
  with Cons show ?case by (simp add: settings_runs_def)
qed (simp add: settings_runs_def)

section \<open>The defaults are sound\<close>

lemma is_double_bw: "is_double (125 / 2)"
proof -
  have "binade (125 / 2) = 5" by (rule binade_unique) (simp_all add: power_int_def)
  then have u: "ulp (125 / 2) = inverse (2 ^ 47)" by (simp add: ulp_def power_int_def power_one_over)
  have "125 / 2 / ulp (125 / 2) = (of_int (125 * 2 ^ 46) :: rat)" by (simp add: u)
  then have "round_even (125 / 2 / ulp (125 / 2)) = 125 * 2 ^ 46" by (simp only: round_even_of_int)
  then show ?thesis unfolding is_double_def double_of_def Let_def by (simp add: u)
qed

lemma default_bw: "supported_bandwidth (125 / 2)"
proof -
  have "\<bar>double_of (5 / 1000) - 5 / 1000\<bar> \<le> (5 / 1000) / 2 ^ 53" using double_of_error [of "5 / 1000"] by simp
  then have "0 < double_of (5 / 1000)" unfolding abs_le_iff by simp
  moreover have "double_of (125 / 2) = 125 / 2" by (rule is_double_bw [unfolded is_double_def])
  moreover have "125 / 2 \<in> set kBandwidthsKhz" by (simp add: kBandwidthsKhz_def)
  moreover have "double_of 0 = 0" by (simp add: double_of_def)
  ultimately show ?thesis unfolding supported_bandwidth_def list_ex_iff by (intro bexI [of _ "125 / 2"]) (simp_all only: diff_self abs_zero)
qed

lemma fits_small_int: "fits k (SInt n)"
  if "k = FSf \<and> 5 \<le> n \<and> n \<le> 12 \<or> k = FCr \<and> 5 \<le> n \<and> n \<le> 8 \<or>
      k = FTxPower \<and> kMinTxPowerDbm \<le> n \<and> n \<le> kMaxTxPowerDbm"
  unfolding fits_def using that dec_int_plain(1) strtoll_dec_int [of n]
  by (intro exI [of _ "dec_int n"]) (auto simp: check_def kMinTxPowerDbm_def kMaxTxPowerDbm_def)

lemma fits_usual_real:
  assumes "is_double x" "x = 0 \<or> 1 / 10 \<le> \<bar>x\<bar>" "\<bar>x\<bar> \<le> 1000"
    and "k = FFreq \<and> valid_freq x \<or> k = FBw \<and> supported_bandwidth x \<or> k = FDuty \<and> valid_duty_cycle x"
  shows "fits k (SReal x)"
  unfolding fits_def using format_real_usual [OF assms(1-3)] assms(4)
  by (intro exI [of _ "format_real x"]) (auto simp: check_def reads_as_def)

lemma fits_no_location: "fits FLat (SDeg 0)" "fits FLon (SDeg 0)"
proof -
  have r: "reads_as (format_real 0) 0" by (rule format_real_usual) simp_all
  have "degrees_e6 0 = 0" by (simp add: degrees_e6_def double_of_def lround_def floor_divide_of_int_eq [of 1 2, simplified])
  with r show "fits FLat (SDeg 0)" "fits FLon (SDeg 0)"
    unfolding fits_def by (intro exI [of _ "format_real 0"], simp add: check_def reads_as_def valid_lat_def valid_lon_def)+
qed

lemma default_sound:
  assumes "name \<noteq> []"
  shows "sound (default_config\<lparr>cf_node := (cf_node default_config)\<lparr>nc_name := name\<rparr>, cf_state_dir := d\<rparr>)"
proof -
  have "fits FFreq (SReal 0)" by (rule fits_usual_real) (simp_all add: valid_freq_def)
  moreover have "fits FBw (SReal (125 / 2))" by (rule fits_usual_real) (simp_all add: default_bw is_double_bw)
  moreover have "fits FDuty (SReal 10)"
    using is_double_of_nat [of 10] by (intro fits_usual_real) (simp_all add: valid_duty_cycle_def)
  moreover have "fits FSf (SInt 8)" "fits FCr (SInt 5)" "fits FTxPower (SInt 22)"
    by (auto intro!: fits_small_int simp: kMinTxPowerDbm_def kMaxTxPowerDbm_def)
  moreover have "fits FName (SStr name)" using assms by (simp add: fits_def)
  moreover have "fits FRepeat (SBool False)"
    unfolding fits_def by (intro exI [of _ "str ''0''"]) (simp add: parse_bool_def str_def tolower_def)
  ultimately show ?thesis
    using fits_no_location
    by (simp add: sound_def all_fields_def default_config_def default_params_def usual_def)
qed

section \<open>Properties\<close>

text \<open>
  C36. A change is all or nothing. A refused one leaves the daemon as it was. One that could not be saved
  leaves everything but the files as they were. An accepted one was checked as a whole, is in the
  settings file, and is what the configuration, the stored settings and, once it is attached, the node
  now hold.
\<close>

theorem settings_all_or_nothing:
  "(case settings_set ro changes w of
      (SetInvalid, w') \<Rightarrow> w' = w
    | (SetIoError, w') \<Rightarrow> w' = w\<lparr>w_io := w_io w', w_fs := w_fs w'\<rparr>
    | (SetOk, w') \<Rightarrow>
        set_changes changes (w_config w) = Inr (w_config w') \<and>
        config_validate (w_config w') = None \<and>
        w_stored w' = stored_changes changes (w_config w') (w_stored w) \<and>
        w_fs w' (w_settings_path w) = Some \<lparr>f_content = settings_render (w_stored w'), f_mode = owner_rw\<rparr> \<and>
        (if w_attached w
         then nc_name (w_cfg w') = nc_name (cf_node (w_config w')) \<and>
              nc_lat_e6 (w_cfg w') = nc_lat_e6 (cf_node (w_config w')) \<and>
              nc_lon_e6 (w_cfg w') = nc_lon_e6 (cf_node (w_config w')) \<and>
              nc_repeat (w_cfg w') = nc_repeat (cf_node (w_config w'))
         else w_cfg w' = w_cfg w \<and> w_radio w' = w_radio w))"
  by (cases rule: settings_set_cases [of ro changes w]) auto

text \<open>
  C35. The settings an app made survive a restart. The daemon started without a settings file, on a sound
  configuration; whatever changes came since, refused and failed ones among them, the next accepted one
  leaves a settings file from which a restart over the same defaults reads exactly the configuration
  in force.
\<close>

theorem settings_survive_restart:
  assumes "sound (w_config w)" "w_stored w = []"
    and "list_all (list_all proper_change) (batches @ [changes])"
    and "settings_set ro changes (settings_runs ro batches w) = (SetOk, w')"
  shows "settings_load None (w_fs w') (w_settings_path w') (w_config w) = Inr (w_config w', w_stored w')"
proof -
  let ?w = "settings_runs ro batches w"
  have s0: "synced (w_config w) (w_stored w) (w_config w)" by (simp add: synced_def assms(2) ordered_def)
  have s: "synced (w_config w) (w_stored ?w) (w_config ?w)" "sound (w_config ?w)"
    using settings_runs_synced [OF s0 assms(1), of batches ro] assms(3) by auto
  from settings_set_synced [OF s _ assms(4)] assms(3)
  have s': "synced (w_config w) (w_stored w') (w_config w')" "sound (w_config w')" by auto
  show ?thesis
    using assms(4) s'
    by (cases rule: settings_set_cases [of ro changes ?w]) (auto intro: load_stored)
qed

definition fresh_config :: Config where
  "fresh_config = default_config\<lparr>cf_node := (cf_node default_config)\<lparr>nc_name := str ''n''\<rparr>, cf_state_dir := str ''/s''\<rparr>"

definition fresh_daemon :: "bytes list dworld_full" where
  "fresh_daemon = cworld.extend fresh_companion
     \<lparr>w_app_started = False, w_app_name = [], w_last_send_ms = None, w_config = fresh_config,
      w_settings_path = settings_path fresh_config, w_stored = [], w_attached = True\<rparr>"

lemma fresh_daemon_simps [simp]:
  "w_config fresh_daemon = fresh_config" "w_stored fresh_daemon = []"
  "w_settings_path fresh_daemon = settings_path fresh_config" "w_attached fresh_daemon"
  "w_fs fresh_daemon = Map.empty" "w_io fresh_daemon = (\<lambda>i. io_fine)"
  by (simp_all add: fresh_daemon_def cworld.defs fresh_companion_def nworld.defs fresh_node_def sworld.defs)

theorem settings_survive_restart_witness:
  "settings_load None
     (w_fs (snd (settings_set log_radio [(str ''node.advert_name'', str '' #1'')] fresh_daemon)))
     (str ''/s/settings'') fresh_config =
   Inr (fresh_config\<lparr>cf_node := (cf_node fresh_config)\<lparr>nc_name := str '' #1''\<rparr>\<rparr>,
        [(str ''node.advert_name'', str '' #1'')])"
proof -
  let ?ch = "[(str ''node.advert_name'', str '' #1'')]"
  let ?c = "fresh_config\<lparr>cf_node := (cf_node fresh_config)\<lparr>nc_name := str '' #1''\<rparr>\<rparr>"
  let ?r = "settings_set log_radio ?ch fresh_daemon"
  have set: "set_changes ?ch fresh_config = Inr ?c"
    using config_set_field [of "str '' #1''" FName fresh_config] by (simp add: put_field_def str_def)
  have valid: "config_validate ?c = None"
    by (simp add: config_validate_def str_def fresh_config_def default_config_def cfg_has_location_def
        kMaxAdvertAppDataSize_def Let_def)
  have stored: "stored_changes ?ch ?c [] = ?ch"
    using config_get_field [of FName ?c] by (simp add: stored_changes_def)
  have "fst (settings_save ?ch fresh_daemon)"
    by (simp add: settings_save_def next_io_def save_defs io_fine_def split: prod.splits)
  then have ok: "fst ?r = SetOk"
    using set valid stored by (auto simp: settings_set_def Let_def split: prod.splits bool.splits)
  have proper: "list_all (list_all proper_change) ([] @ [?ch])"
    by (simp add: proper_change_def all_fields_def str_def usual_def)
  have "sound (w_config fresh_daemon)" unfolding fresh_daemon_simps fresh_config_def by (rule default_sound) (simp add: str_def)
  from settings_survive_restart [OF this _ proper, of log_radio "snd ?r"] ok
  have "settings_load None (w_fs (snd ?r)) (w_settings_path (snd ?r)) fresh_config =
      Inr (w_config (snd ?r), w_stored (snd ?r))"
    by (simp add: settings_runs_def prod_eq_iff)
  moreover have "w_config (snd ?r) = ?c \<and> w_stored (snd ?r) = ?ch \<and> w_settings_path (snd ?r) = str ''/s/settings''"
    using ok set stored
    by (cases rule: settings_set_cases [of log_radio ?ch fresh_daemon])
      (auto simp: settings_path_def fresh_config_def str_def)
  ultimately show ?thesis by simp
qed

end
