(* ===== verification/Daemon.thy ===== *)
theory Daemon
  imports Settings
begin

text \<open>
  The parts together: the session on top of the settings store, driven by the events of the loop.
\<close>

section \<open>Commands and the settings\<close>

lemma aworld_of_nworld:
  "nworld.more w = nworld.more (w' :: ('r, 'm) aworld_scheme) \<Longrightarrow> aworld.more w = aworld.more w'"
  by (cases w; cases w'; simp)

lemma proper_field:
  assumes "v \<noteq> []" "k \<noteq> FDuty"
  shows "proper_change (field_key k, v)"
proof -
  have "usual x" if "parse_field k v = Some x" for x
    using that assms(2) by (cases k) (auto simp: usual_def check_Some valid_freq_def dest: bandwidth_range)
  with assms(1) show ?thesis by (simp add: proper_change_def list_all_iff del: field_key.simps split: option.split)
qed

lemmas proper_fields = proper_field [of _ FFreq, simplified] proper_field [of _ FBw, simplified]
  proper_field [of _ FSf, simplified] proper_field [of _ FCr, simplified] proper_field [of _ FTxPower, simplified]
  proper_field [of _ FName, simplified] proper_field [of _ FLat, simplified] proper_field [of _ FLon, simplified]
  proper_field [of _ FRepeat, simplified]

lemma saved_reply_more [simp]: "nworld.more (snd (saved_reply w)) = nworld.more w"
  by (simp add: saved_reply_world)

text \<open>Of all commands only those on settings reach the settings, and these through \<^verbatim>\<open>Settings::set\<close>.\<close>

definition asks ::
  "('r, 'm) session_env \<Rightarrow> ('r, 'm) aworld_scheme \<Rightarrow> bytes \<times> ('r, 'm) aworld_scheme \<Rightarrow> bool" where
  "asks se w r \<longleftrightarrow> aworld.more (snd r) = aworld.more w \<or>
     (\<exists>ch. list_all proper_change ch \<and> snd r = snd (se_settings se ch w))"

lemma asks_same: "aworld.more (snd r) = aworld.more w \<Longrightarrow> asks se w r"
  by (simp add: asks_def)

lemma asks_node: "nworld.more (snd r) = nworld.more w \<Longrightarrow> asks se w r"
  by (rule asks_same) (rule aworld_of_nworld)

lemma asks_reply: "asks se w (out, w)"
  by (simp add: asks_same)

lemma asks_settings: "list_all proper_change ch \<Longrightarrow> asks se w (settings_reply se ch w)"
  by (auto simp: asks_def settings_reply_def split: prod.split SettingsResult.split)

lemma contact_cmds_ask:
  "asks se w (cmd_add_update_contact args w)" "asks se w (cmd_remove_contact args w)"
  "asks se w (cmd_reset_path args w)" "asks se w (cmd_set_channel args w)"
  "asks se w (cmd_sync_next_message w)"
  unfolding cmd_add_update_contact_def cmd_remove_contact_def cmd_reset_path_def cmd_set_channel_def
    cmd_sync_next_message_def case_prod_unfold Let_def
  by (auto intro!: asks_node split: option.split bool.split)

lemma aworld_ops [simp]:
  "aworld.more (snd (node_send_text env to tx tt ts w)) = aworld.more w"
  "aworld.more (snd (send_channel_text env i tx ts w)) = aworld.more w"
  by (rule aworld_of_nworld, simp)+

lemma send_cmds_ask:
  "asks se w (cmd_send_txt_msg se args w)" "asks se w (cmd_send_channel_txt_msg se args w)"
  "asks se w (cmd_set_device_time args w)"
  unfolding cmd_send_txt_msg_def cmd_send_channel_txt_msg_def cmd_set_device_time_def case_prod_unfold Let_def
  by (auto intro!: asks_same split: option.split bool.split sum.split)

lemma duty_usual: "af \<le> kMaxAirtimeFactorMilli \<Longrightarrow> 1 \<le> airtime_factor_duty af \<and> airtime_factor_duty af \<le> 1000"
proof -
  assume "af \<le> kMaxAirtimeFactorMilli"
  then have "unat af \<le> 9000" by (simp add: word_le_nat_alt kMaxAirtimeFactorMilli_def)
  then have "of_nat (unat af) \<le> (9000 :: rat)" by (metis of_nat_le_iff of_nat_numeral)
  then have a: "0 \<le> of_nat (unat af) / (1000 :: rat)" "of_nat (unat af) / (1000 :: rat) \<le> 9"
    by (simp_all only: zero_le_divide_iff of_nat_0_le_iff zero_le_numeral) simp
  have near: "x * 99 / 100 \<le> double_of x \<and> double_of x \<le> x * 101 / 100" if "0 \<le> x" for x
  proof -
    have "\<bar>x\<bar> / 2 ^ 53 \<le> x / 100" using that by simp
    then show ?thesis using double_of_error [of x] by linarith
  qed
  define b where "b = double_of (of_nat (unat af) / 1000)"
  have b: "0 \<le> b" "b \<le> 91 / 10" using near [OF a(1)] a unfolding b_def by linarith+
  define c where "c = double_of (1 + b)"
  have "0 \<le> 1 + b" using b by simp
  then have "(1 + b) * 99 / 100 \<le> c" "c \<le> (1 + b) * 101 / 100" using near [of "1 + b"] unfolding c_def by blast+
  with b have c: "99 / 100 \<le> c" "c \<le> 11" by simp_all
  define d where "d = 100 / c"
  have d: "9 \<le> d" "d \<le> 102" using c by (simp_all add: d_def field_simps)
  then have "d * 99 / 100 \<le> double_of d" "double_of d \<le> d * 101 / 100" using near [of d] by simp_all
  with d have "1 \<le> double_of d" "double_of d \<le> 1000" by linarith+
  then show ?thesis
    unfolding airtime_factor_duty_def b_def [symmetric] c_def [symmetric] d_def [symmetric] by blast
qed

lemma spelled_nonempty [simp]: "mhz_from_khz k \<noteq> []" "degrees_from_e6 e \<noteq> []" "exact v \<noteq> []"
  by (simp_all add: mhz_from_khz_def degrees_from_e6_def exact_def printf_g17_def strip_point_def str_def Let_def
      case_prod_unfold)

lemma str_nonempty: "str ''1'' \<noteq> []" "str ''0'' \<noteq> []"
  by (simp_all add: str_def)

lemma proper_duty: "af \<le> kMaxAirtimeFactorMilli \<Longrightarrow> proper_change (field_key FDuty, exact (airtime_factor_duty af))"
proof -
  assume "af \<le> kMaxAirtimeFactorMilli"
  note d = duty_usual [OF this]
  have "is_double (airtime_factor_duty af)" by (simp add: airtime_factor_duty_def)
  then have "strtod (exact (airtime_factor_duty af)) = Some (airtime_factor_duty af)"
    unfolding exact_def using d by (intro strtod_printf_g17) simp_all
  then show ?thesis
    using d by (auto simp: proper_change_def list_all_iff usual_def check_def split: option.split simp del: field_key.simps)
qed

lemma settings_cmds_ask:
  "asks se w (cmd_set_advert_name se args w)" "asks se w (cmd_set_advert_latlon se args w)"
  "asks se w (cmd_set_radio_params se args w)" "asks se w (cmd_set_tx_power se args w)"
  "asks se w (cmd_set_tuning_params se args w)"
  unfolding cmd_set_advert_name_def cmd_set_advert_latlon_def cmd_set_radio_params_def cmd_set_tx_power_def
    cmd_set_tuning_params_def case_prod_unfold Let_def
  by (simp_all add: asks_reply asks_settings proper_fields proper_duty [simplified] dec_int_plain str_nonempty not_less
      split: option.split)

lemma command_asks: "asks se w (command_reply se cmd args w)"
  unfolding command_reply_def
  by (simp add: asks_node contact_cmds_ask send_cmds_ask settings_cmds_ask split: option.split Cmd.split)

section \<open>What holds of the daemon between events\<close>

text \<open>
  \<open>c0\<close> is the configuration before the settings file. The settings in force are what the settings
  file would make of it, and pass the checks of that file.
\<close>

definition settings_ok :: "Config \<Rightarrow> ('r, 'm) dworld_full_scheme \<Rightarrow> bool" where
  "settings_ok c0 w \<longleftrightarrow> synced c0 (w_stored w) (w_config w) \<and> sound (w_config w) \<and>
     config_validate (w_config w) = None"

lemma settings_ok_more:
  fixes w w' :: "('r, 'm) dworld_full_scheme"
  shows "aworld.more w = aworld.more w' \<Longrightarrow> settings_ok c0 w = settings_ok c0 w'"
  by (cases w; cases w') (simp add: settings_ok_def)

lemma settings_set_ok:
  assumes "settings_ok c0 w" "list_all proper_change ch"
  shows "settings_ok c0 (snd (settings_set ro ch w))"
proof -
  obtain r w' where s: "settings_set ro ch w = (r, w')" by fastforce
  have "config_validate (w_config w') = None"
    using s assms(1) by (cases rule: settings_set_cases [of ro ch w]) (auto simp: settings_ok_def)
  with settings_set_synced [OF _ _ assms(2) s, of c0] assms(1) show ?thesis
    by (simp add: settings_ok_def s)
qed

lemma settings_ok_update [simp]:
  "settings_ok c0 (w\<lparr>w_server := s\<rparr>) = settings_ok c0 w" "settings_ok c0 (w\<lparr>w_sent := b\<rparr>) = settings_ok c0 w"
  "settings_ok c0 (w\<lparr>w_writes := os\<rparr>) = settings_ok c0 w" "settings_ok c0 (w\<lparr>w_loop := lp\<rparr>) = settings_ok c0 w"
  "settings_ok c0 (w\<lparr>w_clock := ck\<rparr>) = settings_ok c0 w" "settings_ok c0 (w\<lparr>w_io := ios\<rparr>) = settings_ok c0 w"
  "settings_ok c0 (w\<lparr>w_app_started := a\<rparr>) = settings_ok c0 w" "settings_ok c0 (upd_server f w) = settings_ok c0 w"
  by (simp_all add: settings_ok_def upd_server_def)

lemma settings_ok_drop [simp]:
  "settings_ok c0 (drop_client w) = settings_ok c0 w" "settings_ok c0 (watch_client e w) = settings_ok c0 w"
  by (auto simp: drop_client_def watch_client_def split: option.splits)

lemma settings_ok_flush [simp]: "settings_ok c0 (flush_writes os w) = settings_ok c0 w"
  by (induction os w rule: flush_writes.induct; subst flush_writes.simps;
      auto simp: Let_def split: list.splits write_outcome.splits option.splits)

lemma settings_ok_send [simp]:
  "settings_ok c0 (server_flush w) = settings_ok c0 w" "settings_ok c0 (server_send pl w) = settings_ok c0 w"
  by (simp_all add: server_send_def server_flush_def Let_def)

lemma settings_ok_sends: "settings_ok c0 (fold server_send pls w) = settings_ok c0 w"
  by (induction pls arbitrary: w) simp_all

lemma frame_replies_settings:
  assumes "settings_ok c0 w"
  shows "settings_ok c0 (snd (frame_replies (daemon_env se) f w))"
proof -
  have "settings_ok c0 (snd r)" if "asks (daemon_env se) w r" for r
    using that settings_set_ok [OF assms] settings_ok_more [of "snd r" w] assms
    by (auto simp: asks_def daemon_env_def)
  with command_asks [of "daemon_env se" w] assms show ?thesis
    by (simp add: frame_replies_def cmd_app_start_def Let_def case_prod_unfold settings_ok_def)
qed

lemma handle_frame_settings:
  "settings_ok c0 w \<Longrightarrow> settings_ok c0 (handle_frame (daemon_env se) f w)"
  by (cases "f = []") (simp_all add: daemon.handle_frame_eq settings_ok_sends frame_replies_settings,
      simp add: handle_frame_def)

lemma settings_ok_push [simp]: "settings_ok c0 (push pl w) = settings_ok c0 w"
  by (simp add: push_def)

lemma settings_ok_save [simp]: "settings_ok c0 (request_save w) = settings_ok c0 w"
  by (rule settings_ok_more) (rule aworld_of_nworld, simp)

lemma settings_ok_notify: "settings_ok c0 (session_notify n w) = settings_ok c0 w"
  by (cases n) (simp_all add: notify_defs)

interpretation kept: companion_predicate "session_node_env se" "settings_ok c0"
  by unfold_locales
    (erule (1) settings_ok_more [OF aworld_of_nworld, THEN iffD1], simp add: session_node_env_def settings_ok_notify)

lemma dispatch_settings:
  "settings_ok c0 w \<Longrightarrow> settings_ok c0 (dispatch_frames (handle_frame (daemon_env se)) n w)"
  by (induction n arbitrary: w)
    (auto simp: Let_def handle_frame_settings split: prod.splits option.splits)

lemma read_client_settings:
  "settings_ok c0 w \<Longrightarrow> settings_ok c0 (read_client (handle_frame (daemon_env se)) reads w)"
proof (induction reads arbitrary: w)
  case (Cons r reads)
  have "settings_ok c0 (feed_client (handle_frame (daemon_env se)) d w)" for d
    unfolding feed_client_def Let_def using Cons.prems by (intro dispatch_settings) simp
  with Cons show ?case by (cases r) (simp_all add: Let_def)
qed simp

lemma client_ready_settings:
  "settings_ok c0 w \<Longrightarrow> settings_ok c0 (session_client_ready (daemon_env se) reads ev w)"
  by (simp add: session_client_ready_def on_client_ready_def Let_def read_client_settings)

lemma listen_ready_settings: "settings_ok c0 (session_listen_ready fd nb ev w) = settings_ok c0 w"
  by (simp add: session_listen_ready_def on_listen_ready_def accept_client_def on_connect_def Let_def
      split: option.split prod.split)

section \<open>The events of the loop\<close>

text \<open>
  \<open>Outside\<close> is what happens around the daemon between two events: time passes in the loop and on the
  wall, and the system calls to come get their outcomes.
\<close>

datatype daemon_event =
    ClientReady "read_outcome list" u16
  | ListenReady "nat option" bool u16
  | RadioReceived RxPacket
  | RadioFailed RxFailure
  | RadioSent u32
  | TimerFired timer_cb
  | Outside loop int "write_outcome list" "nat \<Rightarrow> io_plan"

fun daemon_step ::
  "('r, 'm dworld_full_ext) session_env \<Rightarrow> daemon_event \<Rightarrow> ('r, 'm) dworld_full_scheme \<Rightarrow>
    ('r, 'm) dworld_full_scheme" where
  "daemon_step se (ClientReady reads ev) w = session_client_ready (daemon_env se) reads ev w"
| "daemon_step se (ListenReady fd nb ev) w = session_listen_ready fd nb ev w"
| "daemon_step se (RadioReceived r) w = session_radio_rx (daemon_env se) r w"
| "daemon_step se (RadioFailed f) w = on_radio_rx_error f w"
| "daemon_step se (RadioSent a) w = on_radio_tx_done a w"
| "daemon_step se (TimerFired cb) w = session_timer (daemon_env se) cb w"
| "daemon_step se (Outside lp t os ios) w =
     w\<lparr>w_loop := lp, w_clock := (w_clock w)\<lparr>ck_system := t\<rparr>, w_writes := os, w_io := ios\<rparr>"

definition daemon_inv :: "Config \<Rightarrow> ('r, 'm) dworld_full_scheme \<Rightarrow> bool" where
  "daemon_inv c0 w \<longleftrightarrow> node_inv w \<and> server_inv w \<and> settings_ok c0 w"

lemma tx_done_more: "nworld.more (on_radio_tx_done a w) = nworld.more w"
  by (simp add: on_radio_tx_done_def Let_def draw_byte_def schedule_pump_def split: prod.splits)

lemma rx_error_more: "nworld.more (on_radio_rx_error f w) = nworld.more w"
  by (simp add: on_radio_rx_error_def Let_def)

lemma node_inv_loop [simp]: "node_inv (w\<lparr>w_loop := lp\<rparr>) = node_inv w"
  by (simp add: node_inv_def sender_inv_def disp_inv_def queue_valid_def)

lemma node_inv_schedule: "node_inv w \<Longrightarrow> node_inv (schedule_pump d w)"
  using node_inv_disp [of "w\<lparr>w_loop := lp\<rparr>" "\<lambda>d. d\<lparr>dp_pump_due_ms := due, dp_pump_timer := Some t\<rparr>" for lp due t]
  by (simp add: schedule_pump_def Let_def upd_disp_def split: prod.split)

lemma node_events_inv:
  "node_inv w \<Longrightarrow> node_inv (on_radio_rx_error f w)" "node_inv w \<Longrightarrow> node_inv (on_radio_tx_done a w)"
proof -
  show "node_inv w \<Longrightarrow> node_inv (on_radio_rx_error f w)"
    by (simp add: on_radio_rx_error_def Let_def node_inv_stats)
  assume "node_inv w"
  then have "node_inv (upd_disp (\<lambda>d. d\<lparr>dp_duty := duty_record n a (dp_duty d)\<rparr>) (upd_stats g w))" for n g
    by (intro node_inv_disp node_inv_stats) simp_all
  then show "node_inv (on_radio_tx_done a w)"
    by (simp add: on_radio_tx_done_def Let_def draw_byte_def node_inv_schedule)
qed

lemma node_inv_writes [simp]: "node_inv (w\<lparr>w_writes := os\<rparr>) = node_inv w"
  by (simp add: node_inv_def sender_inv_def disp_inv_def queue_valid_def)

lemma listen_ready_node_inv: "node_inv w \<Longrightarrow> node_inv (session_listen_ready fd nb ev w)"
  by (simp add: session_listen_ready_def on_listen_ready_def accept_client_def on_connect_def upd_server_def Let_def
      split: option.split prod.split)

lemma daemon_step_node: "node_inv w \<Longrightarrow> server_inv w \<Longrightarrow> node_inv (daemon_step se e w)"
  by (cases e) (simp_all add: daemon.client_ready_inv listen_ready_node_inv session_radio_rx_def session_timer_def
      node_radio_rx_inv node_timer_inv session_delegate_ok node_events_inv)

lemma server_inv_outside [simp]:
  "server_inv (w\<lparr>w_loop := lp\<rparr>) = server_inv w" "server_inv (w\<lparr>w_clock := c\<rparr>) = server_inv w"
  "server_inv (w\<lparr>w_writes := os\<rparr>) = server_inv w" "server_inv (w\<lparr>w_io := ios\<rparr>) = server_inv w"
  by (rule server_inv_cong, simp)+

lemma daemon_step_server: "node_inv w \<Longrightarrow> server_inv w \<Longrightarrow> server_inv (daemon_step se e w)"
proof (cases e)
  case (ListenReady fd nb ev)
  assume "server_inv w"
  then show ?thesis unfolding ListenReady daemon_step.simps session_listen_ready_def
    by (rule on_listen_ready_inv [rotated]) (simp add: on_connect_def server_inv_def)
qed (use server_inv_more [OF rx_error_more [symmetric]] server_inv_more [OF tx_done_more [symmetric]] in
  \<open>simp_all add: daemon.client_ready_inv session_radio_rx_def session_timer_def served.radio_rx_keeps
    served.timer_keeps\<close>)

lemma daemon_step_settings: "settings_ok c0 w \<Longrightarrow> settings_ok c0 (daemon_step se e w)"
  by (cases e) (simp_all add: client_ready_settings listen_ready_settings session_radio_rx_def session_timer_def
      kept.radio_rx_keeps kept.timer_keeps kept.same [OF rx_error_more] kept.same [OF tx_done_more])

lemma daemon_step_inv: "daemon_inv c0 w \<Longrightarrow> daemon_inv c0 (daemon_step se e w)"
  by (simp add: daemon_inv_def daemon_step_node daemon_step_server daemon_step_settings)

interpretation daemon_run: event_system "daemon_step se" "daemon_inv c0"
  by unfold_locales (rule daemon_step_inv)

section \<open>Properties\<close>


definition fresh_env :: "(bytes list, unit dworld_full_ext) session_env" where
  "fresh_env = \<lparr>se_crypto = plain_crypto, se_radio = log_radio, se_self = example_identity, se_begin = (\<lambda>t. 0),
     se_settings = (\<lambda>ch w. (SetInvalid, w)),
     se_info = \<lparr>di_model = [], di_firmware_build = [], di_version = [], di_max_contacts_div2 = 50, di_max_channels = 8\<rparr>,
     se_battery_mv = 0, se_storage = \<lparr>st_used_bytes = 0, st_total_bytes = 0\<rparr>\<rparr>"

lemma fresh_daemon_node: "node_inv fresh_daemon"
proof -
  have "contacts_inv (w_contacts fresh_node)" "channels_inv (w_channels fresh_node)" "inbox_inv (w_inbox fresh_node)"
    "delivered_wf (w_delivered fresh_node)" "sender_inv fresh_node" "disp_inv fresh_node"
    using fresh_node_inv by (simp_all add: node_inv_def)
  then show ?thesis
    by (simp add: node_inv_def fresh_daemon_def fresh_companion_def cworld.defs nworld.defs sender_inv_def
        disp_inv_def queue_valid_def)
qed

lemma fresh_daemon_inv: "daemon_inv fresh_config fresh_daemon"
proof -
  have "server_inv fresh_daemon"
    by (simp add: server_inv_def fresh_daemon_def fresh_companion_def cworld.defs nworld.defs new_server_def)
  moreover have "sound fresh_config" unfolding fresh_config_def by (rule default_sound) (simp add: str_def)
  moreover have "config_validate fresh_config = None"
    by (simp add: config_validate_def str_def fresh_config_def default_config_def cfg_has_location_def
        kMaxAdvertAppDataSize_def Let_def)
  moreover have "synced fresh_config [] fresh_config" by (simp add: synced_def ordered_def)
  ultimately show ?thesis using fresh_daemon_node by (simp add: daemon_inv_def settings_ok_def)
qed


text \<open>
  C14. Every command is answered. A frame from the app that leaves it connected has put a reply into its
  stream, right behind everything sent before: one or more complete frames, the first of them
  immediately, whatever the command, known or not, well formed or not.
\<close>

theorem every_command_answered:
  assumes "f \<noteq> []" "connected (handle_frame (daemon_env se) f w)"
  shows "\<exists>replies. replies \<noteq> [] \<and>
    out_stream (handle_frame (daemon_env se) f w) = out_stream w @ concat (map frame_response replies)"
proof -
  let ?r = "frame_replies (daemon_env se) f w"
  have "out_stream (snd ?r) = out_stream w"
    using daemon.frame_replies_world [where se = se and f = f and w = w] by (simp add: out_stream_def)
  with assms sends_stream [of "fst ?r" "snd ?r"] daemon.frame_replies_world(1) [where se = se and f = f and w = w] show ?thesis
    by (intro exI [of _ "fst ?r"]) (simp add: daemon.handle_frame_eq)
qed

definition serving_daemon :: "bytes list dworld_full" where
  "serving_daemon = upd_server (\<lambda>s. s\<lparr>sv_client_fd := Some 5\<rparr>) (fresh_daemon\<lparr>w_writes := [Wrote 64]\<rparr>)"

lemma serving_daemon_simps [simp]:
  "w_server serving_daemon = (new_server \<lparr>so_tcp = False, so_socket_path = [47, 115], so_bind_addr = [],
     so_port = 0, so_max_outbound_bytes = 64\<rparr>)\<lparr>sv_client_fd := Some 5\<rparr>"
  "w_sent serving_daemon = []" "w_writes serving_daemon = [Wrote 64]"
  by (simp_all add: serving_daemon_def fresh_daemon_def fresh_companion_def cworld.defs nworld.defs)

theorem every_command_answered_witness:
  "\<exists>replies. replies \<noteq> [] \<and>
     out_stream (handle_frame (daemon_env fresh_env) [5] serving_daemon) = concat (map frame_response replies)"
proof -
  have "cmd_of 5 = Some CmdGetDeviceTime" using cmd_of_code [of CmdGetDeviceTime] by simp
  then have "connected (handle_frame (daemon_env fresh_env) [5] serving_daemon)"
    by (simp add: handle_frame_def command_reply_def cmd_get_device_time_def reply_def server_send_def
        server_flush_def flush_writes.simps connected_def frame_response_def put_bytes_def put_u16_def put_u32_def
        new_server_def capacity_iff Let_def watch_client_def)
  moreover have "out_stream serving_daemon = []" by (simp add: out_stream_def new_server_def)
  ultimately show ?thesis using every_command_answered [of "[5]" fresh_env serving_daemon] by simp
qed

text \<open>
  C39. Nothing is pushed to a client that has not said \<^verbatim>\<open>APP_START\<close>: until it does, no packet from the
  radio and no timer puts a byte into its stream or takes the connection down.
\<close>

theorem silent_until_app_start:
  assumes "\<not> w_app_started w"
  shows "w_server (daemon_step se (RadioReceived r) w) = w_server w \<and>
    w_sent (daemon_step se (RadioReceived r) w) = w_sent w \<and>
    w_server (daemon_step se (TimerFired cb) w) = w_server w \<and>
    w_sent (daemon_step se (TimerFired cb) w) = w_sent w"
proof -
  have "silent (w_server w) (w_sent w) w" using assms by (simp add: silent_def)
  from gated.radio_rx_keeps [OF this, of "daemon_env se" r] gated.timer_keeps [OF this, of "daemon_env se" cb]
  show ?thesis by (simp add: silent_def session_radio_rx_def session_timer_def)
qed

theorem silent_until_app_start_witness:
  "w_server (daemon_step fresh_env (RadioReceived \<lparr>rx_data = [1, 2, 3], rx_rssi = 0, rx_snr = 0, rx_at = 0\<rparr>)
     serving_daemon) = w_server serving_daemon"
proof -
  have "\<not> w_app_started serving_daemon"
    by (simp add: serving_daemon_def fresh_daemon_def cworld.defs upd_server_def)
  from silent_until_app_start [OF this] show ?thesis by blast
qed

end
