(* ===== verification/Hardware.thy ===== *)
theory Hardware
  imports Crypto
begin

text \<open>
  The wrappers around the kernel's SPI and GPIO devices, \<^verbatim>\<open>src/src/radio/spidev.h\<close>, \<^verbatim>\<open>spidev.cpp\<close>,
  \<^verbatim>\<open>gpio.h\<close> and \<^verbatim>\<open>gpio.cpp\<close>. The kernel and libgpiod are the operations \<open>hw_ops\<close> over a state \<open>'c\<close> that
  stands for them and for whatever is wired to them, the time and the sleeping thread included.
\<close>

section \<open>The kernel and libgpiod\<close>

datatype LineMode = LineOutput bool | LineInput | LineRisingEdge

datatype edge_outcome = EdgeEvents nat | EdgeAgain | EdgeError

datatype spi_setup = SpiMode | SpiBits | SpiSpeed u32

record 'c hw_ops =
  hw_spi_open :: "bytes \<Rightarrow> 'c \<Rightarrow> nat option \<times> 'c"
  hw_spi_setup :: "nat \<Rightarrow> spi_setup \<Rightarrow> 'c \<Rightarrow> bool \<times> 'c"
  hw_spi_message :: "nat \<Rightarrow> u32 \<Rightarrow> bytes \<Rightarrow> 'c \<Rightarrow> bytes option \<times> 'c"
  hw_spi_close :: "nat \<Rightarrow> 'c \<Rightarrow> 'c"
  hw_chip_open :: "bytes \<Rightarrow> 'c \<Rightarrow> nat option \<times> 'c"
  hw_chip_close :: "nat \<Rightarrow> 'c \<Rightarrow> 'c"
  hw_line_settings :: "nat \<Rightarrow> LineMode \<Rightarrow> 'c \<Rightarrow> bool \<times> 'c"
  hw_line_request :: "nat \<Rightarrow> nat \<Rightarrow> LineMode \<Rightarrow> 'c \<Rightarrow> nat option \<times> 'c"
  hw_line_events :: "nat \<Rightarrow> 'c \<Rightarrow> bool \<times> 'c"
  hw_line_release :: "nat \<Rightarrow> 'c \<Rightarrow> 'c"
  hw_line_set :: "nat \<Rightarrow> nat \<Rightarrow> bool \<Rightarrow> 'c \<Rightarrow> bool \<times> 'c"
  hw_line_get :: "nat \<Rightarrow> nat \<Rightarrow> 'c \<Rightarrow> bool option \<times> 'c"
  hw_line_read :: "nat \<Rightarrow> 'c \<Rightarrow> edge_outcome \<times> 'c"
  hw_now_us :: "'c \<Rightarrow> nat"
  hw_sleep_us :: "nat \<Rightarrow> 'c \<Rightarrow> 'c"

text \<open>\<^verbatim>\<open>millis()\<close>: the steady clock in milliseconds, cut to 32 bits.\<close>

definition hw_millis :: "'c hw_ops \<Rightarrow> 'c \<Rightarrow> u32" where
  "hw_millis ho c = word_of_nat (hw_now_us ho c div 1000)"

section \<open>SPI\<close>

record SpiDev =
  sd_fd :: "nat option"
  sd_speed_hz :: u32

definition new_spi :: SpiDev where
  "new_spi = \<lparr>sd_fd = None, sd_speed_hz = 0\<rparr>"

definition spi_close :: "'c hw_ops \<Rightarrow> SpiDev \<Rightarrow> 'c \<Rightarrow> SpiDev \<times> 'c" where
  "spi_close ho d c =
     (case sd_fd d of
        Some fd \<Rightarrow> (d\<lparr>sd_fd := None\<rparr>, hw_spi_close ho fd c)
      | None \<Rightarrow> (d, c))"

text \<open>The three \<^verbatim>\<open>ioctl\<close> calls are joined by \<^verbatim>\<open>||\<close>: the first that fails ends them.\<close>

fun spi_setups :: "'c hw_ops \<Rightarrow> nat \<Rightarrow> spi_setup list \<Rightarrow> 'c \<Rightarrow> bool \<times> 'c" where
  "spi_setups ho fd [] c = (True, c)"
| "spi_setups ho fd (s # ss) c =
     (case hw_spi_setup ho fd s c of
        (False, c1) \<Rightarrow> (False, c1)
      | (True, c1) \<Rightarrow> spi_setups ho fd ss c1)"

definition spi_open :: "'c hw_ops \<Rightarrow> bytes \<Rightarrow> u32 \<Rightarrow> SpiDev \<Rightarrow> 'c \<Rightarrow> bool \<times> SpiDev \<times> 'c" where
  "spi_open ho dev_path speed d c =
     (case hw_spi_open ho dev_path c of
        (None, c1) \<Rightarrow> (False, d\<lparr>sd_fd := None\<rparr>, c1)
      | (Some fd, c1) \<Rightarrow>
          let d1 = d\<lparr>sd_fd := Some fd, sd_speed_hz := speed\<rparr>
          in case spi_setups ho fd [SpiMode, SpiBits, SpiSpeed speed] c1 of
               (True, c2) \<Rightarrow> (True, d1, c2)
             | (False, c2) \<Rightarrow> (case spi_close ho d1 c2 of (d2, c3) \<Rightarrow> (False, d2, c3)))"

text \<open>
  A full-duplex transfer of \<open>tx\<close> into a buffer of \<open>rx_len\<close> bytes. The kernel clocks in as many bytes as
  it clocks out.
\<close>

definition spi_transfer ::
  "'c hw_ops \<Rightarrow> bytes \<Rightarrow> nat \<Rightarrow> SpiDev \<Rightarrow> 'c \<Rightarrow> bytes option \<times> 'c" where
  "spi_transfer ho tx rx_len d c =
     (case sd_fd d of
        None \<Rightarrow> (None, c)
      | Some fd \<Rightarrow>
          if rx_len \<noteq> 0 \<and> rx_len \<noteq> length tx then (None, c)
          else (case hw_spi_message ho fd (sd_speed_hz d) tx c of
                  (None, c1) \<Rightarrow> (None, c1)
                | (Some rx, c1) \<Rightarrow> (Some (resize rx_len rx), c1)))"

section \<open>GPIO\<close>

record GpioLine =
  gl_req :: "nat option"
  gl_offset :: nat
  gl_events :: bool

record GpioChip =
  gc_chip :: "nat option"
  gc_path :: bytes

definition new_gpio_chip :: GpioChip where
  "new_gpio_chip = \<lparr>gc_chip = None, gc_path = []\<rparr>"

definition line_set :: "'c hw_ops \<Rightarrow> bool \<Rightarrow> GpioLine \<Rightarrow> 'c \<Rightarrow> bool \<times> 'c" where
  "line_set ho v l c =
     (case gl_req l of
        None \<Rightarrow> (False, c)
      | Some r \<Rightarrow> hw_line_set ho r (gl_offset l) v c)"

text \<open>\<open>- 1\<close> on error, otherwise 0 or 1.\<close>

definition line_get :: "'c hw_ops \<Rightarrow> GpioLine \<Rightarrow> 'c \<Rightarrow> int \<times> 'c" where
  "line_get ho l c =
     (case gl_req l of
        None \<Rightarrow> (- 1, c)
      | Some r \<Rightarrow>
          (case hw_line_get ho r (gl_offset l) c of
             (None, c1) \<Rightarrow> (- 1, c1)
           | (Some v, c1) \<Rightarrow> (if v then 1 else 0, c1)))"

definition drain_events :: "'c hw_ops \<Rightarrow> GpioLine \<Rightarrow> 'c \<Rightarrow> int \<times> 'c" where
  "drain_events ho l c =
     (case gl_req l of
        None \<Rightarrow> (- 1, c)
      | Some r \<Rightarrow>
          if \<not> gl_events l then (- 1, c)
          else (case hw_line_read ho r c of
                  (EdgeEvents n, c1) \<Rightarrow> (int n, c1)
                | (EdgeAgain, c1) \<Rightarrow> (0, c1)
                | (EdgeError, c1) \<Rightarrow> (- 1, c1)))"

text \<open>The destructor of a line, which its owner's \<^verbatim>\<open>reset()\<close> runs.\<close>

definition line_reset :: "'c hw_ops \<Rightarrow> GpioLine option \<Rightarrow> 'c \<Rightarrow> 'c" where
  "line_reset ho l c =
     (case l of
        None \<Rightarrow> c
      | Some l \<Rightarrow> (case gl_req l of None \<Rightarrow> c | Some r \<Rightarrow> hw_line_release ho r c))"

definition gpio_path :: "bytes \<Rightarrow> bytes" where
  "gpio_path name = (if of_char CHR ''/'' \<notin> set name then str ''/dev/'' @ name else name)"

definition chip_open :: "'c hw_ops \<Rightarrow> bytes \<Rightarrow> GpioChip \<Rightarrow> 'c \<Rightarrow> bool \<times> GpioChip \<times> 'c" where
  "chip_open ho name g c =
     (case hw_chip_open ho (gpio_path name) c of
        (h, c1) \<Rightarrow> (h \<noteq> None, g\<lparr>gc_chip := h, gc_path := gpio_path name\<rparr>, c1))"

definition chip_close :: "'c hw_ops \<Rightarrow> GpioChip \<Rightarrow> 'c \<Rightarrow> GpioChip \<times> 'c" where
  "chip_close ho g c =
     (case gc_chip g of
        None \<Rightarrow> (g, c)
      | Some h \<Rightarrow> (g\<lparr>gc_chip := None\<rparr>, hw_chip_close ho h c))"

text \<open>
  Requesting a line: the settings objects are prepared and added (\<open>hw_line_settings\<close>), the line is
  requested, and an edge line gets its event buffer; without it the request is given back.
\<close>

definition chip_request ::
  "'c hw_ops \<Rightarrow> nat \<Rightarrow> LineMode \<Rightarrow> GpioChip \<Rightarrow> 'c \<Rightarrow> GpioLine option \<times> 'c" where
  "chip_request ho pin mode g c =
     (case gc_chip g of
        None \<Rightarrow> (None, c)
      | Some h \<Rightarrow>
          (case hw_line_settings ho pin mode c of
             (False, c1) \<Rightarrow> (None, c1)
           | (True, c1) \<Rightarrow>
               (case hw_line_request ho h pin mode c1 of
                  (None, c2) \<Rightarrow> (None, c2)
                | (Some r, c2) \<Rightarrow>
                    if mode = LineRisingEdge
                    then (case hw_line_events ho r c2 of
                            (False, c3) \<Rightarrow> (None, hw_line_release ho r c3)
                          | (True, c3) \<Rightarrow> (Some \<lparr>gl_req = Some r, gl_offset = pin, gl_events = True\<rparr>, c3))
                    else (Some \<lparr>gl_req = Some r, gl_offset = pin, gl_events = False\<rparr>, c2))))"

end
