(* ===== verification/Sx1262.thy ===== *)
theory Sx1262
  imports Hardware Radio
begin

text \<open>
  The SX1262 driver, \<^verbatim>\<open>src/src/radio/sx1262.h\<close> and \<^verbatim>\<open>sx1262.cpp\<close>. The state holds the hardware's state next to
  the driver's own fields. The driver's timers are held here with the delay they were armed with and the
  step they run; the loop firing one is an event. What the driver delivers to its handlers is the list
  of events an entry point returns, in order: the handlers of \<^verbatim>\<open>tx_done\<close> and of a failed reception do
  not call the driver back, and a packet is delivered as the last action. Error messages are left out,
  as is \<^verbatim>\<open>describe\<close>, which only logs. Arithmetic on frequencies and bandwidths is exact.
\<close>

section \<open>Commands, registers, flags\<close>

definition kCmdSetSleep :: byte where "kCmdSetSleep = 0x84"
definition kCmdSetStandby :: byte where "kCmdSetStandby = 0x80"
definition kCmdSetTx :: byte where "kCmdSetTx = 0x83"
definition kCmdSetRx :: byte where "kCmdSetRx = 0x82"
definition kCmdSetRfFrequency :: byte where "kCmdSetRfFrequency = 0x86"
definition kCmdSetPacketType :: byte where "kCmdSetPacketType = 0x8A"
definition kCmdSetTxParams :: byte where "kCmdSetTxParams = 0x8E"
definition kCmdSetPaConfig :: byte where "kCmdSetPaConfig = 0x95"
definition kCmdSetBufferBaseAddress :: byte where "kCmdSetBufferBaseAddress = 0x8F"
definition kCmdSetModulationParams :: byte where "kCmdSetModulationParams = 0x8B"
definition kCmdSetPacketParams :: byte where "kCmdSetPacketParams = 0x8C"
definition kCmdSetDioIrqParams :: byte where "kCmdSetDioIrqParams = 0x08"
definition kCmdGetIrqStatus :: byte where "kCmdGetIrqStatus = 0x12"
definition kCmdClearIrqStatus :: byte where "kCmdClearIrqStatus = 0x02"
definition kCmdSetDio2AsRfSwitch :: byte where "kCmdSetDio2AsRfSwitch = 0x9D"
definition kCmdSetDio3AsTcxoCtrl :: byte where "kCmdSetDio3AsTcxoCtrl = 0x97"
definition kCmdWriteRegister :: byte where "kCmdWriteRegister = 0x0D"
definition kCmdReadRegister :: byte where "kCmdReadRegister = 0x1D"
definition kCmdWriteBuffer :: byte where "kCmdWriteBuffer = 0x0E"
definition kCmdReadBuffer :: byte where "kCmdReadBuffer = 0x1E"
definition kCmdGetRxBufferStatus :: byte where "kCmdGetRxBufferStatus = 0x13"
definition kCmdGetPacketStatus :: byte where "kCmdGetPacketStatus = 0x14"
definition kCmdCalibrate :: byte where "kCmdCalibrate = 0x89"
definition kCmdCalibrateImage :: byte where "kCmdCalibrateImage = 0x98"
definition kCmdSetRegulatorMode :: byte where "kCmdSetRegulatorMode = 0x96"
definition kCmdGetDeviceErrors :: byte where "kCmdGetDeviceErrors = 0x17"
definition kCmdClearDeviceErrors :: byte where "kCmdClearDeviceErrors = 0x07"
definition kCmdSetRxTxFallbackMode :: byte where "kCmdSetRxTxFallbackMode = 0x93"

definition kRegVersionString :: u16 where "kRegVersionString = 0x0320"
definition kRegLoRaSyncWordMsb :: u16 where "kRegLoRaSyncWordMsb = 0x0740"
definition kRegRxGain :: u16 where "kRegRxGain = 0x08AC"
definition kRegOcpConfig :: u16 where "kRegOcpConfig = 0x08E7"
definition kRegTxClampConfig :: u16 where "kRegTxClampConfig = 0x08D8"
definition kRegSensitivityConfig :: u16 where "kRegSensitivityConfig = 0x0889"

definition kIrqTxDone :: u16 where "kIrqTxDone = 0x0001"
definition kIrqRxDone :: u16 where "kIrqRxDone = 0x0002"
definition kIrqPreambleDetected :: u16 where "kIrqPreambleDetected = 0x0004"
definition kIrqHeaderValid :: u16 where "kIrqHeaderValid = 0x0010"
definition kIrqHeaderErr :: u16 where "kIrqHeaderErr = 0x0020"
definition kIrqCrcErr :: u16 where "kIrqCrcErr = 0x0040"
definition kIrqTimeout :: u16 where "kIrqTimeout = 0x0200"

definition kSxMaxPayloadSize :: nat where "kSxMaxPayloadSize = 255"
definition kHeaderSymbols :: nat where "kHeaderSymbols = 16"
definition kPacketTypeLoRa :: byte where "kPacketTypeLoRa = 0x01"
definition kSyncWord :: byte where "kSyncWord = 0x12"
definition kStandbyRc :: byte where "kStandbyRc = 0x00"

definition command_status_ok :: "byte \<Rightarrow> bool" where
  "command_status_ok status \<longleftrightarrow>
    (let chip_mode = drop_bit 4 status AND 0x07; command_status = drop_bit 1 status AND 0x07
     in 2 \<le> chip_mode \<and> chip_mode \<le> 6 \<and> (command_status < 3 \<or> command_status > 5))"

definition bw_table :: "(rat \<times> byte) list" where
  "bw_table = [(781 / 100, 0x00), (1042 / 100, 0x08), (1563 / 100, 0x01), (2083 / 100, 0x09), (3125 / 100, 0x02),
     (4167 / 100, 0x0A), (625 / 10, 0x03), (125, 0x04), (250, 0x05), (500, 0x06)]"

definition bw_code :: "rat \<Rightarrow> byte" where
  "bw_code khz =
     snd (fold (\<lambda>(k, code) (best_diff, best).
                  let d = \<bar>k - khz\<bar> in if d < best_diff then (d, code) else (best_diff, best))
            bw_table (10 ^ 9, 0x04))"

section \<open>State\<close>

record Pins =
  pn_spidev :: bytes
  pn_gpiochip :: bytes
  pn_irq :: int
  pn_busy :: int
  pn_reset :: int
  pn_nss :: int
  pn_rxen :: int
  pn_txen :: int
  pn_spi_speed_hz :: u32

definition default_pins :: Pins where
  "default_pins = \<lparr>pn_spidev = str ''/dev/spidev1.0'', pn_gpiochip = str ''gpiochip0'', pn_irq = 26, pn_busy = 24,
     pn_reset = 25, pn_nss = - 1, pn_rxen = - 1, pn_txen = - 1, pn_spi_speed_hz = 2000000\<rparr>"

datatype RecoveryStep = ReleaseReset | PollResetBusy

record 'c Sx1262 =
  sx_hw :: 'c
  sx_params :: RadioParams
  sx_pins :: Pins
  sx_retry_interval_ms :: u32
  sx_spi :: SpiDev
  sx_chip :: GpioChip
  sx_irq_line :: "GpioLine option"
  sx_busy_line :: "GpioLine option"
  sx_reset_line :: "GpioLine option"
  sx_nss_line :: "GpioLine option"
  sx_rxen_line :: "GpioLine option"
  sx_txen_line :: "GpioLine option"
  sx_loop :: bool
  sx_irq_watch :: bool
  sx_tx_timeout :: "u32 option"
  sx_supervise_timer :: "u32 option"
  sx_recovery_timer :: "(u32 \<times> RecoveryStep) option"
  sx_tx_busy :: bool
  sx_tx_started_ms :: u32
  sx_retune_pending :: bool
  sx_rx_since_ms :: u32
  sx_healthy :: bool
  sx_recovering :: bool
  sx_ever_healthy :: bool
  sx_initial_failure_reported :: bool
  sx_recovery_deadline_ms :: u32

definition new_sx1262 :: "'c \<Rightarrow> RadioParams \<Rightarrow> Pins \<Rightarrow> u32 \<Rightarrow> 'c Sx1262" where
  "new_sx1262 c p pins retry =
     \<lparr>sx_hw = c, sx_params = p, sx_pins = pins, sx_retry_interval_ms = retry, sx_spi = new_spi,
      sx_chip = new_gpio_chip, sx_irq_line = None, sx_busy_line = None, sx_reset_line = None, sx_nss_line = None,
      sx_rxen_line = None, sx_txen_line = None, sx_loop = False, sx_irq_watch = False, sx_tx_timeout = None,
      sx_supervise_timer = None, sx_recovery_timer = None, sx_tx_busy = False, sx_tx_started_ms = 0,
      sx_retune_pending = False, sx_rx_since_ms = 0, sx_healthy = False, sx_recovering = False,
      sx_ever_healthy = False, sx_initial_failure_reported = False, sx_recovery_deadline_ms = 0\<rparr>"

text \<open>What the driver hands to its handlers.\<close>

datatype radio_event = Received RxPacket | ReceiveFailed RxFailure | TxDone u32

section \<open>Steps that can fail\<close>

type_synonym 'c step = "'c Sx1262 \<Rightarrow> bool \<times> 'c Sx1262"

text \<open>One step after the other, up to the first that fails.\<close>

fun all_of :: "('s \<Rightarrow> bool \<times> 's) list \<Rightarrow> 's \<Rightarrow> bool \<times> 's" where
  "all_of [] s = (True, s)"
| "all_of (f # fs) s = (case f s of (False, s1) \<Rightarrow> (False, s1) | (True, s1) \<Rightarrow> all_of fs s1)"

definition when_step :: "bool \<Rightarrow> ('s \<Rightarrow> bool \<times> 's) \<Rightarrow> 's \<Rightarrow> bool \<times> 's" where
  "when_step b f s = (if b then f s else (True, s))"

definition on_hw :: "('c \<Rightarrow> 'a \<times> 'c) \<Rightarrow> 'c Sx1262 \<Rightarrow> 'a \<times> 'c Sx1262" where
  "on_hw f s = (case f (sx_hw s) of (x, c) \<Rightarrow> (x, s\<lparr>sx_hw := c\<rparr>))"

definition sx_millis :: "'c hw_ops \<Rightarrow> 'c Sx1262 \<Rightarrow> u32" where
  "sx_millis ho s = hw_millis ho (sx_hw s)"

definition sleep_us :: "'c hw_ops \<Rightarrow> nat \<Rightarrow> 'c Sx1262 \<Rightarrow> 'c Sx1262" where
  "sleep_us ho us s = s\<lparr>sx_hw := hw_sleep_us ho us (sx_hw s)\<rparr>"

text \<open>Setting a line that may not be wired; not wired counts as done.\<close>

definition set_line :: "'c hw_ops \<Rightarrow> bool \<Rightarrow> GpioLine option \<Rightarrow> 'c step" where
  "set_line ho v l s = (case l of None \<Rightarrow> (True, s) | Some g \<Rightarrow> on_hw (line_set ho v g) s)"

section \<open>SPI\<close>

text \<open>
  The polling loop of \<^verbatim>\<open>wait_busy\<close>. Every round sleeps 50 microseconds, so \<open>20 * (timeout + 2)\<close> rounds are
  enough for the deadline to pass.
\<close>

fun wait_busy_loop :: "'c hw_ops \<Rightarrow> GpioLine \<Rightarrow> u32 \<Rightarrow> u32 \<Rightarrow> nat \<Rightarrow> 'c step" where
  "wait_busy_loop ho l timeout start 0 s = (False, s)"
| "wait_busy_loop ho l timeout start (Suc n) s =
     (case on_hw (line_get ho l) s of
        (v, s1) \<Rightarrow>
          if v = 0 then (True, s1)
          else if v < 0 then (False, s1)
          else if sx_millis ho s1 - start > timeout then (False, s1)
          else wait_busy_loop ho l timeout start n (sleep_us ho 50 s1))"

definition wait_rounds :: "u32 \<Rightarrow> nat" where
  "wait_rounds timeout = 20 * (unat timeout + 2)"

definition wait_busy :: "'c hw_ops \<Rightarrow> u32 \<Rightarrow> 'c step" where
  "wait_busy ho timeout s =
     (case sx_busy_line s of
        None \<Rightarrow> (True, s)
      | Some l \<Rightarrow> wait_busy_loop ho l timeout (sx_millis ho s) (wait_rounds timeout) s)"

definition kBusyTimeoutMs :: u32 where "kBusyTimeoutMs = 20"

text \<open>
  One transfer with the chip selected: the bytes clocked in, or nothing when BUSY, the select line or the
  transfer failed.
\<close>

definition transact :: "'c hw_ops \<Rightarrow> bytes \<Rightarrow> 'c Sx1262 \<Rightarrow> bytes option \<times> 'c Sx1262" where
  "transact ho tx s =
     (case wait_busy ho kBusyTimeoutMs s of
        (False, s1) \<Rightarrow> (None, s1)
      | (True, s1) \<Rightarrow>
          (case set_line ho False (sx_nss_line s1) s1 of
             (False, s2) \<Rightarrow> (None, s2)
           | (True, s2) \<Rightarrow>
               (case on_hw (spi_transfer ho tx (length tx) (sx_spi s2)) s2 of
                  (rx, s3) \<Rightarrow>
                    (case set_line ho True (sx_nss_line s3) s3 of
                       (ok, s4) \<Rightarrow> (if ok then rx else None, s4)))))"

definition cmd :: "'c hw_ops \<Rightarrow> byte \<Rightarrow> bytes \<Rightarrow> 'c step" where
  "cmd ho opcode args s =
     (case transact ho (opcode # args) s of
        (None, s1) \<Rightarrow> (False, s1)
      | (Some rx, s1) \<Rightarrow> (args = [] \<or> command_status_ok (rx ! 1), s1))"

text \<open>Reading: \<open>status\<close> is the position of the status byte, after which \<open>n\<close> bytes follow.\<close>

definition read_reply ::
  "'c hw_ops \<Rightarrow> bytes \<Rightarrow> nat \<Rightarrow> nat \<Rightarrow> 'c Sx1262 \<Rightarrow> bytes option \<times> 'c Sx1262" where
  "read_reply ho head status n s =
     (case transact ho (head @ replicate (Suc status + n - length head) 0) s of
        (None, s1) \<Rightarrow> (None, s1)
      | (Some rx, s1) \<Rightarrow> (if command_status_ok (rx ! status) then Some (drop (Suc status) rx) else None, s1))"

definition cmd_read :: "'c hw_ops \<Rightarrow> byte \<Rightarrow> nat \<Rightarrow> 'c Sx1262 \<Rightarrow> bytes option \<times> 'c Sx1262" where
  "cmd_read ho opcode n s = read_reply ho [opcode] 1 n s"

definition addr_bytes :: "u16 \<Rightarrow> bytes" where
  "addr_bytes a = [ucast (drop_bit 8 a), ucast a]"

definition write_register :: "'c hw_ops \<Rightarrow> u16 \<Rightarrow> bytes \<Rightarrow> 'c step" where
  "write_register ho addr data s = cmd ho kCmdWriteRegister (addr_bytes addr @ data) s"

definition read_register :: "'c hw_ops \<Rightarrow> u16 \<Rightarrow> nat \<Rightarrow> 'c Sx1262 \<Rightarrow> bytes option \<times> 'c Sx1262" where
  "read_register ho addr n s = read_reply ho (kCmdReadRegister # addr_bytes addr) 3 n s"

definition write_buffer :: "'c hw_ops \<Rightarrow> byte \<Rightarrow> bytes \<Rightarrow> 'c step" where
  "write_buffer ho offset data s = cmd ho kCmdWriteBuffer (offset # data) s"

definition read_buffer :: "'c hw_ops \<Rightarrow> byte \<Rightarrow> nat \<Rightarrow> 'c Sx1262 \<Rightarrow> bytes option \<times> 'c Sx1262" where
  "read_buffer ho offset n s = read_reply ho [kCmdReadBuffer, offset] 2 n s"

section \<open>Configuration\<close>

definition set_modulation :: "'c hw_ops \<Rightarrow> 'c step" where
  "set_modulation ho s =
    (let p = sx_params s
     in cmd ho kCmdSetModulationParams
          [rp_sf p, bw_code (rp_bw_khz p), rp_cr p - 4, if low_data_rate_optimize p then 0x01 else 0x00] s)"

definition set_packet_params :: "'c hw_ops \<Rightarrow> byte \<Rightarrow> 'c step" where
  "set_packet_params ho payload_len s =
    (let n = (word_of_nat (preamble_symbols (sx_params s)) :: u16)
     in cmd ho kCmdSetPacketParams [ucast (drop_bit 8 n), ucast n, 0x00, payload_len, 0x01, 0x00] s)"

definition set_rx_mode :: "'c hw_ops \<Rightarrow> 'c step" where
  "set_rx_mode ho s =
     all_of [\<lambda>s. set_line ho False (sx_txen_line s) s,
             \<lambda>s. set_line ho True (sx_rxen_line s) s,
             cmd ho kCmdClearIrqStatus [0xFF, 0xFF],
             cmd ho kCmdSetRx [0xFF, 0xFF, 0xFF]] s"

definition voltage_code :: "rat \<Rightarrow> byte" where
  "voltage_code v =
     (if v \<le> 165 / 100 then 0x00 else if v \<le> 175 / 100 then 0x01 else if v \<le> 2 then 0x02
      else if v \<le> 23 / 10 then 0x03 else if v \<le> 255 / 100 then 0x04 else if v \<le> 285 / 100 then 0x05
      else if v \<le> 315 / 100 then 0x06 else 0x07)"

definition start_tcxo :: "'c hw_ops \<Rightarrow> 'c step" where
  "start_tcxo ho s =
     all_of [cmd ho kCmdSetDio3AsTcxoCtrl [voltage_code (rp_tcxo_voltage (sx_params s)), 0x00, 0x01, 0x40],
             cmd ho kCmdCalibrate [0x7F],
             \<lambda>s. wait_busy ho kBusyTimeoutMs (sleep_us ho 5000 s),
             cmd ho kCmdClearDeviceErrors [0x00, 0x00]] s"

text \<open>The frequency in steps of 32 MHz / 2^25, and the 4 MHz bracket for the image calibration.\<close>

definition freq_word :: "rat \<Rightarrow> u32" where
  "freq_word mhz = word_of_int \<lfloor>mhz * 10 ^ 6 / (32 * 10 ^ 6) * 2 ^ 25 + 1 / 2\<rfloor>"

definition word_bytes :: "u32 \<Rightarrow> bytes" where
  "word_bytes v = [ucast (drop_bit 24 v), ucast (drop_bit 16 v), ucast (drop_bit 8 v), ucast v]"

definition img_lo :: "rat \<Rightarrow> byte" where
  "img_lo mhz = word_of_int \<lfloor>(mhz - 4 - 1) / 4\<rfloor>"

definition img_hi :: "rat \<Rightarrow> byte" where
  "img_hi mhz = word_of_int \<lceil>(mhz + 4 + 1) / 4\<rceil>"

definition adjust_register :: "'c hw_ops \<Rightarrow> u16 \<Rightarrow> (byte \<Rightarrow> byte) \<Rightarrow> 'c step" where
  "adjust_register ho addr f s =
     (case read_register ho addr 1 s of
        (None, s1) \<Rightarrow> (False, s1)
      | (Some v, s1) \<Rightarrow> write_register ho addr [f (v ! 0)] s1)"

definition ocp_code :: "int \<Rightarrow> byte" where
  "ocp_code ma = word_of_int \<lfloor>min (of_int ma / (25 / 10)) (63 :: rat)\<rfloor>"

definition kIrqDio1 :: u16 where
  "kIrqDio1 = kIrqTxDone OR kIrqRxDone OR kIrqCrcErr OR kIrqHeaderErr OR kIrqTimeout"

definition kIrqLatched :: u16 where
  "kIrqLatched = kIrqDio1 OR kIrqPreambleDetected OR kIrqHeaderValid"

definition irq_bytes :: "u16 \<Rightarrow> bytes" where
  "irq_bytes v = [ucast (drop_bit 8 v), ucast v]"

definition read_device_errors :: "'c hw_ops \<Rightarrow> 'c step" where
  "read_device_errors ho s = (case cmd_read ho kCmdGetDeviceErrors 2 s of (r, s1) \<Rightarrow> (r \<noteq> None, s1))"

definition configure :: "'c hw_ops \<Rightarrow> 'c step" where
  "configure ho s =
    (let p = sx_params s
     in all_of
         [cmd ho kCmdSetStandby [kStandbyRc],
          when_step (rp_tcxo_voltage p > 0) (start_tcxo ho),
          cmd ho kCmdSetRegulatorMode [0x01],
          when_step (rp_dio2_as_rf_switch p) (cmd ho kCmdSetDio2AsRfSwitch [0x01]),
          cmd ho kCmdSetPacketType [kPacketTypeLoRa],
          cmd ho kCmdSetRfFrequency (word_bytes (freq_word (rp_freq_mhz p))),
          cmd ho kCmdCalibrateImage [img_lo (rp_freq_mhz p), img_hi (rp_freq_mhz p)],
          cmd ho kCmdSetPaConfig [0x04, 0x07, 0x00, 0x01],
          adjust_register ho kRegTxClampConfig (\<lambda>v. v OR 0x1E),
          adjust_register ho kRegSensitivityConfig
            (\<lambda>v. if \<bar>rp_bw_khz p - 500\<bar> \<le> 1 / 1000 then v AND 0xFB else v OR 0x04),
          write_register ho kRegOcpConfig [ocp_code (rp_current_limit_ma p)],
          cmd ho kCmdSetTxParams
            [word_of_int (max kMinTxPowerDbm (min kMaxTxPowerDbm (rp_tx_power_dbm p))), 0x04],
          set_modulation ho,
          set_packet_params ho 0xFF,
          write_register ho kRegLoRaSyncWordMsb
            [(kSyncWord AND 0xF0) OR 0x04, push_bit 4 (kSyncWord AND 0x0F) OR 0x04],
          write_register ho kRegRxGain [if rp_rx_boosted_gain p then 0x96 else 0x94],
          cmd ho kCmdSetBufferBaseAddress [0x00, 0x00],
          cmd ho kCmdSetRxTxFallbackMode [0x20],
          cmd ho kCmdSetDioIrqParams (irq_bytes kIrqLatched @ irq_bytes kIrqDio1 @ [0x00, 0x00, 0x00, 0x00]),
          read_device_errors ho] s)"

section \<open>Bring-up\<close>

text \<open>The retries of the first command after a reset: a second of them, ten milliseconds apart.\<close>

fun standby_loop :: "'c hw_ops \<Rightarrow> u32 \<Rightarrow> nat \<Rightarrow> 'c step" where
  "standby_loop ho deadline 0 s = (False, s)"
| "standby_loop ho deadline (Suc n) s =
     (case cmd ho kCmdSetStandby [kStandbyRc] s of
        (True, s1) \<Rightarrow> (True, s1)
      | (False, s1) \<Rightarrow>
          if sdiff (sx_millis ho s1) deadline \<ge> 0 then (False, s1)
          else standby_loop ho deadline n (sleep_us ho 10000 s1))"

definition kStandbyRounds :: nat where "kStandbyRounds = 102"

definition set_present_line :: "'c hw_ops \<Rightarrow> bool \<Rightarrow> GpioLine option \<Rightarrow> 'c step" where
  "set_present_line ho v l s = (case l of None \<Rightarrow> (False, s) | Some g \<Rightarrow> on_hw (line_set ho v g) s)"

definition reset_chip :: "'c hw_ops \<Rightarrow> 'c step" where
  "reset_chip ho s =
     all_of [\<lambda>s. set_present_line ho False (sx_reset_line s) s,
             \<lambda>s. set_present_line ho True (sx_reset_line s) (sleep_us ho 2000 s),
             \<lambda>s. wait_busy ho 1000 (sleep_us ho 20000 s),
             \<lambda>s. standby_loop ho (sx_millis ho s + 1000) kStandbyRounds s] s"

definition chip_responding :: "'c hw_ops \<Rightarrow> 'c step" where
  "chip_responding ho s =
     (case read_register ho kRegVersionString 6 s of
        (None, s1) \<Rightarrow> (False, s1)
      | (Some v, s1) \<Rightarrow> (take 5 v = str ''SX126'', s1))"

definition bring_up :: "'c hw_ops \<Rightarrow> 'c step" where
  "bring_up ho s =
     all_of [reset_chip ho, chip_responding ho, configure ho, set_rx_mode ho,
             \<lambda>s. (True, s\<lparr>sx_healthy := True\<rparr>)] s"

section \<open>Recovery\<close>

definition drop_paths :: "'c hw_ops \<Rightarrow> 'c Sx1262 \<Rightarrow> 'c Sx1262" where
  "drop_paths ho s =
    (let s1 = snd (set_line ho False (sx_txen_line s) s)
     in snd (set_line ho False (sx_rxen_line s1) s1))"

definition recovery_failed :: "'c hw_ops \<Rightarrow> 'c Sx1262 \<Rightarrow> 'c Sx1262" where
  "recovery_failed ho s =
     (drop_paths ho (s\<lparr>sx_recovering := False, sx_recovery_timer := None\<rparr>))
       \<lparr>sx_initial_failure_reported := True\<rparr>"

definition start_recovery :: "'c hw_ops \<Rightarrow> 'c Sx1262 \<Rightarrow> 'c Sx1262" where
  "start_recovery ho s =
     (if \<not> sx_loop s \<or> sx_healthy s \<or> sx_recovering s \<or> \<not> has_frequency (sx_params s) then s
      else
        let s1 = s\<lparr>sx_recovering := True\<rparr>
        in case sx_reset_line s1 of
             None \<Rightarrow> recovery_failed ho s1
           | Some l \<Rightarrow>
               (case on_hw (line_set ho False l) s1 of
                  (False, s2) \<Rightarrow> recovery_failed ho s2
                | (True, s2) \<Rightarrow> s2\<lparr>sx_recovery_timer := Some (2, ReleaseReset)\<rparr>))"

definition release_reset :: "'c hw_ops \<Rightarrow> 'c Sx1262 \<Rightarrow> 'c Sx1262" where
  "release_reset ho s =
     (if \<not> sx_recovering s then s
      else case set_present_line ho True (sx_reset_line s) s of
             (False, s1) \<Rightarrow> recovery_failed ho s1
           | (True, s1) \<Rightarrow> s1\<lparr>sx_recovery_deadline_ms := sx_millis ho s1 + 1000,
                               sx_recovery_timer := Some (20, PollResetBusy)\<rparr>)"

text \<open>Not ready yet: try again in ten milliseconds, unless the second is over.\<close>

definition poll_again :: "'c hw_ops \<Rightarrow> 'c Sx1262 \<Rightarrow> 'c Sx1262" where
  "poll_again ho s =
     (if sdiff (sx_millis ho s) (sx_recovery_deadline_ms s) \<ge> 0 then recovery_failed ho s
      else s\<lparr>sx_recovery_timer := Some (10, PollResetBusy)\<rparr>)"

definition poll_reset_busy :: "'c hw_ops \<Rightarrow> 'c Sx1262 \<Rightarrow> 'c Sx1262" where
  "poll_reset_busy ho s =
     (if \<not> sx_recovering s then s
      else
        case (case sx_busy_line s of None \<Rightarrow> (0, s) | Some l \<Rightarrow> on_hw (line_get ho l) s) of
          (busy, s1) \<Rightarrow>
            if busy < 0 then recovery_failed ho s1
            else if busy > 0 then poll_again ho s1
            else (case cmd ho kCmdSetStandby [kStandbyRc] s1 of
                    (False, s2) \<Rightarrow> poll_again ho s2
                  | (True, s2) \<Rightarrow>
                      (case all_of [chip_responding ho, configure ho, set_rx_mode ho] s2 of
                         (False, s3) \<Rightarrow> recovery_failed ho s3
                       | (True, s3) \<Rightarrow>
                           s3\<lparr>sx_healthy := True, sx_recovering := False, sx_ever_healthy := True\<rparr>)))"

text \<open>The one-shot recovery timer fires: it is reset, then runs its step.\<close>

definition recovery_timer_fired :: "'c hw_ops \<Rightarrow> 'c Sx1262 \<Rightarrow> 'c Sx1262" where
  "recovery_timer_fired ho s =
     (case sx_recovery_timer s of
        None \<Rightarrow> s
      | Some (delay, ReleaseReset) \<Rightarrow> release_reset ho (s\<lparr>sx_recovery_timer := None\<rparr>)
      | Some (delay, PollResetBusy) \<Rightarrow> poll_reset_busy ho (s\<lparr>sx_recovery_timer := None\<rparr>))"

section \<open>Going down and up\<close>

definition go_down :: "'c hw_ops \<Rightarrow> 'c Sx1262 \<Rightarrow> radio_event list \<times> 'c Sx1262" where
  "go_down ho s =
    (let s1 = drop_paths ho (s\<lparr>sx_initial_failure_reported := True, sx_healthy := False, sx_retune_pending := False\<rparr>)
     in if sx_tx_busy s1 then ([TxDone 0], s1\<lparr>sx_tx_busy := False, sx_tx_timeout := None\<rparr>) else ([], s1))"

text \<open>\<^verbatim>\<open>fail\<close> logs and goes down.\<close>

definition rx_or_down :: "'c hw_ops \<Rightarrow> 'c Sx1262 \<Rightarrow> radio_event list \<times> 'c Sx1262" where
  "rx_or_down ho s = (case set_rx_mode ho s of (True, s1) \<Rightarrow> ([], s1) | (False, s1) \<Rightarrow> go_down ho s1)"

definition supervise :: "'c hw_ops \<Rightarrow> 'c Sx1262 \<Rightarrow> radio_event list \<times> 'c Sx1262" where
  "supervise ho s =
     (if sx_recovering s then ([], s)
      else if sx_healthy s then
        if sx_tx_busy s then ([], s)
        else (case chip_responding ho s of
                (True, s1) \<Rightarrow> ([], s1)
              | (False, s1) \<Rightarrow> go_down ho s1)
      else ([], start_recovery ho s))"

definition retune :: "'c hw_ops \<Rightarrow> 'c Sx1262 \<Rightarrow> radio_event list \<times> 'c Sx1262" where
  "retune ho s =
     (case configure ho (s\<lparr>sx_retune_pending := False\<rparr>) of
        (False, s1) \<Rightarrow> go_down ho s1
      | (True, s1) \<Rightarrow> rx_or_down ho s1)"

definition reconfigure :: "'c hw_ops \<Rightarrow> RadioParams \<Rightarrow> 'c Sx1262 \<Rightarrow> radio_event list \<times> 'c Sx1262" where
  "reconfigure ho p s =
    (let before = (sx_params s)\<lparr>rp_duty_cycle_pct := rp_duty_cycle_pct p\<rparr>;
         s1 = s\<lparr>sx_params := p\<rparr>
     in if before = p \<or> \<not> sx_loop s1 then ([], s1)
        else if sx_healthy s1 then
          if sx_tx_busy s1 then ([], s1\<lparr>sx_retune_pending := True\<rparr>) else retune ho s1
        else if has_frequency before then ([], s1)
        else if sx_retry_interval_ms s1 > 0 then ([], start_recovery ho s1)
        else (case bring_up ho s1 of
                (False, s2) \<Rightarrow> ([], s2)
              | (True, s2) \<Rightarrow> ([], s2\<lparr>sx_ever_healthy := True\<rparr>)))"

definition after_tx :: "'c hw_ops \<Rightarrow> 'c Sx1262 \<Rightarrow> radio_event list \<times> 'c Sx1262" where
  "after_tx ho s = (if sx_retune_pending s then retune ho s else rx_or_down ho s)"

section \<open>Transmit and receive\<close>

definition symbols_ms :: "RadioParams \<Rightarrow> nat \<Rightarrow> u32" where
  "symbols_ms p n =
     (if rp_sf p < 5 \<or> rp_bw_khz p \<le> 0 then 0
      else word_of_int \<lfloor>2 ^ unat (rp_sf p) / rp_bw_khz p * of_nat n\<rfloor> + 1)"

definition irq_of :: "bytes \<Rightarrow> u16" where
  "irq_of st = push_bit 8 (ucast (st ! 0)) OR ucast (st ! 1)"

definition sx_channel_busy :: "'c hw_ops \<Rightarrow> 'c step" where
  "sx_channel_busy ho s =
     (if \<not> sx_healthy s \<or> sx_tx_busy s then (False, s)
      else case cmd_read ho kCmdGetIrqStatus 2 s of
             (None, s1) \<Rightarrow> (False, s1)
           | (Some st, s1) \<Rightarrow>
               let irq = irq_of st
               in if irq AND (kIrqPreambleDetected OR kIrqHeaderValid) = 0
                  then (False, s1\<lparr>sx_rx_since_ms := 0\<rparr>)
                  else
                    let now = sx_millis ho s1;
                        since = (if sx_rx_since_ms s1 = 0 then now else sx_rx_since_ms s1);
                        deadline = (if irq AND kIrqHeaderValid \<noteq> 0 then airtime_ms (sx_params s1) kSxMaxPayloadSize
                                    else symbols_ms (sx_params s1) (preamble_symbols (sx_params s1) + kHeaderSymbols))
                    in if now - since > deadline
                       then (False, (snd (cmd ho kCmdClearIrqStatus
                                       (irq_bytes (kIrqPreambleDetected OR kIrqHeaderValid)) s1))\<lparr>sx_rx_since_ms := 0\<rparr>)
                       else (True, s1\<lparr>sx_rx_since_ms := since\<rparr>))"

text \<open>The steps of \<^verbatim>\<open>send\<close>; a \<open>SetTx\<close> that fails takes the transmit path down again.\<close>

definition start_tx :: "'c hw_ops \<Rightarrow> bytes \<Rightarrow> 'c step" where
  "start_tx ho data s =
     all_of [cmd ho kCmdSetStandby [kStandbyRc],
             set_packet_params ho (word_of_nat (length data)),
             cmd ho kCmdSetBufferBaseAddress [0x00, 0x00],
             write_buffer ho 0x00 data,
             cmd ho kCmdClearIrqStatus [0xFF, 0xFF],
             \<lambda>s. set_line ho False (sx_rxen_line s) s,
             \<lambda>s. set_line ho True (sx_txen_line s) s,
             \<lambda>s. (case cmd ho kCmdSetTx [0x00, 0x00, 0x00] s of
                    (True, s1) \<Rightarrow> (True, s1)
                  | (False, s1) \<Rightarrow> (False, snd (set_line ho False (sx_txen_line s1) s1)))] s"

definition send :: "'c hw_ops \<Rightarrow> bytes \<Rightarrow> 'c Sx1262 \<Rightarrow> bool \<times> radio_event list \<times> 'c Sx1262" where
  "send ho data s =
     (if \<not> sx_healthy s \<or> sx_tx_busy s then (False, [], s)
      else if data = [] \<or> length data > 255 then (False, [], s)
      else case start_tx ho data s of
             (False, s1) \<Rightarrow> (False, go_down ho s1)
           | (True, s1) \<Rightarrow>
               (True, [], s1\<lparr>sx_tx_busy := True, sx_tx_started_ms := sx_millis ho s1,
                             sx_tx_timeout := Some (airtime_ms (sx_params s1) (length data) + 2000)\<rparr>))"

definition tx_timeout_fired :: "'c hw_ops \<Rightarrow> 'c Sx1262 \<Rightarrow> radio_event list \<times> 'c Sx1262" where
  "tx_timeout_fired ho s =
    (let s0 = s\<lparr>sx_tx_timeout := None\<rparr>
     in if \<not> sx_tx_busy s0 then ([], s0)
        else case after_tx ho (s0\<lparr>sx_tx_busy := False\<rparr>) of
               (evs, s1) \<Rightarrow> (evs @ [TxDone 0], s1))"

definition handle_tx_done :: "'c hw_ops \<Rightarrow> 'c Sx1262 \<Rightarrow> radio_event list \<times> 'c Sx1262" where
  "handle_tx_done ho s =
     (if \<not> sx_tx_busy s then ([], s)
      else
        let s1 = snd (set_line ho False (sx_txen_line s) (s\<lparr>sx_tx_busy := False, sx_tx_timeout := None\<rparr>));
            airtime = sx_millis ho s1 - sx_tx_started_ms s1
        in case after_tx ho s1 of (evs, s2) \<Rightarrow> (evs @ [TxDone airtime], s2))"

text \<open>Signal strength as the chip reports it: \<^verbatim>\<open>-status[0] / 2\<close> rounded towards zero, and quarter decibels.\<close>

definition status_rssi :: "bytes \<Rightarrow> int" where
  "status_rssi st = - (uint (st ! 0) div 2)"

definition status_snr :: "bytes \<Rightarrow> rat" where
  "status_snr st = of_int (sint (st ! 1)) / 4"

definition handle_rx_done :: "'c hw_ops \<Rightarrow> 'c Sx1262 \<Rightarrow> radio_event list \<times> 'c Sx1262" where
  "handle_rx_done ho s =
     (case cmd_read ho kCmdGetRxBufferStatus 2 s of
        (None, s1) \<Rightarrow> go_down ho s1
      | (Some b, s1) \<Rightarrow>
          if b ! 0 = 0 then rx_or_down ho s1
          else (case read_buffer ho (b ! 1) (unat (b ! 0)) s1 of
                  (None, s2) \<Rightarrow> go_down ho s2
                | (Some data, s2) \<Rightarrow>
                    (case cmd_read ho kCmdGetPacketStatus 3 s2 of
                       (None, s3) \<Rightarrow> go_down ho s3
                     | (Some st, s3) \<Rightarrow>
                         (case set_rx_mode ho s3 of
                            (False, s4) \<Rightarrow> go_down ho s4
                          | (True, s4) \<Rightarrow>
                              ([Received \<lparr>rx_data = data, rx_rssi = status_rssi st, rx_snr = status_snr st,
                                          rx_at = sx_millis ho s4\<rparr>], s4)))))"

definition rx_failure :: "'c hw_ops \<Rightarrow> u16 \<Rightarrow> 'c Sx1262 \<Rightarrow> RxFailure \<times> 'c Sx1262" where
  "rx_failure ho irq s =
    (let e = (if irq AND kIrqCrcErr \<noteq> 0 then CrcError
              else if irq AND kIrqHeaderErr \<noteq> 0 then HeaderError else Timeout);
         f = \<lparr>rf_error = e, rf_has_signal = False, rf_rssi = 0, rf_snr = 0\<rparr>
     in if e = Timeout then (f, s)
        else case cmd_read ho kCmdGetPacketStatus 3 s of
               (None, s1) \<Rightarrow> (f, s1)
             | (Some st, s1) \<Rightarrow> (f\<lparr>rf_has_signal := True, rf_rssi := status_rssi st, rf_snr := status_snr st\<rparr>, s1))"

definition handle_irq :: "'c hw_ops \<Rightarrow> u16 \<Rightarrow> 'c Sx1262 \<Rightarrow> radio_event list \<times> 'c Sx1262" where
  "handle_irq ho irq s =
     (if irq AND (kIrqCrcErr OR kIrqHeaderErr OR kIrqTimeout) \<noteq> 0
      then (case rx_failure ho irq s of
              (f, s1) \<Rightarrow> (case rx_or_down ho s1 of (evs, s2) \<Rightarrow> (ReceiveFailed f # evs, s2)))
      else if irq AND kIrqRxDone \<noteq> 0 then handle_rx_done ho s
      else ([], s))"

definition on_irq :: "'c hw_ops \<Rightarrow> 'c Sx1262 \<Rightarrow> radio_event list \<times> 'c Sx1262" where
  "on_irq ho s =
     (case sx_irq_line s of
        None \<Rightarrow> ([], s)
      | Some l \<Rightarrow>
          (case on_hw (drain_events ho l) s of
             (n, s1) \<Rightarrow>
               if n < 0 \<or> \<not> sx_healthy s1 then ([], s1)
               else (case cmd_read ho kCmdGetIrqStatus 2 s1 of
                       (None, s2) \<Rightarrow> go_down ho s2
                     | (Some st, s2) \<Rightarrow>
                         let irq = irq_of st
                         in if irq = 0 then ([], s2)
                            else (case cmd ho kCmdClearIrqStatus (irq_bytes irq) s2 of
                                    (False, s3) \<Rightarrow> go_down ho s3
                                  | (True, s3) \<Rightarrow>
                                      (case (if irq AND kIrqTxDone \<noteq> 0 then handle_tx_done ho s3 else ([], s3)) of
                                         (evs, s4) \<Rightarrow>
                                           if irq AND kIrqTxDone \<noteq> 0 \<and> \<not> sx_healthy s4 then (evs, s4)
                                           else (case handle_irq ho irq s4 of
                                                   (evs', s5) \<Rightarrow> (evs @ evs', s5)))))))"

section \<open>Start and end\<close>

text \<open>Requesting an optional line, a pin below zero being one that is not wired.\<close>

definition request_line ::
  "'c hw_ops \<Rightarrow> int \<Rightarrow> LineMode \<Rightarrow> 'c Sx1262 \<Rightarrow> GpioLine option \<times> 'c Sx1262" where
  "request_line ho pin mode s = on_hw (chip_request ho (nat pin) mode (sx_chip s)) s"

definition open_line ::
  "'c hw_ops \<Rightarrow> int \<Rightarrow> LineMode \<Rightarrow> (GpioLine option \<Rightarrow> 'c Sx1262 \<Rightarrow> 'c Sx1262) \<Rightarrow> 'c step" where
  "open_line ho pin mode put s =
     (case request_line ho pin mode s of (l, s1) \<Rightarrow> (l \<noteq> None, put l s1))"

definition open_spi :: "'c hw_ops \<Rightarrow> 'c step" where
  "open_spi ho s =
     (case spi_open ho (pn_spidev (sx_pins s)) (pn_spi_speed_hz (sx_pins s)) (sx_spi s) (sx_hw s) of
        (ok, d, c) \<Rightarrow> (ok, s\<lparr>sx_spi := d, sx_hw := c\<rparr>))"

definition open_chip :: "'c hw_ops \<Rightarrow> 'c step" where
  "open_chip ho s =
     (case chip_open ho (pn_gpiochip (sx_pins s)) (sx_chip s) (sx_hw s) of
        (ok, g, c) \<Rightarrow> (ok, s\<lparr>sx_chip := g, sx_hw := c\<rparr>))"

definition open_devices :: "'c hw_ops \<Rightarrow> 'c step" where
  "open_devices ho s =
    (let p = sx_pins s
     in all_of
         [open_spi ho, open_chip ho,
          \<lambda>s. (\<not> (pn_reset p < 0 \<or> pn_busy p < 0 \<or> pn_irq p < 0), s),
          open_line ho (pn_reset p) (LineOutput True) (\<lambda>l s. s\<lparr>sx_reset_line := l\<rparr>),
          open_line ho (pn_busy p) LineInput (\<lambda>l s. s\<lparr>sx_busy_line := l\<rparr>),
          open_line ho (pn_irq p) LineRisingEdge (\<lambda>l s. s\<lparr>sx_irq_line := l\<rparr>),
          when_step (pn_nss p \<ge> 0) (open_line ho (pn_nss p) (LineOutput True) (\<lambda>l s. s\<lparr>sx_nss_line := l\<rparr>)),
          when_step (pn_rxen p \<ge> 0) (open_line ho (pn_rxen p) (LineOutput False) (\<lambda>l s. s\<lparr>sx_rxen_line := l\<rparr>)),
          when_step (pn_txen p \<ge> 0) (open_line ho (pn_txen p) (LineOutput False) (\<lambda>l s. s\<lparr>sx_txen_line := l\<rparr>))] s)"

definition sx_begin :: "'c hw_ops \<Rightarrow> 'c step" where
  "sx_begin ho s =
     (case open_devices ho (s\<lparr>sx_loop := True\<rparr>) of
        (False, s1) \<Rightarrow> (False, s1)
      | (True, s1) \<Rightarrow>
          let s2 = s1\<lparr>sx_irq_watch := True\<rparr>
          in if sx_retry_interval_ms s2 = 0 then
               if \<not> has_frequency (sx_params s2) then (True, s2)
               else (case bring_up ho s2 of
                       (False, s3) \<Rightarrow> (False, s3)
                     | (True, s3) \<Rightarrow> (True, s3\<lparr>sx_ever_healthy := True\<rparr>))
             else (True, start_recovery ho (s2\<lparr>sx_supervise_timer := Some (sx_retry_interval_ms s2)\<rparr>)))"

definition release_lines :: "'c hw_ops \<Rightarrow> 'c Sx1262 \<Rightarrow> 'c Sx1262" where
  "release_lines ho s =
     s\<lparr>sx_hw := fold (line_reset ho) [sx_irq_line s, sx_busy_line s, sx_reset_line s, sx_nss_line s, sx_rxen_line s,
                  sx_txen_line s] (sx_hw s),
       sx_irq_line := None, sx_busy_line := None, sx_reset_line := None, sx_nss_line := None,
       sx_rxen_line := None, sx_txen_line := None\<rparr>"

definition close_devices :: "'c hw_ops \<Rightarrow> 'c Sx1262 \<Rightarrow> 'c Sx1262" where
  "close_devices ho s =
     (case chip_close ho (sx_chip s) (sx_hw s) of (g, c) \<Rightarrow>
      case spi_close ho (sx_spi s) c of (d, c') \<Rightarrow> s\<lparr>sx_chip := g, sx_spi := d, sx_hw := c'\<rparr>)"

definition sx_shutdown :: "'c hw_ops \<Rightarrow> 'c Sx1262 \<Rightarrow> 'c Sx1262" where
  "sx_shutdown ho s =
    (let s1 = s\<lparr>sx_irq_watch := False, sx_supervise_timer := None, sx_recovery_timer := None, sx_tx_timeout := None,
                sx_recovering := False, sx_tx_busy := False, sx_retune_pending := False\<rparr>;
         s2 = (if sx_healthy s1
               then snd (cmd ho kCmdSetSleep [0x00] (snd (cmd ho kCmdSetStandby [kStandbyRc] s1))) else s1)
     in close_devices ho (release_lines ho (s2\<lparr>sx_healthy := False\<rparr>)))"

section \<open>The driver as a radio\<close>

text \<open>
  Seen through \<^verbatim>\<open>Radio\<close>. None of these calls delivers an event: a transmission in flight is the only
  thing that could be reported, and these calls leave one alone.
\<close>

definition sx_radio :: "'c hw_ops \<Rightarrow> 'c Sx1262 radio_ops" where
  "sx_radio ho =
     \<lparr>tx_busy = sx_tx_busy, ready = sx_healthy, params = sx_params, channel_busy = sx_channel_busy ho,
      radio_send = (\<lambda>data s. case send ho data s of (ok, evs, s1) \<Rightarrow> (ok, s1)),
      radio_reconfigure = (\<lambda>p s. snd (reconfigure ho p s))\<rparr>"

end
