(* ===== verification/Driver.thy ===== *)
theory Driver
  imports Sx1262
begin

text \<open>
  What the SX1262 driver of \<open>Sx1262\<close> guarantees, whatever the hardware does: its state machine, its reports,
  its behaviour without power, what it programs, and that its waits end.
\<close>

section \<open>Steps that only touch the hardware\<close>

text \<open>The driver's own fields, the hardware left out.\<close>

definition own :: "'c Sx1262 \<Rightarrow> 'c Sx1262" where
  "own s = s\<lparr>sx_hw := undefined\<rparr>"

named_theorems own_steps \<open>the driver's steps that only touch the hardware\<close>

lemma own_hw [simp]: "own (s\<lparr>sx_hw := c\<rparr>) = own s"
  by (simp add: own_def)

lemma ownE:
  assumes "own s1 = own s"
  obtains c where "s1 = s\<lparr>sx_hw := c\<rparr>"
proof -
  have "s1 = (own s1)\<lparr>sx_hw := sx_hw s1\<rparr>" by (simp add: own_def)
  also have "\<dots> = s\<lparr>sx_hw := sx_hw s1\<rparr>" unfolding assms by (simp add: own_def)
  finally show thesis by (rule that)
qed

lemma own_on_hw [own_steps]: "on_hw f s = (x, s1) \<Longrightarrow> own s1 = own s"
  by (auto simp: on_hw_def split: prod.splits)

lemma own_sleep [simp]: "own (sleep_us ho us s) = own s"
  by (simp add: sleep_us_def)

lemma own_set_line [own_steps]: "set_line ho v l s = (b, s1) \<Longrightarrow> own s1 = own s"
  by (auto simp: set_line_def dest: own_steps split: option.splits)

lemma own_snd_set_line [simp]: "own (snd (set_line ho v l s)) = own s"
  by (metis own_set_line prod.collapse)

lemma own_set_present_line [own_steps]: "set_present_line ho v l s = (b, s1) \<Longrightarrow> own s1 = own s"
  by (auto simp: set_present_line_def dest: own_steps split: option.splits)

lemma all_of_keeps:
  assumes "all_of fs s = (b, s1)" and "\<And>f s b s1. f \<in> set fs \<Longrightarrow> f s = (b, s1) \<Longrightarrow> g s1 = g s"
  shows "g s1 = g s"
  using assms by (induction fs arbitrary: s) (fastforce split: prod.splits bool.splits)+

lemmas own_all_of = all_of_keeps [where g = own]

lemma own_when_step [own_steps]:
  "\<lbrakk>when_step c f s = (b, s1); \<And>s b s1. f s = (b, s1) \<Longrightarrow> own s1 = own s\<rbrakk> \<Longrightarrow> own s1 = own s"
  by (auto simp: when_step_def split: if_splits)

lemma own_wait_loop: "wait_busy_loop ho l timeout start n s = (b, s1) \<Longrightarrow> own s1 = own s"
  by (induction n arbitrary: s) (fastforce split: prod.splits if_splits dest: own_steps)+

lemma own_wait_busy [own_steps]: "wait_busy ho timeout s = (b, s1) \<Longrightarrow> own s1 = own s"
  by (auto simp: wait_busy_def dest: own_wait_loop split: option.splits)

lemma own_transact [own_steps]: "transact ho tx s = (r, s1) \<Longrightarrow> own s1 = own s"
  by (auto simp: transact_def dest!: own_steps split: prod.splits bool.splits)

lemma own_cmd [own_steps]: "cmd ho opcode args s = (b, s1) \<Longrightarrow> own s1 = own s"
  by (auto simp: cmd_def dest: own_steps split: prod.splits option.splits)

lemma own_read_reply [own_steps]: "read_reply ho head status n s = (r, s1) \<Longrightarrow> own s1 = own s"
  by (auto simp: read_reply_def dest: own_steps split: prod.splits option.splits)

lemma own_cmd_read [own_steps]: "cmd_read ho opcode n s = (r, s1) \<Longrightarrow> own s1 = own s"
  by (auto simp: cmd_read_def dest: own_steps)

lemma own_read_register [own_steps]: "read_register ho addr n s = (r, s1) \<Longrightarrow> own s1 = own s"
  by (auto simp: read_register_def dest: own_steps)

lemma own_read_buffer [own_steps]: "read_buffer ho offset n s = (r, s1) \<Longrightarrow> own s1 = own s"
  by (auto simp: read_buffer_def dest: own_steps)

lemma own_write_register [own_steps]: "write_register ho addr data s = (b, s1) \<Longrightarrow> own s1 = own s"
  by (auto simp: write_register_def dest: own_steps)

lemma own_write_buffer [own_steps]: "write_buffer ho offset data s = (b, s1) \<Longrightarrow> own s1 = own s"
  by (auto simp: write_buffer_def dest: own_steps)

lemma own_set_modulation [own_steps]: "set_modulation ho s = (b, s1) \<Longrightarrow> own s1 = own s"
  by (auto simp: set_modulation_def Let_def dest: own_steps)

lemma own_set_packet_params [own_steps]: "set_packet_params ho n s = (b, s1) \<Longrightarrow> own s1 = own s"
  by (auto simp: set_packet_params_def Let_def dest: own_steps)

lemma own_adjust_register [own_steps]: "adjust_register ho addr f s = (b, s1) \<Longrightarrow> own s1 = own s"
  by (auto simp: adjust_register_def dest!: own_steps split: prod.splits option.splits)

lemma own_read_device_errors [own_steps]: "read_device_errors ho s = (b, s1) \<Longrightarrow> own s1 = own s"
  by (auto simp: read_device_errors_def dest!: own_steps split: prod.splits)

lemma own_set_rx_mode [own_steps]: "set_rx_mode ho s = (b, s1) \<Longrightarrow> own s1 = own s"
  unfolding set_rx_mode_def by (erule own_all_of) (auto dest: own_steps)

lemma own_start_tcxo [own_steps]: "start_tcxo ho s = (b, s1) \<Longrightarrow> own s1 = own s"
  unfolding start_tcxo_def by (erule own_all_of) (auto dest: own_steps)

lemma own_configure [own_steps]: "configure ho s = (b, s1) \<Longrightarrow> own s1 = own s"
  unfolding configure_def Let_def
  by (erule own_all_of) (auto dest: own_steps elim!: own_when_step)

lemma own_standby_loop: "standby_loop ho deadline n s = (b, s1) \<Longrightarrow> own s1 = own s"
  by (induction n arbitrary: s) (fastforce split: prod.splits bool.splits if_splits dest: own_steps)+

lemma own_reset_chip [own_steps]: "reset_chip ho s = (b, s1) \<Longrightarrow> own s1 = own s"
  unfolding reset_chip_def by (erule own_all_of) (auto dest: own_steps own_standby_loop)

lemma own_chip_responding [own_steps]: "chip_responding ho s = (b, s1) \<Longrightarrow> own s1 = own s"
  by (auto simp: chip_responding_def dest!: own_steps split: prod.splits option.splits)

lemma own_start_tx [own_steps]: "start_tx ho data s = (b, s1) \<Longrightarrow> own s1 = own s"
  unfolding start_tx_def
  by (erule own_all_of) (auto dest!: own_steps split: prod.splits bool.splits)

lemma own_drop_paths [simp]: "own (drop_paths ho s) = own s"
  by (auto simp: drop_paths_def Let_def dest!: own_steps split: prod.splits)

lemma own_snd_cmd [simp]: "own (snd (cmd ho opcode args s)) = own s"
  by (metis own_cmd prod.collapse)

lemma own_bring_up:
  assumes "bring_up ho s = (b, s1)"
  shows "own s1 = own (if b then s\<lparr>sx_healthy := True\<rparr> else s)"
  using assms unfolding bring_up_def
  by (auto simp: own_def dest!: own_steps elim!: ownE split: prod.splits bool.splits)

section \<open>The driver as a state machine\<close>

text \<open>
  What calls the driver while it runs: the dispatcher (\<^verbatim>\<open>send\<close>, \<^verbatim>\<open>channel_busy\<close>), the settings
  (\<^verbatim>\<open>reconfigure\<close>), and the event loop for the interrupt line and the three timers. A timer that is not
  armed does not fire.
\<close>

datatype driver_event =
    SendPacket bytes
  | AskChannel
  | Reconfigure RadioParams
  | IrqEdge
  | TxTimeout
  | RecoveryTimer
  | SuperviseTimer

primrec armed :: "'t option \<Rightarrow> bool" where
  "armed None = False"
| "armed (Some t) = True"

record 'c driver_world =
  dw_driver :: "'c Sx1262"
  dw_accepted :: nat
  dw_events :: "radio_event list"

definition deliver :: "radio_event list \<times> 'c Sx1262 \<Rightarrow> 'c driver_world \<Rightarrow> 'c driver_world" where
  "deliver r w = (case r of (evs, s) \<Rightarrow> w\<lparr>dw_driver := s, dw_events := dw_events w @ evs\<rparr>)"

definition driver_step :: "'c hw_ops \<Rightarrow> driver_event \<Rightarrow> 'c driver_world \<Rightarrow> 'c driver_world" where
  "driver_step ho e w =
    (let s = dw_driver w
     in case e of
          SendPacket data \<Rightarrow>
            (case send ho data s of
               (ok, r) \<Rightarrow> deliver r (w\<lparr>dw_accepted := dw_accepted w + (if ok then 1 else 0)\<rparr>))
        | AskChannel \<Rightarrow> deliver ([], snd (sx_channel_busy ho s)) w
        | Reconfigure p \<Rightarrow> deliver (reconfigure ho p s) w
        | IrqEdge \<Rightarrow> if sx_irq_watch s then deliver (on_irq ho s) w else w
        | TxTimeout \<Rightarrow> if armed (sx_tx_timeout s) then deliver (tx_timeout_fired ho s) w else w
        | RecoveryTimer \<Rightarrow> deliver ([], recovery_timer_fired ho s) w
        | SuperviseTimer \<Rightarrow> if armed (sx_supervise_timer s) then deliver (supervise ho s) w else w)"

definition begun :: "'c hw_ops \<Rightarrow> 'c \<Rightarrow> RadioParams \<Rightarrow> Pins \<Rightarrow> u32 \<Rightarrow> 'c driver_world" where
  "begun ho c p pins retry =
     \<lparr>dw_driver = snd (sx_begin ho (new_sx1262 c p pins retry)), dw_accepted = 0, dw_events = []\<rparr>"

definition sx_inv :: "'c Sx1262 \<Rightarrow> bool" where
  "sx_inv s \<longleftrightarrow>
     (sx_healthy s \<or> sx_recovering s \<longrightarrow> sx_loop s) \<and> \<not> (sx_healthy s \<and> sx_recovering s) \<and>
     (sx_tx_busy s \<longrightarrow> sx_healthy s) \<and>
     (sx_tx_busy s \<longleftrightarrow> armed (sx_tx_timeout s)) \<and>
     (sx_retune_pending s \<longrightarrow> sx_tx_busy s) \<and>
     (sx_recovering s \<longleftrightarrow> armed (sx_recovery_timer s)) \<and>
     (sx_recovering s \<or> armed (sx_supervise_timer s) \<longrightarrow> sx_retry_interval_ms s > 0)"

fun is_tx_done :: "radio_event \<Rightarrow> bool" where
  "is_tx_done (TxDone t) = True"
| "is_tx_done r = False"

text \<open>The reports still owed.\<close>

definition owed :: "'c Sx1262 \<Rightarrow> nat" where
  "owed s = (if sx_tx_busy s then 1 else 0)"

definition reports :: "radio_event list \<Rightarrow> nat" where
  "reports evs = length (filter is_tx_done evs)"

lemma reports_simps [simp]:
  "reports [] = 0" "reports (r # rs) = (if is_tx_done r then 1 else 0) + reports rs"
  "reports (rs @ rs') = reports rs + reports rs'"
  by (simp_all add: reports_def)

lemma flags_inv [simp]:
  "sx_inv (s\<lparr>sx_ever_healthy := b\<rparr>) = sx_inv s" "owed (s\<lparr>sx_ever_healthy := b\<rparr>) = owed s"
  "sx_inv (s\<lparr>sx_params := p\<rparr>) = sx_inv s" "owed (s\<lparr>sx_params := p\<rparr>) = owed s"
  "sx_inv (s\<lparr>sx_rx_since_ms := t\<rparr>) = sx_inv s" "owed (s\<lparr>sx_rx_since_ms := t\<rparr>) = owed s"
  by (simp_all add: sx_inv_def owed_def)

lemma sx_inv_hw [simp]: "sx_inv (s\<lparr>sx_hw := c\<rparr>) = sx_inv s" and owed_hw [simp]: "owed (s\<lparr>sx_hw := c\<rparr>) = owed s"
  by (simp_all add: sx_inv_def owed_def)

text \<open>A call that keeps the invariant and the parameters and pays what it owes.\<close>

definition settled :: "'c Sx1262 \<Rightarrow> radio_event list \<times> 'c Sx1262 \<Rightarrow> bool" where
  "settled s r \<longleftrightarrow> sx_inv (snd r) \<and> sx_params (snd r) = sx_params s \<and> reports (fst r) + owed (snd r) = owed s"

lemma settled_hw: "own s1 = own s \<Longrightarrow> sx_inv s \<Longrightarrow> settled s ([], s1)"
  by (auto simp: settled_def elim!: ownE)

lemma settled_event: "\<lbrakk>own s1 = own s; sx_inv s; \<not> is_tx_done e\<rbrakk> \<Longrightarrow> settled s ([e], s1)"
  by (auto simp: settled_def elim!: ownE)

lemma settled_from: "own s1 = own s \<Longrightarrow> settled s1 r \<Longrightarrow> settled s r"
  by (auto simp: settled_def elim!: ownE)

lemma own_params: "own s1 = own s \<Longrightarrow> sx_params s1 = sx_params s"
  by (auto elim: ownE)

lemma inv_from: "own s1 = own s \<Longrightarrow> sx_inv s \<Longrightarrow> sx_inv s1"
  by (auto elim!: ownE)

lemma go_down_settled:
  assumes "sx_inv (s\<lparr>sx_retune_pending := False\<rparr>)"
  shows "settled s (go_down ho s)"
proof -
  let ?s = "s\<lparr>sx_initial_failure_reported := True, sx_healthy := False, sx_retune_pending := False\<rparr>"
  obtain c where "drop_paths ho ?s = ?s\<lparr>sx_hw := c\<rparr>" by (rule ownE [OF own_drop_paths])
  then show ?thesis using assms
    by (auto simp: go_down_def Let_def settled_def sx_inv_def owed_def)
qed

lemma rx_or_down_settled:
  assumes "sx_inv s" shows "settled s (rx_or_down ho s)"
proof (cases "set_rx_mode ho s")
  case (Pair b s1)
  then have own: "own s1 = own s" by (rule own_set_rx_mode)
  have down: "settled s (go_down ho s1)"
    using assms own by (intro settled_from [OF own go_down_settled]) (auto simp: sx_inv_def elim!: ownE)
  show ?thesis
    using Pair down settled_hw [OF own assms] by (cases b) (simp_all add: rx_or_down_def)
qed

lemma rx_settled_from: "own s1 = own s \<Longrightarrow> sx_inv s \<Longrightarrow> settled s (rx_or_down ho s1)"
  by (rule settled_from [OF _ rx_or_down_settled]) (auto simp: inv_from)

lemma unretuned_inv: "sx_inv s \<Longrightarrow> sx_inv (s\<lparr>sx_retune_pending := False\<rparr>)"
  by (auto simp: sx_inv_def)

lemma down_settled_from: "own s1 = own s \<Longrightarrow> sx_inv s \<Longrightarrow> settled s (go_down ho s1)"
  by (rule settled_from [OF _ go_down_settled]) (auto simp: inv_from unretuned_inv)

lemma settled_unretuned: "settled (s\<lparr>sx_retune_pending := False\<rparr>) r \<Longrightarrow> settled s r"
  by (simp add: settled_def owed_def)

lemma retune_settled:
  assumes "sx_inv (s\<lparr>sx_retune_pending := False\<rparr>)" shows "settled s (retune ho s)"
proof (cases "configure ho (s\<lparr>sx_retune_pending := False\<rparr>)")
  case (Pair b s1)
  then have own: "own s1 = own (s\<lparr>sx_retune_pending := False\<rparr>)" by (rule own_configure)
  have "settled (s\<lparr>sx_retune_pending := False\<rparr>) (retune ho s)"
    using Pair down_settled_from [OF own assms] settled_from [OF own rx_or_down_settled [OF inv_from [OF own assms]]]
    by (cases b) (simp_all add: retune_def)
  then show ?thesis by (rule settled_unretuned)
qed

lemma after_tx_settled:
  assumes "sx_inv (s\<lparr>sx_retune_pending := False\<rparr>)" shows "settled s (after_tx ho s)"
proof (cases "sx_retune_pending s")
  case True
  then show ?thesis using assms by (simp add: after_tx_def retune_settled)
next
  case False
  then have "sx_inv s" using assms by (auto simp: sx_inv_def)
  then show ?thesis using False by (simp add: after_tx_def rx_or_down_settled)
qed

lemma recovery_failed_inv:
  assumes "sx_inv (s\<lparr>sx_recovering := False, sx_recovery_timer := None\<rparr>)"
  shows "sx_inv (recovery_failed ho s) \<and> sx_params (recovery_failed ho s) = sx_params s \<and>
    owed (recovery_failed ho s) = owed s"
proof -
  let ?s = "s\<lparr>sx_recovering := False, sx_recovery_timer := None\<rparr>"
  obtain c where "drop_paths ho ?s = ?s\<lparr>sx_hw := c\<rparr>" by (rule ownE [OF own_drop_paths])
  then show ?thesis using assms by (auto simp: recovery_failed_def sx_inv_def owed_def)
qed

lemma recovery_failed_settled:
  assumes "sx_inv (s\<lparr>sx_recovering := False, sx_recovery_timer := None\<rparr>)"
  shows "settled s ([], recovery_failed ho s)"
  using recovery_failed_inv [OF assms, of ho] by (simp add: settled_def)

lemma settled_trans: "owed s1 = owed s \<Longrightarrow> sx_params s1 = sx_params s \<Longrightarrow> settled s1 r \<Longrightarrow> settled s r"
  by (simp add: settled_def)

lemma start_recovery_settled:
  assumes "sx_inv s" and "sx_retry_interval_ms s > 0" shows "settled s ([], start_recovery ho s)"
proof (cases "\<not> sx_loop s \<or> sx_healthy s \<or> sx_recovering s \<or> \<not> has_frequency (sx_params s)")
  case True
  then show ?thesis using assms by (simp add: start_recovery_def settled_def)
next
  case False
  have failed: "settled s ([], recovery_failed ho s1)" if "own s1 = own (s\<lparr>sx_recovering := True\<rparr>)" for s1
    using that assms False
    by (auto simp: sx_inv_def owed_def elim!: ownE intro!: settled_trans [OF _ _ recovery_failed_settled])
  show ?thesis
  proof (cases "sx_reset_line s")
    case None
    then show ?thesis using False by (simp add: start_recovery_def failed)
  next
    case (Some l)
    obtain b s1 where r: "on_hw (line_set ho False l) (s\<lparr>sx_recovering := True\<rparr>) = (b, s1)" by fastforce
    then have own: "own s1 = own (s\<lparr>sx_recovering := True\<rparr>)" by (rule own_on_hw)
    have "settled s ([], s1\<lparr>sx_recovery_timer := Some (2, ReleaseReset)\<rparr>)"
      using own assms False by (auto simp: settled_def sx_inv_def owed_def elim!: ownE)
    then show ?thesis using False Some r failed [OF own] by (cases b) (simp_all add: start_recovery_def)
  qed
qed

text \<open>A step of the recovery runs with its timer spent; \<open>spent\<close> is the invariant then.\<close>

definition spent :: "'c Sx1262 \<Rightarrow> bool" where
  "spent s \<longleftrightarrow> sx_inv (s\<lparr>sx_recovering := False\<rparr>) \<and> sx_recovering s \<and> \<not> sx_healthy s \<and> sx_loop s \<and>
     sx_retry_interval_ms s > 0"

lemma spent_from: "own s1 = own s \<Longrightarrow> spent s \<Longrightarrow> spent s1"
  by (auto simp: spent_def sx_inv_def elim!: ownE)

lemma spent_failed: "spent s \<Longrightarrow> settled s ([], recovery_failed ho s)"
  by (rule recovery_failed_settled) (auto simp: spent_def sx_inv_def)

lemma spent_armed: "spent s \<Longrightarrow> settled s ([], s\<lparr>sx_recovery_timer := Some t\<rparr>)"
  by (auto simp: spent_def sx_inv_def settled_def owed_def)

lemma spent_up: "spent s \<Longrightarrow> settled s ([], s\<lparr>sx_healthy := True, sx_recovering := False, sx_ever_healthy := True\<rparr>)"
  by (auto simp: spent_def sx_inv_def settled_def owed_def)

lemma release_reset_settled:
  assumes "spent s" shows "settled s ([], release_reset ho s)"
proof (cases "set_present_line ho True (sx_reset_line s) s")
  case (Pair b s1)
  then have own: "own s1 = own s" by (rule own_set_present_line)
  have "settled s1 ([], s1\<lparr>sx_recovery_deadline_ms := sx_millis ho s1 + 1000, sx_recovery_timer := Some (20, PollResetBusy)\<rparr>)"
    using spent_from [OF own assms] by (auto simp: spent_def sx_inv_def settled_def owed_def)
  then show ?thesis
    using Pair settled_from [OF own] spent_failed [OF spent_from [OF own assms]] assms
    by (cases b) (simp_all add: release_reset_def spent_def)
qed

lemma poll_again_settled: "spent s \<Longrightarrow> settled s ([], poll_again ho s)"
  by (simp add: poll_again_def spent_failed spent_armed)

lemma poll_reset_busy_settled:
  assumes "spent s" shows "settled s ([], poll_reset_busy ho s)"
proof -
  obtain v s1 where b: "(case sx_busy_line s of None \<Rightarrow> (0, s) | Some l \<Rightarrow> on_hw (line_get ho l) s) = (v, s1)"
    by fastforce
  then have o1: "own s1 = own s" by (auto dest: own_on_hw split: option.splits)
  obtain ok s2 where c: "cmd ho kCmdSetStandby [kStandbyRc] s1 = (ok, s2)" by fastforce
  then have o2: "own s2 = own s" using o1 by (auto dest: own_cmd)
  obtain up s3 where u: "all_of [chip_responding ho, configure ho, set_rx_mode ho] s2 = (up, s3)" by fastforce
  then have "own s3 = own s2" by (rule own_all_of) (auto dest: own_steps)
  with o2 have o3: "own s3 = own s" by simp
  note at = spent_from [OF o1 assms] spent_from [OF o2 assms] spent_from [OF o3 assms]
  show ?thesis
    using assms b c u settled_from [OF o1] settled_from [OF o2] settled_from [OF o3] at
    by (simp add: poll_reset_busy_def spent_failed spent_up poll_again_settled spent_def [of s] split: bool.split)
qed

lemma recovery_timer_settled:
  assumes "sx_inv s" shows "settled s ([], recovery_timer_fired ho s)"
proof (cases "sx_recovery_timer s")
  case None
  then show ?thesis using assms by (simp add: recovery_timer_fired_def settled_def)
next
  case (Some t)
  then have "spent (s\<lparr>sx_recovery_timer := None\<rparr>)" using assms by (auto simp: spent_def sx_inv_def)
  then have "settled (s\<lparr>sx_recovery_timer := None\<rparr>) ([], recovery_timer_fired ho s)"
    using Some by (auto simp: recovery_timer_fired_def release_reset_settled poll_reset_busy_settled
      split: prod.split RecoveryStep.split)
  then show ?thesis by (rule settled_trans [rotated 2]) (simp_all add: owed_def)
qed

lemma supervise_settled:
  assumes "sx_inv s" and "armed (sx_supervise_timer s)" shows "settled s (supervise ho s)"
proof -
  obtain b s1 where r: "chip_responding ho s = (b, s1)" by fastforce
  then have own: "own s1 = own s" by (rule own_chip_responding)
  show ?thesis
    using assms r start_recovery_settled [of s ho] down_settled_from [OF own] settled_hw [OF own]
    by (auto simp: supervise_def sx_inv_def [of s] settled_def [of s "([], s)"] split: bool.split)
qed

lemma bring_up_inv:
  assumes "bring_up ho s = (b, s1)" and "sx_inv s" and "sx_loop s" and "\<not> sx_recovering s"
  shows "sx_inv s1 \<and> sx_params s1 = sx_params s \<and> owed s1 = owed s"
  using own_bring_up [OF assms(1)] assms(2-4) by (auto simp: sx_inv_def owed_def elim!: ownE split: if_splits)

lemma reconfigure_settled:
  assumes "sx_inv s" shows "settled (s\<lparr>sx_params := p\<rparr>) (reconfigure ho p s)"
proof -
  define s1 where "s1 = s\<lparr>sx_params := p\<rparr>"
  have inv: "sx_inv s1" using assms by (simp add: s1_def)
  have idle: "settled s1 ([], s1)" using inv by (simp add: settled_def)
  have pend: "settled s1 ([], s1\<lparr>sx_retune_pending := True\<rparr>)" if "sx_tx_busy s1"
    using that inv by (auto simp: settled_def sx_inv_def owed_def)
  have up: "settled s1 ([], if b then s2\<lparr>sx_ever_healthy := True\<rparr> else s2)"
    if "bring_up ho s1 = (b, s2)" "sx_loop s1" "sx_retry_interval_ms s1 = 0" for b s2
  proof -
    have "\<not> sx_recovering s1" using inv that(3) by (auto simp: sx_inv_def)
    from bring_up_inv [OF that(1) inv that(2) this]
    show ?thesis by (simp add: settled_def)
  qed
  show ?thesis
    using idle pend up retune_settled [OF unretuned_inv [OF inv]] start_recovery_settled [OF inv]
    by (auto simp: reconfigure_def Let_def s1_def [symmetric] word_gt_0 split: prod.split bool.split)
qed

lemma send_settled:
  assumes "sx_inv s" and "send ho data s = (ok, r)"
  shows "sx_inv (snd r) \<and> sx_params (snd r) = sx_params s \<and>
    reports (fst r) + owed (snd r) = owed s + (if ok then 1 else 0)"
proof -
  obtain b s1 where st: "start_tx ho data s = (b, s1)" by fastforce
  then have own: "own s1 = own s" by (rule own_start_tx)
  have up: "sx_inv (s1\<lparr>sx_tx_busy := True, sx_tx_started_ms := t, sx_tx_timeout := Some d\<rparr>)"
    if "sx_healthy s" for t d
    using that assms(1) own by (auto simp: sx_inv_def elim!: ownE)
  show ?thesis
    using assms st down_settled_from [OF own assms(1), of ho] up own_params [OF own]
    by (auto simp: send_def settled_def owed_def split: if_splits bool.splits)
qed

lemma tx_timeout_settled:
  assumes "sx_inv s" shows "settled s (tx_timeout_fired ho s)"
proof (cases "sx_tx_busy s")
  case True
  let ?s = "s\<lparr>sx_tx_timeout := None, sx_tx_busy := False\<rparr>"
  have "settled ?s (after_tx ho ?s)" using assms by (intro after_tx_settled) (auto simp: sx_inv_def)
  then show ?thesis using True
    by (auto simp: tx_timeout_fired_def Let_def settled_def owed_def split: prod.split)
next
  case False
  then have "sx_inv (s\<lparr>sx_tx_timeout := None\<rparr>)" using assms by (auto simp: sx_inv_def)
  then show ?thesis using False by (simp add: tx_timeout_fired_def Let_def settled_def owed_def)
qed

lemma handle_tx_done_settled:
  assumes "sx_inv s" shows "settled s (handle_tx_done ho s)"
proof (cases "sx_tx_busy s")
  case False
  then show ?thesis using assms by (simp add: handle_tx_done_def settled_def)
next
  case True
  let ?s = "s\<lparr>sx_tx_busy := False, sx_tx_timeout := None\<rparr>"
  define s1 where "s1 = snd (set_line ho False (sx_txen_line s) ?s)"
  have "own s1 = own ?s" by (simp add: s1_def)
  then have "settled s1 (after_tx ho s1)" "owed s1 = 0" "sx_params s1 = sx_params s"
    using assms by (auto simp: sx_inv_def owed_def elim!: ownE intro!: after_tx_settled)
  then show ?thesis using True
    by (auto simp: handle_tx_done_def Let_def s1_def [symmetric] settled_def owed_def [of s] split: prod.split)
qed

lemma handle_rx_done_settled:
  assumes "sx_inv s" shows "settled s (handle_rx_done ho s)"
  using assms
  by (auto simp: handle_rx_done_def split: prod.split option.split bool.split
      dest!: own_steps intro: down_settled_from rx_settled_from settled_event)

lemma own_rx_failure [own_steps]: "rx_failure ho irq s = (f, s1) \<Longrightarrow> own s1 = own s"
  by (auto simp: rx_failure_def Let_def split: if_splits prod.splits option.splits dest!: own_steps)

lemma handle_irq_settled:
  assumes "sx_inv s" shows "settled s (handle_irq ho irq s)"
proof -
  obtain f s1 where r: "rx_failure ho irq s = (f, s1)" by fastforce
  have "settled s (rx_or_down ho s1)" by (rule rx_settled_from [OF own_rx_failure [OF r] assms])
  then have "settled s (case rx_or_down ho s1 of (evs, s2) \<Rightarrow> (ReceiveFailed f # evs, s2))"
    by (auto simp: settled_def split: prod.split)
  then show ?thesis using r handle_rx_done_settled [OF assms] assms
    by (simp add: handle_irq_def settled_def [of s "([], s)"])
qed

lemma settled_then:
  assumes "settled s (evs, s1)" and "settled s1 (evs', s2)" shows "settled s (evs @ evs', s2)"
  using assms by (simp add: settled_def)

lemma tx_done_part_settled:
  assumes "sx_inv s" and "(if b then handle_tx_done ho s else ([], s)) = (evs, s1)"
  shows "settled s (evs, s1)"
  using assms handle_tx_done_settled [of s ho] by (auto simp: settled_def split: if_splits)

lemma on_irq_settled:
  assumes "sx_inv s" shows "settled s (on_irq ho s)"
proof (cases "sx_irq_line s")
  case None
  then show ?thesis using assms by (simp add: on_irq_def settled_def)
next
  case (Some l)
  obtain n s1 where d: "on_hw (drain_events ho l) s = (n, s1)" by fastforce
  obtain r s2 where i: "cmd_read ho kCmdGetIrqStatus 2 s1 = (r, s2)" by fastforce
  define irq where "irq = irq_of (the r)"
  obtain b s3 where c: "cmd ho kCmdClearIrqStatus (irq_bytes irq) s2 = (b, s3)" by fastforce
  have o1: "own s1 = own s" using d by (rule own_on_hw)
  have o2: "own s2 = own s" using own_cmd_read [OF i] o1 by simp
  have o3: "own s3 = own s" using own_cmd [OF c] o2 by simp
  obtain evs s4 where t: "(if irq AND kIrqTxDone \<noteq> 0 then handle_tx_done ho s3 else ([], s3)) = (evs, s4)"
    by fastforce
  have td: "settled s (evs, s4)" by (rule settled_from [OF o3 tx_done_part_settled [OF inv_from [OF o3 assms] t]])
  then have "sx_inv s4" by (simp add: settled_def)
  then have "settled s (case handle_irq ho irq s4 of (evs', s5) \<Rightarrow> (evs @ evs', s5))"
    using settled_then [OF td] handle_irq_settled [of s4 ho irq] by (auto split: prod.split)
  with td show ?thesis
    using Some d i c t settled_hw [OF o1 assms] settled_hw [OF o2 assms] down_settled_from [OF o2 assms]
      down_settled_from [OF o3 assms]
    by (auto simp: on_irq_def Let_def irq_def split: option.split bool.split)
qed

lemma channel_busy_settled:
  assumes "sx_inv s" shows "settled s ([], snd (sx_channel_busy ho s))"
proof (cases "cmd_read ho kCmdGetIrqStatus 2 s")
  case (Pair r s1)
  have own: "own s1 = own s" using Pair by (rule own_cmd_read)
  have fin: "settled s ([], s2\<lparr>sx_rx_since_ms := t\<rparr>)" if "own s2 = own s" for s2 t
    using settled_hw [OF that assms] by (simp add: settled_def)
  show ?thesis
    using assms Pair own settled_hw [OF own assms]
    by (auto simp: sx_channel_busy_def Let_def settled_def [of s "([], s)"] split: option.split intro!: fin)
qed

text \<open>Opening the devices changes the handles and the hardware only.\<close>

definition control :: "'c Sx1262 \<Rightarrow> 'c Sx1262" where
  "control s =
     own (s\<lparr>sx_spi := new_spi, sx_chip := new_gpio_chip, sx_irq_line := None, sx_busy_line := None,
            sx_reset_line := None, sx_nss_line := None, sx_rxen_line := None, sx_txen_line := None\<rparr>)"

lemma control_inv: "control s1 = control s \<Longrightarrow> sx_inv s1 = sx_inv s \<and> sx_healthy s1 = sx_healthy s \<and>
    sx_loop s1 = sx_loop s \<and> sx_recovering s1 = sx_recovering s \<and> sx_tx_busy s1 = sx_tx_busy s \<and>
    sx_supervise_timer s1 = sx_supervise_timer s"
proof -
  have f: "sx_inv t = sx_inv (control t)" "sx_healthy t = sx_healthy (control t)" "sx_loop t = sx_loop (control t)"
    "sx_recovering t = sx_recovering (control t)" "sx_tx_busy t = sx_tx_busy (control t)"
    "sx_supervise_timer t = sx_supervise_timer (control t)" for t :: "'c Sx1262"
    by (simp_all add: control_def own_def sx_inv_def)
  assume "control s1 = control s"
  then show ?thesis using f [of s1] f [of s] by metis
qed

lemma control_open_line:
  assumes "open_line ho pin mode put s = (b, s1)" and "\<And>l s. control (put l s) = control s"
  shows "control s1 = control s"
  using assms by (auto simp: open_line_def request_line_def on_hw_def control_def own_def split: prod.splits)

lemma control_open_devices: "open_devices ho s = (b, s1) \<Longrightarrow> control s1 = control s"
  unfolding open_devices_def Let_def
  apply (erule all_of_keeps [where g = control])
  apply (auto simp: when_step_def open_spi_def open_chip_def split: if_splits prod.splits elim!: control_open_line)
  apply (auto simp: control_def own_def)
  done

lemma new_sx1262_inv: "sx_inv (new_sx1262 c p pins retry)"
  by (simp add: sx_inv_def new_sx1262_def)

lemma sx_begin_inv:
  assumes "sx_inv s" and "\<not> sx_recovering s" and "\<not> sx_tx_busy s"
  shows "sx_inv (snd (sx_begin ho s)) \<and> owed (snd (sx_begin ho s)) = 0"
proof -
  obtain b s1 where od: "open_devices ho (s\<lparr>sx_loop := True\<rparr>) = (b, s1)" by fastforce
  have "sx_inv (s\<lparr>sx_loop := True\<rparr>)" using assms by (auto simp: sx_inv_def)
  then have s1: "sx_inv s1" "\<not> sx_recovering s1" "\<not> sx_tx_busy s1" "sx_loop s1"
    using control_inv [OF control_open_devices [OF od]] assms by simp_all
  let ?s2 = "s1\<lparr>sx_irq_watch := True\<rparr>"
  let ?s3 = "?s2\<lparr>sx_supervise_timer := Some (sx_retry_interval_ms s1)\<rparr>"
  have s2: "sx_inv ?s2" "owed ?s2 = 0" "owed s1 = 0" using s1 by (simp_all add: sx_inv_def owed_def)
  have up: "sx_inv s3 \<and> owed s3 = 0" if "bring_up ho ?s2 = (ok, s3)" for ok s3
    using bring_up_inv [OF that s2(1)] s1 s2 by simp
  have down: "sx_inv (start_recovery ho ?s3) \<and> owed (start_recovery ho ?s3) = 0" if "sx_retry_interval_ms s1 > 0"
  proof -
    have "sx_inv ?s3" "owed ?s3 = 0" using s1 that by (auto simp: sx_inv_def owed_def)
    then show ?thesis using start_recovery_settled [of ?s3 ho] that by (simp add: settled_def)
  qed
  show ?thesis
    using od s1 s2 up down by (auto simp: sx_begin_def Let_def word_gt_0 split: bool.split prod.split)
qed

lemma begun_inv: "sx_inv (dw_driver (begun ho c p pins retry)) \<and> owed (dw_driver (begun ho c p pins retry)) = 0"
  using sx_begin_inv [OF new_sx1262_inv, of c p pins retry ho] by (simp add: begun_def new_sx1262_def)

section \<open>Every run\<close>

definition driver_inv :: "'c driver_world \<Rightarrow> bool" where
  "driver_inv w \<longleftrightarrow> sx_inv (dw_driver w) \<and> dw_accepted w = reports (dw_events w) + owed (dw_driver w)"

lemma deliver_inv:
  assumes "settled s r" and "owed s = owed (dw_driver w)" and "driver_inv w" shows "driver_inv (deliver r w)"
  using assms by (auto simp: driver_inv_def deliver_def settled_def split: prod.split)

lemma driver_inv_sx: "driver_inv w \<Longrightarrow> sx_inv (dw_driver w)"
  by (simp add: driver_inv_def)

lemma send_step_inv:
  assumes "driver_inv w" shows "driver_inv (driver_step ho (SendPacket data) w)"
proof -
  obtain ok evs s1 where r: "send ho data (dw_driver w) = (ok, evs, s1)" by (metis prod_cases3)
  show ?thesis using send_settled [OF driver_inv_sx [OF assms] r] assms r
    by (auto simp: driver_step_def driver_inv_def deliver_def)
qed

lemmas deliver_call = deliver_inv [OF _ refl]

lemmas call_settled = channel_busy_settled on_irq_settled tx_timeout_settled recovery_timer_settled supervise_settled

lemma driver_step_inv: "driver_inv w \<Longrightarrow> driver_inv (driver_step ho e w)"
  by (cases e) (auto simp: send_step_inv, auto simp: driver_step_def Let_def call_settled driver_inv_sx deliver_call
    deliver_inv [OF reconfigure_settled])

interpretation driver_run: event_system "driver_step ho" driver_inv
  by unfold_locales (rule driver_step_inv)

lemma begun_driver_inv: "driver_inv (begun ho c p pins retry)"
  using begun_inv [of ho c p pins retry] by (simp add: driver_inv_def) (simp add: begun_def)

text \<open>
  C12. Whatever the hardware does, in every state the driver reaches after \<^verbatim>\<open>begin\<close>: a radio that is ready is
  not being recovered, a packet is in flight only on a ready radio and exactly while the transmit timeout
  is armed, a retune waits only for a packet in flight, and a recovery is under way exactly while its timer
  is armed, so that it always goes on.
\<close>

theorem driver_keeps_invariant:
  "sx_inv (dw_driver (fold (driver_step ho) es (begun ho c p pins retry)))"
  using driver_run.run_inv [OF begun_driver_inv, of ho es] by (simp add: driver_inv_def)

text \<open>
  C8. Every packet \<^verbatim>\<open>send\<close> accepts is reported through \<^verbatim>\<open>deliver_tx_done\<close> exactly once: in every run of the
  driver, whatever fails on the way, the reports are as many as the packets accepted, less the one in
  flight while \<^verbatim>\<open>tx_busy\<close> holds.
\<close>

theorem tx_reported_once:
  "let w = fold (driver_step ho) es (begun ho c p pins retry)
   in dw_accepted w = length (filter is_tx_done (dw_events w)) + (if sx_tx_busy (dw_driver w) then 1 else 0)"
  using driver_run.run_inv [OF begun_driver_inv, of ho es]
  by (simp add: Let_def driver_inv_def reports_def owed_def)

section \<open>The driver as a radio\<close>

lemma idle_go_down: "\<not> sx_tx_busy s \<Longrightarrow> fst (go_down ho s) = []"
proof -
  let ?s = "s\<lparr>sx_initial_failure_reported := True, sx_healthy := False, sx_retune_pending := False\<rparr>"
  obtain c where "drop_paths ho ?s = ?s\<lparr>sx_hw := c\<rparr>" by (rule ownE [OF own_drop_paths])
  then show "\<not> sx_tx_busy s \<Longrightarrow> fst (go_down ho s) = []" by (simp add: go_down_def Let_def)
qed

lemma own_tx_busy: "own s1 = own s \<Longrightarrow> sx_tx_busy s1 = sx_tx_busy s"
  by (auto elim: ownE)

lemma idle_rx_or_down: "\<not> sx_tx_busy s \<Longrightarrow> fst (rx_or_down ho s) = []"
  by (auto simp: rx_or_down_def idle_go_down split: prod.split bool.split dest!: own_steps own_tx_busy)

lemma idle_retune: "\<not> sx_tx_busy s \<Longrightarrow> fst (retune ho s) = []"
  by (auto simp: retune_def idle_go_down idle_rx_or_down split: prod.split bool.split dest!: own_steps own_tx_busy)

text \<open>Called as a radio, the driver has nothing to report.\<close>

lemma radio_calls_quiet: "fst (snd (send ho data s)) = []" "fst (reconfigure ho p s) = []"
  by (auto simp: send_def reconfigure_def Let_def idle_go_down idle_retune split: prod.split bool.split
      dest!: own_steps own_tx_busy)

interpretation driver_radio: radio_contract "sx_radio ho" sx_inv
proof unfold_locales
  fix s :: "'a Sx1262" and p data
  assume inv: "sx_inv s"
  obtain ok evs s1 where r: "send ho data s = (ok, evs, s1)" by (metis prod_cases3)
  show "sx_inv (snd (radio_send (sx_radio ho) data s)) \<and>
      params (sx_radio ho) (snd (radio_send (sx_radio ho) data s)) = params (sx_radio ho) s"
    using send_settled [OF inv r] r by (simp add: sx_radio_def)
  show "sx_inv (snd (channel_busy (sx_radio ho) s)) \<and>
      params (sx_radio ho) (snd (channel_busy (sx_radio ho) s)) = params (sx_radio ho) s"
    using channel_busy_settled [OF inv, of ho] by (simp add: sx_radio_def settled_def)
  show "sx_inv (radio_reconfigure (sx_radio ho) p s) \<and>
      params (sx_radio ho) (radio_reconfigure (sx_radio ho) p s) = p"
    using reconfigure_settled [OF inv, of p ho] by (simp add: sx_radio_def settled_def)
qed

section \<open>No power\<close>

text \<open>
  A chip without power does not drive the data line: every transfer reads as zeros, or as ones, or fails.
\<close>

definition dead_bus :: "'c hw_ops \<Rightarrow> bool" where
  "dead_bus ho \<longleftrightarrow>
     (\<forall>fd speed tx c. fst (hw_spi_message ho fd speed tx c)
        \<in> {None, Some (replicate (length tx) 0x00), Some (replicate (length tx) 0xFF)})"

lemma dead_transact:
  assumes "dead_bus ho" and "transact ho tx s = (Some rx, s1)"
  obtains b where "rx = replicate (length tx) b" and "\<not> command_status_ok b"
proof -
  have ff: "\<not> command_status_ok 0x00" "\<not> command_status_ok 0xFF"
    by (simp_all add: command_status_ok_def Let_def)
  obtain s2 s3 where t: "on_hw (spi_transfer ho tx (length tx) (sx_spi s2)) s2 = (Some rx, s3)"
    using assms(2) by (auto simp: transact_def split: prod.splits bool.splits if_splits)
  then obtain fd c c1 r where m: "hw_spi_message ho fd (sd_speed_hz (sx_spi s2)) tx c = (Some r, c1)"
    and rx: "rx = resize (length tx) r"
    by (auto simp: on_hw_def spi_transfer_def split: prod.splits option.splits if_splits)
  have "r = replicate (length tx) 0x00 \<or> r = replicate (length tx) 0xFF"
    using assms(1) m by (auto simp: dead_bus_def dest: spec [where x = c] simp del: split_paired_All
      dest!: spec [where x = fd] spec [where x = "sd_speed_hz (sx_spi s2)"] spec [where x = tx])
  then have "rx = replicate (length tx) 0x00 \<or> rx = replicate (length tx) 0xFF"
    using rx by (auto simp: resize_def)
  then show thesis using ff that by metis
qed

lemma dead_cmd:
  assumes "dead_bus ho" and "args \<noteq> []" shows "\<not> fst (cmd ho opcode args s)"
proof (cases "transact ho (opcode # args) s")
  case (Pair r s1)
  then show ?thesis
  proof (cases r)
    case (Some rx)
    then obtain b where "rx = replicate (length (opcode # args)) b" "\<not> command_status_ok b"
      using dead_transact [OF assms(1)] Pair by metis
    then show ?thesis using Pair Some assms(2) by (cases args) (simp_all add: cmd_def)
  qed (simp add: cmd_def)
qed

lemma dead_read:
  assumes "dead_bus ho" and "length head \<le> Suc status" shows "fst (read_reply ho head status n s) = None"
proof -
  let ?tx = "head @ replicate (Suc status + n - length head) 0"
  obtain r s1 where t: "transact ho ?tx s = (r, s1)" by fastforce
  show ?thesis
  proof (cases r)
    case (Some rx)
    then obtain b where "rx = replicate (length ?tx) b" and ko: "\<not> command_status_ok b"
      using dead_transact [OF assms(1), of ?tx] t by metis
    moreover have "length ?tx = Suc status + n" using assms(2) by simp
    ultimately have "rx ! status = b" by (simp del: replicate_Suc)
    then show ?thesis using t Some ko by (simp add: read_reply_def del: replicate_Suc)
  qed (use t in \<open>simp add: read_reply_def\<close>)
qed

lemma all_of_fails: "(\<And>s. \<not> fst (f s)) \<Longrightarrow> f \<in> set fs \<Longrightarrow> \<not> fst (all_of fs s)"
  by (induction fs arbitrary: s) (auto split: prod.split bool.split, metis fst_conv)

lemma dead_standby_loop: "dead_bus ho \<Longrightarrow> \<not> fst (standby_loop ho deadline n s)"
  using dead_cmd [of ho "[kStandbyRc]" kCmdSetStandby]
  by (induction n arbitrary: s) (auto split: prod.split bool.split, metis fst_conv)

lemma dead_fails:
  assumes "dead_bus ho"
  shows "\<not> fst (set_rx_mode ho s)" "\<not> fst (configure ho s)" "\<not> fst (chip_responding ho s)" "\<not> fst (bring_up ho s)"
proof -
  show "\<not> fst (set_rx_mode ho s)"
    unfolding set_rx_mode_def by (rule all_of_fails [where f = "cmd ho kCmdSetRx [0xFF, 0xFF, 0xFF]"]) (simp_all add: dead_cmd assms)
  show "\<not> fst (configure ho s)"
    unfolding configure_def Let_def by (rule all_of_fails [where f = "cmd ho kCmdSetStandby [kStandbyRc]"]) (simp_all add: dead_cmd assms)
  have r: "\<not> fst (chip_responding ho s)" for s
    using dead_read [OF assms, of "kCmdReadRegister # addr_bytes kRegVersionString" 3 6 s]
    by (auto simp: chip_responding_def read_register_def addr_bytes_def split: prod.split option.split)
  then show "\<not> fst (chip_responding ho s)" .
  show "\<not> fst (bring_up ho s)"
    unfolding bring_up_def by (rule all_of_fails [where f = "chip_responding ho"]) (simp_all add: r)
qed

text \<open>A failing step takes the radio down; what is left is ready for a recovery.\<close>

lemma go_down_state:
  "\<not> sx_healthy (snd (go_down ho s)) \<and> sx_supervise_timer (snd (go_down ho s)) = sx_supervise_timer s"
proof -
  let ?s = "s\<lparr>sx_initial_failure_reported := True, sx_healthy := False, sx_retune_pending := False\<rparr>"
  obtain c where "drop_paths ho ?s = ?s\<lparr>sx_hw := c\<rparr>" by (rule ownE [OF own_drop_paths])
  then show ?thesis by (simp add: go_down_def Let_def)
qed

lemma own_supervise: "own s1 = own s \<Longrightarrow> sx_supervise_timer s1 = sx_supervise_timer s"
  and own_healthy: "own s1 = own s \<Longrightarrow> sx_healthy s1 = sx_healthy s"
  by (auto elim: ownE)

lemma dead_rx_or_down:
  assumes "dead_bus ho"
  shows "\<not> sx_healthy (snd (rx_or_down ho s)) \<and> sx_supervise_timer (snd (rx_or_down ho s)) = sx_supervise_timer s"
proof (cases "set_rx_mode ho s")
  case (Pair b s1)
  then have "\<not> b" using dead_fails(1) [OF assms, of s] by simp
  then show ?thesis using Pair go_down_state [of ho s1] own_supervise [OF own_set_rx_mode [OF Pair]]
    by (simp add: rx_or_down_def)
qed

lemma dead_after_tx:
  assumes "dead_bus ho"
  shows "\<not> sx_healthy (snd (after_tx ho s)) \<and> sx_supervise_timer (snd (after_tx ho s)) = sx_supervise_timer s"
proof -
  obtain b s1 where c: "configure ho (s\<lparr>sx_retune_pending := False\<rparr>) = (b, s1)" by fastforce
  then have "\<not> b" using dead_fails(2) [OF assms] by (metis fst_conv)
  then show ?thesis
    using c own_supervise [OF own_configure [OF c]] dead_rx_or_down [OF assms] go_down_state
    by (auto simp: after_tx_def retune_def)
qed

lemma dead_tx_timeout:
  assumes "dead_bus ho" and "sx_inv s" and "armed (sx_tx_timeout s)"
  shows "\<not> sx_healthy (snd (tx_timeout_fired ho s)) \<and>
         sx_supervise_timer (snd (tx_timeout_fired ho s)) = sx_supervise_timer s"
  using assms(2,3) dead_after_tx [OF assms(1), of "s\<lparr>sx_tx_timeout := None, sx_tx_busy := False\<rparr>"]
  by (auto simp: tx_timeout_fired_def Let_def sx_inv_def split: prod.split)

lemma recovery_failed_down [simp]: "sx_healthy (recovery_failed ho s) = sx_healthy s"
  using own_healthy [OF own_drop_paths, of ho "s\<lparr>sx_recovering := False, sx_recovery_timer := None\<rparr>"]
  by (simp add: recovery_failed_def)

lemma start_recovery_down: "sx_healthy (start_recovery ho s) = sx_healthy s"
  by (auto simp: start_recovery_def Let_def split: option.split prod.split bool.split dest!: own_on_hw own_healthy)

lemma release_reset_down: "sx_healthy (release_reset ho s) = sx_healthy s"
  by (auto simp: release_reset_def split: prod.split bool.split dest!: own_set_present_line own_healthy)

lemma poll_again_down [simp]: "sx_healthy (poll_again ho s) = sx_healthy s"
  by (simp add: poll_again_def)

lemma dead_poll:
  assumes "dead_bus ho" shows "sx_healthy (poll_reset_busy ho s) = sx_healthy s"
proof -
  obtain v s1 where b: "(case sx_busy_line s of None \<Rightarrow> (0, s) | Some l \<Rightarrow> on_hw (line_get ho l) s) = (v, s1)"
    by fastforce
  then have o1: "own s1 = own s" by (auto dest: own_on_hw split: option.splits)
  obtain ok s2 where c: "cmd ho kCmdSetStandby [kStandbyRc] s1 = (ok, s2)" by fastforce
  then have o2: "own s2 = own s" using o1 by (auto dest: own_cmd)
  have "\<not> ok" using dead_cmd [OF assms, of "[kStandbyRc]" kCmdSetStandby s1] c by simp
  then show ?thesis using b c own_healthy [OF o1] own_healthy [OF o2] by (simp add: poll_reset_busy_def)
qed

lemma dead_recovery_timer:
  assumes "dead_bus ho" shows "sx_healthy (recovery_timer_fired ho s) = sx_healthy s"
  using assms
  by (auto simp: recovery_timer_fired_def release_reset_down dead_poll split: option.split RecoveryStep.split)

lemma dead_reconfigure:
  assumes "dead_bus ho" and "\<not> sx_healthy s"
  shows "fst (reconfigure ho p s) = [] \<and> \<not> sx_healthy (snd (reconfigure ho p s))"
proof -
  let ?s = "s\<lparr>sx_params := p\<rparr>"
  obtain b s1 where u: "bring_up ho ?s = (b, s1)" by fastforce
  then have "\<not> b" using dead_fails(4) [OF assms(1), of ?s] by simp
  then have "\<not> sx_healthy s1" using own_healthy [OF own_bring_up [OF u]] assms(2) by simp
  then show ?thesis using assms(2) u \<open>\<not> b\<close> start_recovery_down [of ho ?s]
    by (auto simp: reconfigure_def Let_def)
qed

lemma down_irq: "\<not> sx_healthy s \<Longrightarrow> fst (on_irq ho s) = [] \<and> \<not> sx_healthy (snd (on_irq ho s))"
  by (auto simp: on_irq_def split: option.split prod.split dest!: own_on_hw own_healthy)

lemma down_supervise: "\<not> sx_healthy s \<Longrightarrow> fst (supervise ho s) = [] \<and> \<not> sx_healthy (snd (supervise ho s))"
  by (simp add: supervise_def start_recovery_down)

text \<open>The radio is down, nothing was accepted or delivered since.\<close>

definition dark :: "nat \<Rightarrow> radio_event list \<Rightarrow> 'c driver_world \<Rightarrow> bool" where
  "dark n evs w \<longleftrightarrow> sx_inv (dw_driver w) \<and> \<not> sx_healthy (dw_driver w) \<and> dw_accepted w = n \<and> dw_events w = evs"

lemma dark_deliver:
  "\<lbrakk>dark n evs w; settled s r; fst r = []; \<not> sx_healthy (snd r)\<rbrakk> \<Longrightarrow> dark n evs (deliver r w)"
  by (auto simp: dark_def deliver_def settled_def split: prod.split)

lemma dark_step:
  assumes "dead_bus ho" and "dark n evs w" shows "dark n evs (driver_step ho e w)"
proof -
  have d: "sx_inv (dw_driver w)" "\<not> sx_healthy (dw_driver w)" using assms(2) by (simp_all add: dark_def)
  have t: "\<not> armed (sx_tx_timeout (dw_driver w))" using d by (auto simp: sx_inv_def)
  show ?thesis
  proof (cases e)
    case (SendPacket data)
    then show ?thesis using assms(2) d by (simp add: driver_step_def send_def deliver_def dark_def)
  next
    case AskChannel
    then show ?thesis using assms(2) d by (simp add: driver_step_def sx_channel_busy_def deliver_def dark_def)
  next
    case (Reconfigure p)
    then show ?thesis using dark_deliver [OF assms(2) reconfigure_settled [OF d(1)]] dead_reconfigure [OF assms(1) d(2)]
      by (simp add: driver_step_def)
  next
    case IrqEdge
    then show ?thesis using dark_deliver [OF assms(2) on_irq_settled [OF d(1)]] down_irq [OF d(2)] assms(2)
      by (simp add: driver_step_def Let_def)
  next
    case TxTimeout
    then show ?thesis using t assms(2) by (simp add: driver_step_def)
  next
    case RecoveryTimer
    then show ?thesis
      using dark_deliver [OF assms(2) recovery_timer_settled [OF d(1), of ho]] dead_recovery_timer [OF assms(1)] d(2)
      by (simp add: driver_step_def)
  next
    case SuperviseTimer
    then show ?thesis
      using dark_deliver [OF assms(2) supervise_settled [OF d(1)]] down_supervise [OF d(2)] assms(2)
      by (simp add: driver_step_def Let_def)
  qed
qed

interpretation dark_run: event_system "driver_step ho" "\<lambda>w. dead_bus ho \<longrightarrow> dark n evs w"
  by unfold_locales (simp add: dark_step)

lemma power_loss_step:
  assumes "dead_bus ho" and "sx_inv (dw_driver w)" and "armed (sx_supervise_timer (dw_driver w))"
  shows "let w1 = driver_step ho SuperviseTimer (driver_step ho TxTimeout w)
         in dark (dw_accepted w) (dw_events w1) w1"
proof -
  define w0 where "w0 = driver_step ho TxTimeout w"
  have w0: "sx_inv (dw_driver w0) \<and> \<not> sx_tx_busy (dw_driver w0) \<and> armed (sx_supervise_timer (dw_driver w0)) \<and>
    dw_accepted w0 = dw_accepted w"
  proof (cases "armed (sx_tx_timeout (dw_driver w))")
    case True
    obtain evs s1 where r: "tx_timeout_fired ho (dw_driver w) = (evs, s1)" by fastforce
    have "sx_inv s1" using tx_timeout_settled [OF assms(2), of ho] r by (simp add: settled_def)
    moreover have "\<not> sx_tx_busy s1" using dead_tx_timeout [OF assms(1,2) True] r \<open>sx_inv s1\<close>
      by (auto simp: sx_inv_def)
    ultimately show ?thesis using True assms(3) dead_tx_timeout [OF assms(1,2) True] r
      by (simp add: w0_def driver_step_def deliver_def)
  next
    case False
    then show ?thesis using assms by (auto simp: w0_def driver_step_def sx_inv_def)
  qed
  have "settled (dw_driver w0) (supervise ho (dw_driver w0))" using w0 by (simp add: supervise_settled)
  moreover have "\<not> sx_healthy (snd (supervise ho (dw_driver w0)))"
  proof (cases "chip_responding ho (dw_driver w0)")
    case (Pair b s1)
    then have "\<not> b" using dead_fails(3) [OF assms(1), of "dw_driver w0"] by simp
    then show ?thesis using Pair w0 go_down_state [of ho s1] start_recovery_down [of ho "dw_driver w0"]
      by (auto simp: supervise_def sx_inv_def)
  qed
  ultimately have "dark (dw_accepted w) (dw_events (driver_step ho SuperviseTimer w0)) (driver_step ho SuperviseTimer w0)"
    using w0 by (cases "supervise ho (dw_driver w0)") (simp add: driver_step_def dark_def deliver_def settled_def)
  then show ?thesis by (simp add: w0_def Let_def)
qed


text \<open>Hardware whose lines work and whose bus reads zeros; the state is the time in microseconds.\<close>

definition off_hw :: "nat hw_ops" where
  "off_hw =
     \<lparr>hw_spi_open = (\<lambda>p c. (Some 3, c)), hw_spi_setup = (\<lambda>fd u c. (True, c)),
      hw_spi_message = (\<lambda>fd speed tx c. (Some (replicate (length tx) 0), c)), hw_spi_close = (\<lambda>fd c. c),
      hw_chip_open = (\<lambda>p c. (Some 4, c)), hw_chip_close = (\<lambda>h c. c), hw_line_settings = (\<lambda>n m c. (True, c)),
      hw_line_request = (\<lambda>h n m c. (Some n, c)), hw_line_events = (\<lambda>r c. (True, c)), hw_line_release = (\<lambda>r c. c),
      hw_line_set = (\<lambda>r n v c. (True, c)), hw_line_get = (\<lambda>r n c. (Some False, c)),
      hw_line_read = (\<lambda>r c. (EdgeAgain, c)), hw_now_us = (\<lambda>c. c), hw_sleep_us = (\<lambda>us c. c + us)\<rparr>"

text \<open>A driver with a packet in flight.\<close>

definition sending_world :: "nat driver_world" where
  "sending_world =
     \<lparr>dw_driver = (new_sx1262 7000 (default_params\<lparr>rp_freq_mhz := 868\<rparr>) default_pins 30000)
        \<lparr>sx_loop := True, sx_healthy := True, sx_tx_busy := True, sx_tx_timeout := Some 2300,
         sx_supervise_timer := Some 30000\<rparr>,
      dw_accepted = 1, dw_events = []\<rparr>"


section \<open>Frequencies on the wire\<close>

lemma unat_of_floor:
  assumes "0 \<le> x" and "x < 2 ^ LENGTH('a :: len)"
  shows "unat (word_of_int \<lfloor>x\<rfloor> :: 'a word) = nat \<lfloor>x :: rat\<rfloor>"
proof -
  have "0 \<le> \<lfloor>x\<rfloor>" using assms(1) by simp
  moreover have "\<lfloor>x\<rfloor> < 2 ^ LENGTH('a)" using assms(2) by (simp add: floor_less_iff)
  ultimately show ?thesis by (simp add: unat_eq_nat_uint uint_word_of_int_eq take_bit_int_eq_self)
qed

lemma unat_of_ceiling:
  assumes "0 \<le> x" and "x \<le> of_int (2 ^ LENGTH('a :: len) - 1)"
  shows "unat (word_of_int \<lceil>x\<rceil> :: 'a word) = nat \<lceil>x :: rat\<rceil>"
proof -
  have "0 \<le> \<lceil>x\<rceil>" using assms(1) by linarith
  moreover have "\<lceil>x\<rceil> \<le> 2 ^ LENGTH('a) - 1" using assms(2) by (simp only: ceiling_le_iff)
  ultimately show ?thesis by (simp add: unat_eq_nat_uint uint_word_of_int_eq take_bit_int_eq_self)
qed



section \<open>Waiting for BUSY ends\<close>

text \<open>
  The steady clock during the wait: reading the line does not turn it back, a sleep of 50 microseconds
  takes at least that long, and neither takes longer than eleven days.
\<close>

definition clock_ok :: "'c hw_ops \<Rightarrow> bool" where
  "clock_ok ho \<longleftrightarrow>
     (\<forall>r n c. hw_now_us ho c \<le> hw_now_us ho (snd (hw_line_get ho r n c)) \<and>
             hw_now_us ho (snd (hw_line_get ho r n c)) \<le> hw_now_us ho c + 1000000000000) \<and>
     (\<forall>c. hw_now_us ho c + 50 \<le> hw_now_us ho (hw_sleep_us ho 50 c) \<and>
          hw_now_us ho (hw_sleep_us ho 50 c) \<le> hw_now_us ho c + 1000000000000)"

lemma clock_get:
  assumes "clock_ok ho" and "on_hw (line_get ho l) s = (v, s1)"
  shows "hw_now_us ho (sx_hw s) \<le> hw_now_us ho (sx_hw s1) \<and> hw_now_us ho (sx_hw s1) \<le> hw_now_us ho (sx_hw s) + 1000000000000"
proof (cases "gl_req l")
  case None
  then show ?thesis using assms(2) by (auto simp: on_hw_def line_get_def)
next
  case (Some r)
  have "sx_hw s1 = snd (hw_line_get ho r (gl_offset l) (sx_hw s))"
    using assms(2) Some by (auto simp: on_hw_def line_get_def split: prod.splits option.splits)
  then show ?thesis using assms(1) by (simp add: clock_ok_def)
qed

text \<open>While the deadline has not passed, the 32-bit difference of the clock readings is the time elapsed.\<close>

lemma elapsed_ms:
  assumes "t0 \<le> t" and "t \<le> t0 + 4000000000000"
  shows "unat (word_of_nat (t div 1000) - word_of_nat (t0 div 1000) :: u32) = t div 1000 - t0 div 1000"
proof -
  have le: "t0 div 1000 \<le> t div 1000" using assms(1) by (rule div_le_mono)
  have "t div 1000 - t0 div 1000 < 2 ^ 32" using assms(2) by simp
  moreover have "(word_of_nat (t div 1000) - word_of_nat (t0 div 1000) :: u32) = word_of_nat (t div 1000 - t0 div 1000)"
    using le by (simp add: of_nat_diff)
  ultimately show ?thesis by (simp add: unsigned_of_nat take_bit_nat_eq_self)
qed

lemma late_iff:
  assumes "start = word_of_nat (t0 div 1000)" and "t0 \<le> t" and "t \<le> t0 + 4000000000000"
  shows "(word_of_nat (t div 1000) - start > (timeout :: u32)) \<longleftrightarrow> t div 1000 - t0 div 1000 > unat timeout"
  using elapsed_ms [OF assms(2,3)] by (simp add: word_less_nat_alt assms(1))

lemma late_ms: "t0 + (n + 1) * 1000 \<le> t \<Longrightarrow> t div 1000 - t0 div 1000 > (n :: nat)"
  using div_le_mono [of "t0 + (n + 1) * 1000" t 1000] by simp

lemma not_late_ms: "\<not> t div 1000 - t0 div 1000 > n \<Longrightarrow> t < t0 + (n + 2) * (1000 :: nat)"
  using div_times_less_eq_dividend [of t0 1000] dividend_less_div_times [of 1000 t] by (simp add: algebra_simps)

lemma wait_loop_enough:
  assumes "clock_ok ho" and "unat timeout \<le> 1000000000" and "start = word_of_nat (t0 div 1000)"
    and "t0 \<le> hw_now_us ho (sx_hw s)" and "hw_now_us ho (sx_hw s) \<le> t0 + (unat timeout + 2) * 1000 + 1000000000000"
    and "t0 + (unat timeout + 1) * 1000 \<le> hw_now_us ho (sx_hw s) + 50 * n" and "n \<le> m"
  shows "wait_busy_loop ho l timeout start (Suc m) s = wait_busy_loop ho l timeout start (Suc n) s"
  using assms(4-)
proof (induction n arbitrary: s m)
  case (0 s m)
  obtain v s1 where g: "on_hw (line_get ho l) s = (v, s1)" by fastforce
  have t: "t0 \<le> hw_now_us ho (sx_hw s1)" "hw_now_us ho (sx_hw s1) \<le> t0 + 4000000000000"
    "t0 + (unat timeout + 1) * 1000 \<le> hw_now_us ho (sx_hw s1)"
    using clock_get [OF assms(1) g, THEN conjunct1] clock_get [OF assms(1) g, THEN conjunct2] 0(1-3) assms(2) by simp_all
  have "sx_millis ho s1 - start > timeout"
    using late_iff [OF assms(3) t(1,2)] late_ms [OF t(3)] by (simp add: sx_millis_def hw_millis_def)
  then show ?case by (simp add: g)
next
  case (Suc n s m)
  obtain v s1 where g: "on_hw (line_get ho l) s = (v, s1)" by fastforce
  obtain m' where m: "m = Suc m'" "n \<le> m'" using Suc.prems(4) by (cases m) auto
  let ?t = "hw_now_us ho (sx_hw s1)" and ?s = "sleep_us ho 50 s1"
  have t: "t0 \<le> ?t" "?t \<le> t0 + 4000000000000"
    using clock_get [OF assms(1) g, THEN conjunct1] clock_get [OF assms(1) g, THEN conjunct2] Suc.prems(1-3) assms(2) by simp_all
  have "wait_busy_loop ho l timeout start (Suc m') ?s = wait_busy_loop ho l timeout start (Suc n) ?s"
    if "\<not> sx_millis ho s1 - start > timeout"
  proof -
    have "?t < t0 + (unat timeout + 2) * 1000"
      using that late_iff [OF assms(3) t] by (intro not_late_ms) (simp add: sx_millis_def hw_millis_def)
    moreover have "?t + 50 \<le> hw_now_us ho (sx_hw ?s)" "hw_now_us ho (sx_hw ?s) \<le> ?t + 1000000000000"
      using assms(1) by (simp_all add: clock_ok_def sleep_us_def)
    ultimately show ?thesis
      using clock_get [OF assms(1) g, THEN conjunct1] clock_get [OF assms(1) g, THEN conjunct2] Suc.prems(1-3) t m(2) by (intro Suc.IH) simp_all
  qed
  then show ?case by (simp add: g m(1) del: wait_busy_loop.simps) (simp add: g)
qed

text \<open>
  C40. The wait for BUSY before every transfer ends: under a clock that behaves, polling for more than the
  \<open>wait_rounds\<close> of the model changes neither the result nor the state, so the loop is left because the line
  was released, could not be read, or the deadline passed, the difference of the 32-bit readings included.
\<close>

theorem wait_busy_ends:
  assumes "clock_ok ho" and "unat timeout \<le> 1000000000" and "wait_rounds timeout \<le> n"
  shows "wait_busy_loop ho l timeout (sx_millis ho s) n s =
         wait_busy_loop ho l timeout (sx_millis ho s) (wait_rounds timeout) s"
proof -
  obtain m k where mk: "n = Suc m" "wait_rounds timeout = Suc k" "k \<le> m"
    using assms(3) by (cases n; cases "wait_rounds timeout") (auto simp: wait_rounds_def)
  then have "20 * (unat timeout + 2) = Suc k" by (simp add: wait_rounds_def)
  then show ?thesis
    unfolding mk using assms(1,2) mk(3)
    by (intro wait_loop_enough [where ?t0.0 = "hw_now_us ho (sx_hw s)"]) (simp_all add: sx_millis_def hw_millis_def)
qed

text \<open>Hardware whose BUSY line stays high and where every read of it takes ten microseconds.\<close>

definition busy_hw :: "nat hw_ops" where
  "busy_hw = off_hw\<lparr>hw_line_get := (\<lambda>r n c. (Some True, c + 10))\<rparr>"

theorem wait_busy_ends_witness:
  "let l = \<lparr>gl_req = Some 24, gl_offset = 24, gl_events = False\<rparr>;
       s = (new_sx1262 7000 default_params default_pins 0)\<lparr>sx_busy_line := Some l\<rparr>
   in wait_busy_loop busy_hw l kBusyTimeoutMs (sx_millis busy_hw s) 10000 s =
      wait_busy_loop busy_hw l kBusyTimeoutMs (sx_millis busy_hw s) (wait_rounds kBusyTimeoutMs) s"
  unfolding Let_def
  by (rule wait_busy_ends) (simp_all add: clock_ok_def busy_hw_def off_hw_def kBusyTimeoutMs_def wait_rounds_def)

end
