(* ===== verification/RadioLink.thy ===== *)
theory RadioLink
  imports Daemon Driver
begin

text \<open>
  The daemon on its radio: the session, the node and the dispatcher run on the SX1262 driver, the
  driver's events reach them.
\<close>

section \<open>What leaves the radio alone\<close>

lemma upd_pending_radio [simp]:
  "w_radio (upd_pending i f w) = w_radio w" "w_radio (erase_pending i w) = w_radio w"
  by (simp_all add: upd_pending_def erase_pending_def)

lemma complete_radio [simp]: "w_radio (snd (complete ack w)) = w_radio w"
  by (simp add: complete_def Let_def split: option.split)

lemma save_radio [simp]:
  "w_radio (snd (next_io w)) = w_radio w" "w_radio (snd (save_contacts w)) = w_radio w"
  "w_radio (snd (save_channels w)) = w_radio w" "w_radio (snd (save_inbox w)) = w_radio w"
  "w_radio (snd (flush w)) = w_radio w" "w_radio (request_save w) = w_radio w" "w_radio (on_save_request w) = w_radio w"
  by (simp_all add: next_io_def save_contacts_def save_channels_def save_inbox_def flush_def request_save_def
      on_save_request_def Let_def case_prod_unfold)

lemma tables_radio [simp]:
  "w_radio (upd_contacts g w) = w_radio w" "w_radio (snd (first_delivery env c m w)) = w_radio w"
  "w_radio (snd (text_ack env c m pl w)) = w_radio w" "w_radio (expire_delivered w) = w_radio w"
  "w_radio (expire_seen v) = w_radio v" "w_radio (snd (pop_message w)) = w_radio w"
  by (simp_all add: upd_contacts_def first_delivery_def text_ack_def expire_delivered_def expire_seen_def
      pop_message_def Let_def case_prod_unfold)

lemma flush_writes_radio [simp]: "w_radio (flush_writes os w) = w_radio w"
  by (induction os w rule: flush_writes.induct; subst flush_writes.simps;
      auto simp: Let_def drop_client_def watch_client_def upd_server_def
        split: list.splits write_outcome.splits option.splits)

lemma server_radio [simp]:
  "w_radio (drop_client w) = w_radio w" "w_radio (watch_client e w) = w_radio w"
  "w_radio (upd_server f w) = w_radio w" "w_radio (server_flush w) = w_radio w" "w_radio (server_send pl w) = w_radio w"
  by (simp_all add: drop_client_def watch_client_def upd_server_def server_flush_def server_send_def Let_def
      split: option.split)

lemma session_notify_radio: "w_radio (session_notify n w) = w_radio w"
  by (cases n) (simp_all add: notify_defs push_def)

section \<open>What the node does to its radio\<close>

text \<open>
  Between two events of the driver, the mesh only ever hands the radio a packet and asks it whether the
  channel is free. A predicate of the radio that survives both survives everything the node does,
  provided its delegate leaves the radio alone.
\<close>

locale radio_user =
  fixes env :: "('r, 'm) node_env" and Q :: "'r \<Rightarrow> bool"
  assumes send_keeps: "Q r \<Longrightarrow> Q (snd (radio_send (ne_radio env) raw r))"
    and listen_keeps: "Q r \<Longrightarrow> Q (snd (channel_busy (ne_radio env) r))"
    and delegate_radio: "w_radio (ne_delegate env n w) = w_radio w"
begin

lemma transmit_keeps:
  fixes w :: "('r, 'n) sworld_scheme"
  assumes "Q (w_radio w)"
  shows "Q (w_radio (snd (transmit (ne_radio env) on_tx_result i raw w)))"
  using send_keeps [OF assms, of raw] assms
  by (cases "radio_send (ne_radio env) raw (w_radio w)") (simp add: transmit_def Let_def split: bool.split)

lemma listen_then_transmit_keeps:
  fixes w :: "('r, 'n) sworld_scheme"
  assumes "Q (w_radio w)"
  shows "Q (w_radio (snd (listen_then_transmit (ne_radio env) on_tx_result i raw w)))"
proof (cases "channel_busy (ne_radio env) (w_radio w)")
  case (Pair busy r)
  then have "Q r" using listen_keeps [OF assms] by simp
  then show ?thesis using Pair
    by (simp add: listen_then_transmit_def Let_def transmit_keeps case_prod_unfold)
qed

lemma pump_step_keeps:
  fixes w :: "('r, 'n) sworld_scheme"
  shows "Q (w_radio w) \<Longrightarrow> Q (w_radio (snd (pump_step (ne_radio env) on_tx_result w)))"
  by (simp add: pump_step_def Let_def case_prod_unfold sender.drop_expired_queue listen_then_transmit_keeps
      split: option.split)

lemma pump_keeps [intro]:
  fixes w :: "('r, 'n) sworld_scheme"
  assumes "Q (w_radio w)"
  shows "Q (w_radio (pump (ne_radio env) on_tx_result w))"
proof -
  have "Q (w_radio (pump_rounds (ne_radio env) on_tx_result n w))" if "Q (w_radio w)" for n and w :: "('r, 'n) sworld_scheme"
    using that by (induction n arbitrary: w) (auto simp: case_prod_unfold intro: pump_step_keeps)
  then show ?thesis using assms by (simp add: pump_def del: pump_rounds.simps)
qed

lemma disp_send_keeps:
  fixes w :: "('r, 'n) sworld_scheme"
  shows "Q (w_radio w) \<Longrightarrow> Q (w_radio (snd (disp_send cr (ne_radio env) on_tx_result p prio delay res w)))"
  by (auto simp: disp_send_def enqueue_def drop_overflow_def Let_def)

lemma route_to_keeps:
  fixes w :: "('r, 'n) sworld_scheme"
  shows "Q (w_radio w) \<Longrightarrow> Q (w_radio (snd (route_to cr (ne_radio env) p to prio ff res w)))"
  by (simp add: route_to_def disp_send_keeps)

lemma send_attempt_keeps:
  fixes w :: "('r, 'n) sworld_scheme"
  shows "Q (w_radio w) \<Longrightarrow> Q (w_radio (snd (send_attempt cr (ne_radio env) self p to ff w)))"
  by (simp add: send_attempt_def Let_def case_prod_unfold route_to_keeps split: bool.split)

lemma rs_send_keeps:
  fixes w :: "('r, 'n) sworld_scheme"
  shows "Q (w_radio w) \<Longrightarrow> Q (w_radio (snd (rs_send cr (ne_radio env) self to tx tt ts w)))"
  by (simp add: rs_send_def Let_def case_prod_unfold send_attempt_keeps split: option.split sum.split)

lemma on_retry_keeps:
  fixes w :: "('r, 'n) sworld_scheme"
  shows "Q (w_radio w) \<Longrightarrow> Q (w_radio (on_retry cr (ne_radio env) self i w))"
  by (simp add: on_retry_def Let_def case_prod_unfold send_attempt_keeps split: option.split sum.split)

lemma node_sends_keep:
  assumes "Q (w_radio w)"
  shows "Q (w_radio (snd (node_send env p prio delay w)))" "Q (w_radio (send_advert env f w))"
    "Q (w_radio (snd (send_channel_text env i tx ts w)))" "Q (w_radio (snd (node_send_text env to tx tt ts w)))"
    "Q (w_radio (send_ack env to ack w))" "Q (w_radio (send_path_return env to p et ex via delay w))"
    "Q (w_radio (maybe_repeat env p w))" "Q (w_radio (forward_direct env p w))" "Q (w_radio (forward_trace env p w))"
  using assms
  by (simp_all add: node_send_def send_advert_def send_channel_text_def node_send_text_def send_ack_def
      send_path_return_def maybe_repeat_def forward_direct_def forward_trace_def direct_retransmit_delay_def
      path_return_extra_def draw_bytes_def disp_send_keeps rs_send_keeps route_to_keeps case_prod_unfold Let_def
      split: option.split bool.split)

lemma node_radio_same [simp]:
  "w_radio (store_message env m w) = w_radio w" "w_radio (snd (complete_ack env ack d w)) = w_radio w"
  "w_radio (snd (handle_advert env p w)) = w_radio w"
  by (simp_all add: store_message_def complete_ack_def handle_advert_def Let_def case_prod_unfold delegate_radio
      split: option.split prod.split)

lemma group_text_radio [simp]: "w_radio (handle_group_text env p w) = w_radio w"
proof -
  have "w_radio (try_channels env p e chs w) = w_radio w" for e chs
    by (induction chs) (auto split: option.splits)
  then show ?thesis by (simp add: handle_group_text_def split: option.split)
qed

lemma handlers_keep:
  assumes "Q (w_radio w)"
  shows "Q (w_radio (snd (handle_ack env p w)))" "Q (w_radio (snd (handle_path env p w)))"
    "Q (w_radio (receive_text env p k plain msg w))"
  using assms
  by (simp_all add: handle_ack_def handle_path_def receive_text_def Let_def case_prod_unfold delegate_radio
      node_sends_keep split: option.split)

lemma handle_text_keeps: "Q (w_radio w) \<Longrightarrow> Q (w_radio (snd (handle_text env p w)))"
  by (auto simp: handle_text_def handlers_keep split: option.splits)

lemma on_packet_keeps: "Q (w_radio w) \<Longrightarrow> Q (w_radio (on_packet env p w))"
  by (simp add: on_packet_def case_prod_unfold handle_text_keeps handlers_keep node_sends_keep split: PayloadType.split)

lemma radio_rx_keeps: "Q (w_radio w) \<Longrightarrow> Q (w_radio (node_radio_rx env r w))"
  by (auto simp: node_radio_rx_def on_radio_rx_def Let_def case_prod_unfold delegate_radio split: option.splits bool.splits
      intro!: on_packet_keeps)

lemma timer_keeps: "Q (w_radio w) \<Longrightarrow> Q (w_radio (node_timer env cb w))"
  by (cases cb) (simp_all add: node_timer_def on_retry_keeps node_sends_keep on_pump_timer_def Let_def pump_keeps)

end

section \<open>The radio in use\<close>

text \<open>The radio runs what the configuration says.\<close>

definition tuned :: "'r radio_ops \<Rightarrow> ('r \<Rightarrow> bool) \<Rightarrow> ('r, 'm) dworld_full_scheme \<Rightarrow> bool" where
  "tuned ro Q w \<longleftrightarrow> Q (w_radio w) \<and> (w_attached w \<longrightarrow> params ro (w_radio w) = cf_radio (w_config w))"

text \<open>A reply that left the parameters of the radio alone, or came out of the settings.\<close>

definition steady :: "'r radio_ops \<Rightarrow> ('r \<Rightarrow> bool) \<Rightarrow> ('r, 'm) aworld_scheme \<Rightarrow> ('r, 'm) aworld_scheme \<Rightarrow> bool" where
  "steady ro Q w w' \<longleftrightarrow> Q (w_radio w) \<longrightarrow> Q (w_radio w') \<and> params ro (w_radio w') = params ro (w_radio w)"

lemma steady_same: "w_radio w' = w_radio w \<Longrightarrow> steady ro Q w w'"
  by (simp add: steady_def)

lemma settings_reply_world: "snd (settings_reply se ch w) = snd (se_settings se ch w)"
  by (simp add: settings_reply_def split: prod.split SettingsResult.split)

lemma tuned_steady:
  fixes w w' :: "('r, 'm) dworld_full_scheme"
  assumes "aworld.more w' = aworld.more w" and "steady ro Q w w'" and "tuned ro Q w" shows "tuned ro Q w'"
  using assms by (cases w; cases w') (simp add: tuned_def steady_def)

lemma tuned_rest:
  fixes w w' :: "('r, 'm) dworld_full_scheme"
  assumes "aworld.more w' = aworld.more w" and "w_radio w' = w_radio w" shows "tuned ro Q w' = tuned ro Q w"
  using assms by (cases w; cases w') (simp add: tuned_def)

lemma flush_writes_rest [simp]:
  fixes w :: "('r, 'm) aworld_scheme"
  shows "aworld.more (flush_writes os w) = aworld.more w"
  by (induction os w rule: flush_writes.induct; subst flush_writes.simps;
      auto simp: Let_def drop_client_def watch_client_def upd_server_def
        split: list.splits write_outcome.splits option.splits)

lemma tuned_server [simp]:
  "tuned ro Q (drop_client w) = tuned ro Q w" "tuned ro Q (upd_server f w) = tuned ro Q w"
  "tuned ro Q (server_send pl w) = tuned ro Q w" "tuned ro Q (server_flush w) = tuned ro Q w"
  "tuned ro Q (watch_client e w) = tuned ro Q w" "tuned ro Q (w\<lparr>w_app_started := a\<rparr>) = tuned ro Q w"
  by (rule tuned_rest; simp add: drop_client_def upd_server_def server_send_def server_flush_def watch_client_def
      Let_def split: option.split)+

text \<open>What holds of every frame handled and survives the connection's bookkeeping holds of reading the client.\<close>

lemma on_client_ready_keeps:
  assumes "P w" and "\<And>f w. P w \<Longrightarrow> P (h f w)" and "\<And>g w. P w \<Longrightarrow> P (upd_server g w)"
    and "\<And>w. P w \<Longrightarrow> P (drop_client w)" and "\<And>w. P w \<Longrightarrow> P (server_flush w)"
  shows "P (on_client_ready h reads ev w)"
proof -
  have dispatch: "P (dispatch_frames h n w)" if "P w" for n w
    using that by (induction n arbitrary: w) (auto simp: Let_def assms(2,3) split: prod.splits option.splits)
  have feed: "P (feed_client h d w)" if "P w" for d w
    unfolding feed_client_def Let_def using that by (intro dispatch assms(3))
  have "P (read_client h reads w)" if "P w" for w
    using that
  proof (induction reads arbitrary: w)
    case (Cons r reads)
    then show ?case by (cases r) (simp_all add: Let_def feed assms(4))
  qed simp
  then show ?thesis using assms(1) by (simp add: on_client_ready_def Let_def assms(4,5))
qed

lemma tuned_outside [simp]:
  "tuned ro Q (w\<lparr>w_loop := lp, w_clock := ck, w_writes := os, w_io := ios\<rparr>) = tuned ro Q w"
  "tuned ro Q (on_radio_rx_error f w) = tuned ro Q w" "tuned ro Q (on_radio_tx_done a w) = tuned ro Q w"
  by (simp add: tuned_def)
    (rule tuned_rest [OF aworld_of_nworld], simp add: rx_error_more tx_done_more,
     simp add: on_radio_rx_error_def on_radio_tx_done_def Let_def case_prod_unfold)+

definition configured :: "Config \<Rightarrow> bool \<Rightarrow> ('r, 'm) dworld_full_scheme \<Rightarrow> bool" where
  "configured c a w \<longleftrightarrow> w_config w = c \<and> w_attached w = a"

lemma configured_rest:
  fixes w w' :: "('r, 'm) dworld_full_scheme"
  assumes "aworld.more w' = aworld.more w" shows "configured c a w' = configured c a w"
  using assms by (cases w; cases w') (simp add: configured_def)

lemma request_save_rest [simp]: "aworld.more (request_save w) = aworld.more w"
  by (rule aworld_of_nworld) simp

lemma notify_rest: "aworld.more (session_notify n w) = aworld.more w"
  by (cases n) (simp_all add: notify_defs push_def server_send_def server_flush_def drop_client_def upd_server_def
      Let_def)

interpretation conf: companion_predicate "session_node_env se" "configured c a"
  by unfold_locales
    (erule configured_rest [OF aworld_of_nworld, THEN iffD1, rotated], simp,
     simp add: session_node_env_def configured_rest [OF notify_rest])

lemma tuned_sends: "tuned ro Q (fold server_send pls w) = tuned ro Q w"
  by (induction pls arbitrary: w) simp_all

lemma saved_reply_radio [simp]: "w_radio (snd (saved_reply w)) = w_radio w"
  by (simp add: saved_reply_world)

locale daemon_radio = radio_contract "se_radio se" Q
  for se :: "('r, 'm dworld_full_ext) session_env" and Q :: "'r \<Rightarrow> bool"
begin

sublocale user: radio_user "session_node_env (daemon_env se)" "\<lambda>r. Q r \<and> params (se_radio se) r = p" for p
  using radio_send_ok radio_listen_ok
  by unfold_locales (auto simp: session_node_env_def daemon_env_def session_notify_radio)

lemma steady_user:
  "(\<And>p. Q (w_radio w) \<and> params (se_radio se) (w_radio w) = p \<Longrightarrow>
      Q (w_radio w') \<and> params (se_radio se) (w_radio w') = p) \<Longrightarrow> steady (se_radio se) Q w w'"
  by (simp add: steady_def)

lemma sends_steady:
  "steady (se_radio se) Q w (send_advert (session_node_env (daemon_env se)) f w)"
  "steady (se_radio se) Q w (snd (send_channel_text (session_node_env (daemon_env se)) i tx ts w))"
  "steady (se_radio se) Q w (snd (node_send_text (session_node_env (daemon_env se)) to tx tt ts w))"
  by (rule steady_user, rule user.node_sends_keep, assumption)+

lemma contact_cmds_steady:
  "steady (se_radio se) Q w (snd (cmd_add_update_contact args w))"
  "steady (se_radio se) Q w (snd (cmd_remove_contact args w))" "steady (se_radio se) Q w (snd (cmd_reset_path args w))"
  "steady (se_radio se) Q w (snd (cmd_set_channel args w))" "steady (se_radio se) Q w (snd (cmd_sync_next_message w))"
  unfolding cmd_add_update_contact_def cmd_remove_contact_def cmd_reset_path_def cmd_set_channel_def
    cmd_sync_next_message_def case_prod_unfold Let_def
  by (auto intro!: steady_same split: option.split bool.split)

lemma send_cmds_steady:
  "steady (se_radio se) Q w (snd (cmd_send_txt_msg (daemon_env se) args w))"
  "steady (se_radio se) Q w (snd (cmd_send_channel_txt_msg (daemon_env se) args w))"
  "steady (se_radio se) Q w (snd (cmd_set_device_time args w))"
proof -
  have stamp: "steady (se_radio se) Q w (v\<lparr>w_last_send_ms := t\<rparr>)" if "steady (se_radio se) Q w v" for v t
    using that by (simp add: steady_def)
  show "steady (se_radio se) Q w (snd (cmd_send_txt_msg (daemon_env se) args w))"
    unfolding cmd_send_txt_msg_def case_prod_unfold Let_def
    by (auto intro!: stamp simp: sends_steady steady_same split: option.split sum.split)
qed (auto simp: cmd_send_channel_txt_msg_def cmd_set_device_time_def case_prod_unfold Let_def sends_steady steady_same
    split: bool.split)

lemma settings_cmds_reply:
  "\<exists>ch. cmd_set_advert_name (daemon_env se) args w = settings_reply (daemon_env se) ch w \<or>
     snd (cmd_set_advert_name (daemon_env se) args w) = w"
  "\<exists>ch. cmd_set_advert_latlon (daemon_env se) args w = settings_reply (daemon_env se) ch w \<or>
     snd (cmd_set_advert_latlon (daemon_env se) args w) = w"
  "\<exists>ch. cmd_set_radio_params (daemon_env se) args w = settings_reply (daemon_env se) ch w \<or>
     snd (cmd_set_radio_params (daemon_env se) args w) = w"
  "\<exists>ch. cmd_set_tx_power (daemon_env se) args w = settings_reply (daemon_env se) ch w \<or>
     snd (cmd_set_tx_power (daemon_env se) args w) = w"
  "\<exists>ch. cmd_set_tuning_params (daemon_env se) args w = settings_reply (daemon_env se) ch w \<or>
     snd (cmd_set_tuning_params (daemon_env se) args w) = w"
  unfolding cmd_set_advert_name_def cmd_set_advert_latlon_def cmd_set_radio_params_def cmd_set_tx_power_def
    cmd_set_tuning_params_def case_prod_unfold Let_def
  by (auto split: option.split)

lemma command_radio:
  "steady (se_radio se) Q w (snd (command_reply (daemon_env se) co args w)) \<or>
   (\<exists>ch. snd (command_reply (daemon_env se) co args w) = snd (settings_set (se_radio se) ch w))"
proof -
  have s: "steady (se_radio se) Q w (snd r) \<or> (\<exists>ch. snd r = snd (settings_set (se_radio se) ch w))"
    if "\<exists>ch. r = settings_reply (daemon_env se) ch w \<or> snd r = w" for r
    using that by (auto simp: settings_reply_world daemon_env_def steady_same)
  show ?thesis
    unfolding command_reply_def
    using settings_cmds_reply [where args = args and w = w, THEN s]
    by (simp add: contact_cmds_steady send_cmds_steady sends_steady steady_same split: option.split Cmd.split)
qed

lemma reconfigure_tuned:
  fixes w :: "('r, 'n) sworld_scheme"
  assumes "Q (w_radio w)"
  shows "Q (w_radio (disp_reconfigure (se_radio se) on_tx_result p w)) \<and>
         params (se_radio se) (w_radio (disp_reconfigure (se_radio se) on_tx_result p w)) = p"
proof -
  have e: "ne_radio (session_node_env (daemon_env se)) = se_radio se" by (simp add: session_node_env_def daemon_env_def)
  define w1 where "w1 = upd_disp (\<lambda>d. d\<lparr>dp_duty := duty_set_percent (rp_duty_cycle_pct p) (dp_duty d)\<rparr>) w"
  define w2 where "w2 = (if p \<noteq> params (se_radio se) (w_radio w1)
    then w1\<lparr>w_radio := radio_reconfigure (se_radio se) p (w_radio w1)\<rparr> else w1)"
  have "Q (w_radio w2) \<and> params (se_radio se) (w_radio w2) = p"
    using radio_reconfigure_ok [OF assms, of p] assms by (simp add: w2_def w1_def)
  from user.pump_keeps [OF this] show ?thesis
    unfolding disp_reconfigure_def Let_def w1_def [symmetric] w2_def [symmetric] e .
qed

lemma settings_set_tuned:
  assumes "tuned (se_radio se) Q w" shows "tuned (se_radio se) Q (snd (settings_set (se_radio se) ch w))"
proof (cases rule: settings_set_cases [of "se_radio se" ch w])
  case (accepted c1 fs1 ios)
  let ?w = "w\<lparr>w_io := ios, w_fs := fs1, w_stored := stored_changes ch c1 (w_stored w), w_config := c1\<rparr>"
  show ?thesis
  proof (cases "w_attached w")
    case True
    then have "Q (w_radio (settings_apply (se_radio se) ?w)) \<and>
        params (se_radio se) (w_radio (settings_apply (se_radio se) ?w)) = cf_radio c1"
      using assms by (simp add: settings_apply_def Let_def tuned_def reconfigure_tuned)
    then show ?thesis using accepted(3) by (simp add: tuned_def)
  next
    case False
    then show ?thesis using accepted(3) assms by (simp add: tuned_def)
  qed
qed (use assms in \<open>simp_all add: tuned_def\<close>)

lemma frame_replies_tuned:
  assumes "tuned (se_radio se) Q w"
  shows "tuned (se_radio se) Q (snd (frame_replies (daemon_env se) f w))"
proof -
  let ?r = "command_reply (daemon_env se) (cmd_of (f ! 0)) (subview_from f 1) w"
  have ask: "aworld.more (snd ?r) = aworld.more w \<or> (\<exists>ch. snd ?r = snd (settings_set (se_radio se) ch w))"
    using command_asks [of "daemon_env se" w "cmd_of (f ! 0)" "subview_from f 1"] by (auto simp: asks_def daemon_env_def)
  have "tuned (se_radio se) Q (snd ?r)"
    using ask command_radio [of w "cmd_of (f ! 0)" "subview_from f 1"] settings_set_tuned [OF assms] assms
      tuned_steady [of "snd ?r" w "se_radio se" Q] by auto
  moreover have "tuned (se_radio se) Q (snd (cmd_app_start (daemon_env se) (subview_from f 1) w))"
    using assms by (simp add: cmd_app_start_def Let_def tuned_def)
  ultimately show ?thesis using assms by (simp add: frame_replies_def Let_def case_prod_unfold)
qed

lemma handle_frame_tuned:
  "tuned (se_radio se) Q w \<Longrightarrow> tuned (se_radio se) Q (handle_frame (daemon_env se) f w)"
  by (cases "f = []") (simp_all add: daemon.handle_frame_eq tuned_sends frame_replies_tuned,
      simp add: handle_frame_def)

lemma node_step_tuned:
  assumes "configured (w_config w) (w_attached w) w'" and "tuned (se_radio se) Q w"
    and "\<And>p. Q (w_radio w) \<and> params (se_radio se) (w_radio w) = p \<Longrightarrow>
      Q (w_radio w') \<and> params (se_radio se) (w_radio w') = p"
  shows "tuned (se_radio se) Q w'"
  using assms by (simp add: tuned_def configured_def)

lemma client_ready_tuned:
  "tuned (se_radio se) Q w \<Longrightarrow> tuned (se_radio se) Q (session_client_ready (daemon_env se) reads ev w)"
  unfolding session_client_ready_def
  by (rule on_client_ready_keeps) (simp_all add: handle_frame_tuned)

lemma listen_ready_tuned: "tuned (se_radio se) Q (session_listen_ready fd nb ev w) = tuned (se_radio se) Q w"
  by (rule tuned_rest)
    (simp_all add: session_listen_ready_def on_listen_ready_def accept_client_def on_connect_def drop_client_def
      upd_server_def Let_def case_prod_unfold split: option.split)

lemma daemon_step_tuned:
  assumes "tuned (se_radio se) Q w" shows "tuned (se_radio se) Q (daemon_step se e w)"
proof (cases e)
  case (RadioReceived r)
  have "configured (w_config w) (w_attached w) w" by (simp add: configured_def)
  then show ?thesis
    unfolding RadioReceived daemon_step.simps session_radio_rx_def
    by (intro node_step_tuned [OF _ assms] conf.radio_rx_keeps user.radio_rx_keeps)
next
  case (TimerFired cb)
  have "configured (w_config w) (w_attached w) w" by (simp add: configured_def)
  then show ?thesis
    unfolding TimerFired daemon_step.simps session_timer_def
    by (intro node_step_tuned [OF _ assms] conf.timer_keeps user.timer_keeps)
qed (use assms in \<open>simp_all add: client_ready_tuned listen_ready_tuned\<close>)

end

section \<open>The daemon on the driver\<close>

definition on_sx1262 :: "'c hw_ops \<Rightarrow> ('c Sx1262, 'm dworld_full_ext) session_env \<Rightarrow>
    ('c Sx1262, 'm dworld_full_ext) session_env" where
  "on_sx1262 ho se = se\<lparr>se_radio := sx_radio ho\<rparr>"

interpretation live: daemon_radio "on_sx1262 ho se" sx_inv
  for ho :: "'c hw_ops" and se :: "('c Sx1262, 'm dworld_full_ext) session_env"
  by unfold_locales
    (simp_all add: on_sx1262_def driver_radio.radio_send_ok driver_radio.radio_listen_ok driver_radio.radio_reconfigure_ok)

text \<open>
  The handlers the dispatcher registers with the radio, and an entry of the driver from the loop: the
  driver runs, then what it delivered reaches the handlers in order.
\<close>

fun hand_over ::
  "('r, 'm dworld_full_ext) session_env \<Rightarrow> radio_event \<Rightarrow> ('r, 'm) dworld_full_scheme \<Rightarrow> ('r, 'm) dworld_full_scheme" where
  "hand_over se (Received r) w = daemon_step se (RadioReceived r) w"
| "hand_over se (ReceiveFailed f) w = daemon_step se (RadioFailed f) w"
| "hand_over se (TxDone a) w = daemon_step se (RadioSent a) w"

definition drive ::
  "('r, 'm dworld_full_ext) session_env \<Rightarrow> ('r \<Rightarrow> radio_event list \<times> 'r) \<Rightarrow> ('r, 'm) dworld_full_scheme \<Rightarrow>
    ('r, 'm) dworld_full_scheme" where
  "drive se f w = (case f (w_radio w) of (evs, r) \<Rightarrow> fold (hand_over se) evs (w\<lparr>w_radio := r\<rparr>))"

text \<open>
  \<open>Elsewhere\<close> is what the hardware does on its own between two events.
\<close>

datatype 'c system_event =
    Loop daemon_event
  | RadioIrq
  | RadioTxTimeout
  | RadioRecovery
  | RadioSupervise
  | Elsewhere 'c

fun system_step ::
  "'c hw_ops \<Rightarrow> ('c Sx1262, 'm dworld_full_ext) session_env \<Rightarrow> 'c system_event \<Rightarrow>
    ('c Sx1262, 'm) dworld_full_scheme \<Rightarrow> ('c Sx1262, 'm) dworld_full_scheme" where
  "system_step ho se (Loop e) w = daemon_step (on_sx1262 ho se) e w"
| "system_step ho se RadioIrq w =
     (if sx_irq_watch (w_radio w) then drive (on_sx1262 ho se) (on_irq ho) w else w)"
| "system_step ho se RadioTxTimeout w =
     (if armed (sx_tx_timeout (w_radio w)) then drive (on_sx1262 ho se) (tx_timeout_fired ho) w else w)"
| "system_step ho se RadioRecovery w =
     drive (on_sx1262 ho se) (\<lambda>r. ([], recovery_timer_fired ho r)) w"
| "system_step ho se RadioSupervise w =
     (if armed (sx_supervise_timer (w_radio w)) then drive (on_sx1262 ho se) (supervise ho) w else w)"
| "system_step ho se (Elsewhere c) w = w\<lparr>w_radio := (w_radio w)\<lparr>sx_hw := c\<rparr>\<rparr>"

definition system_inv :: "'c hw_ops \<Rightarrow> ('c Sx1262, 'm) dworld_full_scheme \<Rightarrow> bool" where
  "system_inv ho w \<longleftrightarrow> node_inv w \<and> server_inv w \<and> tuned (sx_radio ho) sx_inv w"

lemma system_inv_radio:
  "system_inv ho (w\<lparr>w_radio := r\<rparr>) \<longleftrightarrow> node_inv w \<and> server_inv w \<and> tuned (sx_radio ho) sx_inv (w\<lparr>w_radio := r\<rparr>)"
proof -
  have "server_inv (w\<lparr>w_radio := r\<rparr>) = server_inv w" by (rule server_inv_cong) simp
  then show ?thesis by (simp add: system_inv_def)
qed

lemma loop_system_inv: "system_inv ho w \<Longrightarrow> system_inv ho (daemon_step (on_sx1262 ho se) e w)"
  using live.daemon_step_tuned [where ho = ho and se = se and w = w and e = e]
  by (simp add: system_inv_def daemon_step_node daemon_step_server on_sx1262_def)

lemma hand_over_inv: "system_inv ho w \<Longrightarrow> system_inv ho (hand_over (on_sx1262 ho se) ev w)"
  by (cases ev) (simp_all add: loop_system_inv del: daemon_step.simps)

lemma drive_inv:
  assumes "system_inv ho w" and "settled (w_radio w) (f (w_radio w))"
  shows "system_inv ho (drive (on_sx1262 ho se) f w)"
proof (cases "f (w_radio w)")
  case (Pair evs r)
  then have "tuned (sx_radio ho) sx_inv (w\<lparr>w_radio := r\<rparr>)"
    using assms by (simp add: system_inv_def tuned_def settled_def sx_radio_def)
  then have "system_inv ho (w\<lparr>w_radio := r\<rparr>)" using assms(1) by (simp add: system_inv_radio) (simp add: system_inv_def)
  then have "system_inv ho (fold (hand_over (on_sx1262 ho se)) evs (w\<lparr>w_radio := r\<rparr>))"
    by (induction evs arbitrary: w rule: rev_induct) (simp_all add: hand_over_inv)
  then show ?thesis by (simp add: drive_def Pair)
qed

lemma system_radio_inv: "system_inv ho w \<Longrightarrow> sx_inv (w_radio w)"
  by (simp add: system_inv_def tuned_def)

lemma system_step_inv:
  assumes "system_inv ho w" shows "system_inv ho (system_step ho se e w)"
proof (cases e)
  case (Elsewhere c)
  then show ?thesis using assms by (simp add: system_inv_radio) (simp add: system_inv_def tuned_def sx_radio_def)
qed (use assms system_radio_inv [OF assms] in \<open>auto simp: loop_system_inv
  intro!: drive_inv on_irq_settled tx_timeout_settled recovery_timer_settled supervise_settled\<close>)

interpretation system_run: event_system "system_step ho se" "system_inv ho"
  by unfold_locales (rule system_step_inv)

end
