(* ===== verification/Ranges.thy ===== *)
theory Ranges
  imports RadioLink
begin

text \<open>
  The values a configuration can have. Every field that is a number is checked on its way in -- from the
  configuration file, from the settings file, from an app -- against the range its consumer is written
  for; \<open>config_ok\<close> collects those ranges, and the lemmas show that nothing gets past them.
\<close>

section \<open>The ranges\<close>

definition radio_ok :: "RadioParams \<Rightarrow> bool" where
  "radio_ok r \<longleftrightarrow> valid_freq (rp_freq_mhz r) \<and> supported_bandwidth (rp_bw_khz r) \<and>
     5 \<le> uint (rp_sf r) \<and> uint (rp_sf r) \<le> 12 \<and> 5 \<le> uint (rp_cr r) \<and> uint (rp_cr r) \<le> 8 \<and>
     kMinTxPowerDbm \<le> rp_tx_power_dbm r \<and> rp_tx_power_dbm r \<le> kMaxTxPowerDbm \<and>
     valid_tcxo (rp_tcxo_voltage r) \<and> 1 \<le> rp_current_limit_ma r \<and> rp_current_limit_ma r \<le> 157 \<and>
     valid_duty_cycle (rp_duty_cycle_pct r)"

definition pin_ok :: "int \<Rightarrow> int \<Rightarrow> bool" where
  "pin_ok lowest n \<longleftrightarrow> lowest \<le> n \<and> n \<le> kMaxInt"

definition spi_ok :: "SpiConfig \<Rightarrow> bool" where
  "spi_ok s \<longleftrightarrow> pin_ok 0 (sp_irq_pin s) \<and> pin_ok 0 (sp_busy_pin s) \<and> pin_ok 0 (sp_reset_pin s) \<and>
     pin_ok (- 1) (sp_nss_pin s) \<and> pin_ok (- 1) (sp_rxen_pin s) \<and> pin_ok (- 1) (sp_txen_pin s) \<and>
     uint (sp_retry_interval_s s) \<le> 86400 \<and> 1 \<le> uint (sp_spi_speed_hz s) \<and> uint (sp_spi_speed_hz s) \<le> 16000000"

definition node_ok :: "NodeConfig \<Rightarrow> bool" where
  "node_ok n \<longleftrightarrow> uint (nc_advert_interval_s n) \<le> kMaxTimerDelaySeconds \<and>
     \<bar>sint (nc_lat_e6 n)\<bar> \<le> 90000000 \<and> \<bar>sint (nc_lon_e6 n)\<bar> \<le> 180000000 \<and> unat (nc_max_hops n) \<le> kMaxPathSize"

definition config_ok :: "Config \<Rightarrow> bool" where
  "config_ok c \<longleftrightarrow> radio_ok (cf_radio c) \<and> spi_ok (cf_spi c) \<and> node_ok (cf_node c) \<and> 1 \<le> uint (so_port (cf_companion c))"

section \<open>Every setting keeps them\<close>

definition keeps_ok :: "setting \<Rightarrow> bool" where
  "keeps_ok s \<longleftrightarrow> (\<forall>m c c'. config_ok (fst c) \<longrightarrow> apply_setting m s c = Inr c' \<longrightarrow> config_ok (fst c'))"

lemma keeps_str: "(\<And>v c. config_ok (fst c) \<Longrightarrow> config_ok (fst (put v c))) \<Longrightarrow> keeps_ok (key, StrTarget g put)"
  by (simp add: keeps_ok_def)

lemma keeps_bool: "(\<And>v c. config_ok (fst c) \<Longrightarrow> config_ok (fst (put v c))) \<Longrightarrow> keeps_ok (key, BoolTarget g put)"
  by (simp add: keeps_ok_def split: option.split del: split_paired_All)

lemma keeps_int:
  "(\<And>v c. config_ok (fst c) \<Longrightarrow> mn \<le> v \<Longrightarrow> v \<le> mx \<Longrightarrow> config_ok (fst (put v c))) \<Longrightarrow> keeps_ok (key, IntTarget g put mn mx)"
  by (simp add: keeps_ok_def split: option.split del: split_paired_All)

lemma keeps_real:
  "(\<And>v c. config_ok (fst c) \<Longrightarrow> ok v \<Longrightarrow> config_ok (fst (put v c))) \<Longrightarrow> keeps_ok (key, RealTarget g put ok)"
  by (simp add: keeps_ok_def split: option.split del: split_paired_All)

lemma keeps_degrees:
  "(\<And>v c. config_ok (fst c) \<Longrightarrow> ok v \<Longrightarrow> config_ok (fst (put (degrees_e6 v) c))) \<Longrightarrow> keeps_ok (key, DegreesTarget g put ok)"
  by (simp add: keeps_ok_def degrees_e6_def split: option.split del: split_paired_All)

lemmas keeps_targets = keeps_str keeps_bool keeps_int keeps_real keeps_degrees

lemma uint_small [simp]: "0 \<le> v \<Longrightarrow> v < 2 ^ LENGTH('a) \<Longrightarrow> uint (word_of_int v :: 'a::len word) = v"
  by (simp add: uint_word_of_int_eq take_bit_int_eq_self)

lemma unat_small: "0 \<le> v \<Longrightarrow> v < 2 ^ LENGTH('a) \<Longrightarrow> unat (word_of_int v :: 'a::len word) = nat v"
  by (simp add: unat_eq_nat_uint)

lemmas on_defs = on_radio_def on_spi_def on_node_def on_companion_def

lemma radio_settings_ok: "list_all keeps_ok radio_settings"
  unfolding radio_settings_def list.pred_inject
  by (intro conjI TrueI keeps_targets) (simp_all add: on_defs case_prod_unfold config_ok_def radio_ok_def)

lemma hardware_settings_ok: "list_all keeps_ok hardware_settings"
  unfolding hardware_settings_def list.pred_inject
  by (intro conjI TrueI keeps_targets)
    (simp_all add: on_defs case_prod_unfold config_ok_def radio_ok_def spi_ok_def pin_ok_def)

lemma degrees_e6_range:
  assumes "\<bar>x\<bar> \<le> of_int m" "0 \<le> m" "m \<le> 180" shows "\<bar>sint (degrees_e6 x)\<bar> \<le> m * 10 ^ 6"
proof -
  have k: "\<bar>lround (double_of (x * 10 ^ 6))\<bar> \<le> m * 10 ^ 6" by (rule degrees_e6_small) (use assms in simp_all)
  then have "sint (degrees_e6 x) = lround (double_of (x * 10 ^ 6))"
    using assms(3) unfolding degrees_e6_def by (intro sint_of_int_u32) auto
  with k show ?thesis by simp
qed

lemma lat_lon_range:
  "valid_lat x \<Longrightarrow> \<bar>sint (degrees_e6 x)\<bar> \<le> 90000000" "valid_lon x \<Longrightarrow> \<bar>sint (degrees_e6 x)\<bar> \<le> 180000000"
  using degrees_e6_range [of x 90] degrees_e6_range [of x 180] by (auto simp: valid_lat_def valid_lon_def)

lemma node_settings_ok: "list_all keeps_ok node_settings"
  unfolding node_settings_def list.pred_inject
  by (intro conjI TrueI keeps_targets)
    (simp_all add: on_defs case_prod_unfold config_ok_def node_ok_def lat_lon_range kMaxTimerDelaySeconds_def kMaxPathSize_def
      unat_small)

lemma other_settings_ok: "list_all keeps_ok other_settings"
  unfolding other_settings_def list.pred_inject
  by (intro conjI TrueI keeps_targets) (simp_all add: on_defs case_prod_unfold config_ok_def kMaxU16_def)

lemma settings_all_ok: "s \<in> set settings \<Longrightarrow> keeps_ok s"
  using radio_settings_ok hardware_settings_ok node_settings_ok other_settings_ok
  by (auto simp: settings_def list_all_iff)

lemma apply_settings_ok:
  assumes "apply_settings m ss c = Inr c'" "config_ok (fst c)" "list_all keeps_ok ss"
  shows "config_ok (fst c')"
  using assms
proof (induction m ss c rule: apply_settings.induct)
  case (2 m s ss c)
  show ?case
  proof (cases "app_key (fst s)")
    case False
    with 2 obtain c1 where c1: "apply_setting m s c = Inr c1" by (auto split: sum.splits)
    then have "config_ok (fst c1)" using 2 by (simp add: keeps_ok_def del: split_paired_All)
    with 2 False c1 show ?thesis by simp
  qed (use 2 in simp)
qed simp

lemma config_set_ok: "config_set key v c = Inr c1 \<Longrightarrow> config_ok c \<Longrightarrow> config_ok c1"
proof -
  assume s: "config_set key v c = Inr c1" and ok: "config_ok c"
  then obtain t c2 where t: "map_of settings key = Some t"
    "apply_setting (ini_set key v []) (key, t) (c, default_raw) = Inr c2" "c1 = fst c2"
    by (auto simp: config_set_def map_sum_def split: if_splits option.splits sum.splits)
  have "keeps_ok (key, t)" by (rule settings_all_ok [OF map_of_SomeD [OF t(1)]])
  then show ?thesis using t(2,3) ok unfolding keeps_ok_def by (metis fst_conv)
qed

lemma set_changes_ok: "set_changes ch c = Inr c1 \<Longrightarrow> config_ok c \<Longrightarrow> config_ok c1"
  by (induction ch c rule: set_changes.induct) (auto split: sum.splits dest: config_set_ok)

lemma load_entries_ok: "load_entries m c acc = Inr (c1, stored) \<Longrightarrow> config_ok c \<Longrightarrow> config_ok c1"
  by (induction m c acc rule: load_entries.induct) (auto split: if_splits sum.splits dest: config_set_ok)

lemma settings_load_ok: "settings_load fault fs0 p c = Inr (c1, stored) \<Longrightarrow> config_ok c \<Longrightarrow> config_ok c1"
  by (auto simp: settings_load_def split: if_splits sum.splits option.splits dest: load_entries_ok)

lemma config_ok_other [simp]:
  "config_ok (c\<lparr>cf_log_level := l\<rparr>) = config_ok c" "config_ok (c\<lparr>cf_state_dir := d\<rparr>) = config_ok c"
  "config_ok (c\<lparr>cf_companion := (cf_companion c)\<lparr>so_tcp := b\<rparr>\<rparr>) = config_ok c"
  "config_ok (c\<lparr>cf_node := (cf_node c)\<lparr>nc_name := n\<rparr>\<rparr>) = config_ok c" "config_ok (config_finalise c) = config_ok c"
  by (simp_all add: config_ok_def node_ok_def config_finalise_def)

lemma config_load_ok:
  assumes "config_load fault fs0 p c0 = Inr c" "config_ok c0" shows "config_ok c"
proof -
  obtain m c1 raw lvl b d where m: "apply_settings m settings (c0, default_raw) = Inr (c1, raw)"
    and c: "c = (c1\<lparr>cf_log_level := lvl\<rparr>)\<lparr>cf_companion := (cf_companion (c1\<lparr>cf_log_level := lvl\<rparr>))\<lparr>so_tcp := b\<rparr>, cf_state_dir := d\<rparr>"
    using assms(1) by (auto simp: config_load_def Let_def split: sum.splits option.splits if_splits)
  have "config_ok c1" using apply_settings_ok [OF m] assms(2) settings_all_ok by (simp add: list_all_iff)
  then show ?thesis unfolding c by (simp only: config_ok_other)
qed

lemma settings_set_config_ok:
  assumes "config_ok (w_config w)" shows "config_ok (w_config (snd (settings_set ro ch w)))"
  using settings_set_cases [of ro ch w]
proof cases
  case (accepted c1 fs1 ios)
  then show ?thesis using set_changes_ok [OF accepted(1) assms] by simp
qed (use assms in simp_all)

lemma default_ok: "config_ok default_config"
proof -
  have "\<bar>double_of (16 / 10) - 16 / 10\<bar> \<le> (16 / 10) / 2 ^ 53" "\<bar>double_of (33 / 10) - 33 / 10\<bar> \<le> (33 / 10) / 2 ^ 53"
    using double_of_error [of "16 / 10"] double_of_error [of "33 / 10"] by simp_all
  then have "valid_tcxo (9 / 5)" unfolding valid_tcxo_def abs_le_iff by simp
  then show ?thesis using default_bw
    by (simp add: config_ok_def default_config_def radio_ok_def default_params_def spi_ok_def node_ok_def pin_ok_def
        valid_freq_def valid_duty_cycle_def kMinTxPowerDbm_def kMaxTxPowerDbm_def kMaxInt_def kMaxTimerDelaySeconds_def
        kMaxPathSize_def)
qed

section \<open>What only a change of settings can break\<close>

text \<open>
  A fact about the configuration in force that every accepted change of settings keeps holds in the
  daemon from event to event: nothing else writes to it.
\<close>

lemma connection_rest [simp]:
  fixes w :: "('r, 'm) aworld_scheme"
  shows "aworld.more (server_send pl w) = aworld.more w" "aworld.more (server_flush w) = aworld.more w"
    "aworld.more (drop_client w) = aworld.more w" "aworld.more (upd_server g w) = aworld.more w"
  by (simp_all add: server_send_def server_flush_def drop_client_def upd_server_def Let_def)

locale settings_predicate =
  fixes ro :: "'r radio_ops" and P :: "('r, 'm) dworld_full_scheme \<Rightarrow> bool"
  assumes rest: "aworld.more w' = aworld.more w \<Longrightarrow> P w' = P w"
    and changes: "P w \<Longrightarrow> P (snd (settings_set ro ch w))"
begin

sublocale node: companion_predicate "session_node_env se" P for se
  by unfold_locales
    (erule rest [OF aworld_of_nworld, THEN iffD1, rotated], simp, simp add: session_node_env_def rest [OF notify_rest])

lemma sends: "P (fold server_send pls w) = P w"
  by (rule rest, induction pls arbitrary: w) simp_all

lemma reply_keeps: "se_radio se = ro \<Longrightarrow> P w \<Longrightarrow> asks (daemon_env se) w r \<Longrightarrow> P (snd r)"
  using rest [of "snd r" w] changes [of w] by (auto simp: asks_def daemon_env_def)

lemma frame_keeps:
  assumes "se_radio se = ro" "P w" shows "P (handle_frame (daemon_env se) f w)"
proof (cases "f = []")
  case False
  have "P (snd (cmd_app_start (daemon_env se) a w)) = P w" for a
    by (rule rest) (simp add: cmd_app_start_def Let_def)
  then have "P (snd (frame_replies (daemon_env se) f w))"
    using reply_keeps [OF assms command_asks] assms(2) by (simp add: frame_replies_def Let_def case_prod_unfold)
  with False show ?thesis by (simp add: daemon.handle_frame_eq sends)
qed (use assms in \<open>simp add: handle_frame_def\<close>)

lemma event_keeps:
  assumes "se_radio se = ro" "P w" shows "P (daemon_step se e w)"
proof (cases e)
  case (ClientReady reads ev)
  have "P (on_client_ready (handle_frame (daemon_env se)) reads ev w)"
    by (rule on_client_ready_keeps [where P = P])
      (erule rest [THEN iffD1, rotated], simp | rule assms | erule frame_keeps [OF assms(1)])+
  then show ?thesis by (simp add: ClientReady session_client_ready_def)
next
  case (ListenReady fd nb ev)
  have "aworld.more (session_listen_ready fd nb ev w) = aworld.more w"
    by (simp add: session_listen_ready_def on_listen_ready_def accept_client_def on_connect_def drop_client_def
      upd_server_def Let_def case_prod_unfold split: option.split)
  from rest [OF this] show ?thesis using assms(2) by (simp add: ListenReady)
next
  case (RadioReceived r)
  then show ?thesis using node.radio_rx_keeps [OF assms(2)] by (simp add: session_radio_rx_def)
next
  case (TimerFired cb)
  then show ?thesis using node.timer_keeps [OF assms(2)] by (simp add: session_timer_def)
next
  case (RadioFailed f)
  then show ?thesis using assms(2) rest [OF aworld_of_nworld [OF rx_error_more]] by simp
next
  case (RadioSent a)
  then show ?thesis using assms(2) rest [OF aworld_of_nworld [OF tx_done_more]] by simp
next
  case (Outside lp t os ios)
  then show ?thesis using assms(2) rest [of "daemon_step se e w" w] by simp
qed

end

interpretation in_range: settings_predicate ro "\<lambda>w. config_ok (w_config w)"
proof
  fix w w' :: "('r, 'm) dworld_full_scheme"
  show "aworld.more w' = aworld.more w \<Longrightarrow> config_ok (w_config w') = config_ok (w_config w)"
    by (cases w; cases w') simp
qed (rule settings_set_config_ok)

section \<open>A range that is too wide\<close>

text \<open>
  The advert interval may be as long as the milliseconds fit 32 bits, but the loop reads the time left of a
  timer as a signed number: with an interval of 2147484 seconds (under 25 days) or more the timer that
  \<^verbatim>\<open>start\<close> arms is due at once, and again whenever it has fired.
\<close>

lemma sint_u32_top: "2 ^ 31 \<le> uint (d :: u32) \<Longrightarrow> sint d < 0"
  using sint_u32_nonneg [of d] sint_lt [of d] by fastforce

lemma long_advert_interval_always_due:
  assumes "2147484 \<le> uint s" "uint s \<le> kMaxTimerDelaySeconds" "add_repeating (s * 1000) CbAdvert lp = (i, lp1)"
  shows "i \<in> set (due_timers lp1)"
proof -
  have "uint (s * 1000) = uint s * 1000"
    using assms(2) by (simp add: uint_mult_lem [THEN iffD1] kMaxTimerDelaySeconds_def)
  then have "sint (s * 1000) < 0" by (intro sint_u32_top) (use assms(1) in simp)
  moreover from this have "s * 1000 \<noteq> 0" by auto
  ultimately show ?thesis
    using assms(3) by (clarsimp simp: add_repeating_def Let_def due_timers_def te_remaining_def sdiff_def simp del: set_filter)
qed

end
