(* ===== verification/Identity.thy ===== *)
theory Identity
  imports Persist Crypto
begin

text \<open>
  The node's key file, \<^verbatim>\<open>LocalIdentity::load\<close> and \<^verbatim>\<open>save\<close> of \<^verbatim>\<open>src/src/crypto/identity.cpp\<close>. The results of
  the calls on the file are inputs, as in the state files. The lemmas show that a key that was written
  is read back as it was, and which raw keys the reader refuses.
\<close>

section \<open>Reading and writing\<close>

text \<open>
  \<open>IdMissing\<close> is no key with the error left empty, \<open>IdRefused\<close> no key with an error.
\<close>

datatype id_result = IdLoaded LocalIdentity | IdMissing | IdRefused

definition trailing :: "byte \<Rightarrow> bool" where
  "trailing b \<longleftrightarrow> b = newline \<or> b = carriage_return \<or> b = of_char CHR '' ''"

text \<open>The loop that pops trailing white space off the end.\<close>

definition trim_end :: "bytes \<Rightarrow> bytes" where
  "trim_end raw = rev (dropWhile trailing (rev raw))"

definition id_parse :: "crypto_ops \<Rightarrow> bytes \<Rightarrow> LocalIdentity option" where
  "id_parse cr raw =
    (let t = trim_end raw
     in case unhex t of Some bin \<Rightarrow> from_bytes cr bin | None \<Rightarrow> from_bytes cr t)"

text \<open>
  \<open>opens\<close> is whether a file that is there can be opened, \<open>bad\<close> whether the stream reports a read error.
\<close>

definition id_load :: "crypto_ops \<Rightarrow> bool \<Rightarrow> bool \<Rightarrow> fs \<Rightarrow> bytes \<Rightarrow> id_result" where
  "id_load cr opens bad fs0 p =
     (case fs0 p of
        None \<Rightarrow> IdMissing
      | Some f \<Rightarrow>
          if \<not> opens then IdRefused
          else if bad then IdRefused
          else (case id_parse cr (f_content f) of None \<Rightarrow> IdRefused | Some self \<Rightarrow> IdLoaded self))"

definition id_text :: "LocalIdentity \<Rightarrow> bytes" where
  "id_text self = hex (id_priv self) @ [newline]"

text \<open>A replacement that failed is cleaned up; a write that failed is not. \<open>removed\<close> is the result of \<^verbatim>\<open>remove\<close>.\<close>

definition id_save :: "io_plan \<Rightarrow> bool \<Rightarrow> bytes \<Rightarrow> fs \<Rightarrow> LocalIdentity \<Rightarrow> bool \<times> fs" where
  "id_save io removed p fs0 self =
    (let tmp = p @ dot_tmp
     in case write_tmp io tmp (id_text self) fs0 of
          (False, fs1) \<Rightarrow> (False, fs1)
        | (True, fs1) \<Rightarrow>
            (case durable_replace io tmp p False fs1 of
               (True, fs2) \<Rightarrow> (True, fs2)
             | (False, fs2) \<Rightarrow> (False, if removed then fs2(tmp := None) else fs2)))"

section \<open>Keys that are their own clamped form\<close>

definition identity_wf :: "crypto_ops \<Rightarrow> LocalIdentity \<Rightarrow> bool" where
  "identity_wf cr self \<longleftrightarrow> length (id_priv self) = kPrivKeySize \<and> clamp_scalar (id_priv self) = id_priv self \<and>
     base_noclamp cr (take 32 (id_priv self)) = Some (id_pub self)"

lemma length_clamp [simp]: "length (clamp_scalar a) = length a"
  by (simp add: clamp_scalar_def)

lemma clamp_bits: "(b AND 248) AND 248 = (b AND 248 :: byte)" "(((b AND 127) OR 64) AND 127) OR 64 = ((b AND 127) OR 64 :: byte)"
  by (simp_all add: and.assoc bit.conj_disj_distrib2 or.assoc)

lemma clamp_twice [simp]: "32 \<le> length a \<Longrightarrow> clamp_scalar (clamp_scalar a) = clamp_scalar a"
proof -
  assume "32 \<le> length a"
  then have "0 < length a" "31 < length a" by linarith+
  then show ?thesis by (simp add: clamp_scalar_def nth_list_update list_update_swap clamp_bits)
qed

lemma imported_key_wf: "from_bytes cr key = Some self \<Longrightarrow> identity_wf cr self"
  by (auto simp: from_bytes_def identity_wf_def Let_def split: if_splits option.splits)

lemma generated_key_wf:
  assumes "\<And>m. length (sha512 cr m) = 64" and "generate cr seeds = Some self"
  shows "identity_wf cr self \<and> id_pub self ! 0 \<notin> {0x00, 0xff}"
  using assms(2)
  by (induction seeds) (auto simp: identity_wf_def assms(1) Let_def split: option.splits if_splits)

lemma from_bytes_priv: "identity_wf cr self \<Longrightarrow> from_bytes cr (id_priv self) = Some self"
  by (simp add: from_bytes_def identity_wf_def)

section \<open>The round trip\<close>

lemma hex_not_trailing: "b \<in> set (hex a) \<Longrightarrow> \<not> trailing b"
  using set_hex [of a] by (auto simp: kDigits_def str_def trailing_def char_codes)

lemma trim_hex: "trim_end (hex a @ [newline]) = hex a"
proof -
  have "dropWhile trailing (rev (hex a)) = rev (hex a)"
    by (cases "rev (hex a)") (use hex_not_trailing [of _ a] in \<open>auto simp flip: set_rev [of "hex a"]\<close>)
  then show ?thesis by (simp add: trim_end_def trailing_def)
qed

lemma id_parse_text: "identity_wf cr self \<Longrightarrow> id_parse cr (id_text self) = Some self"
  by (simp add: id_parse_def id_text_def trim_hex from_bytes_priv)

text \<open>Apart from the clean-up of the temporary, it is the save of the state files without a backup.\<close>

lemma id_save_cases:
  assumes "id_save io removed p fs0 self = (ok, fs1)"
  obtains "save_file io p (id_text self) False fs0 = (ok, fs1)"
  | fs2 where "save_file io p (id_text self) False fs0 = (False, fs2)" "\<not> ok" "fs1 = fs2(p @ dot_tmp := None)"
  using assms by (auto simp: id_save_def save_file_def Let_def split: prod.splits bool.splits if_splits)

lemma id_save_file:
  assumes "id_save io removed p fs0 self = (ok, fs1)"
  shows "(ok \<longrightarrow> fs1 p = Some \<lparr>f_content = id_text self, f_mode = owner_rw\<rparr>) \<and>
    fs1 p \<in> {fs0 p, Some \<lparr>f_content = id_text self, f_mode = owner_rw\<rparr>} \<and>
    (\<forall>q. q \<notin> {p, p @ dot_tmp, p @ dot_bak} \<longrightarrow> fs1 q = fs0 q)"
  using assms
proof (cases rule: id_save_cases)
  case 1
  then show ?thesis using save_file_ok [of io p "id_text self" False fs0 fs1] save_file_old_or_new [OF 1]
      save_file_frame [OF 1] by auto
next
  case (2 fs2)
  then show ?thesis using save_file_old_or_new [OF 2(1)] save_file_frame [OF 2(1)] by auto
qed

section \<open>Raw keys\<close>

lemma unhex_pairs_length: "unhex_pairs s = Some b \<Longrightarrow> length b = length s div 2"
  by (induction s arbitrary: b rule: unhex_pairs.induct) (auto simp: Let_def split: if_splits)

lemma unhex_length: "unhex s = Some b \<Longrightarrow> length b \<le> length s"
  using unhex_pairs_length [of s b] by (auto simp: unhex_def split: if_splits)

lemma length_trim_end: "raw \<noteq> [] \<Longrightarrow> trailing (last raw) \<Longrightarrow> length (trim_end raw) < length raw"
  using length_dropWhile_le [of trailing "rev (butlast raw)"]
  by (cases raw rule: rev_cases) (auto simp: trim_end_def)

text \<open>
  The trimming is meant for the text form, but is done before the form is known: a raw 64-byte key whose
  last byte happens to be a newline, a carriage return or a space is cut short and refused, although
  \<^verbatim>\<open>from_bytes\<close> accepts it.
\<close>

lemma raw_key_cut_short:
  assumes "length raw = kPrivKeySize" "trailing (last raw)" "fs0 p = Some f" "f_content f = raw"
  shows "id_load cr True False fs0 p = IdRefused"
proof -
  have l: "length (trim_end raw) < 64" using length_trim_end [of raw] assms by force
  have "from_bytes cr b = None" if "length b < 64" for b using that by (simp add: from_bytes_def)
  then have "id_parse cr raw = None"
    using l unhex_length [of "trim_end raw"] by (fastforce simp: id_parse_def Let_def split: option.split)
  with assms show ?thesis by (simp add: id_load_def)
qed

section \<open>Properties\<close>

text \<open>
  A node key survives the restart: whatever system call fails while it is written, the key file
  afterwards holds what it held before or the new key, readable by its owner only; when the save
  reports success, loading the file gives the same public and private key.
\<close>

theorem saved_key_loads:
  assumes "identity_wf cr self" and "id_save io removed p fs0 self = (ok, fs1)"
  shows "(ok \<longrightarrow> id_load cr True False fs1 p = IdLoaded self) \<and>
    (fs1 p = fs0 p \<or> id_load cr True False fs1 p = IdLoaded self \<and> map_option f_mode (fs1 p) = Some owner_rw)"
  using id_save_file [OF assms(2)] id_parse_text [OF assms(1)] by (auto simp: id_load_def)

definition sample_key :: LocalIdentity where
  "sample_key = \<lparr>id_pub = 8 # replicate 30 0 @ [64], id_priv = 8 # replicate 30 0 @ [64] @ replicate 32 7\<rparr>"

lemma sample_key_wf: "identity_wf plain_crypto sample_key"
  by (simp add: identity_wf_def sample_key_def clamp_scalar_def plain_crypto_def resize_def eval_nat_numeral)

theorem saved_key_loads_witness:
  "id_load plain_crypto True False (snd (id_save io_fine True [107] Map.empty sample_key)) [107] = IdLoaded sample_key"
proof -
  have "fst (id_save io_fine True [107] Map.empty sample_key)"
    by (simp add: id_save_def write_tmp_def durable_replace_def replace_steps_def io_fine_def Let_def)
  then obtain fs1 where "id_save io_fine True [107] Map.empty sample_key = (True, fs1)"
    by (metis prod.collapse)
  with saved_key_loads [OF sample_key_wf this] show ?thesis by simp
qed

end
