(* ===== verification/Recovery.thy ===== *)
theory Recovery
  imports Contacts Channels Inbox
begin

text \<open>
  Loading the stores at start-up, \<^verbatim>\<open>load_state\<close> and \<^verbatim>\<open>restrict_state_files\<close> of \<^verbatim>\<open>src/src/daemon/app.cpp\<close>: a
  file that cannot be read is moved aside and the backup of the last save takes its place. The lemmas
  show, for any store that keeps the contract \<open>file_store\<close>, that the backup is what is loaded and that the
  damaged file is kept, and that whatever the files hold the loaded stores are well formed.
\<close>

section \<open>Loading with a fallback\<close>

text \<open>
  The results of the calls: a read error of either load, the rename that moves the file aside, the rename
  that brings the backup in, and the time stamps of the names the files are moved to.
\<close>

record load_plan =
  ld_fault :: "nat option"
  ld_moved :: bool
  ld_stamp :: bytes
  ld_restored :: bool
  ld_fault_bak :: "nat option"
  ld_moved_bak :: bool
  ld_stamp_bak :: bytes

definition dot_corrupt :: bytes where "dot_corrupt = str ''.corrupt-''"

definition load_state ::
  "(nat option \<Rightarrow> fs \<Rightarrow> 's \<Rightarrow> LoadResult \<times> 's) \<Rightarrow> load_plan \<Rightarrow> bytes \<Rightarrow> fs \<Rightarrow> 's \<Rightarrow>
    LoadResult \<times> fs \<times> 's" where
  "load_state load io p fs0 s =
     (case load (ld_fault io) fs0 s of
        (Corrupt, s1) \<Rightarrow>
          let fs1 = snd (quarantine (ld_moved io) (dot_corrupt @ ld_stamp io) p fs0);
              backup = p @ dot_bak
          in if \<not> ld_restored io \<or> fs1 backup = None then (Corrupt, fs1, s1)
             else
               let fs2 = fs1(p := fs1 backup, backup := None)
               in (case load (ld_fault_bak io) fs2 s1 of
                     (Corrupt, s2) \<Rightarrow>
                       (Corrupt, snd (quarantine (ld_moved_bak io) (dot_corrupt @ ld_stamp_bak io) p fs2), s2)
                   | (r, s2) \<Rightarrow> (r, fs2, s2))
      | (r, s1) \<Rightarrow> (r, fs0, s1))"

lemma dot_corrupt_simps [simp]: "dot_corrupt \<noteq> []" "dot_corrupt @ b \<noteq> dot_bak" "dot_bak \<noteq> dot_corrupt @ b"
  by (simp_all add: dot_corrupt_def dot_bak_def str_def)

section \<open>What a load leaves behind\<close>

lemma load_state_keeps:
  assumes "\<And>fault fs s. P s \<Longrightarrow> P (snd (load fault fs s))" and "P s"
  shows "P (snd (snd (load_state load io p fs0 s)))"
  using assms(1) [OF assms(2), of "ld_fault io" fs0] assms(1)
  by (fastforce simp: load_state_def Let_def split: prod.splits LoadResult.splits dest: arg_cong [where f = snd])

text \<open>Files outside the store's own names are not touched.\<close>

lemma load_state_frame:
  assumes "\<And>x. q \<noteq> p @ x"
  shows "fst (snd (load_state load io p fs0 s)) q = fs0 q"
  using assms assms [of "[]"]
  by (auto simp: load_state_def Let_def quarantine_def split: prod.split LoadResult.split)

lemma contacts_load_inv: "contacts_inv s \<Longrightarrow> contacts_inv (snd (contacts_load fault fs s))"
proof -
  assume s: "contacts_inv s"
  have "contacts_inv (snd (contacts_parse s input))" for input
  proof (cases "contacts_parse s input")
    case (Pair r s')
    with s show ?thesis using contacts_parse_storable [of s input s'] contacts_parse_keeps [OF Pair]
      by (cases "r = Loaded") (simp_all add: contacts_storable_def)
  qed
  with s show ?thesis by (simp add: contacts_load_def split: option.split)
qed

lemma channel_line_length:
  "channel_line acc line = Some acc' \<Longrightarrow> length (fst acc) = n \<Longrightarrow> length (fst acc') = n"
  by (auto simp: channel_line_def Let_def split: prod.splits option.splits list.splits if_splits)

lemma channels_load_inv: "channels_inv s \<Longrightarrow> channels_inv (snd (channels_load fault fs s))"
proof -
  assume s: "channels_inv s"
  have "channels_inv (snd (channels_parse s input))" for input
  proof (cases "load_lines channels_header channel_line (fst input) False
      (replicate kMaxChannels no_channel, replicate kMaxChannels False)")
    case (Some r)
    obtain saw loaded occ where r: "r = (saw, loaded, occ)" by (cases r)
    have "length (fst (loaded, occ)) = kMaxChannels"
      using Some [unfolded r] by (rule load_lines_invariant) (auto elim!: channel_line_length)
    with Some s show ?thesis by (simp add: channels_parse_def r channels_inv_def)
  qed (use s in \<open>simp add: channels_parse_def\<close>)
  with s show ?thesis by (simp add: channels_load_def split: option.split)
qed

lemma message_fields_wf: "message_fields fds = Some m \<Longrightarrow> message_wf m"
  by (auto simp: message_fields_def message_wf_def parse_peer_def split: option.splits if_splits)

lemma inbox_load_inv: "inbox_inv s \<Longrightarrow> inbox_inv (snd (inbox_load fault fs s))"
proof -
  assume s: "inbox_inv s"
  have "inbox_inv (snd (inbox_parse s input))" for input
  proof (cases "load_lines inbox_header message_line (fst input) False []")
    case (Some r)
    obtain saw loaded where r: "r = (saw, loaded)" by (cases r)
    have "list_all message_wf loaded"
      using Some [unfolded r]
      by (rule load_lines_invariant) (auto simp: message_line_def message_fields_wf split: option.splits)
    then have "list_all message_wf (drop n loaded)" for n by (auto simp: list_all_iff dest: in_set_dropD)
    with Some s show ?thesis by (auto simp: inbox_parse_def r inbox_inv_def drop_oldest_eq)
  qed (use s in \<open>simp add: inbox_parse_def\<close>)
  with s show ?thesis by (simp add: inbox_load_def split: option.split)
qed

lemma stores_load_inv:
  "contacts_inv cs \<Longrightarrow> contacts_inv (snd (snd (load_state contacts_load io p fs0 cs)))"
  "channels_inv chs \<Longrightarrow> channels_inv (snd (snd (load_state channels_load io p fs0 chs)))"
  "inbox_inv ib \<Longrightarrow> inbox_inv (snd (snd (load_state inbox_load io p fs0 ib)))"
  by (erule load_state_keeps [rotated], erule contacts_load_inv)
    (erule load_state_keeps [rotated], erule channels_load_inv,
     erule load_state_keeps [rotated], erule inbox_load_inv)

section \<open>The backup\<close>

context file_store
begin

lemma backup_recovers:
  assumes "store_path t \<noteq> []" "load (ld_fault io) fs0 t = (Corrupt, t)"
    and "ld_moved io" "ld_restored io" "ld_fault_bak io = None"
    and "fs0 (store_path t) = Some junk" "fs0 (store_path t @ dot_bak) = Some f" "f_content f = render s"
    and "storable s" "same_config s t"
  shows "load_state load io (store_path t) fs0 t = (Loaded,
      fs0(store_path t @ dot_corrupt @ ld_stamp io \<mapsto> junk, store_path t \<mapsto> f, store_path t @ dot_bak := None),
      restore t s)"
  using assms parse_render [of s t]
  by (simp add: load_state_def quarantine_def load_reads read_file_def fun_upd_twist)

lemma backup_of_previous:
  assumes "save io1 fs0 old = (True, fs1, old')" and "save io2 fs1 new = (True, fs2, new')"
    and "io_unlink io2" "io_link io2" "store_path new = store_path old"
  shows "store_path old \<noteq> [] \<and> (\<exists>f. fs2 (store_path old @ dot_bak) = Some f \<and> f_content f = render old)"
proof -
  have sp: "store_path old \<noteq> []" using assms(1) save_nowhere by fastforce
  have "fs1 (store_path old) = Some \<lparr>f_content = render old, f_mode = owner_rw\<rparr>"
    using save_file_ok [OF save_replaces [OF sp assms(1)]] .
  then show ?thesis
    using sp save_file_backup [OF save_replaces [OF _ assms(2)] assms(3,4)] assms(5) by auto
qed

lemma damaged_file_recovers:
  assumes "save io1 fs0 old = (True, fs1, old')" and "save io2 fs1 new = (True, fs2, new')"
    and "io_unlink io2" "io_link io2" "storable old" "same_config old t" "store_path new = store_path old"
    and "load (ld_fault io) (fs2(store_path t \<mapsto> junk)) t = (Corrupt, t)"
    and "ld_moved io" "ld_restored io" "ld_fault_bak io = None"
  shows "\<exists>fs3. load_state load io (store_path t) (fs2(store_path t \<mapsto> junk)) t = (Loaded, fs3, restore t old) \<and>
    fs3 (store_path t @ dot_corrupt @ ld_stamp io) = Some junk"
proof -
  have p: "store_path old = store_path t" by (rule same_config_path [OF assms(6)])
  obtain f where f: "fs2 (store_path t @ dot_bak) = Some f" "f_content f = render old" "store_path t \<noteq> []"
    using backup_of_previous [OF assms(1-4,7)] p by auto
  show ?thesis
    using backup_recovers [OF f(3) assms(8-11), of junk f old] f assms by auto
qed

end

section \<open>Properties\<close>

text \<open>
  C16. A damaged contacts file does not cost the node its peers: after two saves that reported success,
  whatever unreadable file then stands in the place of the second, the start loads the contacts of the
  first -- the copy taken before the last save -- and the damaged file is kept under its new name.
\<close>

theorem damaged_contacts_recovered:
  assumes "contacts_save io1 fs0 old = (True, fs1, old')" and "contacts_save io2 fs1 new = (True, fs2, new')"
    and "io_unlink io2" "io_link io2" "contacts_storable old" "contacts_same_config old t" "cs_path new = cs_path old"
    and "contacts_load (ld_fault io) (fs2(cs_path t \<mapsto> junk)) t = (Corrupt, t)"
    and "ld_moved io" "ld_restored io" "ld_fault_bak io = None"
  shows "\<exists>fs3. load_state contacts_load io (cs_path t) (fs2(cs_path t \<mapsto> junk)) t =
      (Loaded, fs3, contacts_persisted old) \<and>
    fs3 (cs_path t @ dot_corrupt @ ld_stamp io) = Some junk"
  using assms by (rule contact_file.damaged_file_recovers)

definition load_fine :: load_plan where
  "load_fine = \<lparr>ld_fault = None, ld_moved = True, ld_stamp = str ''1'', ld_restored = True, ld_fault_bak = None,
     ld_moved_bak = True, ld_stamp_bak = str ''2''\<rparr>"

theorem damaged_contacts_recovered_witness:
  "\<exists>fs2 fs3. fs2 (cs_path one_contact) = Some \<lparr>f_content = [], f_mode = owner_rw\<rparr> \<and>
     load_state contacts_load load_fine (cs_path one_contact) fs2 one_contact =
       (Loaded, fs3, contacts_persisted one_contact)"
proof -
  let ?junk = "\<lparr>f_content = [], f_mode = owner_rw\<rparr>"
  have save: "\<exists>fs1 s. contacts_save io_fine fs0 one_contact = (True, fs1, s)" for fs0
    by (auto simp: contacts_save_def save_defs io_fine_def one_contact_def split: prod.splits)
  obtain fs1 s1 where s1: "contacts_save io_fine Map.empty one_contact = (True, fs1, s1)" using save by blast
  obtain fs2 s2 where s2: "contacts_save io_fine fs1 one_contact = (True, fs2, s2)" using save by blast
  have junk: "contacts_load (ld_fault load_fine) (fs2(cs_path one_contact \<mapsto> ?junk)) one_contact = (Corrupt, one_contact)"
    by (simp add: contacts_load_def read_file_def read_lines_def contacts_parse_def load_fine_def one_contact_def)
  have st: "contacts_storable one_contact"
    using one_contact_inv by (simp add: contacts_storable_def coords_ok_def one_contact_def new_contact_def)
  have "\<exists>fs3. load_state contacts_load load_fine (cs_path one_contact) (fs2(cs_path one_contact \<mapsto> ?junk)) one_contact =
      (Loaded, fs3, contacts_persisted one_contact)"
    using damaged_contacts_recovered [OF s1 s2 _ _ st _ _ junk]
    by (auto simp: io_fine_def contacts_same_config_def load_fine_def)
  then show ?thesis by (metis fun_upd_same)
qed

end
