(* ===== verification/HostMetrics.thy ===== *)
theory HostMetrics
  imports Session
begin

text \<open>
  What the app is told of the host, \<^verbatim>\<open>src/src/daemon/host_metrics.h\<close> and \<^verbatim>\<open>host_metrics.cpp\<close>: the battery found
  at start-up and its voltage, and the file system the state is kept on. The files of \<^verbatim>\<open>/sys\<close> and the
  result of \<^verbatim>\<open>statvfs\<close> are inputs; a file that cannot be opened is \<open>None\<close>.
\<close>

section \<open>Reading numbers and words from a stream\<close>

definition stream_space :: "byte \<Rightarrow> bool" where
  "stream_space b \<longleftrightarrow> b = 32 \<or> (9 \<le> b \<and> b \<le> 13)"

definition read_word :: "bytes \<Rightarrow> bytes option" where
  "read_word b = (let w = takeWhile (\<lambda>c. \<not> stream_space c) (dropWhile stream_space b) in if w = [] then None else Some w)"

text \<open>\<^verbatim>\<open>operator>>\<close> into a \<^verbatim>\<open>long\<close>: white space, a sign, digits; out of range is a failure.\<close>

definition read_long :: "bytes \<Rightarrow> int option" where
  "read_long b =
    (let t = dropWhile stream_space b;
         neg = (t \<noteq> [] \<and> hd t = of_char CHR ''-'');
         r = (if t \<noteq> [] \<and> (hd t = of_char CHR ''-'' \<or> hd t = of_char CHR ''+'') then tl t else t);
         ds = takeWhile is_digit r;
         v = (if neg then - int (dec_value ds) else int (dec_value ds))
     in if ds = [] \<or> v < - (2 ^ 63) \<or> v \<ge> 2 ^ 63 then None else Some v)"

section \<open>The battery\<close>

text \<open>One entry of the directory: the path of its voltage, its type, and the voltage now.\<close>

record power_supply =
  su_voltage_path :: bytes
  su_type :: "bytes option"
  su_voltage :: "bytes option"

definition read_positive :: "bytes option \<Rightarrow> int option" where
  "read_positive f = Option.bind f (\<lambda>b. Option.bind (read_long b) (\<lambda>v. if v > 0 then Some v else None))"

definition is_battery :: "power_supply \<Rightarrow> bool" where
  "is_battery s \<longleftrightarrow> Option.bind (su_type s) read_word = Some (str ''Battery'') \<and> read_positive (su_voltage s) \<noteq> None"

fun find_battery_voltage_path :: "power_supply list \<Rightarrow> bytes" where
  "find_battery_voltage_path [] = []"
| "find_battery_voltage_path (s # ss) =
     (if is_battery s then su_voltage_path s else find_battery_voltage_path ss)"

definition battery_mv :: "bytes \<Rightarrow> bytes option \<Rightarrow> u16" where
  "battery_mv voltage_path volt =
     (if voltage_path = [] then 0
      else case read_positive volt of None \<Rightarrow> 0 | Some uv \<Rightarrow> word_of_int (min (uv div 1000) 65535))"

section \<open>The file system\<close>

record statvfs =
  f_frsize :: u64
  f_bsize :: u64
  f_blocks :: u64
  f_bfree :: u64

definition storage :: "statvfs option \<Rightarrow> Storage" where
  "storage r =
     (case r of
        None \<Rightarrow> \<lparr>st_used_bytes = 0, st_total_bytes = 0\<rparr>
      | Some v \<Rightarrow>
          let unit = (if f_frsize v \<noteq> 0 then f_frsize v else f_bsize v);
              total = f_blocks v * unit;
              used = (f_blocks v - f_bfree v) * unit
          in \<lparr>st_used_bytes = unat used, st_total_bytes = unat total\<rparr>)"

section \<open>The numbers agree\<close>

lemma battery_no_wrap: "unat (battery_mv p volt) = (case read_positive volt of
    None \<Rightarrow> 0 | Some uv \<Rightarrow> if p = [] then 0 else nat (min (uv div 1000) 65535))"
proof -
  have "unat (word_of_int (min (uv div 1000) 65535) :: u16) = nat (min (uv div 1000) 65535)" if "0 < uv" for uv
    using that by (auto simp: unat_eq_nat_uint uint_word_of_int_eq take_bit_int_eq_self min_def)
  moreover have "0 < uv" if "read_positive volt = Some uv" for uv
    using that by (auto simp: read_positive_def bind_eq_Some_conv split: if_splits)
  ultimately show ?thesis by (auto simp: battery_mv_def split: option.split)
qed

text \<open>
  As long as the size of the file system fits 64 bits and no more blocks are free than there are, the
  used size is at most the total.
\<close>

lemma storage_consistent:
  assumes "f_bfree v \<le> f_blocks v" and "f_frsize v \<noteq> 0" and "unat (f_blocks v) * unat (f_frsize v) < 2 ^ 64"
  shows "st_used_bytes (storage (Some v)) + unat (f_bfree v) * unat (f_frsize v) = st_total_bytes (storage (Some v))"
proof -
  have "unat (f_bfree v) \<le> unat (f_blocks v)" using assms(1) by (simp add: word_le_nat_alt)
  then have le: "(unat (f_blocks v) - unat (f_bfree v)) * unat (f_frsize v) < 2 ^ 64"
    using assms(3) by (meson diff_le_self le_less_trans mult_le_mono1)
  have "unat ((f_blocks v - f_bfree v) * f_frsize v) = (unat (f_blocks v) - unat (f_bfree v)) * unat (f_frsize v)"
    using le assms(1) by (simp add: unat_mult_lem [THEN iffD1] unat_sub)
  moreover have "unat (f_blocks v * f_frsize v) = unat (f_blocks v) * unat (f_frsize v)"
    using assms(3) by (simp add: unat_mult_lem [THEN iffD1])
  ultimately show ?thesis
    using assms(2) \<open>unat (f_bfree v) \<le> unat (f_blocks v)\<close>
    by (simp add: storage_def Let_def diff_mult_distrib mult_le_mono1)
qed

end
