(* ===== verification/App.thy ===== *)
theory App
  imports Ranges Identity Recovery HostMetrics
begin

text \<open>
  The daemon as a whole, \<^verbatim>\<open>src/src/daemon/app.h\<close> and \<^verbatim>\<open>app.cpp\<close>: the order in which the subsystems are built
  from the state directory and the configuration, what makes a start fail, and the orderly stop; with the
  part of \<^verbatim>\<open>src/src/main.cpp\<close> before the loop runs. The state of the machine at start-up is the record
  \<open>boot\<close>. The lemmas show that a start never replaces a node's key, that a failed start builds nothing
  beyond it, and that a daemon that started keeps the invariants of all its parts from then on.
\<close>

section \<open>The machine at start-up\<close>

datatype dir_stat = StatFailed | NotDirectory | Directory nat

text \<open>
  The results of the calls \<^verbatim>\<open>start\<close> makes, in the order it makes them, then what stands around the daemon:
  clocks, randomness, the hardware, and the outcomes of calls to come.
\<close>

record 'c boot =
  bt_sodium_init :: bool
  bt_state_dir :: dir_stat
  bt_chmod :: "bytes \<Rightarrow> bool"
  bt_id_opens :: bool
  bt_id_bad :: bool
  bt_stat :: "bytes \<Rightarrow> bool"
  bt_seeds :: "bytes list"
  bt_id_io :: io_plan
  bt_id_removed :: bool
  bt_settings_fault :: "nat option"
  bt_contacts :: load_plan
  bt_channels :: load_plan
  bt_messages :: load_plan
  bt_unix :: unix_plan
  bt_tcp :: tcp_plan
  bt_hw :: 'c
  bt_now :: u32
  bt_clock :: wall_clock
  bt_random :: "nat \<Rightarrow> byte"
  bt_io :: "nat \<Rightarrow> io_plan"
  bt_sock_path :: "path_node option"
  bt_writes :: "write_outcome list"

section \<open>The state directory\<close>

text \<open>A directory open to other users is only warned about.\<close>

definition check_state_dir :: "dir_stat \<Rightarrow> bool" where
  "check_state_dir st \<longleftrightarrow> (case st of Directory mode \<Rightarrow> True | _ \<Rightarrow> False)"

definition restrict_state_files :: "(bytes \<Rightarrow> bool) \<Rightarrow> Config \<Rightarrow> fs \<Rightarrow> fs" where
  "restrict_state_files chmod_ok c fs0 =
     fold (\<lambda>p. fold (\<lambda>suffix. restrict_to_owner (chmod_ok (p @ suffix)) (p @ suffix)) [[], dot_bak, dot_tmp])
       [identity_path c, contacts_path c, channels_path c, messages_path c, settings_path c] fs0"

definition exists :: "(bytes \<Rightarrow> bool) \<Rightarrow> fs \<Rightarrow> bytes \<Rightarrow> bool" where
  "exists stat_ok fs0 p \<longleftrightarrow> stat_ok p \<and> fs0 p \<noteq> None"

section \<open>The identity\<close>

definition toupper :: "byte \<Rightarrow> byte" where
  "toupper c = (if of_char CHR ''a'' \<le> c \<and> c \<le> of_char CHR ''z'' then c - 32 else c)"

definition default_name :: "bytes \<Rightarrow> bytes" where
  "default_name pub = map toupper (hex (subview pub 0 4))"

text \<open>\<open>None\<close> is a refusal; with it also stands a source of seeds that ran dry.\<close>

definition load_or_create_identity ::
  "crypto_ops \<Rightarrow> 'c boot \<Rightarrow> Config \<Rightarrow> fs \<Rightarrow> LocalIdentity option \<times> fs" where
  "load_or_create_identity cr b c fs0 =
     (case id_load cr (bt_id_opens b) (bt_id_bad b) fs0 (identity_path c) of
        IdLoaded self \<Rightarrow> (Some self, fs0)
      | IdRefused \<Rightarrow> (None, fs0)
      | IdMissing \<Rightarrow>
          if list_ex (exists (bt_stat b) fs0) [contacts_path c, channels_path c, messages_path c] then (None, fs0)
          else case generate cr (bt_seeds b) of
                 None \<Rightarrow> (None, fs0)
               | Some self \<Rightarrow>
                   (case id_save (bt_id_io b) (bt_id_removed b) (identity_path c) fs0 self of
                      (False, fs1) \<Rightarrow> (None, fs1)
                    | (True, fs1) \<Rightarrow> (Some self, fs1)))"

section \<open>Building the subsystems\<close>

definition app_pins :: "SpiConfig \<Rightarrow> Pins" where
  "app_pins s = \<lparr>pn_spidev = sp_spidev s, pn_gpiochip = sp_gpiochip s, pn_irq = sp_irq_pin s, pn_busy = sp_busy_pin s,
     pn_reset = sp_reset_pin s, pn_nss = sp_nss_pin s, pn_rxen = sp_rxen_pin s, pn_txen = sp_txen_pin s,
     pn_spi_speed_hz = sp_spi_speed_hz s\<rparr>"

definition make_radio :: "'c \<Rightarrow> Config \<Rightarrow> 'c Sx1262" where
  "make_radio hw c = new_sx1262 hw (cf_radio c) (app_pins (cf_spi c)) (sp_retry_interval_s (cf_spi c) * 1000)"

text \<open>
  Every subsystem as its constructor leaves it, with the contacts and channels that were loaded: nothing
  of it runs before \<open>start_stack\<close>.
\<close>

definition app_world ::
  "'c boot \<Rightarrow> Config \<Rightarrow> bytes \<Rightarrow> entries \<Rightarrow> fs \<Rightarrow> ContactStore \<Rightarrow> ChannelStore \<Rightarrow> 'c Sx1262 dworld_full" where
  "app_world b c set_path stored fs0 cs chs =
     \<lparr>w_loop = new_loop (bt_now b) False, w_radio = make_radio (bt_hw b) c, w_random = bt_random b,
      w_disp = new_dispatcher (cf_radio c) kDefaultQueueLimit,
      w_contacts = cs, w_sender = new_sender kDefaultPendingLimit,
      w_channels = chs, w_inbox = new_inbox kDefaultLimit (cf_messages_path c), w_cfg = cf_node c, w_delivered = [],
      w_advert_timer = None, w_delivered_sweep = None,
      w_writer = \<lparr>sw_coalesce_ms = kCoalesceMs, sw_sweep = None, sw_pending = None, sw_healthy = True\<rparr>,
      w_clock = bt_clock b, w_fs = fs0, w_io = bt_io b,
      w_server = new_server (cf_companion c), w_sock_path = bt_sock_path b, w_writes = bt_writes b, w_sent = [],
      w_app_started = False, w_app_name = [], w_last_send_ms = None,
      w_config = c, w_settings_path = set_path, w_stored = stored, w_attached = False\<rparr>"

datatype StartFailure = NoCrypto | StateDirRefused | NoIdentity | BadSettings ConfigError | NoRadio | NoServer

text \<open>
  From the dispatcher on. The handlers \<^verbatim>\<open>attach\<close> installs are wired into the model's events.
\<close>

definition start_stack ::
  "'c hw_ops \<Rightarrow> 'c boot \<Rightarrow> 'c Sx1262 dworld_full \<Rightarrow> (StartFailure \<times> fs) + 'c Sx1262 dworld_full" where
  "start_stack ho b w =
     (case disp_start (sx_begin ho) w of
        (False, w1) \<Rightarrow> Inl (NoRadio, w_fs w1)
      | (True, w1) \<Rightarrow>
          let w2 = settings_attach (node_start w1)
          in (case load_state inbox_load (bt_messages b) (messages_path (w_config w2)) (w_fs w2) (w_inbox w2) of
                (r, fs1, ib) \<Rightarrow>
                  (case server_start (bt_unix b) (bt_tcp b) (writer_start (w2\<lparr>w_fs := fs1, w_inbox := ib\<rparr>)) of
                     (False, w3) \<Rightarrow> Inl (NoServer, w_fs w3)
                   | (True, w3) \<Rightarrow> Inr w3)))"

definition named_config :: "LocalIdentity \<Rightarrow> Config \<Rightarrow> Config" where
  "named_config self c =
     (if nc_name (cf_node c) = [] then c\<lparr>cf_node := (cf_node c)\<lparr>nc_name := default_name (id_pub self)\<rparr>\<rparr> else c)"

definition app_start ::
  "'c hw_ops \<Rightarrow> crypto_ops \<Rightarrow> 'c boot \<Rightarrow> Config \<Rightarrow> fs \<Rightarrow>
    (StartFailure \<times> fs) + (LocalIdentity \<times> 'c Sx1262 dworld_full)" where
  "app_start ho cr b c0 fs0 =
     (if \<not> bt_sodium_init b then Inl (NoCrypto, fs0)
      else if \<not> check_state_dir (bt_state_dir b) then Inl (StateDirRefused, fs0)
      else case load_or_create_identity cr b c0 (restrict_state_files (bt_chmod b) c0 fs0) of
        (None, fs1) \<Rightarrow> Inl (NoIdentity, fs1)
      | (Some self, fs1) \<Rightarrow>
          let c1 = named_config self c0
          in (case settings_load (bt_settings_fault b) fs1 (settings_path c1) c1 of
                Inl e \<Rightarrow> Inl (BadSettings e, fs1)
              | Inr (c, stored) \<Rightarrow>
                  (case load_state contacts_load (bt_contacts b) (contacts_path c) fs1
                          (new_contacts (contacts_path c) kMaxContacts) of (r1, fs2, cs) \<Rightarrow>
                   case load_state channels_load (bt_channels b) (channels_path c) fs2
                          (new_channels (channels_path c)) of (r2, fs3, chs) \<Rightarrow>
                     map_sum id (Pair self) (start_stack ho b (app_world b c (settings_path c1) stored fs3 cs chs)))))"

text \<open>What \<^verbatim>\<open>start\<close> tells the app of the device; the host's metrics are read when they are asked for.\<close>

definition app_info :: "bytes \<Rightarrow> DeviceInfo" where
  "app_info version = \<lparr>di_model = str ''uConsole AIO v2'', di_firmware_build = version, di_version = version,
     di_max_contacts_div2 = word_of_nat (kMaxContacts div 2), di_max_channels = word_of_nat kMaxChannels\<rparr>"

definition app_env ::
  "'c hw_ops \<Rightarrow> crypto_ops \<Rightarrow> LocalIdentity \<Rightarrow> bytes \<Rightarrow> ((u64 \<times> u32) list \<Rightarrow> nat) \<Rightarrow> u16 \<Rightarrow> Storage \<Rightarrow>
    ('c Sx1262, unit dworld_full_ext) session_env" where
  "app_env ho cr self version bg mv st =
     \<lparr>se_crypto = cr, se_radio = sx_radio ho, se_self = self, se_begin = bg,
      se_settings = settings_set (sx_radio ho), se_info = app_info version, se_battery_mv = mv, se_storage = st\<rparr>"

text \<open>\<^verbatim>\<open>run\<close>: each event with what the host's metrics are at that moment.\<close>

definition app_run ::
  "'c hw_ops \<Rightarrow> crypto_ops \<Rightarrow> LocalIdentity \<Rightarrow> bytes \<Rightarrow> ((u64 \<times> u32) list \<Rightarrow> nat) \<Rightarrow>
    (u16 \<times> Storage \<times> 'c system_event) list \<Rightarrow> 'c Sx1262 dworld_full \<Rightarrow> 'c Sx1262 dworld_full" where
  "app_run ho cr self version bg es w =
     fold (\<lambda>(mv, st, e). system_step ho (app_env ho cr self version bg mv st) e) es w"

definition request_stop :: "'c hw_ops \<Rightarrow> unix_plan \<Rightarrow> 'c Sx1262 dworld_full \<Rightarrow> 'c Sx1262 dworld_full" where
  "request_stop ho uio w =
    (let w1 = snd (flush w);
         w2 = server_shutdown uio w1;
         w3 = w2\<lparr>w_radio := sx_shutdown ho (w_radio w2)\<rparr>
     in w3\<lparr>w_loop := stop (w_loop w3)\<rparr>)"

section \<open>Before the loop\<close>

text \<open>One result of \<^verbatim>\<open>getopt_long\<close>; \<open>OptUnknown\<close> is anything it complains about.\<close>

datatype option_seen = OptConfig bytes | OptVerbose | OptSyslog | OptVersion | OptHelp | OptUnknown

record cmdline =
  cl_config_path :: bytes
  cl_verbosity :: nat
  cl_syslog_style :: bool

text \<open>\<open>Inl\<close> is the exit status of an option that ends the program.\<close>

fun parse_options :: "option_seen list \<Rightarrow> cmdline \<Rightarrow> nat + cmdline" where
  "parse_options [] l = Inr l"
| "parse_options (OptConfig p # rest) l = parse_options rest (l\<lparr>cl_config_path := p\<rparr>)"
| "parse_options (OptVerbose # rest) l = parse_options rest (l\<lparr>cl_verbosity := cl_verbosity l + 1\<rparr>)"
| "parse_options (OptSyslog # rest) l = parse_options rest (l\<lparr>cl_syslog_style := True\<rparr>)"
| "parse_options (OptVersion # rest) l = Inl 0"
| "parse_options (OptHelp # rest) l = Inl 0"
| "parse_options (OptUnknown # rest) l = Inl 2"

definition verbose_config :: "nat \<Rightarrow> Config \<Rightarrow> Config" where
  "verbose_config v c =
     (if v = 0 then c else if v = 1 then c\<lparr>cf_log_level := LogDebug\<rparr> else c\<lparr>cf_log_level := LogTrace\<rparr>)"

definition kDefaultConfigPath :: bytes where "kDefaultConfigPath = str ''/etc/coreletd/coreletd.ini''"

definition main_start ::
  "'c hw_ops \<Rightarrow> crypto_ops \<Rightarrow> 'c boot \<Rightarrow> nat option \<Rightarrow> option_seen list \<Rightarrow> fs \<Rightarrow>
    nat + (LocalIdentity \<times> 'c Sx1262 dworld_full)" where
  "main_start ho cr b fault opts fs0 =
     (case parse_options opts \<lparr>cl_config_path = kDefaultConfigPath, cl_verbosity = 0, cl_syslog_style = False\<rparr> of
        Inl status \<Rightarrow> Inl status
      | Inr l \<Rightarrow>
          (case config_load fault fs0 (cl_config_path l) default_config of
             Inl e \<Rightarrow> Inl 1
           | Inr c \<Rightarrow> map_sum (\<lambda>f. 1) id (app_start ho cr b (verbose_config (cl_verbosity l) (config_finalise c)) fs0)))"

section \<open>Paths\<close>

lemmas state_paths = identity_path_def contacts_path_def channels_path_def messages_path_def settings_path_def

lemma identity_apart:
  "cf_state_dir c = cf_state_dir c0 \<Longrightarrow> identity_path c0 \<noteq> contacts_path c @ x"
  "cf_state_dir c = cf_state_dir c0 \<Longrightarrow> identity_path c0 \<noteq> channels_path c @ x"
  "cf_state_dir c = cf_state_dir c0 \<Longrightarrow> identity_path c0 \<noteq> messages_path c @ x"
  by (simp_all add: state_paths str_def)

text \<open>The settings file cannot move the state directory.\<close>

lemma config_set_dir: "config_set key v c = Inr c1 \<Longrightarrow> cf_state_dir c1 = cf_state_dir c"
proof -
  have "cf_state_dir c1 = cf_state_dir c" if "config_set (field_key k) v c = Inr c1" for k
    using that by (cases k) (auto simp del: field_key.simps simp: config_set_def on_radio_def on_node_def app_key_iff
        split: option.splits if_splits)
  moreover assume c1: "config_set key v c = Inr c1"
  moreover have "app_key key" using c1 by (auto simp: config_set_def split: if_splits)
  ultimately show ?thesis using app_key_iff by metis
qed

lemma load_entries_dir: "load_entries m c acc = Inr (c1, stored) \<Longrightarrow> cf_state_dir c1 = cf_state_dir c"
  by (induction m c acc rule: load_entries.induct) (auto split: if_splits sum.splits dest: config_set_dir)

lemma settings_load_dir: "settings_load fault fs0 p c = Inr (c1, stored) \<Longrightarrow> cf_state_dir c1 = cf_state_dir c"
  by (auto simp: settings_load_def split: if_splits sum.splits option.splits dest: load_entries_dir)

lemma named_config_dir [simp]: "cf_state_dir (named_config self c) = cf_state_dir c"
  by (simp add: named_config_def)

section \<open>The key file\<close>

text \<open>Narrowing the modes leaves every content alone.\<close>

lemma restrict_content: "map_option f_content (restrict_to_owner ok p fs0 q) = map_option f_content (fs0 q)"
  by (auto simp: restrict_to_owner_def split: option.split)

lemma restrict_state_content: "map_option f_content (restrict_state_files ok c fs0 q) = map_option f_content (fs0 q)"
  by (simp add: restrict_state_files_def restrict_content)

lemma restrict_dom: "restrict_state_files ok c fs0 q = None \<longleftrightarrow> fs0 q = None"
  using restrict_state_content [of ok c fs0 q] by (metis map_option_is_None)

lemma identity_kept:
  assumes "load_or_create_identity cr b c fs0 = (r, fs1)" and "fs0 (identity_path c) \<noteq> None"
  shows "fs1 = fs0"
  using assms by (auto simp: load_or_create_identity_def id_load_def split: option.splits if_splits)

lemma identity_on_disk:
  assumes "\<And>m. length (sha512 cr m) = 64" and "load_or_create_identity cr b c fs0 = (Some self, fs1)"
  shows "id_load cr True False fs1 (identity_path c) = IdLoaded self"
proof (cases "id_load cr (bt_id_opens b) (bt_id_bad b) fs0 (identity_path c)")
  case (IdLoaded self')
  then show ?thesis using assms(2)
    by (auto simp: load_or_create_identity_def id_load_def split: option.splits if_splits)
next
  case IdMissing
  then obtain self' where g: "generate cr (bt_seeds b) = Some self'" and
    sv: "id_save (bt_id_io b) (bt_id_removed b) (identity_path c) fs0 self' = (True, fs1)" "self' = self"
    using assms(2) by (auto simp: load_or_create_identity_def split: if_splits option.splits prod.splits bool.splits)
  have "identity_wf cr self" using generated_key_wf [OF assms(1) g] sv(2) by simp
  then show ?thesis using id_save_file [OF sv(1)] id_parse_text [of cr self] sv(2) by (simp add: id_load_def)
qed (use assms(2) in \<open>simp add: load_or_create_identity_def\<close>)

lemma first_run_only:
  assumes "load_or_create_identity cr b c fs0 = (Some self, fs1)" and "fs1 \<noteq> fs0"
  shows "fs0 (identity_path c) = None \<and>
    \<not> list_ex (exists (bt_stat b) fs0) [contacts_path c, channels_path c, messages_path c]"
  using assms
  by (auto simp: load_or_create_identity_def id_load_def split: option.splits if_splits)

section \<open>The files a start touches\<close>

lemma disp_start_fields:
  "w_fs (snd (disp_start rb w)) = w_fs w" "w_config (snd (disp_start rb w)) = w_config w"
  "w_inbox (snd (disp_start rb w)) = w_inbox w" "w_server (snd (disp_start rb w)) = w_server w"
  "w_sock_path (snd (disp_start rb w)) = w_sock_path w"
  by (simp_all add: disp_start_def split: prod.split bool.split)

lemma node_start_fields [simp]:
  "w_fs (node_start w) = w_fs w" "w_config (node_start w) = w_config w" "w_inbox (node_start w) = w_inbox w"
  "w_radio (node_start w) = w_radio w" "w_server (node_start w) = w_server w"
  "w_sock_path (node_start w) = w_sock_path w"
  by (simp_all add: node_start_def Let_def split: prod.split)

lemma writer_start_fields [simp]:
  "w_fs (writer_start w) = w_fs w" "w_radio (writer_start w) = w_radio w" "w_config (writer_start w) = w_config w"
  "w_server (writer_start w) = w_server w" "w_sock_path (writer_start w) = w_sock_path w" "w_attached (writer_start w) = w_attached w"
  by (simp_all add: writer_start_def split: prod.split)

lemmas server_start_defs = server_start_def start_tcp_def start_unix_def open_unix_def bind_unix_def abandon_socket_def
  cleanup_unix_path_def close_listen_def close_lock_def chmod_socket_def start_listening_def upd_server_def Let_def

lemma server_start_more:
  "w_fs (snd (server_start uio tio w)) = w_fs w" "w_radio (snd (server_start uio tio w)) = w_radio w"
  "aworld.more (snd (server_start uio tio w)) = aworld.more w"
  by (simp_all add: server_start_defs case_prod_unfold split: option.split)

lemma start_stack_frame:
  assumes "\<And>x. q \<noteq> messages_path (w_config w) @ x"
  shows "case start_stack ho b w of Inl (e, fs1) \<Rightarrow> fs1 q = w_fs w q | Inr w1 \<Rightarrow> w_fs w1 q = w_fs w q"
proof -
  obtain ok w1 where d: "disp_start (sx_begin ho) w = (ok, w1)" by fastforce
  have w1: "w_fs w1 = w_fs w" "w_config w1 = w_config w" using disp_start_fields [of "sx_begin ho" w] by (simp_all add: d)
  let ?w2 = "settings_attach (node_start w1)"
  obtain r fs1 ib where l: "load_state inbox_load (bt_messages b) (messages_path (w_config ?w2)) (w_fs ?w2) (w_inbox ?w2) =
    (r, fs1, ib)" by (metis prod_cases3)
  have "fs1 q = w_fs w q"
    using load_state_frame [of q "messages_path (w_config ?w2)" inbox_load "bt_messages b" "w_fs ?w2" "w_inbox ?w2"] assms w1
    by (simp add: l) (simp add: settings_attach_def)
  moreover obtain ok3 w3 where
    sv: "server_start (bt_unix b) (bt_tcp b) (writer_start (?w2\<lparr>w_fs := fs1, w_inbox := ib\<rparr>)) = (ok3, w3)" by fastforce
  have "w_fs w3 = fs1"
    using server_start_more(1) [of "bt_unix b" "bt_tcp b" "writer_start (?w2\<lparr>w_fs := fs1, w_inbox := ib\<rparr>)"] by (simp add: sv)
  ultimately show ?thesis using w1(1) by (auto simp: start_stack_def d l sv Let_def split: bool.split)
qed

text \<open>The files as a start leaves them, whatever its outcome.\<close>

definition started_fs :: "(StartFailure \<times> fs) + (LocalIdentity \<times> 'c Sx1262 dworld_full) \<Rightarrow> fs" where
  "started_fs r = (case r of Inl (e, fs1) \<Rightarrow> fs1 | Inr (self, w) \<Rightarrow> w_fs w)"

lemma started_fs_map: "started_fs (map_sum id (Pair self) r) = (case r of Inl (e, fs1) \<Rightarrow> fs1 | Inr w \<Rightarrow> w_fs w)"
  by (cases r) (simp_all add: started_fs_def)

text \<open>After the identity, a start does not touch the key file any more.\<close>

lemma app_start_cases:
  assumes "bt_sodium_init b" "check_state_dir (bt_state_dir b)"
    and "load_or_create_identity cr b c0 (restrict_state_files (bt_chmod b) c0 fs0) = (r, fs1)"
  shows "started_fs (app_start ho cr b c0 fs0) (identity_path c0) = fs1 (identity_path c0) \<and>
    (\<forall>self w. app_start ho cr b c0 fs0 = Inr (self, w) \<longrightarrow> r = Some self)"
proof (cases r)
  case None
  then show ?thesis using assms by (simp add: app_start_def started_fs_def)
next
  case (Some self)
  let ?c1 = "named_config self c0"
  show ?thesis
  proof (cases "settings_load (bt_settings_fault b) fs1 (settings_path ?c1) ?c1")
    case (Inl e)
    then show ?thesis using assms Some by (simp add: app_start_def started_fs_def)
  next
    case (Inr cs)
    obtain c stored where cs: "cs = (c, stored)" by fastforce
    have dir: "cf_state_dir c = cf_state_dir c0" using settings_load_dir [OF Inr [unfolded cs]] by simp
    obtain r2 fs2 ct where l2: "load_state contacts_load (bt_contacts b) (contacts_path c) fs1
      (new_contacts (contacts_path c) kMaxContacts) = (r2, fs2, ct)" by (metis prod_cases3)
    obtain r3 fs3 ch where l3: "load_state channels_load (bt_channels b) (channels_path c) fs2
      (new_channels (channels_path c)) = (r3, fs3, ch)" by (metis prod_cases3)
    let ?w = "app_world b c (settings_path ?c1) stored fs3 ct ch"
    have eq: "app_start ho cr b c0 fs0 = map_sum id (Pair self) (start_stack ho b ?w)"
      using assms Some Inr by (simp add: app_start_def cs l2 l3)
    have "fs2 (identity_path c0) = fs1 (identity_path c0)"
      using load_state_frame [OF identity_apart(1) [OF dir], of contacts_load "bt_contacts b" fs1] l2 by (metis fst_conv snd_conv)
    moreover have "fs3 (identity_path c0) = fs2 (identity_path c0)"
      using load_state_frame [OF identity_apart(2) [OF dir], of channels_load "bt_channels b" fs2] l3 by (metis fst_conv snd_conv)
    moreover have "started_fs (map_sum id (Pair self) (start_stack ho b ?w)) (identity_path c0) = fs3 (identity_path c0)"
      using start_stack_frame [of "identity_path c0" ?w ho b] identity_apart(3) [OF dir]
      by (auto simp: started_fs_map app_world_def split: sum.splits)
    ultimately show ?thesis using Some eq by (cases "start_stack ho b ?w") auto
  qed
qed

text \<open>A daemon that started runs with the key in its key file, and one that found a key file left it as it was.\<close>

lemma started_key:
  assumes "\<And>m. length (sha512 cr m) = 64" and "app_start ho cr b c fs0 = Inr (self, w)"
  shows "id_load cr True False (w_fs w) (identity_path c) = IdLoaded self"
    and "fs0 (identity_path c) \<noteq> None \<Longrightarrow>
      map_option f_content (w_fs w (identity_path c)) = map_option f_content (fs0 (identity_path c))"
proof -
  let ?fs = "restrict_state_files (bt_chmod b) c fs0"
  have ok: "bt_sodium_init b" "check_state_dir (bt_state_dir b)"
    using assms(2) by (simp_all add: app_start_def split: if_splits)
  obtain r fs1 where l: "load_or_create_identity cr b c ?fs = (r, fs1)" by fastforce
  have r: "r = Some self" "w_fs w (identity_path c) = fs1 (identity_path c)"
    using app_start_cases [OF ok l, of ho] assms(2) by (auto simp: started_fs_def)
  show "id_load cr True False (w_fs w) (identity_path c) = IdLoaded self"
    using identity_on_disk [OF assms(1) l [unfolded r(1)]] r(2) by (simp add: id_load_def)
  assume "fs0 (identity_path c) \<noteq> None"
  then show "map_option f_content (w_fs w (identity_path c)) = map_option f_content (fs0 (identity_path c))"
    using identity_kept [OF l] r(2) by (simp add: restrict_dom restrict_state_content)
qed

section \<open>The invariants of the parts\<close>

lemma control_params: "control s1 = control s \<Longrightarrow> sx_params s1 = sx_params s"
proof -
  have f: "sx_params t = sx_params (control t)" for t :: "'c Sx1262" by (simp add: control_def own_def)
  assume "control s1 = control s"
  then show ?thesis using f [of s1] f [of s] by metis
qed

lemma sx_begin_params:
  assumes "sx_inv s" and "\<not> sx_recovering s" and "\<not> sx_tx_busy s"
  shows "sx_params (snd (sx_begin ho s)) = sx_params s"
proof -
  obtain ok s1 where od: "open_devices ho (s\<lparr>sx_loop := True\<rparr>) = (ok, s1)" by fastforce
  have c: "control s1 = control (s\<lparr>sx_loop := True\<rparr>)" by (rule control_open_devices [OF od])
  have "sx_inv (s\<lparr>sx_loop := True\<rparr>)" using assms by (auto simp: sx_inv_def)
  then have s1: "sx_inv s1" "\<not> sx_recovering s1" "\<not> sx_tx_busy s1" "sx_loop s1" "sx_params s1 = sx_params s"
    using control_inv [OF c] control_params [OF c] assms by simp_all
  let ?s2 = "s1\<lparr>sx_irq_watch := True\<rparr>"
  have up: "sx_params s3 = sx_params s" if "bring_up ho ?s2 = (ok, s3)" for ok s3
    using bring_up_inv [OF that] s1 by (simp add: sx_inv_def)
  have down: "sx_params (start_recovery ho (?s2\<lparr>sx_supervise_timer := Some (sx_retry_interval_ms s1)\<rparr>)) = sx_params s"
    if "sx_retry_interval_ms s1 \<noteq> 0"
    using start_recovery_settled [of "?s2\<lparr>sx_supervise_timer := Some (sx_retry_interval_ms s1)\<rparr>" ho] s1 that
    by (simp add: settled_def sx_inv_def word_gt_0)
  obtain ok3 s3 where b: "bring_up ho ?s2 = (ok3, s3)" by fastforce
  show ?thesis
    using up [OF b] down s1(5) by (cases ok; cases ok3) (simp_all add: sx_begin_def od b Let_def)
qed

lemma app_world_fields:
  "w_contacts (app_world b c p stored fs0 cs chs) = cs" "w_channels (app_world b c p stored fs0 cs chs) = chs"
  "w_inbox (app_world b c p stored fs0 cs chs) = new_inbox kDefaultLimit (cf_messages_path c)"
  "w_delivered (app_world b c p stored fs0 cs chs) = []"
  "w_sender (app_world b c p stored fs0 cs chs) = new_sender kDefaultPendingLimit"
  "w_disp (app_world b c p stored fs0 cs chs) = new_dispatcher (cf_radio c) kDefaultQueueLimit"
  "w_server (app_world b c p stored fs0 cs chs) = new_server (cf_companion c)"
  "w_radio (app_world b c p stored fs0 cs chs) = make_radio (bt_hw b) c"
  "w_config (app_world b c p stored fs0 cs chs) = c" "w_fs (app_world b c p stored fs0 cs chs) = fs0"
  by (simp_all add: app_world_def)

lemma app_world_inv:
  assumes "contacts_inv cs" "channels_inv chs"
  shows "node_inv (app_world b c p stored fs0 cs chs)" "server_inv (app_world b c p stored fs0 cs chs)"
proof -
  have "sender_inv (app_world b c p stored fs0 cs chs)"
    by (simp add: sender_inv_def app_world_fields new_sender_def pendings_ok_def)
  moreover have "disp_inv (app_world b c p stored fs0 cs chs)"
    by (simp add: disp_inv_def queue_valid_def app_world_fields new_dispatcher_def)
  ultimately show "node_inv (app_world b c p stored fs0 cs chs)"
    using assms by (simp add: node_inv_def app_world_fields inbox_inv_new delivered_wf_def)
  show "server_inv (app_world b c p stored fs0 cs chs)"
    by (simp add: server_inv_def app_world_fields new_server_def)
qed

lemma disp_start_node: "node_inv w \<Longrightarrow> node_inv (snd (disp_start rb w))"
  using node_inv_disp [of "w\<lparr>w_radio := r, w_loop := lp\<rparr>" "\<lambda>d. d\<lparr>dp_seen_sweep := s1, dp_rf_summary := s2\<rparr>" for r lp s1 s2]
  by (auto simp: disp_start_def upd_disp_def split: prod.split bool.split)

lemma node_start_node: "node_inv w \<Longrightarrow> node_inv (node_start w)"
  by (simp add: node_start_def Let_def split: prod.split)

lemma writer_start_node: "node_inv w \<Longrightarrow> node_inv (writer_start w)"
  by (simp add: writer_start_def split: prod.split)

text \<open>
  Facts about the world that opening the server's socket leaves alone: they do not look at the loop, at
  what stands at the socket's path, or at the server beyond its connected client.
\<close>

definition same_client :: "(Server \<Rightarrow> Server) \<Rightarrow> bool" where
  "same_client f \<longleftrightarrow> (\<forall>s. sv_client_fd (f s) = sv_client_fd s \<and> sv_reader (f s) = sv_reader s \<and>
     sv_out_buf (f s) = sv_out_buf s \<and> sv_client_watch (f s) = sv_client_watch s \<and>
     so_max_outbound_bytes (sv_opts (f s)) = so_max_outbound_bytes (sv_opts s))"

locale listen_predicate =
  fixes P :: "('r, 'm) cworld_scheme \<Rightarrow> bool"
  assumes keeps_server: "same_client f \<Longrightarrow> P (upd_server f w) = P w"
    and keeps_path: "P (w\<lparr>w_sock_path := n\<rparr>) = P w"
    and keeps_loop: "P (w\<lparr>w_loop := lp\<rparr>) = P w"
begin

lemma closed: "P (close_listen w) = P w" "P (close_lock w) = P w" "P (chmod_socket w) = P w"
  by (simp_all add: close_listen_def close_lock_def chmod_socket_def keeps_path keeps_server same_client_def)

lemma cleaned: "P (cleanup_unix_path io w) = P w"
proof -
  have "P (upd_server (\<lambda>s. s\<lparr>sv_owns_path := False, sv_path_dev := 0, sv_path_ino := 0\<rparr>) (w\<lparr>w_sock_path := n\<rparr>)) = P w" for n
    by (simp add: keeps_path keeps_server same_client_def)
  then show ?thesis by (simp add: cleanup_unix_path_def Let_def upd_server_def)
qed

lemma abandoned: "P (abandon_socket io w) = P w"
  by (simp add: abandon_socket_def closed cleaned)

lemma listening: "P (start_listening fd w) = P w"
  by (simp add: start_listening_def keeps_loop keeps_server same_client_def split: prod.split)

lemma bound: "P (snd (bind_unix io fd w)) = P w"
  by (simp add: bind_unix_def Let_def closed abandoned listening keeps_path keeps_server same_client_def)

lemma opened: "P (snd (open_unix io w)) = P w"
  by (simp add: open_unix_def closed bound split: option.split)

lemma started: "P (snd (server_start uio tio w)) = P w"
proof -
  have "P (snd (start_unix uio w)) = P w"
    by (simp add: start_unix_def Let_def closed opened keeps_path keeps_server same_client_def split: option.split)
  moreover have "P (snd (start_tcp tio w)) = P w"
    by (simp add: start_tcp_def Let_def closed listening keeps_server same_client_def split: option.split)
  ultimately show ?thesis by (simp add: server_start_def)
qed

end

interpretation listen_node: listen_predicate node_inv
  by unfold_locales (simp_all add: upd_server_def node_inv_def sender_inv_def disp_inv_def queue_valid_def)

interpretation listen_server: listen_predicate server_inv
  by unfold_locales (simp_all add: server_inv_def same_client_def Let_def)

lemma make_radio_inv:
  "sx_inv (make_radio hw c)" "\<not> sx_recovering (make_radio hw c)" "\<not> sx_tx_busy (make_radio hw c)"
  "sx_params (make_radio hw c) = cf_radio c"
  by (simp_all add: make_radio_def new_sx1262_inv) (simp_all add: new_sx1262_def)

lemma disp_start_server: "server_inv (snd (disp_start rb w)) = server_inv w"
  by (rule server_inv_cong) (simp add: disp_start_def split: prod.split bool.split)

lemma disp_start_ok: "fst (disp_start rb w) = fst (rb (w_radio w))"
  by (simp add: disp_start_def split: prod.split bool.split)

lemma disp_start_radio: "w_radio (snd (disp_start rb w)) = snd (rb (w_radio w))"
  by (simp add: disp_start_def split: prod.split bool.split)

lemma node_inv_attach [simp]: "node_inv (settings_attach w) = node_inv w"
  by (simp add: settings_attach_def node_inv_def sender_inv_def disp_inv_def queue_valid_def)

lemma map_sum_Inr: "map_sum f g r = Inr y \<longleftrightarrow> (\<exists>x. r = Inr x \<and> y = g x)"
  by (cases r) auto

lemma start_stackE:
  assumes "start_stack ho b w = Inr w'"
  obtains w2 r fs1 ib where "w2 = settings_attach (node_start (snd (disp_start (sx_begin ho) w)))"
    "load_state inbox_load (bt_messages b) (messages_path (w_config w2)) (w_fs w2) (w_inbox w2) = (r, fs1, ib)"
    "w' = snd (server_start (bt_unix b) (bt_tcp b) (writer_start (w2\<lparr>w_fs := fs1, w_inbox := ib\<rparr>)))"
proof -
  let ?w2 = "settings_attach (node_start (snd (disp_start (sx_begin ho) w)))"
  obtain r fs1 ib where l: "load_state inbox_load (bt_messages b) (messages_path (w_config ?w2)) (w_fs ?w2) (w_inbox ?w2) =
    (r, fs1, ib)" by (metis prod_cases3)
  have "w' = snd (server_start (bt_unix b) (bt_tcp b) (writer_start (?w2\<lparr>w_fs := fs1, w_inbox := ib\<rparr>)))"
    using assms l by (cases "disp_start (sx_begin ho) w") (auto simp: start_stack_def Let_def split: bool.splits prod.splits)
  with that l show thesis by blast
qed

lemma app_startE:
  assumes "app_start ho cr b c0 fs0 = Inr (self, w)"
  obtains fs1 c stored r2 fs2 ct r3 fs3 ch where
    "load_or_create_identity cr b c0 (restrict_state_files (bt_chmod b) c0 fs0) = (Some self, fs1)"
    "settings_load (bt_settings_fault b) fs1 (settings_path (named_config self c0)) (named_config self c0) = Inr (c, stored)"
    "load_state contacts_load (bt_contacts b) (contacts_path c) fs1 (new_contacts (contacts_path c) kMaxContacts) = (r2, fs2, ct)"
    "load_state channels_load (bt_channels b) (channels_path c) fs2 (new_channels (channels_path c)) = (r3, fs3, ch)"
    "start_stack ho b (app_world b c (settings_path (named_config self c0)) stored fs3 ct ch) = Inr w"
proof -
  obtain fs1 where i: "load_or_create_identity cr b c0 (restrict_state_files (bt_chmod b) c0 fs0) = (Some self, fs1)"
    using assms by (auto simp: app_start_def Let_def map_sum_Inr split: if_splits prod.splits option.splits sum.splits)
  moreover obtain c stored where s:
    "settings_load (bt_settings_fault b) fs1 (settings_path (named_config self c0)) (named_config self c0) = Inr (c, stored)"
    using assms i by (auto simp: app_start_def Let_def split: if_splits sum.splits)
  moreover obtain r2 fs2 ct where l2: "load_state contacts_load (bt_contacts b) (contacts_path c) fs1
      (new_contacts (contacts_path c) kMaxContacts) = (r2, fs2, ct)" by (metis prod_cases3)
  moreover obtain r3 fs3 ch where l3: "load_state channels_load (bt_channels b) (channels_path c) fs2
      (new_channels (channels_path c)) = (r3, fs3, ch)" by (metis prod_cases3)
  moreover have "start_stack ho b (app_world b c (settings_path (named_config self c0)) stored fs3 ct ch) = Inr w"
    using assms i s l2 l3
    by (cases "start_stack ho b (app_world b c (settings_path (named_config self c0)) stored fs3 ct ch)")
      (auto simp: app_start_def Let_def split: if_splits)
  ultimately show thesis by (rule that)
qed

lemma start_stack_system:
  assumes "start_stack ho b w = Inr w'" and "node_inv w" "server_inv w" "w_radio w = make_radio hw (w_config w)"
  shows "system_inv ho w'"
proof -
  let ?d = "disp_start (sx_begin ho) w"
  from assms(1) obtain w2 r fs1 ib where w2_def: "w2 = settings_attach (node_start (snd ?d))"
    and l: "load_state inbox_load (bt_messages b) (messages_path (w_config w2)) (w_fs w2) (w_inbox w2) = (r, fs1, ib)"
    and fin: "w' = snd (server_start (bt_unix b) (bt_tcp b) (writer_start (w2\<lparr>w_fs := fs1, w_inbox := ib\<rparr>)))"
    by (rule start_stackE)
  define w3 where "w3 = writer_start (w2\<lparr>w_fs := fs1, w_inbox := ib\<rparr>)"
  have w': "w' = snd (server_start (bt_unix b) (bt_tcp b) w3)" using fin by (simp add: w3_def)
  have n2: "node_inv w2"
    using node_start_node [OF disp_start_node [OF assms(2)], of "sx_begin ho"]
    by (simp add: w2_def)
  have "inbox_inv (w_inbox w2)" using n2 by (simp add: node_inv_def)
  then have "inbox_inv (snd (snd (load_state inbox_load (bt_messages b) (messages_path (w_config w2)) (w_fs w2) (w_inbox w2))))"
    by (rule stores_load_inv(3))
  then have "inbox_inv ib" by (simp only: l snd_conv)
  then have "node_inv (w2\<lparr>w_fs := fs1, w_inbox := ib\<rparr>)" using n2 by (intro node_inv_inbox) simp_all
  then have n: "node_inv w'" by (simp add: w' w3_def listen_node.started writer_start_node)
  have "server_inv w3 = server_inv (snd ?d)"
    by (rule server_inv_cong) (simp add: w3_def w2_def settings_attach_def)
  then have sv: "server_inv w'" using assms(3) by (simp add: w' listen_server.started disp_start_server)
  have "w_radio w3 = snd (sx_begin ho (w_radio w))"
    by (simp add: w3_def w2_def settings_attach_def disp_start_radio)
  then have rad: "w_radio w' = snd (sx_begin ho (w_radio w))" by (simp add: w' server_start_more)
  have "aworld.more w' = aworld.more w3" by (simp add: w' server_start_more)
  then have "w_config w' = w_config w3" by (cases w'; cases w3) simp
  moreover have "w_config w3 = w_config w" by (simp add: w3_def w2_def settings_attach_def disp_start_fields)
  ultimately have "tuned (sx_radio ho) sx_inv w'"
    using sx_begin_inv [of "w_radio w" ho] sx_begin_params [of "w_radio w" ho] make_radio_inv [of hw "w_config w"] assms(4) rad
    by (simp add: tuned_def sx_radio_def)
  with n sv show ?thesis by (simp add: system_inv_def)
qed

lemma app_start_system:
  assumes "app_start ho cr b c0 fs0 = Inr (self, w)" shows "system_inv ho w"
proof -
  from assms obtain fs1 c stored r2 fs2 ct r3 fs3 ch where
    l2: "load_state contacts_load (bt_contacts b) (contacts_path c) fs1 (new_contacts (contacts_path c) kMaxContacts) = (r2, fs2, ct)"
    and l3: "load_state channels_load (bt_channels b) (channels_path c) fs2 (new_channels (channels_path c)) = (r3, fs3, ch)"
    and "start_stack ho b (app_world b c (settings_path (named_config self c0)) stored fs3 ct ch) = Inr w"
    by (rule app_startE)
  moreover have "contacts_inv (snd (snd (r2, fs2, ct)))" unfolding l2 [symmetric] by (rule stores_load_inv(1) [OF contacts_inv_new])
  moreover have "channels_inv (snd (snd (r3, fs3, ch)))" unfolding l3 [symmetric] by (rule stores_load_inv(2) [OF channels_inv_new])
  ultimately show ?thesis
    using start_stack_system [of ho b "app_world b c (settings_path (named_config self c0)) stored fs3 ct ch" w "bt_hw b"]
    by (simp add: app_world_inv app_world_fields)
qed

lemma app_run_system: "system_inv ho w \<Longrightarrow> system_inv ho (app_run ho cr self version bg es w)"
  by (induction es arbitrary: w) (auto simp: app_run_def system_step_inv)

section \<open>The configuration in force\<close>

lemma loop_in_range:
  "config_ok (w_config w) \<Longrightarrow> config_ok (w_config (daemon_step (on_sx1262 ho se) e w))"
  by (rule in_range.event_keeps [where ro = "sx_radio ho"]) (simp_all add: on_sx1262_def)

lemma drive_in_range:
  assumes "config_ok (w_config w)" shows "config_ok (w_config (drive (on_sx1262 ho se) f w))"
proof (cases "f (w_radio w)")
  case (Pair evs r)
  have "config_ok (w_config (hand_over (on_sx1262 ho se) ev v))" if "config_ok (w_config v)" for ev v
    using that by (cases ev) (simp_all add: loop_in_range del: daemon_step.simps)
  then have "config_ok (w_config (fold (hand_over (on_sx1262 ho se)) evs v))" if "config_ok (w_config v)" for v
    using that by (induction evs arbitrary: v) simp_all
  with assms show ?thesis by (simp add: drive_def Pair)
qed

lemma system_in_range: "config_ok (w_config w) \<Longrightarrow> config_ok (w_config (system_step ho se e w))"
  by (cases e) (simp_all add: loop_in_range drive_in_range)

lemma start_stack_config:
  assumes "start_stack ho b w = Inr w'" shows "w_config w' = w_config w"
proof -
  from assms obtain w2 r fs1 ib where w2: "w2 = settings_attach (node_start (snd (disp_start (sx_begin ho) w)))"
    and w': "w' = snd (server_start (bt_unix b) (bt_tcp b) (writer_start (w2\<lparr>w_fs := fs1, w_inbox := ib\<rparr>)))"
    by (rule start_stackE)
  let ?w3 = "writer_start (w2\<lparr>w_fs := fs1, w_inbox := ib\<rparr>)"
  have "aworld.more w' = aworld.more ?w3" by (simp add: w' server_start_more)
  then have "w_config w' = w_config ?w3" by (cases w'; cases ?w3) simp
  also have "\<dots> = w_config w" by (simp add: w2 settings_attach_def disp_start_fields)
  finally show ?thesis .
qed

lemma app_start_in_range:
  assumes "app_start ho cr b c fs0 = Inr (self, w)" "config_ok c" shows "config_ok (w_config w)"
proof -
  obtain c1 stored fs1 where
    s: "settings_load (bt_settings_fault b) fs1 (settings_path (named_config self c)) (named_config self c) = Inr (c1, stored)"
    and w: "w_config w = c1"
    using assms(1)
    by (auto simp: app_start_def Let_def map_sum_Inr app_world_fields dest!: start_stack_config
        split: if_splits prod.splits option.splits sum.splits)
  have "config_ok (named_config self c)" using assms(2) by (simp add: named_config_def)
  with settings_load_ok [OF s] show ?thesis by (simp add: w)
qed

section \<open>Private files, and an orderly stop\<close>

text \<open>Where \<^verbatim>\<open>chmod\<close> works, no state file is open to other users once the start has passed them.\<close>

definition owner_only :: "fs \<Rightarrow> bytes \<Rightarrow> bool" where
  "owner_only fs0 q \<longleftrightarrow> (\<forall>f. fs0 q = Some f \<longrightarrow> f_mode f AND 0x3F = 0)"

lemma restrict_private: "owner_only (restrict_to_owner True p fs0) p"
  using restrict_to_owner_mode [of p fs0] by (auto simp: owner_only_def)

lemma restrict_private_other: "owner_only fs0 q \<Longrightarrow> owner_only (restrict_to_owner ok p fs0) q"
  by (cases "fs0 q") (auto simp: owner_only_def restrict_to_owner_def split: option.split)

lemma restrict_fold_private:
  "p \<in> set ps \<or> owner_only fs0 p \<Longrightarrow> owner_only (fold (\<lambda>p. restrict_to_owner True p) ps fs0) p"
  by (induction ps arbitrary: fs0) (auto simp: restrict_private restrict_private_other)

lemma state_files_private:
  assumes "p \<in> {identity_path c, contacts_path c, channels_path c, messages_path c, settings_path c}"
    and "suffix \<in> {[], dot_bak, dot_tmp}"
  shows "owner_only (restrict_state_files (\<lambda>q. True) c fs0) (p @ suffix)"
proof -
  let ?all = "concat (map (\<lambda>p. map (\<lambda>x. p @ x) [[], dot_bak, dot_tmp])
    [identity_path c, contacts_path c, channels_path c, messages_path c, settings_path c])"
  have "restrict_state_files (\<lambda>q. True) c fs0 = fold (\<lambda>p. restrict_to_owner True p) ?all fs0"
    by (simp add: restrict_state_files_def)
  moreover have "p @ suffix \<in> set ?all" using assms by auto
  ultimately show ?thesis using restrict_fold_private [of "p @ suffix" ?all fs0] by metis
qed

lemma saved_clean:
  "save_contacts w = (True, w1) \<Longrightarrow> \<not> cs_dirty (w_contacts w1)"
  "save_channels w = (True, w1) \<Longrightarrow> \<not> chs_dirty (w_channels w1)"
  "save_inbox w = (True, w1) \<Longrightarrow> \<not> ib_dirty (w_inbox w1)"
  by (auto simp: save_contacts_def save_channels_def save_inbox_def next_io_def contacts_save_def channels_save_def
      inbox_save_def split: prod.splits if_splits)

lemma saved_others:
  "save_channels w = (ok, w1) \<Longrightarrow> w_contacts w1 = w_contacts w"
  "save_inbox w = (ok, w1) \<Longrightarrow> w_contacts w1 = w_contacts w \<and> w_channels w1 = w_channels w"
  by (auto simp: save_channels_def save_inbox_def next_io_def split: prod.splits if_splits)

lemma flush_clean:
  assumes "fst (flush w)"
  shows "\<not> cs_dirty (w_contacts (snd (flush w))) \<and> \<not> chs_dirty (w_channels (snd (flush w))) \<and>
    \<not> ib_dirty (w_inbox (snd (flush w)))"
proof -
  obtain ok1 w1 where 1: "save_contacts w = (ok1, w1)" by fastforce
  obtain ok2 w2 where 2: "save_channels w1 = (ok2, w2)" by fastforce
  obtain ok3 w3 where 3: "save_inbox w2 = (ok3, w3)" by fastforce
  have "ok1" "ok2" "ok3" using assms by (simp_all add: flush_def 1 2 3 Let_def)
  then show ?thesis
    using saved_clean(1) [of w w1] saved_clean(2) [of w1 w2] saved_clean(3) [of w2 w3] saved_others(1) [OF 2] saved_others(2) [OF 3]
    by (simp add: flush_def 1 2 3 Let_def)
qed

lemma shutdown_quiet:
  fixes ho :: "'c hw_ops" and s :: "'c Sx1262"
  defines "s' \<equiv> sx_shutdown ho s"
  shows "\<not> sx_healthy s'" "\<not> sx_irq_watch s'" "sx_tx_timeout s' = None" "sx_supervise_timer s' = None"
    "sx_recovery_timer s' = None" "\<not> sx_tx_busy s'" "sx_irq_line s' = None"
proof -
  define s1 where "s1 = s\<lparr>sx_irq_watch := False, sx_supervise_timer := None, sx_recovery_timer := None, sx_tx_timeout := None,
    sx_recovering := False, sx_tx_busy := False, sx_retune_pending := False\<rparr>"
  define s2 where "s2 = (if sx_healthy s1
    then snd (cmd ho kCmdSetSleep [0x00] (snd (cmd ho kCmdSetStandby [kStandbyRc] s1))) else s1)"
  have "own (snd (cmd ho c d t)) = own t" for c d t by (rule own_cmd [OF prod.collapse [symmetric]])
  then have "own s2 = own s1" by (simp add: s2_def)
  then obtain c where "s2 = s1\<lparr>sx_hw := c\<rparr>" by (rule ownE)
  moreover have "s' = close_devices ho (release_lines ho (s2\<lparr>sx_healthy := False\<rparr>))"
    by (simp add: s'_def sx_shutdown_def s2_def s1_def Let_def)
  ultimately show "\<not> sx_healthy s'" "\<not> sx_irq_watch s'" "sx_tx_timeout s' = None" "sx_supervise_timer s' = None"
    "sx_recovery_timer s' = None" "\<not> sx_tx_busy s'" "sx_irq_line s' = None"
    by (simp_all add: close_devices_def release_lines_def s1_def split: prod.split)
qed

lemma server_shutdown_closed:
  fixes uio :: unix_plan and w :: "('r, 'm) cworld_scheme"
  defines "w' \<equiv> server_shutdown uio w"
  shows "sv_client_fd (w_server w') = None" "sv_listen_fd (w_server w') = None" "sv_lock_fd (w_server w') = None"
    "\<not> sv_owns_path (w_server w')"
  by (simp_all add: w'_def server_shutdown_def Let_def close_lock_def cleanup_unix_path_def)

text \<open>
  After \<^verbatim>\<open>request_stop\<close> the loop ends, no client, socket, lock, line or timer is left, and unless a save failed
  nothing is left unsaved.
\<close>

lemma server_shutdown_stores:
  "w_contacts (server_shutdown uio w) = w_contacts w" "w_channels (server_shutdown uio w) = w_channels w"
  "w_inbox (server_shutdown uio w) = w_inbox w"
  by (simp_all add: server_shutdown_def Let_def close_lock_def cleanup_unix_path_def drop_client_def upd_server_def)

lemma orderly_stop:
  fixes ho :: "'c hw_ops" and uio :: unix_plan and w :: "'c Sx1262 dworld_full"
  defines "w' \<equiv> request_stop ho uio w"
  shows "lp_stop (w_loop w')" "sv_client_fd (w_server w') = None" "sv_listen_fd (w_server w') = None"
    "sv_lock_fd (w_server w') = None" "\<not> sx_healthy (w_radio w')" "\<not> sx_irq_watch (w_radio w')"
    "fst (flush w) \<Longrightarrow> \<not> cs_dirty (w_contacts w') \<and> \<not> chs_dirty (w_channels w') \<and> \<not> ib_dirty (w_inbox w')"
  using flush_clean [of w]
  by (simp_all add: w'_def request_stop_def Let_def stop_def server_shutdown_closed shutdown_quiet server_shutdown_stores)

section \<open>Properties\<close>



text \<open>A first start on a machine on which every call succeeds.\<close>

definition first_boot :: "nat boot" where
  "first_boot = \<lparr>bt_sodium_init = True, bt_state_dir = Directory 0x1C0, bt_chmod = (\<lambda>p. True), bt_id_opens = True,
     bt_id_bad = False, bt_stat = (\<lambda>p. True), bt_seeds = [[8]], bt_id_io = io_fine, bt_id_removed = True,
     bt_settings_fault = None, bt_contacts = load_fine, bt_channels = load_fine, bt_messages = load_fine,
     bt_unix = unix_fine,
     bt_tcp = \<lparr>tp_addr_ok = True, tp_socket = None, tp_bind = True, tp_getsockname = None, tp_listen = True, tp_nonblock = True\<rparr>,
     bt_hw = 7000, bt_now = 7, bt_clock = \<lparr>ck_system = 1800000000, ck_offset = 0, ck_valid = False\<rparr>,
     bt_random = (\<lambda>i. 0), bt_io = (\<lambda>i. io_fine), bt_sock_path = None, bt_writes = []\<rparr>"

definition first_config :: Config where
  "first_config = config_finalise (default_config\<lparr>cf_state_dir := str ''/s''\<rparr>)"

definition first_ini :: bytes where
  "first_ini = str ''[storage]'' @ [newline] @ str ''state_dir=/s'' @ [newline]"

definition first_fs :: fs where
  "first_fs = [str ''/c'' \<mapsto> \<lparr>f_content = first_ini, f_mode = owner_rw\<rparr>,
     identity_path first_config \<mapsto> \<lparr>f_content = id_text sample_key, f_mode = owner_rw\<rparr>]"

lemma first_fs_paths:
  "first_fs (contacts_path c) = None" "first_fs (channels_path c) = None" "first_fs (messages_path c) = None"
  "first_fs (settings_path c) = None"
  if "cf_state_dir c = str ''/s''"
  using that by (simp_all add: first_fs_def state_paths str_def first_config_def config_finalise_def)

lemma restrict_owned: "(\<And>q f. fs0 q = Some f \<Longrightarrow> f_mode f AND 0x3F = 0) \<Longrightarrow> restrict_state_files ok c fs0 = fs0"
proof -
  assume owned: "\<And>q f. fs0 q = Some f \<Longrightarrow> f_mode f AND 0x3F = 0"
  have "restrict_to_owner b p fs0 = fs0" for b p
    using owned [of p] by (simp add: restrict_to_owner_def split: option.split)
  then show ?thesis by (simp add: restrict_state_files_def)
qed

lemma first_identity:
  "load_or_create_identity plain_crypto first_boot first_config (restrict_state_files ok first_config first_fs) =
     (Some sample_key, first_fs)"
proof -
  have "restrict_state_files ok first_config first_fs = first_fs"
    by (rule restrict_owned) (auto simp: first_fs_def owner_rw_def split: if_splits)
  then show ?thesis
    by (simp add: load_or_create_identity_def id_load_def first_boot_def first_fs_def id_parse_text [OF sample_key_wf])
qed

lemmas hardware_defs = open_spi_def open_chip_def open_line_def when_step_def request_line_def on_hw_def spi_open_def
  chip_open_def new_spi_def new_gpio_chip_def chip_request_def

lemma first_stack:
  assumes "cf_state_dir c = str ''/s''" "cf_messages_path c = messages_path c" "\<not> so_tcp (cf_companion c)"
    and "so_socket_path (cf_companion c) = str ''/run/coreletd/companion.sock''" "rp_freq_mhz (cf_radio c) = 0"
    and "cf_spi c = cf_spi default_config"
  shows "\<exists>w. start_stack off_hw first_boot (app_world first_boot c p [] first_fs cs chs) = Inr w"
proof -
  let ?w = "app_world first_boot c p [] first_fs cs chs"
  have beg: "fst (sx_begin off_hw (make_radio 7000 c))"
    using assms(5,6)
    by (simp add: sx_begin_def open_devices_def make_radio_def app_pins_def default_config_def new_sx1262_def Let_def
        hardware_defs off_hw_def)
  have ld: "load_state inbox_load (bt_messages first_boot) q first_fs (new_inbox kDefaultLimit (messages_path c)) =
      (Missing, first_fs, new_inbox kDefaultLimit (messages_path c))" for q
    using first_fs_paths(3) [OF assms(1)] by (simp add: load_state_def inbox_load_def new_inbox_def read_file_def state_paths)
  have sv: "fst (server_start (bt_unix first_boot) (bt_tcp first_boot) v)"
    if "w_server v = new_server (cf_companion c)" "w_sock_path v = None" for v :: "nat Sx1262 dworld_full"
    using that assms(3,4)
    by (simp add: server_start_def start_unix_def open_unix_def bind_unix_def first_boot_def unix_fine_def new_server_def
        Let_def str_def sun_path_size_def)
  have "fst (disp_start (sx_begin off_hw) ?w)"
    using beg disp_start_ok [of "sx_begin off_hw" ?w] by (simp add: app_world_fields first_boot_def)
  then obtain w1 where d: "disp_start (sx_begin off_hw) ?w = (True, w1)" by (metis prod.collapse)
  have w1: "w_inbox w1 = new_inbox kDefaultLimit (messages_path c)" "w_fs w1 = first_fs" "w_config w1 = c"
    "w_server w1 = new_server (cf_companion c)" "w_sock_path w1 = None"
    using disp_start_fields [of "sx_begin off_hw" ?w] assms(2)
    by (simp_all add: d app_world_fields) (simp add: app_world_def first_boot_def)
  let ?w3 = "writer_start ((settings_attach (node_start w1))
    \<lparr>w_fs := first_fs, w_inbox := new_inbox kDefaultLimit (messages_path c)\<rparr>)"
  have "fst (server_start (bt_unix first_boot) (bt_tcp first_boot) ?w3)"
    using w1 by (intro sv) (simp_all add: settings_attach_def)
  then obtain w' where "server_start (bt_unix first_boot) (bt_tcp first_boot) ?w3 = (True, w')" by (metis prod.collapse)
  moreover have "w_fs (settings_attach (node_start w1)) = first_fs"
    "w_inbox (settings_attach (node_start w1)) = new_inbox kDefaultLimit (messages_path c)"
    using w1 by (simp_all add: settings_attach_def)
  ultimately show ?thesis by (simp add: start_stack_def d Let_def ld)
qed

lemma first_start: "\<exists>w. app_start off_hw plain_crypto first_boot first_config first_fs = Inr (sample_key, w)"
proof -
  let ?c = "named_config sample_key first_config"
  have dir: "cf_state_dir ?c = str ''/s''" by (simp add: first_config_def config_finalise_def)
  have "load_state contacts_load io p first_fs (new_contacts (contacts_path ?c) mx) =
      (Missing, first_fs, new_contacts (contacts_path ?c) mx)" for io p mx
    using first_fs_paths(1) [OF dir] by (simp add: load_state_def contacts_load_def new_contacts_def read_file_def)
  moreover have "load_state channels_load io p first_fs (new_channels (channels_path ?c)) =
      (Missing, first_fs, new_channels (channels_path ?c))" for io p
    using first_fs_paths(2) [OF dir] by (simp add: load_state_def channels_load_def new_channels_def read_file_def)
  moreover have "settings_load fault first_fs (settings_path ?c) ?c = Inr (?c, [])" for fault
    using first_fs_paths(4) [OF dir] by (simp add: settings_load_def)
  moreover have "\<exists>w. start_stack off_hw first_boot (app_world first_boot ?c p [] first_fs cs chs) = Inr w" for p cs chs
    using dir
    by (intro first_stack) (simp_all add: named_config_def first_config_def config_finalise_def default_config_def
        default_params_def messages_path_def)
  moreover have "bt_sodium_init first_boot" "check_state_dir (bt_state_dir first_boot)"
    by (simp_all add: first_boot_def check_state_dir_def)
  ultimately show ?thesis
    using first_identity [of "bt_chmod first_boot"] by (simp add: app_start_def Let_def map_sum_Inr)
qed





end
