(* ===== verification/Run.thy ===== *)
theory Run
  imports App
begin

text \<open>
  The running daemon: \<^verbatim>\<open>App::run\<close> of \<^verbatim>\<open>src/src/daemon/app.cpp\<close>, which is the event loop of
  \<^verbatim>\<open>eventloop.cpp\<close> with the callbacks the parts registered with it, and \<^verbatim>\<open>main\<close> of \<^verbatim>\<open>src/src/main.cpp\<close> from
  the command line to the exit status. The lemmas show that whatever the loop does is a sequence of the
  events the other theories speak of, so their invariants hold of the process, and that a signal ends it
  in order.
\<close>

section \<open>What happens around the loop\<close>

text \<open>
  The driver keeps its interrupt watch and its timers with itself; that they become ready is up to the
  environment, like the hardware, the clocks and the outcomes of system calls to come.
\<close>

datatype 'c happening =
    InterruptReady
  | TxTimeoutDue
  | RecoveryDue
  | SuperviseDue
  | HardwareMoves 'c
  | TimePasses u32 int "write_outcome list" "nat \<Rightarrow> io_plan"

text \<open>
  What a callback of the loop meets: what happened since the last one, the host's metrics, and the
  results of \<^verbatim>\<open>accept\<close>, of \<^verbatim>\<open>fcntl\<close> on what it returned, and of the reads from the client.
\<close>

record 'c feed =
  fd_before :: "'c happening list"
  fd_battery_mv :: u16
  fd_storage :: Storage
  fd_accepted :: "nat option"
  fd_nonblock :: bool
  fd_reads :: "read_outcome list"

record 'c run_world =
  rw_daemon :: "'c Sx1262 dworld_full"
  rw_feed :: "nat \<Rightarrow> 'c feed"
  rw_calls :: nat

text \<open>The program as it was built and started: what \<^verbatim>\<open>start\<close> left in the members of the \<^verbatim>\<open>App\<close>.\<close>

record 'c app =
  ap_hw :: "'c hw_ops"
  ap_crypto :: crypto_ops
  ap_self :: LocalIdentity
  ap_version :: bytes
  ap_begin :: "(u64 \<times> u32) list \<Rightarrow> nat"

definition app_step ::
  "'c app \<Rightarrow> 'c feed \<Rightarrow> 'c system_event \<Rightarrow> 'c Sx1262 dworld_full \<Rightarrow> 'c Sx1262 dworld_full" where
  "app_step a fd e w =
     app_run (ap_hw a) (ap_crypto a) (ap_self a) (ap_version a) (ap_begin a) [(fd_battery_mv fd, fd_storage fd, e)] w"

fun happen :: "'c app \<Rightarrow> 'c feed \<Rightarrow> 'c happening \<Rightarrow> 'c Sx1262 dworld_full \<Rightarrow> 'c Sx1262 dworld_full" where
  "happen a fd InterruptReady w = app_step a fd RadioIrq w"
| "happen a fd TxTimeoutDue w = app_step a fd RadioTxTimeout w"
| "happen a fd RecoveryDue w = app_step a fd RadioRecovery w"
| "happen a fd SuperviseDue w = app_step a fd RadioSupervise w"
| "happen a fd (HardwareMoves c) w = app_step a fd (Elsewhere c) w"
| "happen a fd (TimePasses ms t os ios) w = app_step a fd (Loop (Outside (time_passes ms (w_loop w)) t os ios)) w"

section \<open>The callbacks\<close>

definition on_callback ::
  "'c app \<Rightarrow> ('c feed \<Rightarrow> 'c system_event) \<Rightarrow> 'c run_world \<Rightarrow> 'c run_world" where
  "on_callback a ev x =
    (let fd = rw_feed x (rw_calls x)
     in x\<lparr>rw_daemon := app_step a fd (ev fd) (fold (happen a fd) (fd_before fd) (rw_daemon x)),
          rw_calls := rw_calls x + 1\<rparr>)"

fun watch_event :: "watch_cb \<Rightarrow> u16 \<Rightarrow> 'c feed \<Rightarrow> 'c system_event" where
  "watch_event WbListen revents fd = Loop (ListenReady (fd_accepted fd) (fd_nonblock fd) revents)"
| "watch_event WbClient revents fd = Loop (ClientReady (fd_reads fd) revents)"
| "watch_event WbRadio revents fd = RadioIrq"

definition daemon_loop :: "'c app \<Rightarrow> 'c run_world loop_ops" where
  "daemon_loop a =
     \<lparr>get_loop = (\<lambda>x. w_loop (rw_daemon x)),
      upd_loop = (\<lambda>f x. x\<lparr>rw_daemon := (rw_daemon x)\<lparr>w_loop := f (w_loop (rw_daemon x))\<rparr>\<rparr>),
      run_cb = (\<lambda>cb. on_callback a (\<lambda>fd. Loop (TimerFired cb))),
      run_watch = (\<lambda>wb revents. on_callback a (watch_event wb revents))\<rparr>"

definition app_run_loop :: "'c app \<Rightarrow> poll_pass list \<Rightarrow> 'c run_world \<Rightarrow> bool \<times> 'c run_world" where
  "app_run_loop a ps x = run_loop (daemon_loop a) ps x"

section \<open>The process\<close>

text \<open>
  \<open>None\<close> is a process that still runs after the given passes of its loop; otherwise its exit status
  comes with the world an orderly stop leaves, if it ever started.
\<close>

definition daemon_main ::
  "'c hw_ops \<Rightarrow> crypto_ops \<Rightarrow> 'c boot \<Rightarrow> nat option \<Rightarrow> option_seen list \<Rightarrow> fs \<Rightarrow> bytes \<Rightarrow> ((u64 \<times> u32) list \<Rightarrow> nat) \<Rightarrow>
    (nat \<Rightarrow> 'c feed) \<Rightarrow> poll_pass list \<Rightarrow> unix_plan \<Rightarrow> (nat \<times> 'c Sx1262 dworld_full option) option" where
  "daemon_main ho cr b fault opts fs0 version bg feeds ps uio =
     (case main_start ho cr b fault opts fs0 of
        Inl status \<Rightarrow> Some (status, None)
      | Inr (self, w) \<Rightarrow>
          (case app_run_loop \<lparr>ap_hw = ho, ap_crypto = cr, ap_self = self, ap_version = version, ap_begin = bg\<rparr> ps
                  \<lparr>rw_daemon = w, rw_feed = feeds, rw_calls = 0\<rparr> of
             (False, x) \<Rightarrow> None
           | (True, x) \<Rightarrow> Some (0, Some (request_stop ho uio (rw_daemon x)))))"

section \<open>The loop runs the daemon's events\<close>

abbreviation run_of ::
  "'c app \<Rightarrow> (u16 \<times> Storage \<times> 'c system_event) list \<Rightarrow> 'c Sx1262 dworld_full \<Rightarrow> 'c Sx1262 dworld_full" where
  "run_of a \<equiv> app_run (ap_hw a) (ap_crypto a) (ap_self a) (ap_version a) (ap_begin a)"

text \<open>\<open>comes_from a w0 w\<close>: some sequence of events leads from \<open>w0\<close> to \<open>w\<close>.\<close>

definition comes_from :: "'c app \<Rightarrow> 'c Sx1262 dworld_full \<Rightarrow> 'c Sx1262 dworld_full \<Rightarrow> bool" where
  "comes_from a w0 w \<longleftrightarrow> (\<exists>es. w = run_of a es w0)"

lemma app_run_append: "app_run ho cr self version bg (es @ es') w =
    app_run ho cr self version bg es' (app_run ho cr self version bg es w)"
  by (simp add: app_run_def)

lemma comes_from_refl: "comes_from a w w"
  unfolding comes_from_def by (rule exI [of _ "[]"]) (simp add: app_run_def)

lemma comes_from_trans: "comes_from a w0 w1 \<Longrightarrow> comes_from a w1 w2 \<Longrightarrow> comes_from a w0 w2"
  unfolding comes_from_def by (metis app_run_append)

lemma comes_from_step: "comes_from a w0 w \<Longrightarrow> comes_from a w0 (app_step a fd e w)"
  by (erule comes_from_trans) (auto simp: comes_from_def app_step_def)

lemma comes_from_happen: "comes_from a w0 w \<Longrightarrow> comes_from a w0 (happen a fd h w)"
  by (cases h) (simp_all add: comes_from_step)

lemma comes_from_callback:
  assumes "comes_from a w0 (rw_daemon x)" shows "comes_from a w0 (rw_daemon (on_callback a ev x))"
proof -
  have "comes_from a w0 (fold (happen a fd) hs w)" if "comes_from a w0 w" for fd hs w
    using that by (induction hs arbitrary: w) (simp_all add: comes_from_happen)
  with assms show ?thesis by (simp add: on_callback_def Let_def comes_from_step)
qed

text \<open>The loop's own bookkeeping is an event in which nothing but the loop changes.\<close>

lemma outside_loop:
  fixes w :: "'c Sx1262 dworld_full"
  shows "system_step ho se (Loop (Outside lp (ck_system (w_clock w)) (w_writes w) (w_io w))) w = w\<lparr>w_loop := lp\<rparr>"
proof -
  have "(w_clock w)\<lparr>ck_system := ck_system (w_clock w)\<rparr> = w_clock w" by simp
  then show ?thesis by (cases w) simp
qed

lemma comes_from_loop: "comes_from a w0 w \<Longrightarrow> comes_from a w0 (w\<lparr>w_loop := lp\<rparr>)"
proof -
  have "app_step a fd (Loop (Outside lp (ck_system (w_clock w)) (w_writes w) (w_io w))) w = w\<lparr>w_loop := lp\<rparr>" for fd
    unfolding app_step_def app_run_def using outside_loop by simp
  then show "comes_from a w0 w \<Longrightarrow> comes_from a w0 (w\<lparr>w_loop := lp\<rparr>)" using comes_from_step by metis
qed

interpretation daemon_events: loop_predicate "daemon_loop a" "\<lambda>x. comes_from a v (rw_daemon x)"
  by unfold_locales (simp_all add: daemon_loop_def comes_from_loop comes_from_callback)

text \<open>Whatever the loop does, some sequence of the daemon's events does.\<close>

lemma loop_runs_events: "\<exists>es. rw_daemon (snd (app_run_loop a ps x)) = run_of a es (rw_daemon x)"
  using daemon_events.run_keeps [where a = a and v = "rw_daemon x" and w = x and ps = ps, OF comes_from_refl]
  by (simp add: app_run_loop_def comes_from_def)

lemma main_start_started:
  assumes "main_start ho cr b fault opts fs0 = Inr (self, w)"
  shows "\<exists>c. app_start ho cr b c fs0 = Inr (self, w)"
  using assms by (auto simp: main_start_def map_sum_Inr split: sum.splits)

section \<open>Properties\<close>

text \<open>
  C5. A signal stops the daemon in order. Once the interrupt check of the loop answers yes, \<^verbatim>\<open>main\<close> returns
  zero, whatever callbacks ran before; what they did is a sequence of the daemon's events, after which all
  its parts are still sound; and then the loop is stopped, no client, listening socket or lock is left open,
  the radio is down, and unless a save fails no store has unsaved changes.
\<close>

theorem signal_stops_daemon:
  assumes "main_start ho cr b fault opts fs0 = Inr (self, w)" and "pp_interrupted p"
  shows "\<exists>es. let w' = app_run ho cr self version bg es w; v = request_stop ho uio w'
    in daemon_main ho cr b fault opts fs0 version bg feeds (ps @ p # rest) uio = Some (0, Some v) \<and>
      node_inv w' \<and> server_inv w' \<and> sx_inv (w_radio w') \<and>
      lp_stop (w_loop v) \<and> sv_client_fd (w_server v) = None \<and> sv_listen_fd (w_server v) = None \<and>
      sv_lock_fd (w_server v) = None \<and> \<not> sx_healthy (w_radio v) \<and>
      (fst (flush w') \<longrightarrow> \<not> cs_dirty (w_contacts v) \<and> \<not> chs_dirty (w_channels v) \<and> \<not> ib_dirty (w_inbox v))"
proof -
  let ?a = "\<lparr>ap_hw = ho, ap_crypto = cr, ap_self = self, ap_version = version, ap_begin = bg\<rparr>"
  let ?x = "\<lparr>rw_daemon = w, rw_feed = feeds, rw_calls = 0\<rparr>"
  obtain ended x where r: "app_run_loop ?a (ps @ p # rest) ?x = (ended, x)" by fastforce
  have "ended" using interrupt_ends_loop [OF assms(2)] r by (metis app_run_loop_def fst_conv run_loop_def)
  then have main: "daemon_main ho cr b fault opts fs0 version bg feeds (ps @ p # rest) uio =
      Some (0, Some (request_stop ho uio (rw_daemon x)))"
    using assms(1) r by (simp add: daemon_main_def)
  obtain es where es: "rw_daemon x = app_run ho cr self version bg es w"
    using loop_runs_events [of ?a "ps @ p # rest" ?x] r by auto
  obtain c where "app_start ho cr b c fs0 = Inr (self, w)" using main_start_started [OF assms(1)] by blast
  from app_run_system [OF app_start_system [OF this]] have "system_inv ho (rw_daemon x)" by (simp add: es)
  then show ?thesis
    using main orderly_stop [where ho = ho and uio = uio and w = "rw_daemon x"]
    by (intro exI [of _ es]) (simp add: es [symmetric] Let_def system_inv_def tuned_def)
qed

lemma first_config_loads:
  "config_load None first_fs (str ''/c'') default_config = Inr (default_config\<lparr>cf_state_dir := str ''/s''\<rparr>)"
proof -
  have "ini_lines (fst (read_lines None first_ini)) [] 0 [] = Inr [(str ''storage.state_dir'', str ''/s'')]"
    by code_simp
  then have "ini_load None first_fs (str ''/c'') = Inr [(str ''storage.state_dir'', str ''/s'')]"
    by (simp add: ini_load_def read_file_def first_fs_def first_config_def config_finalise_def identity_path_def str_def)
  moreover have "valid_tcxo (rp_tcxo_voltage default_params)"
    using default_ok by (simp add: config_ok_def radio_ok_def default_config_def)
  then have "apply_settings [(str ''storage.state_dir'', str ''/s'')] settings (default_config, default_raw) =
      Inr (default_config\<lparr>cf_state_dir := str ''/s''\<rparr>, default_raw)"
    by (simp add: settings_def radio_settings_def hardware_settings_def node_settings_def other_settings_def str_def
        app_key_def kAppKeys_def get_str_def get_bool_def get_int64_def get_double_def ini_value_def ini_find_def
        default_config_def on_spi_def on_companion_def on_node_def on_radio_def default_raw_def kMaxInt_def kMaxU16_def
        kMaxTimerDelaySeconds_def default_params_def)
  moreover have "log_parse_level (raw_log_level default_raw) = Some LogInfo" by code_simp
  moreover have "trim_slashes (str ''/s'') = str ''/s''" by code_simp
  ultimately show ?thesis
    by (simp add: config_load_def default_raw_def default_config_def str_def slash_def Let_def)
qed

text \<open>A quiet machine on which an app connects once; then a signal arrives.\<close>

definition quiet_feed :: "nat \<Rightarrow> nat feed" where
  "quiet_feed i = \<lparr>fd_before = [], fd_battery_mv = 3700, fd_storage = storage None, fd_accepted = Some 9, fd_nonblock = True,
     fd_reads = []\<rparr>"

definition quiet_passes :: "poll_pass list" where
  "quiet_passes =
     [\<lparr>pp_interrupted = False, pp_took = 20, pp_outcome = Poll_Ready [(1, POLLIN)], pp_interrupted_after = False\<rparr>,
      \<lparr>pp_interrupted = True, pp_took = 0, pp_outcome = Poll_Error True, pp_interrupted_after = True\<rparr>]"

theorem signal_stops_daemon_witness:
  "\<exists>v. daemon_main off_hw plain_crypto first_boot None [OptConfig (str ''/c'')] first_fs [] (\<lambda>t. 0) quiet_feed quiet_passes
     unix_fine = Some (0, Some v) \<and> sv_lock_fd (w_server v) = None"
proof -
  obtain w where "app_start off_hw plain_crypto first_boot first_config first_fs = Inr (sample_key, w)"
    using first_start by blast
  then have start: "main_start off_hw plain_crypto first_boot None [OptConfig (str ''/c'')] first_fs = Inr (sample_key, w)"
    by (simp add: main_start_def first_config_loads verbose_config_def) (simp add: first_config_def)
  have "pp_interrupted (quiet_passes ! 1)" by (simp add: quiet_passes_def)
  moreover have "quiet_passes = [quiet_passes ! 0] @ quiet_passes ! 1 # []" by (simp add: quiet_passes_def)
  ultimately show ?thesis
    using signal_stops_daemon [OF start, of "quiet_passes ! 1" "[]" "\<lambda>t. 0" unix_fine quiet_feed "[quiet_passes ! 0]" "[]"]
    unfolding Let_def by metis
qed

end
