(* ===== verification/OnDisk.thy ===== *)
theory OnDisk
  imports RadioLink Recovery
begin

text \<open>
  The stores of a running daemon against their files: \<^verbatim>\<open>contacts\<close>, \<^verbatim>\<open>channels\<close> and \<^verbatim>\<open>messages\<close> of the state
  directory. Every operation that changes a store marks it dirty (\<^verbatim>\<open>dirty_\<close> of \<^verbatim>\<open>src/src/mesh\<close>), and only a
  save that succeeded clears the mark. The lemmas show that through any sequence of events a store that is
  not marked is what the next start loads, and that nothing but the identity code writes the key file.
\<close>

section \<open>A store and its file\<close>

text \<open>
  \<open>on_disk load view t fs0 s\<close>: loading into the new store \<open>t\<close> gives \<open>s\<close>, as far as \<open>view\<close> looks.
\<close>

definition on_disk ::
  "(nat option \<Rightarrow> fs \<Rightarrow> 's \<Rightarrow> LoadResult \<times> 's) \<Rightarrow> ('s \<Rightarrow> 'v) \<Rightarrow> 's \<Rightarrow> fs \<Rightarrow> 's \<Rightarrow> bool" where
  "on_disk load view t fs0 s \<longleftrightarrow> (case load None fs0 t of (r, s0) \<Rightarrow> r \<noteq> Corrupt \<and> view s0 = view s)"

text \<open>A store is marked, or on disk; one that cannot be written so that it is read back may be neither.\<close>

definition marked_or_on_disk ::
  "(nat option \<Rightarrow> fs \<Rightarrow> 's \<Rightarrow> LoadResult \<times> 's) \<Rightarrow> ('s \<Rightarrow> 'v) \<Rightarrow> ('s \<Rightarrow> bool) \<Rightarrow> ('s \<Rightarrow> bool) \<Rightarrow> 's \<Rightarrow> fs \<Rightarrow> 's \<Rightarrow> bool" where
  "marked_or_on_disk load view storable dirty t fs0 s \<longleftrightarrow> dirty s \<or> \<not> storable s \<or> on_disk load view t fs0 s"

text \<open>A load in which nothing fails; the backup may or may not be there.\<close>

definition plain_load :: "load_plan \<Rightarrow> bool" where
  "plain_load io \<longleftrightarrow> ld_fault io = None \<and> ld_fault_bak io = None \<and> ld_moved io \<and> ld_moved_bak io"

locale kept_store = file_store render parse restore storable same_config store_path save load
  for render :: "'s \<Rightarrow> bytes"
    and parse :: "'s \<Rightarrow> bytes \<Rightarrow> LoadResult \<times> 's"
    and restore :: "'s \<Rightarrow> 's \<Rightarrow> 's"
    and storable :: "'s \<Rightarrow> bool"
    and same_config :: "'s \<Rightarrow> 's \<Rightarrow> bool"
    and store_path :: "'s \<Rightarrow> bytes"
    and save :: "io_plan \<Rightarrow> fs \<Rightarrow> 's \<Rightarrow> bool \<times> fs \<times> 's"
    and load :: "nat option \<Rightarrow> fs \<Rightarrow> 's \<Rightarrow> LoadResult \<times> 's" +
  fixes view :: "'s \<Rightarrow> 'v" and dirty :: "'s \<Rightarrow> bool"
  assumes view_restore: "view (restore t s) = view s"
    and view_saved: "save io fs0 s = (ok, fs1, s') \<Longrightarrow> view s' = view s"
    and dirty_saved: "save io fs0 s = (ok, fs1, s') \<Longrightarrow> dirty s' = (dirty s \<and> \<not> ok)"
    and storable_saved: "save io fs0 s = (ok, fs1, s') \<Longrightarrow> storable s' = storable s"
begin

lemma load_other: "load None fs0 t = (r, s) \<Longrightarrow> r \<noteq> Loaded \<Longrightarrow> s = t"
  using parse_keeps by (cases "store_path t = []") (auto simp: load_reads load_nowhere split: option.splits)

lemma on_disk_frame:
  assumes "read_file fs1 (store_path t) = read_file fs0 (store_path t)"
  shows "on_disk load view t fs1 s = on_disk load view t fs0 s"
  using assms by (cases "store_path t = []") (simp_all add: on_disk_def load_reads load_nowhere)

lemma on_disk_saved:
  assumes "save io fs0 s = (ok, fs1, s')" "storable s" "same_config s t" "ok \<or> on_disk load view t fs0 s"
  shows "on_disk load view t fs1 s'"
proof (cases ok)
  case True
  with saved_then_loaded [OF _ assms(2,3)] assms(1) view_saved [OF assms(1)] show ?thesis
    by (simp add: on_disk_def view_restore)
next
  case False
  with interrupted_save [OF assms(1-3)] assms(4) view_saved [OF assms(1)] show ?thesis
    by (auto simp: on_disk_def view_restore)
qed

lemma saved_or_marked:
  assumes "marked_or_on_disk load view storable dirty t fs0 s" "save io fs0 s = (ok, fs1, s')" "same_config s t"
  shows "marked_or_on_disk load view storable dirty t fs1 s'"
  using assms on_disk_saved [OF assms(2) _ assms(3)] dirty_saved [OF assms(2)] storable_saved [OF assms(2)]
  by (auto simp: marked_or_on_disk_def)

text \<open>After a start the store is on disk, whatever the files held.\<close>

lemma on_disk_loaded:
  assumes "plain_load io" "store_path t \<noteq> []" "load_state load io (store_path t) fs0 t = (r, fs1, s)"
  shows "on_disk load view t fs1 s"
proof -
  let ?p = "store_path t"
  have moved: "on_disk load view t (snd (quarantine True x ?p fs)) t" if "x \<noteq> []" for x fs
    using assms(2) that by (auto simp: on_disk_def load_reads read_file_def quarantine_def split: option.split)
  obtain r1 s1 where l1: "load None fs0 t = (r1, s1)" by fastforce
  show ?thesis
  proof (cases "r1 = Corrupt")
    case False
    then show ?thesis
      using assms(1,3) l1 by (cases r1) (auto simp: plain_load_def load_state_def on_disk_def)
  next
    case True
    define q1 where "q1 = snd (quarantine True (dot_corrupt @ ld_stamp io) ?p fs0)"
    define fs2 where "fs2 = q1(?p := q1 (?p @ dot_bak), ?p @ dot_bak := None)"
    define q2 where "q2 = snd (quarantine True (dot_corrupt @ ld_stamp_bak io) ?p fs2)"
    have s1: "s1 = t" using load_other [OF l1] True by simp
    obtain r2 s2 where l2: "load None fs2 t = (r2, s2)" by fastforce
    have "load_state load io ?p fs0 t = (if \<not> ld_restored io \<or> q1 (?p @ dot_bak) = None then (Corrupt, q1, t)
        else if r2 = Corrupt then (Corrupt, q2, s2) else (r2, fs2, s2))"
      using assms(1) l1 l2 True s1
      by (cases r2) (simp_all add: plain_load_def load_state_def Let_def q1_def [symmetric] fs2_def [symmetric] q2_def)
    then have "(fs1, s) = (q1, t) \<or> (fs1, s) = (fs2, s2) \<and> r2 \<noteq> Corrupt \<or> (fs1, s) = (q2, t)"
      using assms(3) load_other [OF l2] by (auto split: if_splits)
    moreover have "on_disk load view t q1 t" "on_disk load view t q2 t" by (simp_all add: q1_def q2_def moved)
    moreover have "r2 \<noteq> Corrupt \<Longrightarrow> on_disk load view t fs2 s2" by (simp add: on_disk_def l2)
    ultimately show ?thesis by auto
  qed
qed

lemma load_of_disk:
  assumes "on_disk load view t fs0 s" "ld_fault io = None" "load_state load io p fs0 t = (r, fs1, s')"
  shows "view s' = view s \<and> fs1 = fs0"
  using assms by (auto simp: on_disk_def load_state_def split: prod.splits LoadResult.splits)

end

definition contacts_view :: "ContactStore \<Rightarrow> Contact list" where
  "contacts_view s = map contact_persisted (cs_contacts s)"

definition channels_view :: "ChannelStore \<Rightarrow> Channel list" where
  "channels_view s = map channel_persisted (chs_channels s)"

interpretation contacts_kept: kept_store contacts_render
  "\<lambda>s text. contacts_parse s (read_lines None text)" "\<lambda>t s. contacts_persisted s" contacts_storable
  contacts_same_config cs_path contacts_save contacts_load contacts_view cs_dirty
  by unfold_locales
    (auto simp: contacts_storable_def contacts_inv_def contacts_view_def contacts_persisted_def contact_persisted_def contacts_save_def split: prod.splits if_splits)

interpretation channels_kept: kept_store channels_render
  "\<lambda>s text. channels_parse s (read_lines None text)" "\<lambda>t s. channels_persisted s" channels_inv
  channels_same_config chs_path channels_save channels_load channels_view chs_dirty
  by unfold_locales
    (auto simp: channels_inv_def channels_view_def channels_persisted_def channels_save_def split: prod.splits if_splits)

interpretation inbox_kept: kept_store inbox_render
  "\<lambda>s text. inbox_parse s (read_lines None text)" inbox_restore inbox_inv inbox_same_config
  ib_path inbox_save inbox_load ib_messages ib_dirty
  by unfold_locales (auto simp: inbox_inv_def inbox_restore_def inbox_save_def split: prod.splits if_splits)

section \<open>What leaves the stores and their files alone\<close>

definition stores :: "('r, 'm) nworld_scheme \<Rightarrow> ContactStore \<times> ChannelStore \<times> MessageInbox \<times> fs" where
  "stores w = (w_contacts w, w_channels w, w_inbox w, w_fs w)"

lemma stores_sworld:
  "w_contacts w = w_contacts w' \<Longrightarrow> sworld.more w = sworld.more (w' :: ('r, 'm) nworld_scheme) \<Longrightarrow> stores w = stores w'"
  using node_fields_more [of w w'] by (simp add: stores_def)

lemma stores_view: "sender_view w = sender_view (w' :: ('r, 'm) nworld_scheme) \<Longrightarrow> stores w = stores w'"
  by (rule stores_sworld) (simp_all add: sender_view_def)

lemma stores_update [simp]:
  "stores (w\<lparr>w_loop := lp\<rparr>) = stores w" "stores (w\<lparr>w_radio := r\<rparr>) = stores w" "stores (w\<lparr>w_io := io\<rparr>) = stores w"
  "stores (w\<lparr>w_disp := dp\<rparr>) = stores w" "stores (w\<lparr>w_clock := ck\<rparr>) = stores w" "stores (w\<lparr>w_writer := wr\<rparr>) = stores w" "stores (w\<lparr>w_cfg := cf\<rparr>) = stores w"
  "stores (w\<lparr>w_delivered := tbl\<rparr>) = stores w" "stores (upd_disp f w) = stores w" "stores (upd_stats g w) = stores w"
  "stores (snd (draw_byte w)) = stores w" "stores (snd (draw_bytes n w)) = stores w" "stores (snd (next_io w)) = stores w"
  by (simp_all add: stores_def upd_disp_def upd_stats_def draw_byte_def draw_bytes_def next_io_def)

lemma stores_sender [simp]:
  "stores (snd (complete ack w)) = stores w" "stores (on_retry cr ro self i w) = stores w"
  "stores (snd (rs_send cr ro self to tx tt ts w)) = stores w" "stores (snd (route_to cr ro p to prio fl r w)) = stores w"
  "stores (snd (node_send env p prio delay w)) = stores w" "stores (on_pump_timer ro on_tx_result w) = stores w"
proof -
  show "stores (on_pump_timer ro on_tx_result w) = stores w"
    unfolding on_pump_timer_def Let_def
    by (rule stores_view [THEN trans, OF sender.obs_pump]) (simp add: upd_disp_def stores_def)
qed (auto simp: node_send_def intro: stores_sworld stores_view)

lemma stores_node [simp]:
  "stores (snd (first_delivery env c m w)) = stores w" "stores (expire_delivered w) = stores w"
  "stores (expire_seen w) = stores w" "stores (snd (check_and_mark_seen cr p w)) = stores w"
  "stores (request_save w) = stores w" "stores (send_advert env f w) = stores w"
  "stores (snd (send_channel_text env i tx ts w)) = stores w" "stores (snd (node_send_text env to tx tt ts w)) = stores w"
  "stores (on_radio_rx_error fl w) = stores w" "stores (on_radio_tx_done a w) = stores w"
  by (simp_all add: first_delivery_def expire_delivered_def expire_seen_def check_and_mark_seen_def request_save_def
      send_advert_def send_channel_text_def node_send_text_def on_radio_rx_error_def on_radio_tx_done_def schedule_pump_def
      Let_def case_prod_unfold split: option.split)

lemma stores_replies [simp]:
  "stores (send_ack env to ack w) = stores w" "stores (send_path_return env to p et ex via d w) = stores w"
  "stores (snd (text_ack env c m pl w)) = stores w" "stores (maybe_repeat env p w) = stores w"
  "stores (forward_direct env p w) = stores w" "stores (forward_trace env p w) = stores w"
  by (simp_all add: send_ack_def send_path_return_def path_return_extra_def text_ack_def maybe_repeat_def
      forward_direct_def forward_trace_def direct_retransmit_delay_def case_prod_unfold Let_def split: bool.splits)

section \<open>What the node does to its stores\<close>

text \<open>
  A predicate of the stores and the files that survives any change that marks the store, and any save,
  survives everything the node does.
\<close>

definition same_store :: "ContactStore \<Rightarrow> ContactStore \<Rightarrow> bool" where
  "same_store cs cs' \<longleftrightarrow> cs_path cs' = cs_path cs \<and> cs_max cs' = cs_max cs"

locale store_predicate =
  fixes env :: "('r, 'm) node_env" and P :: "('r, 'm) nworld_scheme \<Rightarrow> bool"
  assumes same: "stores w' = stores w \<Longrightarrow> P w' = P w"
    and delegate_stores: "stores (ne_delegate env n w) = stores w"
    and contacts_change: "P w \<Longrightarrow> cs_dirty cs \<Longrightarrow> same_store (w_contacts w) cs \<Longrightarrow> P (w\<lparr>w_contacts := cs\<rparr>)"
    and channels_change: "P w \<Longrightarrow> chs_dirty chs \<Longrightarrow> chs_path chs = chs_path (w_channels w) \<Longrightarrow> P (w\<lparr>w_channels := chs\<rparr>)"
    and inbox_change: "P w \<Longrightarrow> ib_dirty ib \<Longrightarrow> ib_path ib = ib_path (w_inbox w) \<Longrightarrow> ib_limit ib = ib_limit (w_inbox w) \<Longrightarrow>
      P (w\<lparr>w_inbox := ib\<rparr>)"
    and contacts_saved: "P w \<Longrightarrow> contacts_save io (w_fs w) (w_contacts w) = (ok, fs1, cs) \<Longrightarrow>
      P (w\<lparr>w_fs := fs1, w_contacts := cs\<rparr>)"
    and channels_saved: "P w \<Longrightarrow> channels_save io (w_fs w) (w_channels w) = (ok, fs1, chs) \<Longrightarrow>
      P (w\<lparr>w_fs := fs1, w_channels := chs\<rparr>)"
    and inbox_saved: "P w \<Longrightarrow> inbox_save io (w_fs w) (w_inbox w) = (ok, fs1, ib) \<Longrightarrow> P (w\<lparr>w_fs := fs1, w_inbox := ib\<rparr>)"
begin

lemma delegate_keeps [simp]: "P (ne_delegate env n w) = P w"
  by (rule same) (rule delegate_stores)

lemma same_ops [simp]:
  "P (upd_stats g w) = P w" "P (snd (draw_byte w)) = P w" "P (snd (first_delivery env' c m w)) = P w"
  "P (snd (check_and_mark_seen cr p w)) = P w" "P (snd (complete ack w)) = P w" "P (send_ack env' to ack w) = P w"
  "P (send_path_return env' to p et ex via d w) = P w" "P (snd (text_ack env' c m pl w)) = P w"
  "P (maybe_repeat env' p w) = P w" "P (forward_direct env' p w) = P w" "P (forward_trace env' p w) = P w"
  "P (send_advert env' f w) = P w" "P (expire_delivered w) = P w" "P (expire_seen w) = P w" "P (request_save w) = P w"
  "P (on_retry cr ro self i w) = P w" "P (on_pump_timer ro on_tx_result w) = P w" "P (w\<lparr>w_writer := wr\<rparr>) = P w"
  "P (w\<lparr>w_loop := lp\<rparr>) = P w" "P (w\<lparr>w_io := io\<rparr>) = P w"
  by (rule same; simp)+

lemma upd_contacts_keeps:
  assumes "P w" "f (w_contacts w) = w_contacts w \<or> cs_dirty (f (w_contacts w)) \<and> same_store (w_contacts w) (f (w_contacts w))"
  shows "P (upd_contacts f w)"
  using assms contacts_change [OF assms(1), of "f (w_contacts w)"] by (auto simp: upd_contacts_def)

lemma touch_keeps:
  assumes "P w"
  shows "P (upd_contacts (contact_touch t k) w)" "P (upd_contacts (contact_touch_signal t k rs sn) w)"
    "P (upd_contacts (\<lambda>cs. contact_touch t k (snd (contact_set_path k pth cs))) w)"
    "P (upd_contacts (\<lambda>cs. snd (contact_clear_path k cs)) w)"
  using assms
  by (auto intro!: upd_contacts_keeps simp: contact_touch_def contact_touch_signal_def contact_set_path_def
      contact_clear_path_def upd_contact_def same_store_def Let_def)

lemma store_message_keeps:
  assumes "P w" shows "P (store_message env m w)"
proof -
  let ?ib = "inbox_enqueue m (w_inbox w)"
  have "P (w\<lparr>w_inbox := ?ib\<rparr>)"
    using assms by (rule inbox_change) (simp_all add: inbox_enqueue_def split: prod.split)
  then have "P (w\<lparr>w_fs := fs1, w_inbox := ib\<rparr>)" if "inbox_store io m (w_fs w) (w_inbox w) = (ok, fs1, ib)" for io ok fs1 ib
    using that inbox_saved [of "w\<lparr>w_inbox := ?ib\<rparr>" io ok fs1 ib]
    by (auto simp: inbox_store_def Let_def split: if_splits)
  moreover have "P (w\<lparr>w_io := io, w_fs := fs1, w_inbox := ib\<rparr>) = P (w\<lparr>w_fs := fs1, w_inbox := ib\<rparr>)" for io fs1 ib
    by (rule same) (simp add: stores_def)
  ultimately show ?thesis by (simp add: store_message_def next_io_def split: prod.split)
qed

lemma complete_ack_keeps: "P w \<Longrightarrow> P (snd (complete_ack env ack d w))"
  by (auto simp: complete_ack_def case_prod_unfold Let_def touch_keeps split: option.splits)

lemma apply_advert_keeps:
  assumes "P w" "apply_advert t adv app (w_contacts w) = (r, cs)" shows "P (w\<lparr>w_contacts := cs\<rparr>)"
proof -
  have "cs = w_contacts w \<or> cs_dirty cs \<and> same_store (w_contacts w) cs"
    using assms(2)
    by (auto simp: apply_advert_def contact_upsert_def upd_contact_def same_store_def Let_def split: option.splits if_splits)
  with contacts_change [OF assms(1)] assms(1) show ?thesis by auto
qed

lemma handle_advert_keeps: "P w \<Longrightarrow> P (snd (handle_advert env p w))"
  by (auto simp: handle_advert_def Let_def apply_advert_keeps touch_keeps split: option.splits prod.splits)

lemma handle_ack_keeps: "P w \<Longrightarrow> P (snd (handle_ack env p w))"
  using complete_ack_keeps by (auto simp: handle_ack_def case_prod_unfold split: option.splits)

lemma handle_path_keeps: "P w \<Longrightarrow> P (snd (handle_path env p w))"
  by (auto simp: handle_path_def Let_def touch_keeps intro!: complete_ack_keeps split: option.splits prod.splits)

lemma receive_text_keeps: "P w \<Longrightarrow> P (receive_text env p k plain msg w)"
  by (simp add: receive_text_def Let_def case_prod_unfold store_message_keeps touch_keeps)

lemma handle_text_keeps: "P w \<Longrightarrow> P (snd (handle_text env p w))"
  by (auto simp: handle_text_def receive_text_keeps split: option.splits)

lemma handle_group_text_keeps: "P w \<Longrightarrow> P (handle_group_text env p w)"
proof -
  have "P w \<Longrightarrow> P (try_channels env p e chs w)" for e chs
    by (induction chs) (auto split: option.splits intro: store_message_keeps)
  then show "P w \<Longrightarrow> P (handle_group_text env p w)"
    by (auto simp: handle_group_text_def split: option.splits)
qed

lemma on_packet_keeps: "P w \<Longrightarrow> P (on_packet env p w)"
  by (simp add: on_packet_def case_prod_unfold handle_advert_keeps handle_text_keeps handle_ack_keeps
      handle_path_keeps handle_group_text_keeps split: PayloadType.split)

lemma radio_rx_keeps: "P w \<Longrightarrow> P (node_radio_rx env r w)"
  by (auto simp: node_radio_rx_def on_radio_rx_def Let_def case_prod_unfold split: option.splits bool.splits
      intro!: on_packet_keeps)

lemma save_keeps:
  assumes "P w"
  shows "P (snd (save_contacts w))" "P (snd (save_channels w))" "P (snd (save_inbox w))"
proof -
  have io: "P (w\<lparr>w_io := io, w_fs := fs1, w_contacts := cs\<rparr>) = P (w\<lparr>w_fs := fs1, w_contacts := cs\<rparr>)"
    "P (w\<lparr>w_io := io, w_fs := fs1, w_channels := chs\<rparr>) = P (w\<lparr>w_fs := fs1, w_channels := chs\<rparr>)"
    "P (w\<lparr>w_io := io, w_fs := fs1, w_inbox := ib\<rparr>) = P (w\<lparr>w_fs := fs1, w_inbox := ib\<rparr>)" for io fs1 cs chs ib
    by (rule same, simp add: stores_def)+
  show "P (snd (save_contacts w))" "P (snd (save_channels w))" "P (snd (save_inbox w))"
    using assms by (auto simp: save_contacts_def save_channels_def save_inbox_def next_io_def io
        intro: contacts_saved channels_saved inbox_saved split: prod.split)
qed

lemma flush_keeps: "P w \<Longrightarrow> P (snd (flush w))"
  by (simp add: flush_def Let_def case_prod_unfold save_keeps)

lemma timer_keeps: "P w \<Longrightarrow> P (node_timer env cb w)"
  by (cases cb) (simp_all add: node_timer_def flush_keeps on_save_request_def)

end

section \<open>What the app's commands do to them\<close>

lemma stores_companion [simp]:
  "stores (w\<lparr>w_server := sv\<rparr>) = stores w" "stores (w\<lparr>w_sent := b\<rparr>) = stores w" "stores (w\<lparr>w_writes := os\<rparr>) = stores w"
  "stores (upd_server f w) = stores w" "stores (drop_client w) = stores w" "stores (watch_client e w) = stores w"
  by (simp_all add: stores_def upd_server_def drop_client_def watch_client_def split: option.split)

lemma stores_flush_writes [simp]: "stores (flush_writes os w) = stores w"
  by (induction os w rule: flush_writes.induct; subst flush_writes.simps;
      auto simp: Let_def split: list.splits write_outcome.splits option.splits)

lemma stores_send [simp]: "stores (server_flush w) = stores w" "stores (server_send pl w) = stores w"
  by (simp_all add: server_flush_def server_send_def Let_def)

lemma stores_sends [simp]: "stores (fold server_send pls w) = stores w"
  by (induction pls arbitrary: w) simp_all

lemma stores_session [simp]:
  "stores (w\<lparr>w_app_started := a\<rparr>) = stores w" "stores (w\<lparr>w_last_send_ms := t\<rparr>) = stores w"
  "stores (snd (cmd_app_start se args w)) = stores w" "stores (push pl w) = stores w" "stores (session_notify n w) = stores w"
  "stores (session_listen_ready fd nb ev w) = stores w"
proof -
  show p: "stores (push pl w) = stores w" for pl by (simp add: push_def)
  show "stores (session_notify n w) = stores w" by (cases n) (simp_all add: notify_defs p)
qed (simp_all add: stores_def cmd_app_start_def session_listen_ready_def on_listen_ready_def accept_client_def on_connect_def
    drop_client_def upd_server_def Let_def split: option.split prod.split)

locale session_stores = store_predicate "session_node_env se" P
  for se :: "('r, 'm) session_env" and P :: "('r, 'm) aworld_scheme \<Rightarrow> bool"
begin

lemma contact_cmds_keep:
  assumes "P w"
  shows "P (snd (cmd_add_update_contact args w))" "P (snd (cmd_remove_contact args w))" "P (snd (cmd_reset_path args w))"
proof -
  have "P (w\<lparr>w_contacts := cs\<rparr>)" if "contact_upsert key (w_contacts w) = (None, cs)" for key cs
    using that assms by (auto simp: contact_upsert_def split: option.splits if_splits)
  moreover have "P (w\<lparr>w_contacts := store_contact ty fl pl pf r k cs\<rparr>)"
    if "contact_upsert key (w_contacts w) = (Some k, cs)" for key k cs ty fl pl pf r
    using that assms
    by (intro contacts_change) (auto simp: contact_upsert_def same_store_def store_contact_def contact_tail_def
        contact_set_path_def contact_clear_path_def upd_contact_def case_prod_unfold Let_def split: option.splits if_splits)
  ultimately show "P (snd (cmd_add_update_contact args w))"
    using assms by (auto simp: cmd_add_update_contact_def saved_reply_world split: prod.split option.split)
  have "P (w\<lparr>w_contacts := cs\<rparr>)" if "contact_remove key (w_contacts w) = (ok, cs)" for key ok cs
    using that assms contacts_change [OF assms, of cs] by (auto simp: contact_remove_def same_store_def split: option.splits)
  then show "P (snd (cmd_remove_contact args w))"
    using assms by (auto simp: cmd_remove_contact_def saved_reply_world split: prod.split bool.split)
  show "P (snd (cmd_reset_path args w))"
    using assms by (auto simp: cmd_reset_path_def saved_reply_world touch_keeps split: prod.split option.split)
qed

lemma other_cmds_keep:
  assumes "P w"
  shows "P (snd (cmd_set_channel args w))" "P (snd (cmd_sync_next_message w))" "P (snd (cmd_set_device_time args w))"
    "P (snd (cmd_send_txt_msg se args w))" "P (snd (cmd_send_channel_txt_msg se args w))"
proof -
  have "P (w\<lparr>w_channels := channel_set i ch (w_channels w)\<rparr>)" for i ch
    using assms channels_change [OF assms, of "channel_set i ch (w_channels w)"] by (auto simp: channel_set_def)
  then show "P (snd (cmd_set_channel args w))"
    using assms by (auto simp: cmd_set_channel_def saved_reply_world Let_def split: prod.split)
  have "P (snd (pop_message w))"
    using assms inbox_change [OF assms, of "snd (inbox_pop (w_inbox w))"]
    by (cases "ib_messages (w_inbox w)") (simp_all add: pop_message_def inbox_pop_def)
  then show "P (snd (cmd_sync_next_message w))"
    by (cases "pop_message w") (auto simp: cmd_sync_next_message_def split: option.split)
  have "stores (snd (cmd_set_device_time args w)) = stores w"
    "stores (snd (cmd_send_txt_msg se args w)) = stores w" "stores (snd (cmd_send_channel_txt_msg se args w)) = stores w"
    by (simp_all add: cmd_set_device_time_def cmd_send_txt_msg_def cmd_send_channel_txt_msg_def case_prod_unfold Let_def
        split: option.split sum.split bool.split)
  then show "P (snd (cmd_set_device_time args w))" "P (snd (cmd_send_txt_msg se args w))"
    "P (snd (cmd_send_channel_txt_msg se args w))"
    using same assms by blast+
qed

end

section \<open>Marked or on disk\<close>

definition fresh_contacts :: "Config \<Rightarrow> ContactStore" where
  "fresh_contacts c = new_contacts (contacts_path c) kMaxContacts"

definition fresh_channels :: "Config \<Rightarrow> ChannelStore" where
  "fresh_channels c = new_channels (channels_path c)"

definition fresh_inbox :: "Config \<Rightarrow> MessageInbox" where
  "fresh_inbox c = new_inbox kDefaultLimit (messages_path c)"

definition contacts_tracked :: "Config \<Rightarrow> fs \<Rightarrow> ContactStore \<Rightarrow> bool" where
  "contacts_tracked c fs0 s \<longleftrightarrow> cs_path s = contacts_path c \<and> cs_max s = kMaxContacts \<and>
     marked_or_on_disk contacts_load contacts_view contacts_storable cs_dirty (fresh_contacts c) fs0 s"

definition channels_tracked :: "Config \<Rightarrow> fs \<Rightarrow> ChannelStore \<Rightarrow> bool" where
  "channels_tracked c fs0 s \<longleftrightarrow> chs_path s = channels_path c \<and>
     marked_or_on_disk channels_load channels_view channels_inv chs_dirty (fresh_channels c) fs0 s"

definition inbox_tracked :: "Config \<Rightarrow> fs \<Rightarrow> MessageInbox \<Rightarrow> bool" where
  "inbox_tracked c fs0 s \<longleftrightarrow> ib_path s = messages_path c \<and> ib_limit s = kDefaultLimit \<and>
     marked_or_on_disk inbox_load ib_messages inbox_inv ib_dirty (fresh_inbox c) fs0 s"

text \<open>\<open>key\<close> is the key file, which nothing here may touch.\<close>

definition tracked :: "Config \<Rightarrow> sysfile option \<Rightarrow> ('r, 'm) nworld_scheme \<Rightarrow> bool" where
  "tracked c key w \<longleftrightarrow> contacts_tracked c (w_fs w) (w_contacts w) \<and> channels_tracked c (w_fs w) (w_channels w) \<and>
     inbox_tracked c (w_fs w) (w_inbox w) \<and> w_fs w (identity_path c) = key"

lemma fresh_paths [simp]:
  "cs_path (fresh_contacts c) = contacts_path c" "cs_max (fresh_contacts c) = kMaxContacts"
  "chs_path (fresh_channels c) = channels_path c" "ib_path (fresh_inbox c) = messages_path c"
  "ib_limit (fresh_inbox c) = kDefaultLimit"
  by (simp_all add: fresh_contacts_def new_contacts_def fresh_channels_def new_channels_def fresh_inbox_def new_inbox_def)

lemmas state_file_paths = identity_path_def contacts_path_def channels_path_def messages_path_def settings_path_def

lemma paths_apart:
  "channels_path c \<noteq> contacts_path c @ x" "messages_path c \<noteq> contacts_path c @ x" "identity_path c \<noteq> contacts_path c @ x"
  "contacts_path c \<noteq> channels_path c @ x" "messages_path c \<noteq> channels_path c @ x" "identity_path c \<noteq> channels_path c @ x"
  "contacts_path c \<noteq> messages_path c @ x" "channels_path c \<noteq> messages_path c @ x" "identity_path c \<noteq> messages_path c @ x"
  "contacts_path c \<noteq> settings_path c @ x" "channels_path c \<noteq> settings_path c @ x" "messages_path c \<noteq> settings_path c @ x"
  "identity_path c \<noteq> settings_path c @ x"
  by (simp_all add: state_file_paths str_def)

lemmas paths_differ = paths_apart [where x = "[]", simplified] paths_apart

text \<open>A store's file is the only one it looks at.\<close>

lemma tracked_frame:
  "fs1 (contacts_path c) = fs0 (contacts_path c) \<Longrightarrow> contacts_tracked c fs1 cs = contacts_tracked c fs0 cs"
  "fs1 (channels_path c) = fs0 (channels_path c) \<Longrightarrow> channels_tracked c fs1 chs = channels_tracked c fs0 chs"
  "fs1 (messages_path c) = fs0 (messages_path c) \<Longrightarrow> inbox_tracked c fs1 ib = inbox_tracked c fs0 ib"
  using contacts_kept.on_disk_frame [of fs1 "fresh_contacts c" fs0 cs]
    channels_kept.on_disk_frame [of fs1 "fresh_channels c" fs0 chs] inbox_kept.on_disk_frame [of fs1 "fresh_inbox c" fs0 ib]
  by (simp_all add: contacts_tracked_def channels_tracked_def inbox_tracked_def marked_or_on_disk_def read_file_def)

lemma tracked_saved:
  "contacts_tracked c fs0 cs \<Longrightarrow> contacts_save io fs0 cs = (ok, fs1, cs') \<Longrightarrow> contacts_tracked c fs1 cs'"
  "channels_tracked c fs0 chs \<Longrightarrow> channels_save io fs0 chs = (ok, fs1, chs') \<Longrightarrow> channels_tracked c fs1 chs'"
  "inbox_tracked c fs0 ib \<Longrightarrow> inbox_save io fs0 ib = (ok, fs1, ib') \<Longrightarrow> inbox_tracked c fs1 ib'"
  using contacts_kept.saved_or_marked [of "fresh_contacts c" fs0 cs io ok fs1 cs']
    channels_kept.saved_or_marked [of "fresh_channels c" fs0 chs io ok fs1 chs']
    inbox_kept.saved_or_marked [of "fresh_inbox c" fs0 ib io ok fs1 ib']
  by (auto simp: contacts_tracked_def channels_tracked_def inbox_tracked_def contacts_same_config_def channels_same_config_def
      inbox_same_config_def contacts_save_def channels_save_def inbox_save_def split: prod.splits if_splits)

lemma tracked_same: "stores w' = stores w \<Longrightarrow> tracked c key w' = tracked c key w"
  by (simp add: stores_def tracked_def)

lemma tracked_files:
  assumes "\<And>q. q \<in> {contacts_path c, channels_path c, messages_path c, identity_path c} \<Longrightarrow> fs1 q = w_fs w q"
  shows "tracked c key (w\<lparr>w_fs := fs1\<rparr>) = tracked c key w"
  using assms tracked_frame [of fs1 c "w_fs w"] by (simp add: tracked_def)

interpretation disk: session_stores se "tracked c key" for se :: "('r, 'm) session_env" and c key
proof
  fix w w' :: "('r, 'm) aworld_scheme" and n
  show "stores w' = stores w \<Longrightarrow> tracked c key w' = tracked c key w" by (rule tracked_same)
  show "stores (ne_delegate (session_node_env se) n w) = stores w" by (simp add: session_node_env_def)
next
  fix w :: "('r, 'm) aworld_scheme" and cs :: ContactStore
  assume "tracked c key w" "cs_dirty cs" "same_store (w_contacts w) cs"
  then show "tracked c key (w\<lparr>w_contacts := cs\<rparr>)"
    by (simp add: tracked_def contacts_tracked_def same_store_def marked_or_on_disk_def)
next
  fix w :: "('r, 'm) aworld_scheme" and chs :: ChannelStore
  assume "tracked c key w" "chs_dirty chs" "chs_path chs = chs_path (w_channels w)"
  then show "tracked c key (w\<lparr>w_channels := chs\<rparr>)"
    by (simp add: tracked_def channels_tracked_def marked_or_on_disk_def)
next
  fix w :: "('r, 'm) aworld_scheme" and ib :: MessageInbox
  assume "tracked c key w" "ib_dirty ib" "ib_path ib = ib_path (w_inbox w)" "ib_limit ib = ib_limit (w_inbox w)"
  then show "tracked c key (w\<lparr>w_inbox := ib\<rparr>)"
    by (simp add: tracked_def inbox_tracked_def marked_or_on_disk_def)
next
  fix w :: "('r, 'm) aworld_scheme" and io ok fs1 cs
  assume w: "tracked c key w" and s: "contacts_save io (w_fs w) (w_contacts w) = (ok, fs1, cs)"
  have "cs_path (w_contacts w) = contacts_path c" using w by (simp add: tracked_def contacts_tracked_def)
  then have "fs1 q = w_fs w q" if "q \<in> {channels_path c, messages_path c, identity_path c}" for q
    using that contact_file.save_touches_only [OF s, of q] paths_differ [of c] by auto
  then show "tracked c key (w\<lparr>w_fs := fs1, w_contacts := cs\<rparr>)"
    using w tracked_saved(1) [OF _ s] tracked_frame(2,3) [of fs1 c "w_fs w"] by (simp add: tracked_def)
next
  fix w :: "('r, 'm) aworld_scheme" and io ok fs1 chs
  assume w: "tracked c key w" and s: "channels_save io (w_fs w) (w_channels w) = (ok, fs1, chs)"
  have "chs_path (w_channels w) = channels_path c" using w by (simp add: tracked_def channels_tracked_def)
  then have "fs1 q = w_fs w q" if "q \<in> {contacts_path c, messages_path c, identity_path c}" for q
    using that channel_file.save_touches_only [OF s, of q] paths_differ [of c] by auto
  then show "tracked c key (w\<lparr>w_fs := fs1, w_channels := chs\<rparr>)"
    using w tracked_saved(2) [OF _ s] tracked_frame(1,3) [of fs1 c "w_fs w"] by (simp add: tracked_def)
next
  fix w :: "('r, 'm) aworld_scheme" and io ok fs1 ib
  assume w: "tracked c key w" and s: "inbox_save io (w_fs w) (w_inbox w) = (ok, fs1, ib)"
  have "ib_path (w_inbox w) = messages_path c" using w by (simp add: tracked_def inbox_tracked_def)
  then have "fs1 q = w_fs w q" if "q \<in> {contacts_path c, channels_path c, identity_path c}" for q
    using that inbox_file.save_touches_only [OF s, of q] paths_differ [of c] by auto
  then show "tracked c key (w\<lparr>w_fs := fs1, w_inbox := ib\<rparr>)"
    using w tracked_saved(3) [OF _ s] tracked_frame(1,2) [of fs1 c "w_fs w"] by (simp add: tracked_def)
qed

section \<open>Through every event\<close>

text \<open>The settings are saved to a file of their own.\<close>

lemma settings_save_files:
  assumes "settings_save stored w = (ok, w1)" "q \<noteq> w_settings_path w" "q \<noteq> w_settings_path w @ dot_tmp"
    "q \<noteq> w_settings_path w @ dot_bak"
  shows "w_fs w1 q = w_fs w q"
  using assms save_file_frame [OF _ assms(2-4)] by (auto simp: settings_save_def next_io_def split: prod.splits)

lemma stores_reconfigure [simp]: "stores (disp_reconfigure ro on_tx_result p w) = stores w"
proof -
  have "sender_view (disp_reconfigure ro on_tx_result p w) =
      sender_view (upd_disp (\<lambda>d. d\<lparr>dp_duty := duty_set_percent (rp_duty_cycle_pct p) (dp_duty d)\<rparr>) w)"
    unfolding disp_reconfigure_def Let_def by (rule sender.obs_pump [THEN trans]) (simp add: sender_view_def)
  from stores_view [OF this] show ?thesis by simp
qed

lemma stores_apply [simp]: "stores (settings_apply ro w) = stores w"
  by (simp add: settings_apply_def Let_def)

definition disk_inv :: "Config \<Rightarrow> sysfile option \<Rightarrow> ('r, 'm) dworld_full_scheme \<Rightarrow> bool" where
  "disk_inv c key w \<longleftrightarrow> tracked c key w \<and> w_settings_path w = settings_path c"

lemma disk_inv_same:
  "stores w' = stores w \<Longrightarrow> w_settings_path w' = w_settings_path w \<Longrightarrow> disk_inv c key w' = disk_inv c key w"
  using tracked_same [of w' w] by (simp add: disk_inv_def)

lemma settings_set_disk:
  fixes w :: "('r, 'm) dworld_full_scheme"
  assumes "disk_inv c key w" shows "disk_inv c key (snd (settings_set ro ch w))"
proof -
  have files: "tracked c key w1" if "settings_save stored w = (ok, w1)" for stored ok w1
  proof -
    have "w_fs w1 q = w_fs w q" if "q \<in> {contacts_path c, channels_path c, messages_path c, identity_path c}" for q
      using that settings_save_files [OF \<open>settings_save stored w = (ok, w1)\<close>, of q] paths_differ [of c] assms
      by (auto simp: disk_inv_def)
    from tracked_files [of c "w_fs w1" w key, OF this] have "tracked c key (w\<lparr>w_fs := w_fs w1\<rparr>)"
      using assms by (simp add: disk_inv_def)
    moreover have "stores w1 = stores (w\<lparr>w_fs := w_fs w1\<rparr>)"
      using settings_save_world [OF that] by (auto simp: stores_def)
    ultimately show ?thesis using tracked_same by metis
  qed
  have "w_settings_path (settings_apply ro v) = w_settings_path v" for v :: "('r, 'm) dworld_full_scheme"
    by (rule settings_fields(2)) simp
  then have path: "w_settings_path (snd (settings_set ro ch w)) = w_settings_path w"
    by (cases rule: settings_set_cases [of ro ch w]) simp_all
  have "tracked c key (snd (settings_set ro ch w))"
  proof (cases "set_changes ch (w_config w)")
    case (Inr c1)
    obtain ok w1 where s: "settings_save (stored_changes ch c1 (w_stored w)) w = (ok, w1)" by fastforce
    have "stores (settings_apply ro (w1\<lparr>w_stored := st, w_config := c2\<rparr>)) = stores w1" for st c2
      by (simp add: stores_def [of "w1\<lparr>w_stored := st, w_config := c2\<rparr>"]) (simp add: stores_def)
    from tracked_same [OF this] show ?thesis
      using Inr s files [OF s] assms by (cases ok) (auto simp: settings_set_def disk_inv_def Let_def)
  qed (use assms in \<open>simp add: settings_set_def disk_inv_def\<close>)
  with path assms show ?thesis by (simp add: disk_inv_def)
qed

lemma settings_path_more:
  fixes w w' :: "('r, 'm) dworld_full_scheme"
  shows "aworld.more w = aworld.more w' \<Longrightarrow> w_settings_path w = w_settings_path w'"
  by (cases w; cases w') simp

interpretation settings_file: companion_predicate "session_node_env se" "\<lambda>w. w_settings_path w = p"
  for se :: "('r, 'm dworld_full_ext) session_env" and p
  by unfold_locales (auto dest: settings_fields(2) simp: session_node_env_def settings_path_more [OF notify_rest])

lemma settings_path_server [simp]:
  "w_settings_path (drop_client w) = w_settings_path w" "w_settings_path (upd_server f w) = w_settings_path w"
  "w_settings_path (server_flush w) = w_settings_path w" "w_settings_path (server_send pl w) = w_settings_path w"
  by (rule settings_path_more; simp add: drop_client_def upd_server_def server_flush_def server_send_def Let_def)+

lemma settings_cmds_stores:
  "snd (cmd_set_advert_name se args w) = w \<or> (\<exists>ch. snd (cmd_set_advert_name se args w) = snd (se_settings se ch w))"
  "snd (cmd_set_advert_latlon se args w) = w \<or> (\<exists>ch. snd (cmd_set_advert_latlon se args w) = snd (se_settings se ch w))"
  "snd (cmd_set_radio_params se args w) = w \<or> (\<exists>ch. snd (cmd_set_radio_params se args w) = snd (se_settings se ch w))"
  "snd (cmd_set_tx_power se args w) = w \<or> (\<exists>ch. snd (cmd_set_tx_power se args w) = snd (se_settings se ch w))"
  "snd (cmd_set_tuning_params se args w) = w \<or> (\<exists>ch. snd (cmd_set_tuning_params se args w) = snd (se_settings se ch w))"
  unfolding cmd_set_advert_name_def cmd_set_advert_latlon_def cmd_set_radio_params_def cmd_set_tx_power_def
    cmd_set_tuning_params_def case_prod_unfold Let_def
  by (auto simp: settings_reply_world split: option.split)

lemma command_disk:
  fixes w :: "('r, 'm) dworld_full_scheme"
  assumes "disk_inv c key w"
  shows "disk_inv c key (snd (command_reply (daemon_env se) co args w))"
proof -
  let ?r = "command_reply (daemon_env se) co args w"
  have t: "tracked c key w" using assms by (simp add: disk_inv_def)
  have s: "tracked c key (snd r) \<or> (\<exists>ch. snd r = snd (settings_set (se_radio se) ch w))"
    if "snd r = w \<or> (\<exists>ch. snd r = snd (se_settings (daemon_env se) ch w))" for r :: "bytes \<times> ('r, 'm) dworld_full_scheme"
    using that t by (auto simp: daemon_env_def)
  have "tracked c key (snd ?r) \<or> (\<exists>ch. snd ?r = snd (settings_set (se_radio se) ch w))"
    unfolding command_reply_def
    using settings_cmds_stores [where se = "daemon_env se" and args = args and w = w, THEN s] t
    by (simp add: disk.contact_cmds_keep disk.other_cmds_keep split: option.split Cmd.split)
  moreover have "aworld.more (snd ?r) = aworld.more w \<or> (\<exists>ch. snd ?r = snd (settings_set (se_radio se) ch w))"
    using command_asks [of "daemon_env se" w co args] by (auto simp: asks_def daemon_env_def)
  ultimately show ?thesis
    using settings_set_disk [OF assms] settings_path_more [of "snd ?r" w] assms by (auto simp: disk_inv_def)
qed

lemma handle_frame_disk:
  assumes "disk_inv c key w"
  shows "disk_inv c key (handle_frame (daemon_env se) f w)"
proof -
  have sends: "disk_inv c key (fold server_send pls v) = disk_inv c key v" for pls v
    by (rule disk_inv_same) (simp, induction pls arbitrary: v, simp_all)
  have "disk_inv c key (snd (cmd_app_start se' as w))" for se' as
    using assms by (subst disk_inv_same [of _ w]) (simp_all only: stores_session, simp_all add: cmd_app_start_def Let_def)
  then have "disk_inv c key (snd (frame_replies (daemon_env se) f w))"
    using assms by (simp add: frame_replies_def Let_def case_prod_unfold command_disk)
  then show ?thesis
    using assms by (cases "f = []") (simp_all add: daemon.handle_frame_eq sends, simp add: handle_frame_def)
qed

lemma daemon_step_disk:
  fixes w :: "('r, 'm) dworld_full_scheme"
  assumes "disk_inv c key w" shows "disk_inv c key (daemon_step se e w)"
proof (cases e)
  case (ClientReady reads ev)
  have "disk_inv c key (upd_server g v) = disk_inv c key v" "disk_inv c key (drop_client v) = disk_inv c key v"
    "disk_inv c key (server_flush v) = disk_inv c key v" for g and v :: "('r, 'm) dworld_full_scheme"
    by (rule disk_inv_same; simp)+
  then show ?thesis
    unfolding ClientReady daemon_step.simps session_client_ready_def
    by (intro on_client_ready_keeps [of "disk_inv c key"] handle_frame_disk assms) simp_all
next
  case (ListenReady fd nb ev)
  have "w_settings_path (session_listen_ready fd nb ev w) = w_settings_path w"
    by (rule settings_path_more) (simp add: session_listen_ready_def on_listen_ready_def accept_client_def on_connect_def
        drop_client_def upd_server_def Let_def case_prod_unfold split: option.split)
  then show ?thesis using assms disk_inv_same [of "session_listen_ready fd nb ev w" w] by (simp add: ListenReady)
next
  case (Outside lp t os ios)
  then show ?thesis using assms disk_inv_same [of "daemon_step se e w" w] by simp
next
  case (RadioFailed f)
  then show ?thesis using assms disk_inv_same [of "daemon_step se e w" w] settings_fields(2) [OF rx_error_more, of f w] by simp
next
  case (RadioSent a)
  then show ?thesis using assms disk_inv_same [of "daemon_step se e w" w] settings_fields(2) [OF tx_done_more, of a w] by simp
qed (use assms in \<open>simp_all add: disk_inv_def session_radio_rx_def session_timer_def disk.radio_rx_keeps disk.timer_keeps
    settings_file.radio_rx_keeps settings_file.timer_keeps\<close>)

lemma drive_disk:
  assumes "disk_inv c key w" shows "disk_inv c key (drive se f w)"
proof (cases "f (w_radio w)")
  case (Pair evs r)
  have "disk_inv c key (w\<lparr>w_radio := r\<rparr>)" using assms disk_inv_same [of "w\<lparr>w_radio := r\<rparr>" w] by simp
  moreover have "disk_inv c key (hand_over se ev v)" if "disk_inv c key v" for ev v
    using daemon_step_disk [OF that] by (cases ev) (simp_all del: daemon_step.simps)
  then have "disk_inv c key (fold (hand_over se) evs v)" if "disk_inv c key v" for v
    using that by (induction evs arbitrary: v) simp_all
  ultimately show ?thesis by (simp add: drive_def Pair)
qed

lemma system_step_disk: "disk_inv c key w \<Longrightarrow> disk_inv c key (system_step ho se e w)"
  using disk_inv_same [of "w\<lparr>w_radio := r\<rparr>" w for r]
  by (cases e) (simp_all add: daemon_step_disk drive_disk del: daemon_step.simps)

interpretation disk_run: event_system "system_step ho se" "disk_inv c key"
  by unfold_locales (rule system_step_disk)

end
