(* ===== verification/Restart.thy ===== *)
theory Restart
  imports Run OnDisk
begin

text \<open>
  From one run of the daemon to the next: the start establishes what \<open>OnDisk\<close> keeps, an orderly stop saves
  what is left, and the next start on the same state directory finds it. This spans \<^verbatim>\<open>App::start\<close>,
  \<^verbatim>\<open>App::run\<close> and \<^verbatim>\<open>App::request_stop\<close> of \<^verbatim>\<open>src/src/daemon/app.cpp\<close>.
\<close>

section \<open>A start leaves its stores on disk\<close>

lemma state_dir_paths:
  assumes "cf_state_dir c1 = cf_state_dir c"
  shows "contacts_path c1 = contacts_path c" "channels_path c1 = channels_path c" "messages_path c1 = messages_path c"
    "settings_path c1 = settings_path c" "identity_path c1 = identity_path c"
  using assms by (simp_all add: state_paths)

lemma loads_keep_config:
  "cs_path (snd (snd (load_state contacts_load io p fs0 cs))) = cs_path cs"
  "cs_max (snd (snd (load_state contacts_load io p fs0 cs))) = cs_max cs"
  "chs_path (snd (snd (load_state channels_load io p fs0 chs))) = chs_path chs"
  "ib_path (snd (snd (load_state inbox_load io p fs0 ib))) = ib_path ib"
  "ib_limit (snd (snd (load_state inbox_load io p fs0 ib))) = ib_limit ib"
proof -
  have c: "cs_path (snd (contacts_load f fs1 s)) = cs_path s \<and> cs_max (snd (contacts_load f fs1 s)) = cs_max s" for f fs1 s
    by (auto simp: contacts_load_def contacts_parse_def split: option.split prod.split)
  show "cs_path (snd (snd (load_state contacts_load io p fs0 cs))) = cs_path cs"
    "cs_max (snd (snd (load_state contacts_load io p fs0 cs))) = cs_max cs"
    by (rule load_state_keeps [where P = "\<lambda>s. cs_path s = cs_path cs"], use c in simp, simp,
        rule load_state_keeps [where P = "\<lambda>s. cs_max s = cs_max cs"], use c in simp, simp)
  show "chs_path (snd (snd (load_state channels_load io p fs0 chs))) = chs_path chs"
    by (rule load_state_keeps [where P = "\<lambda>s. chs_path s = chs_path chs"])
      (auto simp: channels_load_def channels_parse_def split: option.split prod.split)
  show "ib_path (snd (snd (load_state inbox_load io p fs0 ib))) = ib_path ib"
    by (rule load_state_keeps [where P = "\<lambda>s. ib_path s = ib_path ib"])
      (auto simp: inbox_load_def inbox_parse_def split: option.split prod.split)
  show "ib_limit (snd (snd (load_state inbox_load io p fs0 ib))) = ib_limit ib"
    by (rule load_state_keeps [where P = "\<lambda>s. ib_limit s = ib_limit ib"])
      (auto simp: inbox_load_def inbox_parse_def split: option.split prod.split)
qed

text \<open>The settings file cannot move the message file either.\<close>

lemma config_set_messages: "config_set key v c = Inr c1 \<Longrightarrow> cf_messages_path c1 = cf_messages_path c"
proof -
  have "cf_messages_path c1 = cf_messages_path c" if "config_set (field_key k) v c = Inr c1" for k
    using that by (cases k) (auto simp del: field_key.simps simp: config_set_def on_radio_def on_node_def app_key_iff
        split: option.splits if_splits)
  moreover assume c1: "config_set key v c = Inr c1"
  moreover have "app_key key" using c1 by (auto simp: config_set_def split: if_splits)
  ultimately show ?thesis using app_key_iff by metis
qed

lemma settings_load_messages:
  "settings_load fault fs0 p c = Inr (c1, stored) \<Longrightarrow> cf_messages_path c1 = cf_messages_path c"
proof -
  have "cf_messages_path c1 = cf_messages_path c" if "load_entries m c acc = Inr (c1, st)" for m acc st
    using that by (induction m c acc rule: load_entries.induct) (auto split: if_splits sum.splits dest: config_set_messages)
  then show "settings_load fault fs0 p c = Inr (c1, stored) \<Longrightarrow> cf_messages_path c1 = cf_messages_path c"
    by (auto simp: settings_load_def split: if_splits sum.splits option.splits)
qed

interpretation listen_stores: listen_predicate "\<lambda>w. stores w = v"
  by unfold_locales (simp_all add: stores_def upd_server_def)

lemma stores_start [simp]:
  "stores (snd (disp_start rb w)) = stores w" "stores (node_start w) = stores w" "stores (writer_start w) = stores w"
  "stores (settings_attach w) = stores w"
  by (simp_all add: stores_def disp_start_def node_start_def writer_start_def settings_attach_def Let_def
      split: prod.split bool.split)

text \<open>The stores and files a start ends with, as the three loads left them.\<close>

lemma start_stores:
  assumes "start_stack ho b w = Inr w'"
  obtains r fs1 ib where
    "load_state inbox_load (bt_messages b) (messages_path (w_config w)) (w_fs w) (w_inbox w) = (r, fs1, ib)"
    "stores w' = (w_contacts w, w_channels w, ib, fs1)"
proof -
  obtain w2 r fs1 ib where w2: "w2 = settings_attach (node_start (snd (disp_start (sx_begin ho) w)))"
    and l: "load_state inbox_load (bt_messages b) (messages_path (w_config w2)) (w_fs w2) (w_inbox w2) = (r, fs1, ib)"
    and w': "w' = snd (server_start (bt_unix b) (bt_tcp b) (writer_start (w2\<lparr>w_fs := fs1, w_inbox := ib\<rparr>)))"
    using assms by (rule start_stackE)
  have st: "stores w2 = stores w" by (simp add: w2)
  then have same: "w_contacts w2 = w_contacts w" "w_channels w2 = w_channels w" "w_inbox w2 = w_inbox w" "w_fs w2 = w_fs w"
    by (simp_all add: stores_def)
  have "stores w' = stores (writer_start (w2\<lparr>w_fs := fs1, w_inbox := ib\<rparr>))" by (simp add: w' listen_stores.started)
  also have "\<dots> = (w_contacts w, w_channels w, ib, fs1)" using same by (simp only: stores_start) (simp add: stores_def)
  finally have "stores w' = (w_contacts w, w_channels w, ib, fs1)" .
  moreover have "w_config w2 = w_config w" by (simp add: w2 settings_attach_def disp_start_fields)
  ultimately show thesis using l same by (intro that) simp_all
qed

definition plain_boot :: "'c boot \<Rightarrow> bool" where
  "plain_boot b \<longleftrightarrow> plain_load (bt_contacts b) \<and> plain_load (bt_channels b) \<and> plain_load (bt_messages b)"

lemma path_nonempty [simp]:
  "contacts_path c \<noteq> []" "channels_path c \<noteq> []" "messages_path c \<noteq> []" "identity_path c \<noteq> []"
  by (simp_all add: state_paths str_def)

lemma start_stack_path:
  assumes "start_stack ho b w = Inr w'" shows "w_settings_path w' = w_settings_path w"
proof -
  obtain w2 r fs1 ib where w2: "w2 = settings_attach (node_start (snd (disp_start (sx_begin ho) w)))"
    and w': "w' = snd (server_start (bt_unix b) (bt_tcp b) (writer_start (w2\<lparr>w_fs := fs1, w_inbox := ib\<rparr>)))"
    using assms by (rule start_stackE)
  have "w_settings_path w' = w_settings_path (writer_start (w2\<lparr>w_fs := fs1, w_inbox := ib\<rparr>))"
    unfolding w' by (rule settings_path_more) (rule server_start_more)
  then show ?thesis
    by (simp add: w2 settings_attach_def node_start_def writer_start_def disp_start_def Let_def split: prod.split bool.split)
qed

lemma started_on_disk:
  assumes "app_start ho cr b c fs0 = Inr (self, w)" "plain_boot b" "cf_messages_path c = messages_path c"
  shows "disk_inv c (w_fs w (identity_path c)) w"
proof -
  obtain fs1 c1 stored r2 fs2 ct r3 fs3 ch where
    s: "settings_load (bt_settings_fault b) fs1 (settings_path (named_config self c)) (named_config self c) = Inr (c1, stored)"
    and l2: "load_state contacts_load (bt_contacts b) (contacts_path c1) fs1 (new_contacts (contacts_path c1) kMaxContacts) = (r2, fs2, ct)"
    and l3: "load_state channels_load (bt_channels b) (channels_path c1) fs2 (new_channels (channels_path c1)) = (r3, fs3, ch)"
    and st: "start_stack ho b (app_world b c1 (settings_path (named_config self c)) stored fs3 ct ch) = Inr w"
    using assms(1) by (rule app_startE)
  have dir: "cf_state_dir c1 = cf_state_dir c" using settings_load_dir [OF s] by simp
  note p = state_dir_paths [OF dir]
  have mp: "cf_messages_path c1 = messages_path c"
    using settings_load_messages [OF s] assms(3) by (simp add: named_config_def split: if_splits)
  from st obtain r4 fs4 ib where
    l4: "load_state inbox_load (bt_messages b) (messages_path c) fs3 (fresh_inbox c) = (r4, fs4, ib)"
    and w: "stores w = (ct, ch, ib, fs4)"
    by (rule start_stores) (simp add: app_world_fields p mp fresh_inbox_def)
  note l2 = l2 [unfolded p, folded fresh_contacts_def] and l3 = l3 [unfolded p, folded fresh_channels_def]
  have f2: "fs4 (contacts_path c) = fs2 (contacts_path c)" and f3: "fs4 (channels_path c) = fs3 (channels_path c)"
    using load_state_frame [of "contacts_path c" "channels_path c" channels_load "bt_channels b" fs2 "fresh_channels c"]
      load_state_frame [of "contacts_path c" "messages_path c" inbox_load "bt_messages b" fs3 "fresh_inbox c"]
      load_state_frame [of "channels_path c" "messages_path c" inbox_load "bt_messages b" fs3 "fresh_inbox c"]
    by (simp_all add: l3 l4 paths_apart)
  have "on_disk contacts_load contacts_view (fresh_contacts c) fs4 ct"
    using contacts_kept.on_disk_loaded [of "bt_contacts b" "fresh_contacts c" fs1 r2 fs2 ct] l2 assms(2)
      contacts_kept.on_disk_frame [of fs4 "fresh_contacts c" fs2] f2 by (simp add: plain_boot_def read_file_def)
  moreover have "on_disk channels_load channels_view (fresh_channels c) fs4 ch"
    using channels_kept.on_disk_loaded [of "bt_channels b" "fresh_channels c" fs2 r3 fs3 ch] l3 assms(2)
      channels_kept.on_disk_frame [of fs4 "fresh_channels c" fs3] f3 by (simp add: plain_boot_def read_file_def)
  moreover have "on_disk inbox_load ib_messages (fresh_inbox c) fs4 ib"
    using inbox_kept.on_disk_loaded [of "bt_messages b" "fresh_inbox c" fs3 r4 fs4 ib] l4 assms(2) by (simp add: plain_boot_def)
  moreover have "cs_path ct = contacts_path c" "cs_max ct = kMaxContacts"
    using loads_keep_config(1,2) [of "bt_contacts b" "contacts_path c" fs1 "fresh_contacts c"] by (simp_all add: l2)
  moreover have "chs_path ch = channels_path c"
    using loads_keep_config(3) [of "bt_channels b" "channels_path c" fs2 "fresh_channels c"] by (simp add: l3)
  moreover have "ib_path ib = messages_path c" "ib_limit ib = kDefaultLimit"
    using loads_keep_config(4,5) [of "bt_messages b" "messages_path c" fs3 "fresh_inbox c"] by (simp_all add: l4)
  ultimately have "contacts_tracked c fs4 ct" "channels_tracked c fs4 ch" "inbox_tracked c fs4 ib"
    by (simp_all add: contacts_tracked_def channels_tracked_def inbox_tracked_def marked_or_on_disk_def)
  then have "tracked c (w_fs w (identity_path c)) w" using w by (simp add: tracked_def stores_def)
  moreover have "w_settings_path w = settings_path c"
    using start_stack_path [OF st] by (simp add: app_world_def) (simp add: state_paths named_config_def)
  ultimately show ?thesis by (simp add: disk_inv_def)
qed

section \<open>An orderly stop saves, the next start loads\<close>

lemma app_run_disk: "disk_inv c key w \<Longrightarrow> disk_inv c key (app_run ho cr self version bg es w)"
  by (induction es arbitrary: w) (auto simp: app_run_def system_step_disk)

lemma stores_stop: "stores (request_stop ho uio w) = stores (snd (flush w))"
proof -
  have "stores (server_shutdown uio v) = stores v" for v :: "('r, 'm) cworld_scheme"
    by (simp add: stores_def server_shutdown_stores)
      (simp add: server_shutdown_def Let_def close_lock_def cleanup_unix_path_def drop_client_def upd_server_def)
  then show ?thesis by (simp add: request_stop_def Let_def)
qed

text \<open>What a start loads from files that hold the stores of an earlier run.\<close>

lemma restart_loads:
  assumes "app_start ho cr b c fs0 = Inr (self, w)" "plain_boot b" "cf_messages_path c = messages_path c"
    and "fs0 (identity_path c) \<noteq> None"
    and "on_disk contacts_load contacts_view (fresh_contacts c) fs0 cs"
    and "on_disk channels_load channels_view (fresh_channels c) fs0 chs"
    and "on_disk inbox_load ib_messages (fresh_inbox c) fs0 ib"
  shows "contacts_view (w_contacts w) = contacts_view cs \<and> channels_view (w_channels w) = channels_view chs \<and>
    ib_messages (w_inbox w) = ib_messages ib"
proof -
  obtain fs1 c1 stored r2 fs2 ct r3 fs3 ch where
    i: "load_or_create_identity cr b c (restrict_state_files (bt_chmod b) c fs0) = (Some self, fs1)"
    and s: "settings_load (bt_settings_fault b) fs1 (settings_path (named_config self c)) (named_config self c) = Inr (c1, stored)"
    and l2: "load_state contacts_load (bt_contacts b) (contacts_path c1) fs1 (new_contacts (contacts_path c1) kMaxContacts) = (r2, fs2, ct)"
    and l3: "load_state channels_load (bt_channels b) (channels_path c1) fs2 (new_channels (channels_path c1)) = (r3, fs3, ch)"
    and st: "start_stack ho b (app_world b c1 (settings_path (named_config self c)) stored fs3 ct ch) = Inr w"
    using assms(1) by (rule app_startE)
  note p = state_dir_paths [OF settings_load_dir [OF s, unfolded named_config_dir]]
  have mp: "cf_messages_path c1 = messages_path c"
    using settings_load_messages [OF s] assms(3) by (simp add: named_config_def split: if_splits)
  from st obtain r4 fs4 ib' where
    l4: "load_state inbox_load (bt_messages b) (messages_path c) fs3 (fresh_inbox c) = (r4, fs4, ib')"
    and w: "stores w = (ct, ch, ib', fs4)"
    by (rule start_stores) (simp add: app_world_fields p mp fresh_inbox_def)
  have "fs1 = restrict_state_files (bt_chmod b) c fs0" using identity_kept [OF i] assms(4) by (simp add: restrict_dom)
  then have read: "read_file fs1 q = read_file fs0 q" for q
    using restrict_state_content [of "bt_chmod b" c fs0 q] by (simp add: read_file_def)
  have faults: "ld_fault (bt_contacts b) = None" "ld_fault (bt_channels b) = None" "ld_fault (bt_messages b) = None"
    using assms(2) by (simp_all add: plain_boot_def plain_load_def)
  have "on_disk contacts_load contacts_view (fresh_contacts c) fs1 cs"
    "on_disk channels_load channels_view (fresh_channels c) fs1 chs" "on_disk inbox_load ib_messages (fresh_inbox c) fs1 ib"
    using contacts_kept.on_disk_frame channels_kept.on_disk_frame inbox_kept.on_disk_frame read assms(5-7) by blast+
  moreover from this(1) have "contacts_view ct = contacts_view cs \<and> fs2 = fs1"
    using contacts_kept.load_of_disk [OF _ faults(1) l2 [unfolded p, folded fresh_contacts_def]] by blast
  moreover from this calculation(2) have "channels_view ch = channels_view chs \<and> fs3 = fs2"
    using channels_kept.load_of_disk [OF _ faults(2) l3 [unfolded p, folded fresh_channels_def]] by blast
  ultimately show ?thesis
    using inbox_kept.load_of_disk [OF _ faults(3) l4] w by (auto simp: stores_def)
qed

lemma flush_lists:
  fixes w :: "('r, 'm) nworld_scheme"
  shows "cs_contacts (w_contacts (snd (flush w))) = cs_contacts (w_contacts w)"
  "chs_channels (w_channels (snd (flush w))) = chs_channels (w_channels w)"
  "ib_messages (w_inbox (snd (flush w))) = ib_messages (w_inbox w)"
proof -
  have "cs_contacts (w_contacts (snd (save_contacts v))) = cs_contacts (w_contacts v)"
    "chs_channels (w_channels (snd (save_channels v))) = chs_channels (w_channels v)"
    "ib_messages (w_inbox (snd (save_inbox v))) = ib_messages (w_inbox v)"
    "w_channels (snd (save_contacts v)) = w_channels v" "w_inbox (snd (save_contacts v)) = w_inbox v"
    "w_contacts (snd (save_channels v)) = w_contacts v" "w_inbox (snd (save_channels v)) = w_inbox v"
    "w_contacts (snd (save_inbox v)) = w_contacts v" "w_channels (snd (save_inbox v)) = w_channels v"
    for v :: "('r, 'm) nworld_scheme"
    by (simp_all add: save_contacts_def save_channels_def save_inbox_def next_io_def contacts_save_def channels_save_def
        inbox_save_def split: prod.split)
  then show "cs_contacts (w_contacts (snd (flush w))) = cs_contacts (w_contacts w)"
    "chs_channels (w_channels (snd (flush w))) = chs_channels (w_channels w)"
    "ib_messages (w_inbox (snd (flush w))) = ib_messages (w_inbox w)"
    by (simp_all add: flush_def case_prod_unfold Let_def)
qed

text \<open>The files as an orderly stop leaves them, if its saves succeed.\<close>

lemma stopped_on_disk:
  fixes ho :: "'c hw_ops" and uio :: unix_plan and w :: "'c Sx1262 dworld_full"
  defines "fs1 \<equiv> w_fs (request_stop ho uio w)"
  assumes "disk_inv c key w" "node_inv w" "list_all coords_ok (cs_contacts (w_contacts w))" "fst (flush w)"
  shows "on_disk contacts_load contacts_view (fresh_contacts c) fs1 (w_contacts w)"
    "on_disk channels_load channels_view (fresh_channels c) fs1 (w_channels w)"
    "on_disk inbox_load ib_messages (fresh_inbox c) fs1 (w_inbox w)" "fs1 (identity_path c) = key"
proof -
  let ?v = "snd (flush w)"
  have fs: "fs1 = w_fs ?v" using stores_stop [of ho uio w] by (simp add: fs1_def stores_def)
  have t: "tracked c key ?v" using assms(2) by (simp add: disk_inv_def disk.flush_keeps)
  have "node_inv ?v" using assms(3) by (rule flush_inv)
  then have "contacts_storable (w_contacts ?v)" "channels_inv (w_channels ?v)" "inbox_inv (w_inbox ?v)"
    using assms(4) flush_lists(1) [of w] by (simp_all add: contacts_storable_def node_inv_def)
  then show "on_disk contacts_load contacts_view (fresh_contacts c) fs1 (w_contacts w)"
    "on_disk channels_load channels_view (fresh_channels c) fs1 (w_channels w)"
    "on_disk inbox_load ib_messages (fresh_inbox c) fs1 (w_inbox w)" "fs1 (identity_path c) = key"
    using t flush_clean [OF assms(5)] flush_lists [of w]
    by (simp_all add: fs tracked_def contacts_tracked_def channels_tracked_def inbox_tracked_def marked_or_on_disk_def
        on_disk_def contacts_view_def channels_view_def split: prod.splits)
qed

section \<open>Properties\<close>

text \<open>
  C4. Nothing is lost across an orderly restart. A daemon that started, ran through any sequence of events
  and stopped with its saves successful is followed, on the same state directory and configuration, by a
  daemon with the same key, the same channels, the same messages waiting for the app, and the same contacts
  up to what the contact file does not keep; provided no contact's position is off the globe and no read of
  the three files fails.
\<close>

theorem restart_keeps_state:
  assumes "\<forall>m. length (sha512 cr m) = 64" and "cf_messages_path c = messages_path c"
    and "app_start ho cr b c fs0 = Inr (self, w0)" "plain_boot b"
    and "w = app_run ho cr self version bg es w0"
    and "list_all coords_ok (cs_contacts (w_contacts w))" "fst (flush w)"
    and "app_start ho' cr b' c (w_fs (request_stop ho uio w)) = Inr (self', w')" "plain_boot b'"
  shows "self' = self \<and> contacts_view (w_contacts w') = contacts_view (w_contacts w) \<and>
    channels_view (w_channels w') = channels_view (w_channels w) \<and> ib_messages (w_inbox w') = ib_messages (w_inbox w)"
proof -
  let ?key = "w_fs w0 (identity_path c)" and ?fs = "w_fs (request_stop ho uio w)"
  have sha: "length (sha512 cr m) = 64" for m using assms(1) by simp
  have "disk_inv c ?key w" unfolding assms(5) by (rule app_run_disk [OF started_on_disk [OF assms(3,4,2)]])
  moreover have "node_inv w"
    unfolding assms(5) using app_run_system [OF app_start_system [OF assms(3)]] by (simp add: system_inv_def)
  ultimately have disk: "on_disk contacts_load contacts_view (fresh_contacts c) ?fs (w_contacts w)"
    "on_disk channels_load channels_view (fresh_channels c) ?fs (w_channels w)"
    "on_disk inbox_load ib_messages (fresh_inbox c) ?fs (w_inbox w)" "?fs (identity_path c) = ?key"
    using assms(6,7) by (rule stopped_on_disk)+
  note k0 = started_key(1) [OF sha assms(3)] and k1 = started_key [OF sha assms(8)]
  have some: "?fs (identity_path c) \<noteq> None" using k0 disk(4) by (auto simp: id_load_def split: option.splits)
  have "self' = self"
    using k0 k1(1) k1(2) [OF some] disk(4) by (auto simp: id_load_def split: option.splits)
  then show ?thesis using restart_loads [OF assms(8,9,2) some disk(1-3)] by simp
qed

lemma first_stores:
  assumes "app_start off_hw plain_crypto first_boot first_config first_fs = Inr (sample_key, w)"
  shows "stores w = (fresh_contacts first_config, fresh_channels first_config, fresh_inbox first_config, first_fs)"
proof -
  let ?c = first_config
  obtain fs1 c1 stored r2 fs2 ct r3 fs3 ch where
    i: "load_or_create_identity plain_crypto first_boot ?c (restrict_state_files (bt_chmod first_boot) ?c first_fs) = (Some sample_key, fs1)"
    and s: "settings_load (bt_settings_fault first_boot) fs1 (settings_path (named_config sample_key ?c)) (named_config sample_key ?c) = Inr (c1, stored)"
    and l2: "load_state contacts_load (bt_contacts first_boot) (contacts_path c1) fs1 (new_contacts (contacts_path c1) kMaxContacts) = (r2, fs2, ct)"
    and l3: "load_state channels_load (bt_channels first_boot) (channels_path c1) fs2 (new_channels (channels_path c1)) = (r3, fs3, ch)"
    and st: "start_stack off_hw first_boot (app_world first_boot c1 (settings_path (named_config sample_key ?c)) stored fs3 ct ch) = Inr w"
    using assms by (rule app_startE)
  have fs1: "fs1 = first_fs" using i first_identity by simp
  note p = state_dir_paths [OF settings_load_dir [OF s, unfolded named_config_dir]]
  have dir: "cf_state_dir ?c = str ''/s''" by (simp add: first_config_def config_finalise_def)
  note none = first_fs_paths [OF dir]
  have mp: "cf_messages_path c1 = messages_path ?c"
    using settings_load_messages [OF s]
    by (simp add: named_config_def first_config_def config_finalise_def messages_path_def split: if_splits)
  from st obtain r4 fs4 ib' where
    l4: "load_state inbox_load (bt_messages first_boot) (messages_path ?c) fs3 (fresh_inbox ?c) = (r4, fs4, ib')"
    and w: "stores w = (ct, ch, ib', fs4)"
    by (rule start_stores) (simp add: app_world_fields p mp fresh_inbox_def)
  have "ct = fresh_contacts ?c \<and> fs2 = first_fs"
    using l2 none(1) by (simp add: p fs1 fresh_contacts_def [symmetric] load_state_def contacts_load_def read_file_def)
  moreover from this have "ch = fresh_channels ?c \<and> fs3 = first_fs"
    using l3 none(2) by (simp add: p fresh_channels_def [symmetric] load_state_def channels_load_def read_file_def)
  moreover from this have "ib' = fresh_inbox ?c \<and> fs4 = first_fs"
    using l4 none(3) by (simp add: load_state_def inbox_load_def read_file_def)
  ultimately show ?thesis using w by simp
qed

lemma clean_flush:
  assumes "\<not> cs_dirty (w_contacts w)" "\<not> chs_dirty (w_channels w)" "\<not> ib_dirty (w_inbox w)"
  shows "fst (flush w) \<and> stores (snd (flush w)) = stores w"
  using assms by (simp add: flush_def save_contacts_def save_channels_def save_inbox_def)

theorem restart_keeps_state_witness:
  "\<exists>w0 w w'. app_start off_hw plain_crypto first_boot first_config first_fs = Inr (sample_key, w0) \<and>
     w = app_run off_hw plain_crypto sample_key [] (\<lambda>t. 0) [(3700, storage None, Loop (TimerFired CbFlush))] w0 \<and>
     app_start off_hw plain_crypto first_boot first_config (w_fs (request_stop off_hw unix_fine w)) = Inr (sample_key, w') \<and>
     ib_messages (w_inbox w') = ib_messages (w_inbox w)"
proof -
  obtain w0 where start: "app_start off_hw plain_crypto first_boot first_config first_fs = Inr (sample_key, w0)"
    using first_start by blast
  define w where "w = app_run off_hw plain_crypto sample_key [] (\<lambda>t. 0) [(3700, storage None, Loop (TimerFired CbFlush))] w0"
  have w: "w = snd (flush w0)" by (simp add: w_def app_run_def session_timer_def node_timer_def)
  note st = first_stores [OF start]
  have clean: "\<not> cs_dirty (w_contacts w0)" "\<not> chs_dirty (w_channels w0)" "\<not> ib_dirty (w_inbox w0)"
    using st by (simp_all add: stores_def fresh_contacts_def new_contacts_def fresh_channels_def new_channels_def
        fresh_inbox_def new_inbox_def)
  have stw: "stores w = stores w0" using clean_flush [OF clean] by (simp add: w)
  then have cleanw: "\<not> cs_dirty (w_contacts w)" "\<not> chs_dirty (w_channels w)" "\<not> ib_dirty (w_inbox w)"
    using clean by (simp_all add: stores_def)
  have "stores (request_stop off_hw unix_fine w) = stores w0" using clean_flush [OF cleanw] by (simp add: stores_stop stw)
  then have fs: "w_fs (request_stop off_hw unix_fine w) = first_fs" using st by (simp add: stores_def)
  have again: "app_start off_hw plain_crypto first_boot first_config (w_fs (request_stop off_hw unix_fine w)) = Inr (sample_key, w0)"
    using start by (simp only: fs)
  have "plain_boot first_boot" by (simp add: plain_boot_def plain_load_def first_boot_def load_fine_def)
  moreover have "list_all coords_ok (cs_contacts (w_contacts w))"
    using st stw by (simp add: stores_def fresh_contacts_def new_contacts_def)
  moreover have "cf_messages_path first_config = messages_path first_config"
    by (simp add: first_config_def config_finalise_def messages_path_def)
  moreover have "\<forall>m. length (sha512 plain_crypto m) = 64" by (simp add: plain_crypto_def)
  ultimately have "ib_messages (w_inbox w0) = ib_messages (w_inbox w)"
    using restart_keeps_state [OF _ _ start _ w_def _ _ again] clean_flush [OF cleanw] by blast
  with start again show ?thesis unfolding w_def by blast
qed

end
