(* ===== verification/Logging.thy ===== *)
theory Logging
  imports App "HOL-Library.Sublist"
begin

text \<open>
  The log, \<^verbatim>\<open>src/src/util/log.h\<close> and \<^verbatim>\<open>log.cpp\<close>, and the texts that describe the program's state in it:
  packets, the radio, the reception statistics and the status lines of a start. The rest of the
  development leaves logging out; here it is shown that it may: the level decides which lines are written
  and nothing else, errors are never lost, and a lower level writes a part of what a higher one does.
\<close>

section \<open>The logger\<close>

datatype log_stream = Stdout | Stderr

record log_state =
  lg_level :: LogLevel
  lg_syslog_style :: bool
  lg_lines :: "(log_stream \<times> bytes) list"

definition log_initial :: log_state where
  "log_initial = \<lparr>lg_level = LogInfo, lg_syslog_style = False, lg_lines = []\<rparr>"

fun level_code :: "LogLevel \<Rightarrow> nat" where
  "level_code LogError = 0"
| "level_code LogWarn = 1"
| "level_code LogInfo = 2"
| "level_code LogDebug = 3"
| "level_code LogTrace = 4"

fun level_name :: "LogLevel \<Rightarrow> bytes" where
  "level_name LogError = str ''ERROR''"
| "level_name LogWarn = str ''WARN ''"
| "level_name LogInfo = str ''INFO ''"
| "level_name LogDebug = str ''DEBUG''"
| "level_name LogTrace = str ''TRACE''"

definition log_set_level :: "LogLevel \<Rightarrow> log_state \<Rightarrow> log_state" where
  "log_set_level l st = st\<lparr>lg_level := l\<rparr>"

definition log_set_syslog_style :: "bool \<Rightarrow> log_state \<Rightarrow> log_state" where
  "log_set_syslog_style on st = st\<lparr>lg_syslog_style := on\<rparr>"

text \<open>\<open>hms\<close> is the local time of day as \<^verbatim>\<open>strftime\<close> writes it.\<close>

definition log_write :: "bytes \<Rightarrow> LogLevel \<Rightarrow> bytes \<Rightarrow> log_state \<Rightarrow> log_state" where
  "log_write hms l msg st =
    (let out = (if l = LogError \<or> l = LogWarn then Stderr else Stdout);
         tail = str ''['' @ level_name l @ str ''] '' @ c_str msg @ [newline]
     in st\<lparr>lg_lines := lg_lines st @ [(out, if lg_syslog_style st then tail else hms @ str '' '' @ tail)]\<rparr>)"

text \<open>What \<^verbatim>\<open>vsnprintf\<close> makes of a format and its arguments, \<open>None\<close> when it fails.\<close>

definition vformat :: "bytes option \<Rightarrow> bytes" where
  "vformat formatted = (case formatted of None \<Rightarrow> [] | Some s \<Rightarrow> s)"

text \<open>The macro behind \<^verbatim>\<open>LOG_ERROR\<close> to \<^verbatim>\<open>LOG_TRACE\<close>.\<close>

definition UMC_LOG :: "bytes \<Rightarrow> LogLevel \<Rightarrow> bytes option \<Rightarrow> log_state \<Rightarrow> log_state" where
  "UMC_LOG hms l formatted st =
     (if level_code l \<le> level_code (lg_level st) then log_write hms l (vformat formatted) st else st)"

section \<open>Descriptions\<close>

definition em_dash :: bytes where "em_dash = [0xE2, 0x80, 0x94]"

definition packet_describe :: "Packet \<Rightarrow> bytes" where
  "packet_describe p =
     str (payload_type_name (ptype p)) @ str '' '' @ str (route_type_name (route p)) @
     str '' hops='' @ dec_nat (hop_count p) @ str '' payload='' @ dec_nat (length (payload p)) @
     (if path p \<noteq> [] then str '' path='' @ hex (path p) else [])"

definition sx_describe :: "'c Sx1262 \<Rightarrow> bytes" where
  "sx_describe s =
    (let p = sx_params s
     in if \<not> has_frequency p
        then str ''SX1262 on '' @ c_str (pn_spidev (sx_pins s)) @ str '', idle: no frequency set''
        else str ''SX1262 on '' @ c_str (pn_spidev (sx_pins s)) @ str '' ('' @ printf_f 3 (rp_freq_mhz p) @ str '' MHz, SF'' @
             dec_nat (unat (rp_sf p)) @ str '', BW '' @ printf_f 1 (rp_bw_khz p) @ str '' kHz, CR 4/'' @
             dec_nat (unat (rp_cr p)) @ str '', '' @ dec_int (rp_tx_power_dbm p) @ str '' dBm, '' @
             dec_nat (preamble_symbols p) @ str ''-symbol preamble)'' @
             (if sx_healthy s then [] else str '' '' @ em_dash @ str '' not responding''))"

definition log_rf_summary :: "DispatcherStats \<Rightarrow> bytes list" where
  "log_rf_summary s =
    (let failed = st_rx_header_err s + st_rx_crc_err s + st_rx_timeout s
     in [str ''radio: heard '' @ dec_nat (unat (st_rx_total s)) @ str '' packets ('' @ dec_nat (unat (st_rx_dup s)) @
         str '' duplicate), '' @ dec_nat (unat failed) @ str '' failed to decode ('' @
         dec_nat (unat (st_rx_header_err s)) @ str '' header, '' @ dec_nat (unat (st_rx_crc_err s)) @ str '' CRC, '' @
         dec_nat (unat (st_rx_timeout s)) @ str '' timeout); last rssi '' @ dec_int (st_last_rssi s) @ str '' snr '' @
         printf_f 1 (st_last_snr s) @ str '', last failure rssi '' @ dec_int (st_last_failed_rssi s) @ str '' snr '' @
         printf_f 1 (st_last_failed_snr s),
         str ''radio: sent '' @ dec_nat (unat (st_tx_total s)) @ str '' packets, '' @ dec_nat (unat (st_tx_dropped s)) @
         str '' dropped, '' @ dec_nat (unat (st_tx_deferred s)) @ str '' held for a busy channel ('' @
         dec_nat (unat (st_tx_forced s)) @ str '' sent over one anyway)''])"

text \<open>The lines \<^verbatim>\<open>App::log_status\<close> writes, each with its level.\<close>

definition log_status ::
  "bytes \<Rightarrow> LocalIdentity \<Rightarrow> 'c Sx1262 dworld_full \<Rightarrow> (LogLevel \<times> bytes) list" where
  "log_status version self w =
    (let c = w_config w; sv = cf_companion c
     in [(LogInfo, str ''coreletd '' @ version @ str '' ready''),
         (LogInfo, str ''  node      : '' @ hex_prefix (id_pub self) 6 @ str '' \"'' @ c_str (nc_name (cf_node c)) @ str ''\"''),
         (LogInfo, str ''  radio     : '' @ sx_describe (w_radio w))] @
        (if has_frequency (cf_radio c) then []
         else [(LogWarn, str ''no frequency set '' @ em_dash @
                  str '' nothing is transmitted until a companion app sets the radio parameters'')]) @
        [(LogInfo, if \<not> so_tcp sv then str ''  companion : unix://'' @ c_str (so_socket_path sv)
                   else str ''  companion : tcp://'' @ c_str (so_bind_addr sv) @ str '':'' @ dec_nat (unat (so_port sv))),
         (LogInfo, str ''  state     : '' @ c_str (cf_state_dir c)),
         (LogInfo, str ''  contacts  : '' @ dec_nat (length (cs_contacts (w_contacts w))))] @
        (if clock_is_valid (w_clock w) then []
         else [(LogWarn, str ''system clock looks unset '' @ em_dash @
                  str '' adverts are suppressed until the app sets the time or the RTC is configured'')]))"

text \<open>What \<^verbatim>\<open>main\<close> sets of the log: the style before the configuration is read, the level after.\<close>

definition main_log_style :: "cmdline \<Rightarrow> log_state \<Rightarrow> log_state" where
  "main_log_style l st = log_set_syslog_style (cl_syslog_style l) st"

definition main_log_level :: "cmdline \<Rightarrow> Config \<Rightarrow> log_state \<Rightarrow> log_state" where
  "main_log_level l c st = log_set_level (cf_log_level (verbose_config (cl_verbosity l) c)) st"

definition usage :: "bytes \<Rightarrow> bytes \<Rightarrow> bytes" where
  "usage version argv0 =
     str ''coreletd '' @ version @ str '' '' @ em_dash @ str '' MeshCore daemon for uConsole + AIO v2'' @ [newline, newline] @
     str ''Usage: '' @ argv0 @ str '' [options]'' @ [newline, newline] @
     str ''  -c, --config PATH   configuration file (default: '' @ kDefaultConfigPath @ str '')'' @ [newline] @
     str ''  -v, --verbose       raise log level to debug (repeat for trace)'' @ [newline] @
     str ''  -s, --syslog        omit timestamps, for running under systemd'' @ [newline] @
     str ''  -V, --version       print version and exit'' @ [newline] @
     str ''  -h, --help          this message'' @ [newline]"

text \<open>The log of a start: \<^verbatim>\<open>main\<close> sets style and level, then \<^verbatim>\<open>App::start\<close> ends in the status lines.\<close>

type_synonym log_call = "bytes \<times> LogLevel \<times> bytes option"

definition log_all :: "log_call list \<Rightarrow> log_state \<Rightarrow> log_state" where
  "log_all = fold (\<lambda>(hms, l, formatted). UMC_LOG hms l formatted)"

definition start_log ::
  "cmdline \<Rightarrow> Config \<Rightarrow> bytes \<Rightarrow> bytes \<Rightarrow> LocalIdentity \<Rightarrow> 'c Sx1262 dworld_full \<Rightarrow> log_state" where
  "start_log l c hms version self w =
     log_all (map (\<lambda>(lv, msg). (hms, lv, Some msg)) (log_status version self w))
       (main_log_level l c (main_log_style l log_initial))"

section \<open>What the level decides\<close>

definition enabled :: "LogLevel \<Rightarrow> log_call \<Rightarrow> bool" where
  "enabled lv e \<longleftrightarrow> level_code (fst (snd e)) \<le> level_code lv"

definition log_stream_of :: "LogLevel \<Rightarrow> log_stream" where
  "log_stream_of l = (if level_code l \<le> 1 then Stderr else Stdout)"

definition log_line :: "bool \<Rightarrow> log_call \<Rightarrow> log_stream \<times> bytes" where
  "log_line syslog e =
    (case e of (hms, l, formatted) \<Rightarrow>
       (log_stream_of l, (if syslog then [] else hms @ str '' '') @
          str ''['' @ level_name l @ str ''] '' @ c_str (vformat formatted) @ [newline]))"

lemma UMC_LOG_line:
  "UMC_LOG hms l formatted st =
     (if enabled (lg_level st) (hms, l, formatted)
      then st\<lparr>lg_lines := lg_lines st @ [log_line (lg_syslog_style st) (hms, l, formatted)]\<rparr> else st)"
  by (cases l) (simp_all add: UMC_LOG_def enabled_def log_write_def log_line_def log_stream_of_def Let_def)

text \<open>Any run of the program writes the enabled messages, in order, and changes neither level nor style.\<close>

lemma log_all_lines:
  "log_all es st = st\<lparr>lg_lines := lg_lines st @ map (log_line (lg_syslog_style st)) (filter (enabled (lg_level st)) es)\<rparr>"
proof (induction es arbitrary: st)
  case (Cons e es)
  then show ?case by (cases e) (simp add: log_all_def UMC_LOG_line)
qed (simp add: log_all_def)

lemma error_enabled [simp]: "enabled lv (hms, LogError, formatted)"
  by (simp add: enabled_def)

lemma subseq_filter_imp: "(\<And>x. P x \<Longrightarrow> Q x) \<Longrightarrow> subseq (filter P xs) (filter Q xs)"
  by (induction xs) auto

text \<open>A lower level writes a part of what a higher one does.\<close>

lemma quieter_log_is_part:
  assumes "level_code lv \<le> level_code lv'"
  shows "subseq (lg_lines (log_all es (log_set_level lv st))) (lg_lines (log_all es (log_set_level lv' st)))"
proof -
  have "subseq (filter (enabled lv) es) (filter (enabled lv') es)"
    using assms by (intro subseq_filter_imp) (simp add: enabled_def)
  then show ?thesis by (simp add: log_all_lines log_set_level_def list_emb_append_mono subseq_map)
qed

text \<open>An error is written at every level, to the error stream; what is on the error stream is a warning or an error.\<close>

lemma errors_always_written:
  assumes "(hms, LogError, formatted) \<in> set es"
  shows "log_line (lg_syslog_style st) (hms, LogError, formatted) \<in> set (lg_lines (log_all es st))"
  using assms by (simp add: log_all_lines)

lemma log_line_stream: "fst (log_line syslog (hms, l, formatted)) = Stderr \<longleftrightarrow> l = LogError \<or> l = LogWarn"
  by (cases l) (simp_all add: log_line_def log_stream_of_def)

lemma log_line_ends: "last (snd (log_line syslog e)) = newline"
  by (cases e) (simp add: log_line_def)

text \<open>\<^verbatim>\<open>-v\<close> given twice writes everything, whatever the configuration says.\<close>

lemma verbose_writes_all:
  assumes "2 \<le> cl_verbosity l"
  shows "lg_lines (log_all es (main_log_level l c st)) = lg_lines st @ map (log_line (lg_syslog_style st)) es"
proof -
  have "enabled LogTrace e" for e by (cases "fst (snd e)") (simp_all add: enabled_def)
  then have "filter (enabled LogTrace) es = es" by simp
  then show ?thesis using assms by (simp add: log_all_lines main_log_level_def log_set_level_def verbose_config_def)
qed

text \<open>A node without a frequency says so at a start, on the error stream, unless only errors are wanted.\<close>

lemma silent_radio_announced:
  assumes "\<not> has_frequency (cf_radio (w_config w))" and "cf_log_level (verbose_config (cl_verbosity l) c) \<noteq> LogError"
  shows "\<exists>msg. (LogWarn, msg) \<in> set (log_status version self w) \<and>
    log_line (cl_syslog_style l) (hms, LogWarn, Some msg) \<in> set (lg_lines (start_log l c hms version self w))"
proof -
  let ?msg = "str ''no frequency set '' @ em_dash @
      str '' nothing is transmitted until a companion app sets the radio parameters''"
  have warned: "(LogWarn, ?msg) \<in> set (log_status version self w)"
    using assms(1) by (simp add: log_status_def Let_def)
  have "level_code (cf_log_level (verbose_config (cl_verbosity l) c)) \<noteq> 0"
    using assms(2) by (cases "cf_log_level (verbose_config (cl_verbosity l) c)") simp_all
  then have "enabled (cf_log_level (verbose_config (cl_verbosity l) c)) (hms, LogWarn, Some ?msg)"
    by (simp add: enabled_def)
  then have "log_line (cl_syslog_style l) (hms, LogWarn, Some ?msg) \<in> set (lg_lines (start_log l c hms version self w))"
    using warned unfolding start_log_def log_all_lines
    by (force simp: main_log_level_def main_log_style_def log_set_level_def log_set_syslog_style_def)
  with warned show ?thesis by blast
qed

end
