(* ===== verification/Spec2Isabelle.thy ===== *)
theory Spec2Isabelle
  imports Restart Logging
begin

text \<open>
  A verification library for \<^verbatim>\<open>coreletd\<close>, a daemon that joins a MeshCore LoRa mesh with an SX1262 radio
  and serves one companion app over a local socket. File names below are relative to \<^verbatim>\<open>src/src/\<close>.

  \<^bold>\<open>The program.\<close> One thread runs an event loop (\<^verbatim>\<open>daemon/eventloop\<close>). Bytes the radio receives become
  packets (\<^verbatim>\<open>proto/packet\<close>), pass the dispatcher's duplicate filter (\<^verbatim>\<open>mesh/dispatcher\<close>) and reach the node
  (\<^verbatim>\<open>mesh/node\<close>), which decrypts texts (\<^verbatim>\<open>proto/payloads\<close>, \<^verbatim>\<open>crypto\<close>), verifies adverts, keeps contacts,
  channels and an inbox (\<^verbatim>\<open>mesh/contacts\<close>, \<^verbatim>\<open>channels\<close>, \<^verbatim>\<open>inbox\<close>, on disk through \<^verbatim>\<open>util/persist\<close>),
  acknowledges, and relays for others. What it sends goes through the reliable sender (\<^verbatim>\<open>mesh/sender\<close>) and
  the dispatcher's priority queue, which paces transmissions by the duty cycle (\<^verbatim>\<open>radio/radio\<close>). The app
  talks frames (\<^verbatim>\<open>companion/frames\<close>) to the server (\<^verbatim>\<open>companion/server\<close>); the session
  (\<^verbatim>\<open>companion/session\<close>) answers its commands and is the node's delegate, pushing events to it. The
  configuration (\<^verbatim>\<open>util/ini\<close>, \<^verbatim>\<open>daemon/config\<close>) holds the operator's settings and, through the settings
  store (\<^verbatim>\<open>daemon/settings\<close>), the app's. Below the radio interface the driver (\<^verbatim>\<open>radio/sx1262\<close>, over
  \<^verbatim>\<open>radio/gpio\<close> and \<^verbatim>\<open>radio/spidev\<close>) brings the chip up, supervises and recovers it, and turns its interrupts into
  packets received and sent. \<^verbatim>\<open>daemon/app\<close> builds all of it from the state directory, and stops it.

  \<^bold>\<open>How it is modelled.\<close> Each component is a theory with its records, operations and invariant. State is
  passed explicitly: the worlds \<open>dworld\<close>, \<open>sworld\<close>, \<open>nworld\<close>, \<open>cworld\<close>, \<open>aworld\<close> and \<open>dworld_full\<close> are
  records that extend one another as the objects of the program contain one another, so every operation
  is polymorphic in what lies outside it. Integers keep their width as words wherever they can wrap
  (times, sequence numbers, timestamps, coordinates in millionths of a degree); \<^verbatim>\<open>double\<close> is a rational,
  rounded by \<open>double_of\<close> where what is read and written back depends on it (\<open>Numbers\<close>, with the C library's
  \<^verbatim>\<open>strtod\<close>, \<^verbatim>\<open>strtoll\<close> and \<^verbatim>\<open>printf\<close>) and computed exactly in \<open>Radio\<close> and \<open>Sx1262\<close>. Failures are values: options, sums, booleans and error codes as in the code.
  What the program does not decide is an argument: the outcome of every system call (\<open>io_plan\<close>,
  \<open>write_outcome\<close>, \<open>unix_plan\<close>, \<open>load_plan\<close>, \<open>boot\<close>, \<dots>), time, randomness, the radio (\<open>radio_ops\<close>), below the
  driver the kernel's GPIO and SPI interfaces (\<open>hw_ops\<close>, on a state of their own) and the cryptographic
  primitives (\<open>crypto_ops\<close>), whose documented laws are the named hypotheses \<open>crypto_laws\<close>. Callbacks are
  data or function arguments. The operations leave log output out; \<open>Logging\<close> has the log by itself.

  \<^bold>\<open>Theories.\<close>
  \<^item> \<open>Prelude\<close>, \<open>Bytes\<close> (\<^verbatim>\<open>util/bytes\<close>, \<^verbatim>\<open>util/hex\<close>), \<open>Records\<close> (\<^verbatim>\<open>mesh/record\<close>), \<open>Numbers\<close>: shared types,
    readers and writers, text records, numerals. The lemmas are the round trips the codecs rest on.
  \<^item> \<open>Crypto\<close> (\<^verbatim>\<open>crypto/crypto\<close>, \<^verbatim>\<open>crypto/identity\<close>), \<open>Packet\<close>, \<open>Payloads\<close>: wire formats. Decoding inverts
    encoding on exactly the valid packets; texts, adverts, path returns and channel texts survive sealing
    and opening; relay edits keep a packet valid.
  \<^item> \<open>Persist\<close> (\<^verbatim>\<open>util/persist\<close>): the file system calls of an atomic replacement, one by one. The locales
    \<open>record_store\<close> and \<open>file_store\<close> are the contract of a store kept in one file, interpreted for
    \<open>Contacts\<close>, \<open>Channels\<close> and \<open>Inbox\<close>; a restart at any moment reads the old or the new state.
  \<^item> \<open>Contacts\<close> also refines a map from public keys (locale \<open>advert_table\<close>), with replay protection.
  \<^item> \<open>EventLoop\<close>: timers across clock wrap-around, and \<^verbatim>\<open>run\<close> pass by pass: what \<^verbatim>\<open>poll\<close> reports, the callbacks, the
    interrupt check, the virtual clock. Its callbacks are a record of functions (\<open>loop_ops\<close>); a predicate they
    keep is kept by the loop (locale \<open>loop_predicate\<close>). \<open>Radio\<close>: airtime and the duty cycle window.
  \<^item> \<open>Dispatcher\<close>: duplicate filter (locale \<open>ttl_table\<close>, also used for the node's delivered table),
    priority queue, pump. Its client is a locale (\<open>tx_client\<close>, \<open>tx_observed\<close>), interpreted for the sender.
  \<^item> \<open>Sender\<close> (\<^verbatim>\<open>mesh/sender\<close>, \<^verbatim>\<open>mesh/routing\<close>): retries, acks, routes. \<open>Node\<close> (\<^verbatim>\<open>mesh/node\<close>,
    \<^verbatim>\<open>mesh/state_writer\<close>, \<^verbatim>\<open>util/clock\<close>): every packet handler, with the invariant \<open>node_inv\<close>.
  \<^item> \<open>Frames\<close>, \<open>Server\<close>: framing that does not depend on how the stream is cut, and the server's buffer,
    set-up and client handling. The frame handler is a locale (\<open>frame_handler\<close>).
  \<^item> \<open>Session\<close>: all commands and pushes. The settings it relies on are the locale \<open>companion_settings\<close>;
    predicates of the connection that node events keep are \<open>companion_predicate\<close>.
  \<^item> \<open>Ini\<close>, \<open>Config\<close>, \<open>AppFields\<close>, \<open>Settings\<close>: the configuration table and the settings store, which
    interprets \<open>companion_settings\<close>. \<open>AppFields\<close> restates the ten settings of an app as a datatype and
    shows that each field's spelling is read back.
  \<^item> \<open>Daemon\<close>: the events of the loop and the daemon's invariant. \<open>Prelude\<close>'s locale \<open>event_system\<close> carries an
    invariant along any sequence of events; it is interpreted here, for the driver and for the whole.
  \<^item> \<open>Hardware\<close>, \<open>Sx1262\<close>: the driver's operations. \<open>Driver\<close>: its invariant \<open>sx_inv\<close>, the reports it owes, what it
    does on a dead bus, the frequency word, the wait for BUSY; it interprets \<open>radio_contract\<close>, what the rest
    relies on of a radio.
  \<^item> \<open>RadioLink\<close>: the daemon on the driver. In the locales \<open>radio_user\<close> and \<open>daemon_radio\<close>, over \<open>radio_contract\<close>,
    every handler of the dispatcher, node and session keeps the radio's invariant and the parameters in
    force; the interpretation on the driver gives the invariant \<open>system_inv\<close> of both together.
  \<^item> \<open>Ranges\<close>: the range of every setting, kept by every way in (locale \<open>settings_predicate\<close>). \<open>Identity\<close>: the key
    file. \<open>Recovery\<close>: stores loaded with their backup as fallback, for any \<open>file_store\<close>. \<open>HostMetrics\<close>.
  \<^item> \<open>App\<close> (\<^verbatim>\<open>daemon/app\<close>, \<^verbatim>\<open>main\<close>): start, runs as sequences of events (\<open>app_run\<close>) and stop. A start keeps the node's key; a daemon that started,
    from whatever files, keeps \<open>system_inv\<close>; the server's set-up is the locale \<open>listen_predicate\<close>.
  \<^item> \<open>Run\<close> (\<^verbatim>\<open>App::run\<close>, \<^verbatim>\<open>main\<close>): the event loop with the daemon's callbacks. \<open>loop_predicate\<close> is interpreted on it to
    show that whatever the loop does is one of the sequences of events of \<open>App\<close>; a signal ends \<^verbatim>\<open>main\<close> in order.
  \<^item> \<open>OnDisk\<close>, \<open>Restart\<close>: every store that differs from its file is marked for saving, in every reachable state
    (\<open>kept_store\<close>, interpreted for the three stores; \<open>session_stores\<close>, interpreted for the daemon), so an orderly
    stop and a start find the same key, contacts, channels and messages.
  \<^item> \<open>Logging\<close> (\<^verbatim>\<open>util/log\<close>, the \<^verbatim>\<open>describe\<close> functions, the status lines, \<^verbatim>\<open>usage\<close>): the level selects lines and
    changes nothing else; errors are written at every level.

  \<^bold>\<open>Loops and fuel.\<close> The functions are total. The pump's loop has one step of fuel per queued packet and
  one more, enough because every step that asks for another removes a packet; the server's read and
  write loops recurse over the list of system call outcomes they meet; frame extraction recurses on the
  buffer length. The event loop recurses over the passes it is given (\<open>poll_pass\<close>) and says whether it returned
  within them, so that it ends is a theorem (\<open>signal_stops_daemon\<close>), not an assumption. The driver polls BUSY for \<open>wait_rounds\<close>, twenty rounds of 50 microseconds for each millisecond
  of its timeout and two more, which \<open>wait_busy_ends\<close> shows to be enough under a clock that advances; the
  check for standby sleeps 10 milliseconds a round against a deadline of one second and has 102 rounds.

  \<^bold>\<open>Not modelled.\<close> The wording of most log lines; \<^verbatim>\<open>getopt_long\<close> itself (its results are inputs), the moment a
  signal arrives (an answer of the interrupt check) and the umask (the mode of a new file is an input); that
  the driver's interrupt line and timers, kept in the driver's record, fire when they are due: they may fire at
  any time, which includes it; socket options; the texts of error messages; \<^verbatim>\<open>LoginRequest\<close>, which is declared
  and never implemented; the cryptographic primitives and the kernel behind \<open>hw_ops\<close>. A radio handed to \<^verbatim>\<open>App\<close>
  from outside, which only tests do, is covered by the contract \<open>radio_contract\<close>, not by \<open>app_start\<close>.
\<close>

end
